(* ===== verification/Mongoose_Base.thy ===== *)
theory Mongoose_Base
  imports Main "HOL-Library.Word"
begin

text \<open>
  The prelude of the development: the machine integers and byte strings of the driver, the
  scalar vocabulary of include/mongoose/j2534.h (status codes, protocol numbers, flag bits and
  the message structure), C++ exceptions as values, the exception monad in which the
  fallible functions are written, and the generic lemmas on lists and words that every
  component uses. It holds no behaviour of a component.
\<close>

unbundle bit_operations_syntax

named_theorems wire_simps \<open>reading and writing little-endian fields of a byte string\<close>
named_theorems effect_simps \<open>unfolding the exception and state monads\<close>
named_theorems keeps_intros \<open>composition rules for invariants of stateful code\<close>

type_synonym u8 = "8 word"
type_synonym u16 = "16 word"
type_synonym u32 = "32 word"
type_synonym bytes = "u8 list"

section \<open>Status codes\<close>

text \<open>
  The first anonymous enum of j2534.h. The C code stores these in an \<open>int32_t\<close>;
  \<open>status_value\<close> is that integer. \<open>STATUS_NOERROR\<close> is the zero that
  \<open>CanReceiver::stopped_\<close> uses for "not stopped".
\<close>

datatype status =
    STATUS_NOERROR | ERR_NOT_SUPPORTED | ERR_INVALID_CHANNEL_ID | ERR_INVALID_PROTOCOL_ID
  | ERR_NULL_PARAMETER | ERR_INVALID_IOCTL_VALUE | ERR_INVALID_FLAGS | ERR_FAILED
  | ERR_DEVICE_NOT_CONNECTED | ERR_TIMEOUT | ERR_INVALID_MSG | ERR_INVALID_TIME_INTERVAL
  | ERR_EXCEEDED_LIMIT | ERR_INVALID_MSG_ID | ERR_DEVICE_IN_USE | ERR_INVALID_IOCTL_ID
  | ERR_BUFFER_EMPTY | ERR_BUFFER_FULL | ERR_BUFFER_OVERFLOW | ERR_PIN_INVALID
  | ERR_CHANNEL_IN_USE | ERR_MSG_PROTOCOL_ID | ERR_INVALID_FILTER_ID | ERR_NO_FLOW_CONTROL
  | ERR_NOT_UNIQUE | ERR_INVALID_BAUDRATE | ERR_INVALID_DEVICE_ID

fun status_value :: "status \<Rightarrow> int" where
  "status_value STATUS_NOERROR = 0"
| "status_value ERR_NOT_SUPPORTED = 1"
| "status_value ERR_INVALID_CHANNEL_ID = 2"
| "status_value ERR_INVALID_PROTOCOL_ID = 3"
| "status_value ERR_NULL_PARAMETER = 4"
| "status_value ERR_INVALID_IOCTL_VALUE = 5"
| "status_value ERR_INVALID_FLAGS = 6"
| "status_value ERR_FAILED = 7"
| "status_value ERR_DEVICE_NOT_CONNECTED = 8"
| "status_value ERR_TIMEOUT = 9"
| "status_value ERR_INVALID_MSG = 10"
| "status_value ERR_INVALID_TIME_INTERVAL = 11"
| "status_value ERR_EXCEEDED_LIMIT = 12"
| "status_value ERR_INVALID_MSG_ID = 13"
| "status_value ERR_DEVICE_IN_USE = 14"
| "status_value ERR_INVALID_IOCTL_ID = 15"
| "status_value ERR_BUFFER_EMPTY = 16"
| "status_value ERR_BUFFER_FULL = 17"
| "status_value ERR_BUFFER_OVERFLOW = 18"
| "status_value ERR_PIN_INVALID = 19"
| "status_value ERR_CHANNEL_IN_USE = 20"
| "status_value ERR_MSG_PROTOCOL_ID = 21"
| "status_value ERR_INVALID_FILTER_ID = 22"
| "status_value ERR_NO_FLOW_CONTROL = 23"
| "status_value ERR_NOT_UNIQUE = 24"
| "status_value ERR_INVALID_BAUDRATE = 25"
| "status_value ERR_INVALID_DEVICE_ID = 26"

lemma status_value_inj: "status_value a = status_value b \<Longrightarrow> a = b"
  by (cases a; cases b; simp)

lemma status_value_range: "0 \<le> status_value a \<and> status_value a \<le> 26"
  by (cases a; simp)

text \<open>Status codes are ordered by their ABI value.\<close>

instantiation status :: linorder
begin

definition less_eq_status :: "status \<Rightarrow> status \<Rightarrow> bool" where
  "less_eq_status a b \<longleftrightarrow> status_value a \<le> status_value b"

definition less_status :: "status \<Rightarrow> status \<Rightarrow> bool" where
  "less_status a b \<longleftrightarrow> status_value a < status_value b"

instance
  by standard (auto simp: less_eq_status_def less_status_def intro: status_value_inj)

end

section \<open>Numbers of the C header\<close>

text \<open>
  The remaining enums of j2534.h. Protocol numbers are compared both as \<open>uint16_t\<close> and as
  \<open>uint32_t\<close>, so they are polymorphic in the width. All of them unfold in the simplifier.
\<close>

definition J1850VPW :: "'a::len word" where [simp]: "J1850VPW = 1"
definition CAN :: "'a::len word" where [simp]: "CAN = 5"
definition ISO15765 :: "'a::len word" where [simp]: "ISO15765 = 6"
definition PASS_FILTER :: u32 where [simp]: "PASS_FILTER = 1"
definition BLOCK_FILTER :: u32 where [simp]: "BLOCK_FILTER = 2"
definition FLOW_CONTROL_FILTER :: u32 where [simp]: "FLOW_CONTROL_FILTER = 3"
definition CAN_29BIT_ID :: u32 where [simp]: "CAN_29BIT_ID = 0x100"
definition ISO15765_FRAME_PAD :: u32 where [simp]: "ISO15765_FRAME_PAD = 0x40"
definition TX_MSG_TYPE :: u32 where [simp]: "TX_MSG_TYPE = 1"
definition START_OF_MESSAGE :: u32 where [simp]: "START_OF_MESSAGE = 2"
definition TX_DONE :: u32 where [simp]: "TX_DONE = 8"

text \<open>
  \<open>PASSTHRU_MSG\<close>. \<open>Data\<close> is the array of 4128 bytes; \<open>msg_ok\<close> is that length, which the
  C type guarantees.
\<close>

record passthru_msg =
  ProtocolID :: u32
  RxStatus :: u32
  TxFlags :: u32
  Timestamp :: u32
  DataSize :: u32
  ExtraDataIndex :: u32
  Data :: bytes

definition data_capacity :: nat where
  "data_capacity = 4128"

definition msg_ok :: "passthru_msg \<Rightarrow> bool" where
  "msg_ok m \<longleftrightarrow> length (Data m) = data_capacity"

section \<open>Exceptions as values\<close>

text \<open>
  \<open>mongoose::Error\<close> carries a status code; the standard exceptions thrown by the sources
  are the other constructors. A fallible function returns \<open>exn + 'a\<close>, \<open>Inl\<close> for the throw.
\<close>

datatype exn =
    Error status string
  | Out_of_range string
  | Invalid_argument string
  | Logic_error string
  | Runtime_error string

definition ebind :: "exn + 'a \<Rightarrow> ('a \<Rightarrow> exn + 'b) \<Rightarrow> exn + 'b" where
  "ebind m f = (case m of Inl e \<Rightarrow> Inl e | Inr x \<Rightarrow> f x)"

lemma ebind_simps [simp]:
  "ebind (Inl e) f = Inl e"
  "ebind (Inr x) f = f x"
  by (simp_all add: ebind_def)

lemma ebind_cong [fundef_cong]:
  "m = m' \<Longrightarrow> (\<And>x. m' = Inr x \<Longrightarrow> f x = f' x) \<Longrightarrow> ebind m f = ebind m' f'"
  by (cases m') auto

lemma ebind_eq_Inr_iff:
  "ebind m f = Inr y \<longleftrightarrow> (\<exists>x. m = Inr x \<and> f x = Inr y)"
  by (cases m) auto

lemma ebind_eq_Inl_iff:
  "ebind m f = Inl e \<longleftrightarrow> m = Inl e \<or> (\<exists>x. m = Inr x \<and> f x = Inl e)"
  by (cases m) auto

definition check :: "bool \<Rightarrow> exn \<Rightarrow> exn + unit" where
  "check b e = (if b then Inl e else Inr ())"

lemma check_simps [simp]:
  "check True e = Inl e"
  "check False e = Inr ()"
  "check b e = Inr u \<longleftrightarrow> \<not> b"
  "check b e = Inl e' \<longleftrightarrow> b \<and> e' = e"
  by (auto simp: check_def)

text \<open>The status a caller of the C interface sees for an exception (\<open>guarded\<close> in j2534.cpp
  maps everything that is not an \<open>Error\<close> to \<open>ERR_FAILED\<close>).\<close>

fun exn_status :: "exn \<Rightarrow> status" where
  "exn_status (Error c _) = c"
| "exn_status _ = ERR_FAILED"

fun exn_what :: "exn \<Rightarrow> string" where
  "exn_what (Error _ w) = w"
| "exn_what (Out_of_range w) = w"
| "exn_what (Invalid_argument w) = w"
| "exn_what (Logic_error w) = w"
| "exn_what (Runtime_error w) = w"

section \<open>Lists and words\<close>

text \<open>\<open>std::copy\<close> into the middle of a buffer that is long enough.\<close>

definition copy_at :: "nat \<Rightarrow> 'a list \<Rightarrow> 'a list \<Rightarrow> 'a list" where
  "copy_at off src dst = take off dst @ src @ drop (off + length src) dst"

lemma length_copy_at [simp]:
  "off + length src \<le> length dst \<Longrightarrow> length (copy_at off src dst) = length dst"
  by (simp add: copy_at_def)

lemma take_drop_split: "n \<le> length xs \<Longrightarrow> take n xs @ drop n xs = xs"
  by simp

lemma list_update_nth_two:
  assumes "i < length xs" and "j < length xs" and "i \<noteq> j"
  shows "xs[i := a, j := b] ! i = a" and "xs[i := a, j := b] ! j = b"
    and "k \<noteq> i \<Longrightarrow> k \<noteq> j \<Longrightarrow> xs[i := a, j := b] ! k = xs ! k"
  using assms by auto

lemma word_join_bytes:
  "(ucast (ucast (v :: u16) :: u8) :: u16) OR push_bit 8 (ucast (ucast (drop_bit 8 v) :: u8)) = v"
  by (rule bit_word_eqI) (auto simp: bit_simps)

lemma word_low_byte:
  "(ucast ((ucast (a :: u8) :: u16) OR push_bit 8 (ucast (b :: u8))) :: u8) = a"
  by (rule bit_word_eqI) (auto simp: bit_simps)

lemma word_high_byte:
  "(ucast (drop_bit 8 ((ucast (a :: u8) :: u16) OR push_bit 8 (ucast (b :: u8)))) :: u8) = b"
  by (rule bit_word_eqI) (auto simp: bit_simps dest: bit_imp_le_length)

lemma word_join_halves:
  "(ucast (ucast (v :: u32) :: u16) :: u32) OR push_bit 16 (ucast (ucast (drop_bit 16 v) :: u16)) = v"
  by (rule bit_word_eqI) (auto simp: bit_simps)

lemma unat_u8_less [simp]: "unat (a :: u8) < 256"
  using unsigned_less [of a, where ?'a = nat] by simp

lemma unat_u16_less [simp]: "unat (a :: u16) < 65536"
  using unsigned_less [of a, where ?'a = nat] by simp

lemma unat_ucast_u8_u16 [simp]: "unat (ucast (a :: u8) :: u16) = unat a"
  by (simp add: unsigned_ucast_eq take_bit_nat_def less_trans [OF unat_u8_less])

section \<open>Lists\<close>

lemma map_filter_append: "List.map_filter f (xs @ ys) = List.map_filter f xs @ List.map_filter f ys"
  by (simp add: List.map_filter_def)

section \<open>Decimal numbers\<close>

text \<open>\<open>%u\<close> and \<open>std::to_string\<close>.\<close>

fun decimal :: "nat \<Rightarrow> string" where
  "decimal n = (if n < 10 then [char_of (48 + n)] else decimal (n div 10) @ [char_of (48 + n mod 10)])"

declare decimal.simps [simp del]

definition decimal_int :: "int \<Rightarrow> string" where
  "decimal_int n = (if n < 0 then ''-'' @ decimal (nat (- n)) else decimal (nat n))"

end
