(* ===== verification/Codec.thy ===== *)
theory Codec
  imports Mongoose_Base
begin

text \<open>
  src/codec.hpp and src/codec.cpp: little-endian fields, the frame encoder, the request
  builder, the incremental frame decoder and the hex printer and reader.

  Definitions first, in the order of the source; then the field laws, the reference parser
  \<open>parse\<close> of a whole byte stream and the refinement of the decoder to it, the
  locale \<open>framing\<close> that states what a session relies on, and the round trips.
\<close>

section \<open>Definitions\<close>

definition max_body :: nat where
  "max_body = 0x1800"

definition le16 :: "bytes \<Rightarrow> nat \<Rightarrow> exn + u16" where
  "le16 d off =
     (if off > length d \<or> length d - off < 2 then Inl (Out_of_range ''short u16 field'')
      else Inr (ucast (d ! off) OR push_bit 8 (ucast (d ! (off + 1)))))"

definition le32 :: "bytes \<Rightarrow> nat \<Rightarrow> exn + u32" where
  "le32 d off =
     ebind (le16 d off) (\<lambda>lo. ebind (le16 d (off + 2)) (\<lambda>hi.
       Inr (ucast lo OR push_bit 16 (ucast hi))))"

definition put16 :: "bytes \<Rightarrow> nat \<Rightarrow> u16 \<Rightarrow> exn + bytes" where
  "put16 d off v =
     (if off > length d \<or> length d - off < 2 then Inl (Out_of_range ''short u16 destination'')
      else Inr (d[off := ucast v, off + 1 := ucast (drop_bit 8 v)]))"

definition encode :: "bytes \<Rightarrow> exn + bytes" where
  "encode body =
     (if body = [] \<or> length body > max_body
      then Inl (Invalid_argument ''body length outside 1..6144'')
      else
        let wire = replicate (length body + 4) 0;
            len = (of_nat (length body) :: u16)
        in ebind (put16 wire 0 len) (\<lambda>wire.
           ebind (put16 wire 2 (len XOR 0x51e6)) (\<lambda>wire.
             Inr (copy_at 4 body wire))))"

definition board_node :: u16 where
  "board_node = 1"

definition channel_node :: "u16 \<Rightarrow> u16 \<Rightarrow> u16" where
  "channel_node protocol board = push_bit 8 protocol OR board"

definition data_chan :: u16 where
  "data_chan = 1"

definition request :: "u16 \<Rightarrow> u16 \<Rightarrow> bytes \<Rightarrow> u16 \<Rightarrow> u16 \<Rightarrow> exn + bytes" where
  "request op sq payload destination chan =
     (if length payload > max_body - 12 \<or> sq = 0 \<or> sq > 255
      then Inl (Invalid_argument ''invalid request size or sequence'')
      else if destination = 0
      then Inl (Invalid_argument ''destination 0 is the PC, not a target'')
      else
        let body = replicate (12 + length payload) 0
        in ebind (put16 body 0 destination) (\<lambda>body.
           ebind (put16 body 4 op) (\<lambda>body.
           ebind (put16 body 6 sq) (\<lambda>body.
           ebind (put16 body 8 chan) (\<lambda>body.
             Inr (copy_at 12 payload body))))))"

text \<open>
  \<open>Decoder\<close>. \<open>drain\<close> is the inner \<open>while\<close> of \<open>feed\<close>: it drops one byte where the header is
  bad, stops where a frame is incomplete, and moves a complete frame to the output.
\<close>

record decoder =
  dec_buffer :: bytes
  dec_discarded :: nat

definition decoder_init :: decoder where
  "decoder_init = \<lparr>dec_buffer = [], dec_discarded = 0\<rparr>"

definition bad_header :: "bytes \<Rightarrow> u16 \<Rightarrow> exn + bool" where
  "bad_header b n =
     (if n = 0 \<or> unat n > max_body then Inr True
      else ebind (le16 b 2) (\<lambda>x. Inr (x \<noteq> n XOR 0x51e6)))"

function drain :: "decoder \<Rightarrow> bytes list \<Rightarrow> exn + (bytes list \<times> decoder)" where
  "drain d frames =
     (if length (dec_buffer d) < 4 then Inr (frames, d)
      else
        ebind (le16 (dec_buffer d) 0) (\<lambda>n.
        ebind (bad_header (dec_buffer d) n) (\<lambda>bad.
          if bad then
            drain (d\<lparr>dec_buffer := drop 1 (dec_buffer d), dec_discarded := dec_discarded d + 1\<rparr>) frames
          else if length (dec_buffer d) < unat n + 4 then Inr (frames, d)
          else
            drain (d\<lparr>dec_buffer := drop (4 + unat n) (dec_buffer d)\<rparr>)
              (frames @ [take (unat n) (drop 4 (dec_buffer d))]))))"
  by pat_completeness auto
termination
  by (relation "measure (\<lambda>(d, frames). length (dec_buffer d))") auto

declare drain.simps [simp del]

fun feed_from :: "decoder \<Rightarrow> bytes list \<Rightarrow> bytes \<Rightarrow> exn + (bytes list \<times> decoder)" where
  "feed_from d frames [] = Inr (frames, d)"
| "feed_from d frames (b # bs) =
     ebind (drain (d\<lparr>dec_buffer := dec_buffer d @ [b]\<rparr>) frames) (\<lambda>(frames', d').
       feed_from d' frames' bs)"

definition decoder_feed :: "decoder \<Rightarrow> bytes \<Rightarrow> exn + (bytes list \<times> decoder)" where
  "decoder_feed d bs = feed_from d [] bs"

definition hex_digits :: string where
  "hex_digits = ''0123456789abcdef''"

definition hex :: "bytes \<Rightarrow> string" where
  "hex d = concat (map (\<lambda>b. [hex_digits ! unat (drop_bit 4 b), hex_digits ! unat (b AND 15)]) d)"

text \<open>\<open>std::isspace\<close> in the C locale: space, and 9 to 13.\<close>

definition c_isspace :: "nat \<Rightarrow> bool" where
  "c_isspace c \<longleftrightarrow> c = 32 \<or> (9 \<le> c \<and> c \<le> 13)"

definition hex_value :: "nat \<Rightarrow> int" where
  "hex_value c =
     (if 48 \<le> c \<and> c \<le> 57 then int c - 48
      else if 97 \<le> c \<and> c \<le> 102 then int c - 97 + 10
      else if 65 \<le> c \<and> c \<le> 70 then int c - 65 + 10
      else -1)"

fun unhex_from :: "bytes \<Rightarrow> int \<Rightarrow> string \<Rightarrow> exn + bytes" where
  "unhex_from result high [] =
     (if high \<ge> 0 then Inl (Invalid_argument ''odd hex length'') else Inr result)"
| "unhex_from result high (raw # s) =
     (let c = of_char raw in
      if c_isspace c then unhex_from result high s
      else let n = hex_value c in
        if n < 0 then Inl (Invalid_argument ''invalid hex digit'')
        else if high < 0 then unhex_from result n s
        else unhex_from (result @ [word_of_int (push_bit 4 high OR n)]) (-1) s)"

definition unhex :: "string \<Rightarrow> exn + bytes" where
  "unhex s = unhex_from [] (-1) s"

section \<open>Fields of a byte string\<close>

lemma le16_Inr [wire_simps]:
  "off + 2 \<le> length d \<Longrightarrow>
     le16 d off = Inr (ucast (d ! off) OR push_bit 8 (ucast (d ! (off + 1))))"
  by (auto simp: le16_def)

lemma le16_Inr_iff: "(\<exists>v. le16 d off = Inr v) \<longleftrightarrow> off + 2 \<le> length d"
  by (auto simp: le16_def)

lemma le16_cong:
  "off + 2 \<le> length d \<Longrightarrow> off + 2 \<le> length d' \<Longrightarrow> d ! off = d' ! off \<Longrightarrow>
   d ! (off + 1) = d' ! (off + 1) \<Longrightarrow> le16 d off = le16 d' off"
  by (simp add: le16_Inr)

lemma le16_append:
  "off + 2 \<le> length d \<Longrightarrow> le16 (d @ e) off = le16 d off"
  by (rule le16_cong) (auto simp: nth_append)

lemma le32_append:
  "off + 4 \<le> length d \<Longrightarrow> le32 (d @ e) off = le32 d off"
  by (simp add: le32_def le16_append)

lemma le32_total: "off + 4 \<le> length d \<Longrightarrow> \<exists>v. le32 d off = Inr v"
  by (simp add: le32_def le16_Inr)

lemma put16_Inr [wire_simps]:
  "off + 2 \<le> length d \<Longrightarrow> put16 d off v = Inr (d[off := ucast v, off + 1 := ucast (drop_bit 8 v)])"
  by (auto simp: put16_def)

lemma put16_length: "put16 d off v = Inr d' \<Longrightarrow> length d' = length d"
  by (auto simp: put16_def split: if_splits)

lemma le16_put16_same: "put16 d off v = Inr d' \<Longrightarrow> le16 d' off = Inr v"
  by (auto simp: put16_def le16_def word_join_bytes split: if_splits)

lemma le16_put16_other:
  assumes "put16 d off v = Inr d'" and "off + 2 \<le> off2 \<or> off2 + 2 \<le> off"
  shows "le16 d' off2 = le16 d off2"
  using assms by (auto simp: put16_def le16_def split: if_splits)

lemma put16_take_low: "put16 d off v = Inr d' \<Longrightarrow> n \<le> off \<Longrightarrow> take n d' = take n d"
  by (auto simp: put16_def split: if_splits)

lemma le16_copy_at_before:
  "off + 2 \<le> pos \<Longrightarrow> pos + length src \<le> length dst \<Longrightarrow> le16 (copy_at pos src dst) off = le16 dst off"
  by (rule le16_cong) (auto simp: copy_at_def nth_append)

lemma drop_copy_at_end:
  "off + length src = length dst \<Longrightarrow> drop off (copy_at off src dst) = src"
  by (simp add: copy_at_def)

lemma put16_total: "off + 2 \<le> length d \<Longrightarrow> \<exists>d'. put16 d off v = Inr d' \<and> length d' = length d"
  by (simp add: put16_Inr)

lemma length_encode: "encode body = Inr w \<Longrightarrow> length w = length body + 4"
  by (auto simp: encode_def Let_def ebind_eq_Inr_iff dest!: put16_length split: if_splits)

lemma encode_total: "body \<noteq> [] \<Longrightarrow> length body \<le> max_body \<Longrightarrow> \<exists>w. encode body = Inr w"
  by (auto simp: encode_def Let_def put16_Inr)

lemma encode_Inr_iff: "(\<exists>w. encode body = Inr w) \<longleftrightarrow> body \<noteq> [] \<and> length body \<le> max_body"
  using encode_total by (auto simp: encode_def split: if_splits)

lemma encode_payload: "encode body = Inr w \<Longrightarrow> drop 4 w = body"
  by (auto simp: encode_def Let_def ebind_eq_Inr_iff copy_at_def dest!: put16_length split: if_splits)

lemma encode_header:
  assumes "encode body = Inr w"
  shows "le16 w 0 = Inr (of_nat (length body))"
    and "le16 w 2 = Inr (of_nat (length body) XOR 0x51e6)"
proof -
  from assms obtain w1 w2 where
    1: "put16 (replicate (length body + 4) 0) 0 (of_nat (length body)) = Inr w1" and
    2: "put16 w1 2 (of_nat (length body) XOR 0x51e6) = Inr w2" and
    w: "w = copy_at 4 body w2"
    by (auto simp: encode_def Let_def ebind_eq_Inr_iff split: if_splits)
  have len: "length w2 = length body + 4"
    using put16_length [OF 1] put16_length [OF 2] by simp
  show "le16 w 0 = Inr (of_nat (length body))"
    using le16_put16_same [OF 1] le16_put16_other [OF 2, of 0] len
    by (simp add: w le16_copy_at_before)
  show "le16 w 2 = Inr (of_nat (length body) XOR 0x51e6)"
    using le16_put16_same [OF 2] len by (simp add: w le16_copy_at_before)
qed

lemma unat_of_nat_len: "length body \<le> max_body \<Longrightarrow> unat (of_nat (length body) :: u16) = length body"
  by (simp add: max_body_def unat_of_nat)

section \<open>The reference parser\<close>

text \<open>
  What the wire format promises of a whole stream, without buffers: \<open>frame_at b = Some n\<close>
  when \<open>b\<close> starts with a valid header for a body of \<open>n\<close> bytes, and \<open>parse\<close> splits a stream
  into frames, the unfinished tail, and the number of bytes skipped.
\<close>

definition frame_at :: "bytes \<Rightarrow> nat option" where
  "frame_at b =
     (case (le16 b 0, le16 b 2) of
        (Inr n, Inr x) \<Rightarrow>
          if n \<noteq> 0 \<and> unat n \<le> max_body \<and> x = n XOR 0x51e6 then Some (unat n) else None
      | _ \<Rightarrow> None)"

function parse :: "bytes \<Rightarrow> bytes list \<times> bytes \<times> nat" where
  "parse b =
     (if length b < 4 then ([], b, 0)
      else case frame_at b of
        None \<Rightarrow> (let (fs, r, k) = parse (drop 1 b) in (fs, r, Suc k))
      | Some n \<Rightarrow>
          if length b < n + 4 then ([], b, 0)
          else (let (fs, r, k) = parse (drop (4 + n) b) in (take n (drop 4 b) # fs, r, k)))"
  by pat_completeness auto
termination
  by (relation "measure length") auto

declare parse.simps [simp del]

lemma frame_at_bounds: "frame_at b = Some n \<Longrightarrow> 0 < n \<and> n \<le> max_body"
  by (auto simp: frame_at_def unat_eq_zero [symmetric] split: sum.splits if_splits simp del: unat_eq_zero)

lemma frame_at_append: "4 \<le> length b \<Longrightarrow> frame_at (b @ c) = frame_at b"
  by (simp add: frame_at_def le16_append)

lemma frame_at_encode:
  assumes "encode body = Inr w"
  shows "frame_at w = Some (length body)"
proof -
  from assms have "body \<noteq> []" "length body \<le> max_body"
    using encode_Inr_iff by blast+
  moreover from this have "unat (of_nat (length body) :: u16) = length body"
    by (simp add: unat_of_nat_len)
  moreover from this have "(of_nat (length body) :: u16) \<noteq> 0"
    using \<open>body \<noteq> []\<close> by (metis length_0_conv unat_0)
  ultimately show ?thesis
    by (simp add: frame_at_def encode_header [OF assms])
qed

lemma parse_short: "length b < 4 \<Longrightarrow> parse b = ([], b, 0)"
  by (simp add: parse.simps)

lemma parse_skip:
  "4 \<le> length b \<Longrightarrow> frame_at b = None \<Longrightarrow>
   parse b = (let (fs, r, k) = parse (drop 1 b) in (fs, r, Suc k))"
  by (subst parse.simps) simp

lemma parse_wait:
  "4 \<le> length b \<Longrightarrow> frame_at b = Some n \<Longrightarrow> length b < n + 4 \<Longrightarrow> parse b = ([], b, 0)"
  by (subst parse.simps) simp

lemma parse_frame:
  "frame_at b = Some n \<Longrightarrow> n + 4 \<le> length b \<Longrightarrow>
   parse b = (let (fs, r, k) = parse (drop (4 + n) b) in (take n (drop 4 b) # fs, r, k))"
  by (subst parse.simps) simp

lemma parse_encode:
  assumes "encode body = Inr w"
  shows "parse (w @ rest) = (let (fs, r, k) = parse rest in (body # fs, r, k))"
proof -
  have len: "length w = length body + 4" and pay: "drop 4 w = body"
    using assms by (auto dest: length_encode encode_payload)
  have "frame_at (w @ rest) = Some (length body)"
    using frame_at_encode [OF assms] len by (simp add: frame_at_append)
  then show ?thesis
    by (subst parse_frame [where n = "length body"]) (use len pay in auto)
qed

lemma parse_cases [case_names short skip wait frame]:
  fixes b :: bytes
  obtains "length b < 4"
  | "4 \<le> length b" "frame_at b = None"
  | n where "4 \<le> length b" "frame_at b = Some n" "length b < n + 4"
  | n where "4 \<le> length b" "frame_at b = Some n" "n + 4 \<le> length b"
  by (metis not_le option.exhaust)

lemma parse_append:
  "parse (b @ c) = (let (fs, r, k) = parse b; (fs', r', k') = parse (r @ c)
                    in (fs @ fs', r', k + k'))"
proof (induction b rule: parse.induct)
  case (1 b)
  show ?case
  proof (cases b rule: parse_cases)
    case short
    then show ?thesis by (simp add: parse_short)
  next
    case skip
    then have "parse (b @ c) = (let (fs, r, k) = parse (drop 1 b @ c) in (fs, r, Suc k))"
      by (simp add: parse_skip frame_at_append)
    with skip "1.IH"(1) show ?thesis
      by (simp add: parse_skip split: prod.splits)
  next
    case (wait n)
    then show ?thesis by (simp add: parse_wait)
  next
    case (frame n)
    then have "parse (b @ c) =
        (let (fs, r, k) = parse (drop (4 + n) b @ c) in (take n (drop 4 b) # fs, r, k))"
      by (subst parse_frame [where n = n]) (auto simp: frame_at_append)
    with frame "1.IH"(2) [of n] show ?thesis
      by (simp add: parse_frame split: prod.splits)
  qed
qed

lemma parse_rest:
  "parse b = (fs, r, k) \<Longrightarrow> length r < 4 \<or> (\<exists>n. frame_at r = Some n \<and> length r < n + 4)"
proof (induction b arbitrary: fs k rule: parse.induct)
  case (1 b)
  show ?case
    using 1 by (subst (asm) (3) parse.simps)
      (auto split: if_splits option.splits prod.splits simp: Let_def)
qed

lemma parse_idle: "parse b = (fs, r, k) \<Longrightarrow> parse r = ([], r, 0)"
  using parse_rest [of b fs r k] by (cases "length r < 4") (auto simp: parse_short parse_wait)

lemma parse_rest_bound: "parse b = (fs, r, k) \<Longrightarrow> length r \<le> max_body + 3"
  using parse_rest [of b fs r k] by (auto simp: max_body_def dest!: frame_at_bounds)

lemma parse_conserves:
  "parse b = (fs, r, k) \<Longrightarrow> length b = sum_list (map (\<lambda>f. length f + 4) fs) + length r + k"
proof (induction b arbitrary: fs k rule: parse.induct)
  case (1 b)
  show ?case
    using "1.prems"
  proof (cases b rule: parse_cases)
    case skip
    with "1.prems" "1.IH"(1) show ?thesis
      by (fastforce simp: parse_skip split: prod.splits)
  next
    case (frame n)
    then obtain fs' where "parse (drop (4 + n) b) = (fs', r, k)" "fs = take n (drop 4 b) # fs'"
      using "1.prems" by (auto simp: parse_frame split: prod.splits)
    with frame "1.IH"(2) [of n fs' k] show ?thesis by simp
  qed (auto simp: parse_short parse_wait)
qed

section \<open>The decoder refines the reference parser\<close>

lemma bad_header_frame_at:
  assumes "4 \<le> length b" and "le16 b 0 = Inr n"
  shows "bad_header b n = Inr (frame_at b = None)"
    and "frame_at b = Some m \<Longrightarrow> m = unat n"
  using assms by (auto simp: bad_header_def frame_at_def le16_Inr split: if_splits)

lemma drain_parse:
  "drain d fs0 =
     (let (fs, r, k) = parse (dec_buffer d)
      in Inr (fs0 @ fs, \<lparr>dec_buffer = r, dec_discarded = dec_discarded d + k\<rparr>))"
proof (induction "dec_buffer d" arbitrary: d fs0 rule: parse.induct)
  case 1
  show ?case
  proof (cases "dec_buffer d" rule: parse_cases)
    case short
    then show ?thesis by (subst drain.simps) (simp add: parse_short)
  next
    case skip
    obtain n where n: "le16 (dec_buffer d) 0 = Inr n" using skip by (auto simp: le16_Inr)
    from skip n have "drain d fs0 =
        drain (d\<lparr>dec_buffer := drop 1 (dec_buffer d), dec_discarded := dec_discarded d + 1\<rparr>) fs0"
      by (subst drain.simps) (simp add: bad_header_frame_at)
    with skip 1(1) show ?thesis by (simp add: parse_skip split: prod.splits)
  next
    case (wait n)
    obtain m where m: "le16 (dec_buffer d) 0 = Inr m" using wait by (auto simp: le16_Inr)
    have "n = unat m" using wait(1) m wait(2) by (rule bad_header_frame_at(2))
    with wait m show ?thesis
      by (subst drain.simps) (simp add: bad_header_frame_at parse_wait)
  next
    case (frame n)
    obtain m where m: "le16 (dec_buffer d) 0 = Inr m" using frame by (auto simp: le16_Inr)
    have nm: "n = unat m" using frame(1) m frame(2) by (rule bad_header_frame_at(2))
    with frame m have "drain d fs0 =
        drain (d\<lparr>dec_buffer := drop (4 + n) (dec_buffer d)\<rparr>) (fs0 @ [take n (drop 4 (dec_buffer d))])"
      by (subst drain.simps) (simp add: bad_header_frame_at)
    with frame 1(2) [of n] show ?thesis by (simp add: parse_frame split: prod.splits)
  qed
qed

text \<open>Between two calls the buffer holds no complete frame and no bad header.\<close>

definition decoder_idle :: "decoder \<Rightarrow> bool" where
  "decoder_idle d \<longleftrightarrow> parse (dec_buffer d) = ([], dec_buffer d, 0)"

lemma decoder_idle_init: "decoder_idle decoder_init"
  by (simp add: decoder_idle_def decoder_init_def parse_short)

lemma feed_from_parse:
  "decoder_idle d \<Longrightarrow>
   feed_from d fs0 bs =
     (let (fs, r, k) = parse (dec_buffer d @ bs)
      in Inr (fs0 @ fs, \<lparr>dec_buffer = r, dec_discarded = dec_discarded d + k\<rparr>))"
proof (induction bs arbitrary: d fs0)
  case Nil
  then show ?case by (simp add: decoder_idle_def)
next
  case (Cons b bs)
  obtain fs r k where p: "parse (dec_buffer d @ [b]) = (fs, r, k)" by (cases "parse (dec_buffer d @ [b])")
  let ?d = "\<lparr>dec_buffer = r, dec_discarded = dec_discarded d + k\<rparr>"
  have "decoder_idle ?d" using parse_idle [OF p] by (simp add: decoder_idle_def)
  then have "feed_from d fs0 (b # bs) =
      (let (fs', r', k') = parse (r @ bs)
       in Inr ((fs0 @ fs) @ fs', \<lparr>dec_buffer = r', dec_discarded = (dec_discarded d + k) + k'\<rparr>))"
    by (simp add: drain_parse p Cons.IH)
  moreover have "parse (dec_buffer d @ b # bs) =
      (let (fs', r', k') = parse (r @ bs) in (fs @ fs', r', k + k'))"
    using parse_append [of "dec_buffer d @ [b]" bs] by (simp add: p)
  ultimately show ?case by (simp split: prod.splits)
qed

lemma decoder_feed_parse:
  "decoder_idle d \<Longrightarrow>
   decoder_feed d bs =
     (let (fs, r, k) = parse (dec_buffer d @ bs)
      in Inr (fs, \<lparr>dec_buffer = r, dec_discarded = dec_discarded d + k\<rparr>))"
  by (simp add: decoder_feed_def feed_from_parse)

lemma decoder_feed_total: "\<exists>fs d'. decoder_feed d bs = Inr (fs, d')"
proof -
  have "\<exists>fs d'. feed_from d fs0 bs = Inr (fs, d')" for fs0
    by (induction bs arbitrary: d fs0) (auto simp: drain_parse split: prod.splits)
  then show ?thesis by (simp add: decoder_feed_def)
qed

lemma decoder_feed_idle: "decoder_idle d \<Longrightarrow> decoder_feed d bs = Inr (fs, d') \<Longrightarrow> decoder_idle d'"
  by (auto simp: decoder_feed_parse decoder_idle_def dest: parse_idle split: prod.splits)

lemma feed_from_frames:
  "feed_from d fs0 bs = ebind (decoder_feed d bs) (\<lambda>(fs, d'). Inr (fs0 @ fs, d'))"
proof -
  have *: "feed_from d (fs0 @ fs1) bs = ebind (feed_from d fs1 bs) (\<lambda>(fs, d'). Inr (fs0 @ fs, d'))" for fs1
    by (induction bs arbitrary: d fs1) (simp_all add: drain_parse split: prod.splits)
  show ?thesis using * [of "[]"] by (simp add: decoder_feed_def)
qed

lemma decoder_feed_append:
  "decoder_feed d (xs @ ys) =
     ebind (decoder_feed d xs) (\<lambda>(f1, d1). ebind (decoder_feed d1 ys) (\<lambda>(f2, d2). Inr (f1 @ f2, d2)))"
proof -
  have "feed_from d fs0 (xs @ ys) = ebind (feed_from d fs0 xs) (\<lambda>(f1, d1). feed_from d1 f1 ys)" for fs0
    by (induction xs arbitrary: d fs0) (simp_all add: drain_parse split: prod.splits)
  then have "decoder_feed d (xs @ ys) = ebind (decoder_feed d xs) (\<lambda>(f1, d1). feed_from d1 f1 ys)"
    by (simp add: decoder_feed_def)
  also have "(\<lambda>(f1, d1). feed_from d1 f1 ys) =
      (\<lambda>(f1, d1). ebind (decoder_feed d1 ys) (\<lambda>(f2, d2). Inr (f1 @ f2, d2)))"
    by (simp only: feed_from_frames [of _ _ ys])
  finally show ?thesis .
qed

section \<open>Framing as an interface\<close>

text \<open>
  What a user of the wire relies on: feeding is total and does not depend on how the bytes are cut,
  and an encoded body comes out of a receiver that is between frames, which is then unchanged.
  \<open>feed_chunks\<close> feeds one read after the other, \<open>encode_all\<close> is what a sender of several
  bodies puts on the wire.
\<close>

fun feed_chunks :: "('d \<Rightarrow> 'w list \<Rightarrow> exn + ('b list \<times> 'd)) \<Rightarrow> 'd \<Rightarrow> 'w list list \<Rightarrow> exn + ('b list \<times> 'd)" where
  "feed_chunks feed d [] = Inr ([], d)"
| "feed_chunks feed d (c # cs) =
     ebind (feed d c) (\<lambda>(f1, d1). ebind (feed_chunks feed d1 cs) (\<lambda>(f2, d2). Inr (f1 @ f2, d2)))"

fun encode_all :: "('b \<Rightarrow> exn + 'w list) \<Rightarrow> 'b list \<Rightarrow> exn + 'w list" where
  "encode_all enc [] = Inr []"
| "encode_all enc (b # bs) = ebind (enc b) (\<lambda>w. ebind (encode_all enc bs) (\<lambda>ws. Inr (w @ ws)))"

locale framing =
  fixes enc :: "'b \<Rightarrow> exn + 'w list"
    and feed :: "'d \<Rightarrow> 'w list \<Rightarrow> exn + ('b list \<times> 'd)"
    and between :: "'d \<Rightarrow> bool"
  assumes feed_nil: "feed d [] = Inr ([], d)"
    and feed_append: "feed d (xs @ ys) =
      ebind (feed d xs) (\<lambda>(f1, d1). ebind (feed d1 ys) (\<lambda>(f2, d2). Inr (f1 @ f2, d2)))"
    and feed_enc: "between d \<Longrightarrow> enc b = Inr w \<Longrightarrow> feed d w = Inr ([b], d)"
begin

lemma chunks_concat: "feed_chunks feed d cs = feed d (concat cs)"
  by (induction cs arbitrary: d) (simp_all add: feed_nil feed_append)

lemma feed_encode_all: "between d \<Longrightarrow> encode_all enc bs = Inr ws \<Longrightarrow> feed d ws = Inr (bs, d)"
  by (induction bs arbitrary: ws) (auto simp: feed_nil feed_append feed_enc ebind_eq_Inr_iff)

lemma any_chunking:
  "between d \<Longrightarrow> encode_all enc bs = Inr ws \<Longrightarrow> concat cs = ws \<Longrightarrow> feed_chunks feed d cs = Inr (bs, d)"
  by (simp add: chunks_concat feed_encode_all)

end

definition decoder_between :: "decoder \<Rightarrow> bool" where
  "decoder_between d \<longleftrightarrow> dec_buffer d = []"

interpretation wire: framing encode decoder_feed decoder_between
proof unfold_locales
  fix d b w assume d: "decoder_between d" and w: "encode b = Inr w"
  then have "decoder_idle d" by (simp add: decoder_between_def decoder_idle_def parse_short)
  then show "decoder_feed d w = Inr ([b], d)"
    using d parse_encode [OF w, of "[]"]
    by (simp add: decoder_feed_parse decoder_between_def parse_short)
qed (simp_all add: decoder_feed_append, simp add: decoder_feed_def)

section \<open>Nothing is invented\<close>

text \<open>A stream as what was skipped and what was framed.\<close>

datatype piece = Skipped u8 | Framed bytes

fun piece_wire :: "piece \<Rightarrow> bytes" where
  "piece_wire (Skipped b) = [b]"
| "piece_wire (Framed f) = (case encode f of Inl e \<Rightarrow> [] | Inr w \<Rightarrow> w)"

fun piece_frame :: "piece \<Rightarrow> bytes list" where
  "piece_frame (Skipped b) = []"
| "piece_frame (Framed f) = [f]"

lemma encode_unique:
  assumes "length w = length body + 4" "drop 4 w = body" "body \<noteq> []" "length body \<le> max_body"
    and "le16 w 0 = Inr (of_nat (length body))" "le16 w 2 = Inr (of_nat (length body) XOR 0x51e6)"
  shows "encode body = Inr w"
proof -
  let ?n = "of_nat (length body) :: u16"
  have j1: "ucast (w ! 0) OR push_bit 8 (ucast (w ! 1)) = ?n"
    and j2: "ucast (w ! 2) OR push_bit 8 (ucast (w ! 3)) = ?n XOR 0x51e6"
    using assms(1,5,6) by (simp_all add: le16_Inr numeral_3_eq_3)
  have "w ! 0 = ucast ?n" "w ! 1 = ucast (drop_bit 8 ?n)"
    by (simp_all only: j1 [symmetric] word_low_byte word_high_byte)
  moreover have "w ! 2 = ucast (?n XOR 0x51e6)" "w ! 3 = ucast (drop_bit 8 (?n XOR 0x51e6))"
    by (simp_all only: j2 [symmetric] word_low_byte word_high_byte)
  moreover have "take 4 w = [w ! 0, w ! 1, w ! 2, w ! 3]"
    using assms(1) by (simp add: take_Suc_conv_app_nth eval_nat_numeral)
  moreover have "w = take 4 w @ body" using assms(2) by (metis append_take_drop_id)
  ultimately have "w = [ucast ?n, ucast (drop_bit 8 ?n), ucast (?n XOR 0x51e6),
      ucast (drop_bit 8 (?n XOR 0x51e6))] @ body"
    by (simp only:)
  with assms(3,4) show ?thesis
    by (simp add: encode_def Let_def put16_Inr copy_at_def eval_nat_numeral)
qed

lemma encode_of_frame:
  assumes "frame_at b = Some n" and "n + 4 \<le> length b"
  shows "encode (take n (drop 4 b)) = Inr (take (4 + n) b)"
proof (rule encode_unique)
  obtain v where v: "le16 b 0 = Inr v" "n = unat v" "v \<noteq> 0" "unat v \<le> max_body" "le16 b 2 = Inr (v XOR 0x51e6)"
    using assms(1) by (auto simp: frame_at_def split: sum.splits if_splits)
  have b: "b = take (4 + n) b @ drop (4 + n) b" by simp
  have l: "le16 (take (4 + n) b) 0 = le16 b 0" "le16 (take (4 + n) b) 2 = le16 b 2"
    using assms(2) by (auto intro!: le16_cong)
  show "length (take (4 + n) b) = length (take n (drop 4 b)) + 4" using assms(2) by simp
  show "drop 4 (take (4 + n) b) = take n (drop 4 b)" by (simp add: drop_take)
  show "take n (drop 4 b) \<noteq> []" using assms frame_at_bounds [OF assms(1)] by auto
  show "length (take n (drop 4 b)) \<le> max_body" using v by simp
  show "le16 (take (4 + n) b) 0 = Inr (of_nat (length (take n (drop 4 b))))"
    using v l assms(2) by simp
  show "le16 (take (4 + n) b) 2 = Inr (of_nat (length (take n (drop 4 b))) XOR 0x51e6)"
    using v l assms(2) by simp
qed

lemma parse_pieces:
  "parse b = (fs, r, k) \<Longrightarrow>
   \<exists>ps. b = concat (map piece_wire ps) @ r \<and> fs = concat (map piece_frame ps) \<and>
        k = length (filter (\<lambda>p. piece_frame p = []) ps) \<and> (\<forall>f \<in> set fs. \<exists>w. encode f = Inr w)"
proof (induction b arbitrary: fs k rule: parse.induct)
  case (1 b)
  show ?case
  proof (cases b rule: parse_cases)
    case short
    then show ?thesis using "1.prems" by (intro exI [of _ "[]"]) (simp add: parse_short)
  next
    case (wait n)
    then show ?thesis using "1.prems" by (intro exI [of _ "[]"]) (simp add: parse_wait)
  next
    case skip
    then obtain k' where p: "parse (drop 1 b) = (fs, r, k')" and k: "k = Suc k'"
      using "1.prems" by (auto simp: parse_skip split: prod.splits)
    from "1.IH"(1) [OF _ _ p] skip obtain ps where
      ps: "drop 1 b = concat (map piece_wire ps) @ r" "fs = concat (map piece_frame ps)"
        "k' = length (filter (\<lambda>p. piece_frame p = []) ps)" "\<forall>f \<in> set fs. \<exists>w. encode f = Inr w"
      by auto
    have "b = hd b # drop 1 b" using skip by (cases b) auto
    then show ?thesis using ps k
      by (intro exI [of _ "Skipped (hd b) # ps"]) simp
  next
    case (frame n)
    then obtain fs' where p: "parse (drop (4 + n) b) = (fs', r, k)" and fs: "fs = take n (drop 4 b) # fs'"
      using "1.prems" by (auto simp: parse_frame split: prod.splits)
    from "1.IH"(2) [OF _ _ _ p] frame obtain ps where
      ps: "drop (4 + n) b = concat (map piece_wire ps) @ r" "fs' = concat (map piece_frame ps)"
        "k = length (filter (\<lambda>p. piece_frame p = []) ps)" "\<forall>f \<in> set fs'. \<exists>w. encode f = Inr w"
      by auto
    have e: "encode (take n (drop 4 b)) = Inr (take (4 + n) b)"
      using frame by (simp add: encode_of_frame)
    have "b = take (4 + n) b @ drop (4 + n) b" by simp
    with ps e fs show ?thesis
      by (intro exI [of _ "Framed (take n (drop 4 b)) # ps"]) (auto simp del: append_take_drop_id)
  qed
qed

section \<open>Requests\<close>

lemma request_Inr_iff:
  "(\<exists>body. request op sq payload dest chan = Inr body) \<longleftrightarrow>
     length payload \<le> max_body - 12 \<and> sq \<noteq> 0 \<and> sq \<le> 255 \<and> dest \<noteq> 0"
  by (auto simp: request_def Let_def put16_Inr not_less)

lemma request_fields:
  assumes "request op sq payload dest chan = Inr body"
  shows "length body = 12 + length payload" and "drop 12 body = payload"
    and "le16 body 0 = Inr dest" and "le16 body 2 = Inr 0" and "le16 body 4 = Inr op"
    and "le16 body 6 = Inr sq" and "le16 body 8 = Inr chan" and "le16 body 10 = Inr 0"
proof -
  let ?z = "replicate (12 + length payload) (0 :: u8)"
  from assms obtain b1 b2 b3 b4 where
    1: "put16 ?z 0 dest = Inr b1" and 2: "put16 b1 4 op = Inr b2" and
    3: "put16 b2 6 sq = Inr b3" and 4: "put16 b3 8 chan = Inr b4" and
    body: "body = copy_at 12 payload b4"
    by (auto simp: request_def Let_def ebind_eq_Inr_iff split: if_splits)
  note puts = 1 2 3 4
  note len = puts [THEN put16_length]
  have l4: "length b4 = 12 + length payload" using len by simp
  show "length body = 12 + length payload" using l4 by (simp add: body)
  show "drop 12 body = payload" using l4 by (simp add: body copy_at_def)
  have read: "le16 body off = le16 b4 off" if "off + 2 \<le> 12" for off
    using that l4 by (simp add: body le16_copy_at_before)
  note other = puts [THEN le16_put16_other]
  note same = puts [THEN le16_put16_same]
  show "le16 body 0 = Inr dest" by (simp add: read other same)
  show "le16 body 2 = Inr 0" by (simp add: read other le16_Inr)
  show "le16 body 4 = Inr op" by (simp add: read other same)
  show "le16 body 6 = Inr sq" by (simp add: read other same)
  show "le16 body 8 = Inr chan" by (simp add: read other same)
  show "le16 body 10 = Inr 0" by (simp add: read other le16_Inr)
qed

section \<open>Hexadecimal text\<close>

lemma hex_digit_value:
  assumes "n < 16"
  shows "\<not> c_isspace (of_char (hex_digits ! n))" and "hex_value (of_char (hex_digits ! n)) = int n"
proof -
  have "\<forall>n \<in> set [0..<16]. \<not> c_isspace (of_char (hex_digits ! n)) \<and>
      hex_value (of_char (hex_digits ! n)) = int n"
    by code_simp
  with assms show "\<not> c_isspace (of_char (hex_digits ! n))" and
    "hex_value (of_char (hex_digits ! n)) = int n" by auto
qed

lemma nibble_bounds: "unat (drop_bit 4 (b :: u8)) < 16" "unat (b AND 15) < 16"
proof -
  show "unat (drop_bit 4 b) < 16"
    using unat_u8_less [of b]
    by (simp add: unsigned_drop_bit_eq drop_bit_nat_def take_bit_nat_def less_mult_imp_div_less)
  have "b AND 15 = take_bit 4 b" by (simp add: take_bit_eq_mask mask_eq_exp_minus_1)
  then have "unat (b AND 15) = unat b mod 16" by (simp add: unsigned_take_bit_eq take_bit_nat_def)
  then show "unat (b AND 15) < 16" by simp
qed

lemma nibbles_join:
  "(word_of_int (push_bit 4 (uint (drop_bit 4 (b :: u8))) OR uint (b AND 15)) :: u8) = b"
proof -
  have m: "(15 :: u8) = mask 4" by (simp add: mask_eq_exp_minus_1)
  show ?thesis
    unfolding m by (intro bit_word_eqI) (auto simp: bit_simps le_diff_conv)
qed

lemma unhex_from_hex: "unhex_from acc (-1) (hex d) = Inr (acc @ d)"
proof (induction d arbitrary: acc)
  case Nil
  then show ?case by (simp add: hex_def)
next
  case (Cons b d)
  have "hex (b # d) = hex_digits ! unat (drop_bit 4 b) # hex_digits ! unat (b AND 15) # hex d"
    by (simp add: hex_def)
  then show ?case
    using hex_digit_value [OF nibble_bounds(1) [of b]] hex_digit_value [OF nibble_bounds(2) [of b]]
    by (simp add: Let_def nibbles_join Cons)
qed

text \<open>The canonical spelling of a hex text: no white space, lower case.\<close>

definition hex_lower :: "char \<Rightarrow> char" where
  "hex_lower c = (if 65 \<le> (of_char c :: nat) \<and> (of_char c :: nat) \<le> 70 then char_of (of_char c + 32 :: nat) else c)"

definition hex_canonical :: "string \<Rightarrow> string" where
  "hex_canonical s = map hex_lower (filter (\<lambda>c. \<not> c_isspace (of_char c)) s)"

lemma hex_value_code:
  assumes "0 \<le> hex_value (of_char c)"
  shows "hex_value (of_char c) < 16" and "hex_lower c = hex_digits ! nat (hex_value (of_char c))"
proof -
  have all: "\<forall>n \<in> set ([48..<58] @ [65..<71] @ [97..<103]).
      hex_value n < 16 \<and> (if 65 \<le> n \<and> n \<le> 70 then n + 32 else n) = of_char (hex_digits ! nat (hex_value n))"
    by code_simp
  have "of_char c \<in> set ([48..<58] @ [65..<71] @ [97..<103::nat])"
    using assms unfolding hex_value_def set_append set_upt by (auto split: if_splits)
  with all have *: "hex_value (of_char c) < 16 \<and>
      (if 65 \<le> (of_char c :: nat) \<and> (of_char c :: nat) \<le> 70 then of_char c + 32 else of_char c) =
        (of_char (hex_digits ! nat (hex_value (of_char c))) :: nat)"
    by blast
  then show "hex_value (of_char c) < 16" by simp
  from * have "char_of (if 65 \<le> (of_char c :: nat) \<and> (of_char c :: nat) \<le> 70 then of_char c + 32 else (of_char c :: nat)) =
      hex_digits ! nat (hex_value (of_char c))"
    by (simp only: char_of_char)
  then show "hex_lower c = hex_digits ! nat (hex_value (of_char c))"
    by (cases "65 \<le> (of_char c :: nat) \<and> (of_char c :: nat) \<le> 70") (auto simp: hex_lower_def)
qed

lemma join_nibbles:
  assumes "0 \<le> h" "h < 16" "0 \<le> n" "n < 16"
  shows "unat (drop_bit 4 (word_of_int (push_bit 4 h OR n) :: u8)) = nat h"
    and "unat ((word_of_int (push_bit 4 h OR n) :: u8) AND 15) = nat n"
proof -
  have small: "\<not> bit k i" if "0 \<le> k" "k < 16" "4 \<le> i" for k :: int and i
    using that take_bit_int_eq_self [of k 4] bit_take_bit_iff [of 4 k i] by simp
  have low: "i < 4" if "0 \<le> k" "k < 16" "bit k i" for k :: int and i
    using small that by (meson not_le)
  have unat_k: "unat (word_of_int k :: u8) = nat k" if "0 \<le> k" "k < 16" for k
    using that by (simp add: unsigned_of_int take_bit_int_eq_self)
  let ?w = "word_of_int (push_bit 4 h OR n) :: u8"
  have m: "(15 :: u8) = mask 4" by (simp add: mask_eq_exp_minus_1)
  have "drop_bit 4 ?w = word_of_int h"
    using small low assms by (intro bit_word_eqI) (auto simp: bit_simps)
  then show "unat (drop_bit 4 ?w) = nat h" using unat_k assms by simp
  have "?w AND 15 = word_of_int n"
    unfolding m using small low assms by (intro bit_word_eqI) (auto simp: bit_simps)
  then show "unat (?w AND 15) = nat n" using unat_k assms by simp
qed

lemma unhex_from_canonical:
  assumes "unhex_from acc high s = Inr d" and "high < 16"
  shows "\<exists>d'. d = acc @ d' \<and> hex d' =
     (if high < 0 then hex_canonical s else hex_digits ! nat high # hex_canonical s)"
  using assms
proof (induction acc high s rule: unhex_from.induct)
  case (1 acc high)
  then show ?case by (auto simp: hex_def hex_canonical_def split: if_splits)
next
  case (2 acc high raw s)
  let ?c = "of_char raw :: nat"
  consider (space) "c_isspace ?c" | (first) "\<not> c_isspace ?c" "0 \<le> hex_value ?c" "high < 0"
    | (second) "\<not> c_isspace ?c" "0 \<le> hex_value ?c" "0 \<le> high"
    using "2.prems"(1) by (auto simp: Let_def split: if_splits)
  then show ?case
  proof cases
    case space
    moreover from space have "hex_canonical (raw # s) = hex_canonical s" by (simp add: hex_canonical_def)
    ultimately show ?thesis using 2 by (cases "high < 0") (simp_all add: Let_def)
  next
    case first
    with "2.prems" have "unhex_from acc (hex_value ?c) s = Inr d" by (simp add: Let_def)
    with first "2.IH"(2) hex_value_code(1) [OF first(2)] obtain d' where
      "d = acc @ d'" "hex d' = hex_digits ! nat (hex_value ?c) # hex_canonical s" by auto
    then show ?thesis
      using first hex_value_code(2) [OF first(2)] by (simp add: hex_canonical_def)
  next
    case second
    let ?b = "word_of_int (push_bit 4 high OR hex_value ?c) :: u8"
    from second "2.prems" have "unhex_from (acc @ [?b]) (-1) s = Inr d" by (simp add: Let_def)
    with second "2.IH"(3) obtain d' where d': "d = acc @ ?b # d'" "hex d' = hex_canonical s" by auto
    have "hex (?b # d') = hex_digits ! nat high # hex_digits ! nat (hex_value ?c) # hex d'"
      using join_nibbles [OF second(3) "2.prems"(2) second(2) hex_value_code(1) [OF second(2)]]
      by (simp add: hex_def)
    then show ?thesis
      using d' second hex_value_code(2) [OF second(2)]
      by (intro exI [of _ "?b # d'"]) (simp add: hex_canonical_def)
  qed
qed

lemma unhex_from_lower: "unhex_from acc high (hex_canonical s) = unhex_from acc high s"
proof (induction acc high s rule: unhex_from.induct)
  case (1 acc high)
  then show ?case by (simp add: hex_canonical_def)
next
  case (2 acc high raw s)
  let ?c = "of_char raw :: nat"
  show ?case
  proof (cases "c_isspace ?c")
    case True
    then have "hex_canonical (raw # s) = hex_canonical s" by (simp add: hex_canonical_def)
    with True 2 show ?thesis by (simp add: Let_def)
  next
    case False
    have low: "\<not> c_isspace (of_char (hex_lower raw))" "hex_value (of_char (hex_lower raw)) = hex_value ?c"
      using False by (auto simp: hex_lower_def hex_value_def c_isspace_def)
    have "hex_canonical (raw # s) = hex_lower raw # hex_canonical s"
      using False by (simp add: hex_canonical_def)
    with False low 2 show ?thesis by (simp add: Let_def)
  qed
qed

section \<open>Properties\<close>

text \<open>
  C1. Framing round trip: bodies that were encoded and sent back to back come out of the decoder in
  order and unchanged, whatever the sizes of the reads in which their bytes arrive, and the
  decoder is left exactly as it was.
\<close>

theorem decoder_any_chunking:
  assumes "dec_buffer d = []" and "encode_all encode bodies = Inr stream" and "concat chunks = stream"
  shows "feed_chunks decoder_feed d chunks = Inr (bodies, d)"
  using assms by (auto intro: wire.any_chunking simp: decoder_between_def)

theorem decoder_any_chunking_witness:
  "feed_chunks decoder_feed decoder_init [[3, 0], [0xe5, 0x51, 7], [], [8, 9, 1, 0, 0xe7, 0x51, 4]]
     = Inr ([[7, 8, 9], [4]], decoder_init)"
proof (rule decoder_any_chunking)
  show "dec_buffer decoder_init = []" by (simp add: decoder_init_def)
  show "encode_all encode [[7, 8, 9], [4]] =
      Inr [3, 0, 0xe5, 0x51, 7, 8, 9, 1, 0, 0xe7, 0x51, 4]"
    by code_simp
qed simp

text \<open>
  C2. The incremental decoder, fed one byte at a time and in reads of any size, computes the
  reference parse of the whole stream: the same frames, the same unfinished tail, the same count of
  discarded bytes; no input makes it throw.
\<close>

theorem decoder_refines_parse:
  "feed_chunks decoder_feed decoder_init chunks =
     (let (frames, rest, skipped) = parse (concat chunks)
      in Inr (frames, \<lparr>dec_buffer = rest, dec_discarded = skipped\<rparr>))"
  using decoder_feed_parse [OF decoder_idle_init, of "concat chunks"]
  by (simp add: wire.chunks_concat decoder_init_def)

text \<open>
  C3. Decoder soundness and memory bound on arbitrary input: the stream is the skipped bytes and the
  encodings of the delivered frames in order, followed by the buffered tail; every delivered frame has
  1..6144 bytes; \<open>discarded\<close> counts the skipped bytes; and at most 6147 bytes are retained.
\<close>

theorem decoder_sound_and_bounded:
  "\<exists>frames d pieces.
     feed_chunks decoder_feed decoder_init chunks = Inr (frames, d) \<and>
     concat chunks = concat (map piece_wire pieces) @ dec_buffer d \<and>
     frames = concat (map piece_frame pieces) \<and>
     dec_discarded d = length (filter (\<lambda>p. piece_frame p = []) pieces) \<and>
     list_all (\<lambda>f. f \<noteq> [] \<and> length f \<le> 6144) frames \<and>
     length (dec_buffer d) \<le> 6147"
proof -
  obtain fs r k where p: "parse (concat chunks) = (fs, r, k)" by (cases "parse (concat chunks)")
  from parse_pieces [OF p] obtain ps where ps: "concat chunks = concat (map piece_wire ps) @ r"
    "fs = concat (map piece_frame ps)" "k = length (filter (\<lambda>p. piece_frame p = []) ps)"
    "\<forall>f \<in> set fs. \<exists>w. encode f = Inr w" by blast
  have "\<forall>f \<in> set fs. f \<noteq> [] \<and> length f \<le> 6144"
    using ps(4) encode_Inr_iff by (force simp: max_body_def)
  moreover have "length r \<le> 6147" using parse_rest_bound [OF p] by (simp add: max_body_def)
  moreover have "feed_chunks decoder_feed decoder_init chunks = Inr (fs, \<lparr>dec_buffer = r, dec_discarded = k\<rparr>)"
    using decoder_feed_parse [OF decoder_idle_init, of "concat chunks"] p
    by (simp add: wire.chunks_concat decoder_init_def)
  ultimately show ?thesis using ps
    by (intro exI [of _ fs] exI [of _ "\<lparr>dec_buffer = r, dec_discarded = k\<rparr>"] exI [of _ ps]) (simp add: list_all_iff)
qed

text \<open>
  A request is laid out as the protocol says: destination, source 0, opcode, sequence, chan and
  the zeroed word, then the payload; and every request that is built can be encoded, so
  \<open>Session::command\<close> never fails between building and framing.
\<close>

theorem request_layout:
  assumes "request op sq payload dest chan = Inr body"
  shows "le16 body 0 = Inr dest \<and> le16 body 2 = Inr 0 \<and> le16 body 4 = Inr op \<and> le16 body 6 = Inr sq \<and>
    le16 body 8 = Inr chan \<and> le16 body 10 = Inr 0 \<and> drop 12 body = payload \<and>
    length body = 12 + length payload \<and> (\<exists>w. encode body = Inr w)"
proof -
  have "length payload \<le> max_body - 12" using assms request_Inr_iff by blast
  then have "\<exists>w. encode body = Inr w"
    using request_fields(1) [OF assms] by (intro encode_total) (auto simp: max_body_def)
  with request_fields [OF assms] show ?thesis by simp
qed

theorem request_layout_witness:
  "le16 [1, 5, 0, 0, 0x0d, 0, 9, 0, 0, 0, 0, 0, 0xaa] 4 = Inr 0x0d"
proof -
  have "request 0x0d 9 [0xaa] 0x0501 0 = Inr [1, 5, 0, 0, 0x0d, 0, 9, 0, 0, 0, 0, 0, 0xaa]"
    by code_simp
  from request_layout [OF this] show ?thesis by simp
qed

text \<open>
  Reading hexadecimal text: \<open>unhex\<close> accepts exactly the texts whose canonical spelling
  (white space removed, letters in lower case) is what \<open>hex\<close> prints for the bytes it returns.
\<close>

theorem unhex_exact: "unhex s = Inr d \<longleftrightarrow> hex_canonical s = hex d"
proof
  assume "unhex s = Inr d"
  then show "hex_canonical s = hex d"
    using unhex_from_canonical [of "[]" "-1" s d] by (simp add: unhex_def)
next
  assume "hex_canonical s = hex d"
  then show "unhex s = Inr d"
    using unhex_from_hex [of "[]" d] unhex_from_lower [of "[]" "-1" s] by (simp add: unhex_def)
qed

end
