(* ===== verification/Config.thy ===== *)
theory Config
  imports Mongoose_Base
begin

text \<open>
  src/config.hpp and src/config.cpp: where each SConfig parameter lives, what it may be set to, and
  the CAN bit rates the driver accepts. The two constexpr tables are lists in the source's order;
  \<open>find\<close> takes the first entry, as \<open>std::find_if\<close> does.
\<close>

section \<open>Definitions\<close>

definition cfg_data_rate :: u32 where [simp]: "cfg_data_rate = 0x01"
definition cfg_loopback :: u32 where [simp]: "cfg_loopback = 0x03"
definition cfg_bit_sample_point :: u32 where [simp]: "cfg_bit_sample_point = 0x17"
definition cfg_sync_jump_width :: u32 where [simp]: "cfg_sync_jump_width = 0x18"
definition cfg_iso15765_bs :: u32 where [simp]: "cfg_iso15765_bs = 0x1e"
definition cfg_iso15765_stmin :: u32 where [simp]: "cfg_iso15765_stmin = 0x1f"
definition cfg_bs_tx :: u32 where [simp]: "cfg_bs_tx = 0x22"
definition cfg_stmin_tx :: u32 where [simp]: "cfg_stmin_tx = 0x23"
definition cfg_iso15765_wft_max :: u32 where [simp]: "cfg_iso15765_wft_max = 0x25"
definition cfg_n_br_min :: u32 where [simp]: "cfg_n_br_min = 0x2a"
definition cfg_iso15765_pad_value :: u32 where [simp]: "cfg_iso15765_pad_value = 0x2b"
definition cfg_n_as_max :: u32 where [simp]: "cfg_n_as_max = 0x2c"
definition cfg_n_ar_max :: u32 where [simp]: "cfg_n_ar_max = 0x2d"
definition cfg_n_bs_max :: u32 where [simp]: "cfg_n_bs_max = 0x2e"
definition cfg_n_cr_max :: u32 where [simp]: "cfg_n_cr_max = 0x2f"
definition cfg_n_cs_min :: u32 where [simp]: "cfg_n_cs_min = 0x30"
definition cfg_j1962_pins :: u32 where [simp]: "cfg_j1962_pins = 0x8001"
definition cfg_dt_pullup_value :: u32 where [simp]: "cfg_dt_pullup_value = 0x10008"
definition cfg_dt_iso15765_pad_byte :: u32 where [simp]: "cfg_dt_iso15765_pad_byte = 0x10000001"
definition cfg_dt_half_duplex :: u32 where [simp]: "cfg_dt_half_duplex = 0x10000007"

datatype where_kept = Firmware | HostLoopback

record route =
  route_where :: where_kept
  route_selector :: u32
  route_settable :: bool
  route_minimum :: u32
  route_maximum :: u32
  route_allow_ffff :: bool

definition any_value :: u32 where
  "any_value = 0xffffffff"

definition fw :: "u32 \<Rightarrow> u32 \<Rightarrow> u32 \<Rightarrow> bool \<Rightarrow> route" where
  "fw selector low high ffff =
     \<lparr>route_where = Firmware, route_selector = selector, route_settable = True,
      route_minimum = low, route_maximum = high, route_allow_ffff = ffff\<rparr>"

definition read_only :: "u32 \<Rightarrow> route" where
  "read_only selector =
     \<lparr>route_where = Firmware, route_selector = selector, route_settable = False,
      route_minimum = 0, route_maximum = any_value, route_allow_ffff = False\<rparr>"

definition host_loopback :: route where
  "host_loopback =
     \<lparr>route_where = HostLoopback, route_selector = 0, route_settable = True,
      route_minimum = 0, route_maximum = 1, route_allow_ffff = False\<rparr>"

definition can_table :: "(u32 \<times> route) list" where
  "can_table =
    [(cfg_data_rate, fw 0x04 1 1000000 False),
     (cfg_loopback, host_loopback),
     (cfg_bit_sample_point, fw 0x14 68 80 False),
     (cfg_sync_jump_width, fw 0x15 0 100 False),
     (cfg_dt_pullup_value, read_only 0x31)]"

definition iso_table :: "(u32 \<times> route) list" where
  "iso_table =
    [(cfg_data_rate, fw 0x04 1 1000000 False),
     (cfg_loopback, host_loopback),
     (cfg_bit_sample_point, fw 0x14 80 80 False),
     (cfg_sync_jump_width, fw 0x15 0 100 False),
     (cfg_iso15765_bs, fw 0x1b 0 0xff False),
     (cfg_iso15765_stmin, fw 0x1c 0 0xff False),
     (cfg_bs_tx, fw 0x1d 0 0xff True),
     (cfg_stmin_tx, fw 0x1e 0 0xff True),
     (cfg_iso15765_wft_max, fw 0x21 0 0xff False),
     (cfg_n_br_min, fw 0x26 0 0xffff False),
     (cfg_iso15765_pad_value, fw 0x22 0 0xff False),
     (cfg_dt_iso15765_pad_byte, fw 0x22 0 0xff False),
     (cfg_n_as_max, fw 0x23 1 0xffff False),
     (cfg_n_ar_max, fw 0x24 1 0xffff False),
     (cfg_n_bs_max, fw 0x25 1 0xffff False),
     (cfg_n_cr_max, fw 0x28 1 0xffff False),
     (cfg_n_cs_min, fw 0x27 0 0xffff False),
     (cfg_dt_pullup_value, read_only 0x31),
     (cfg_dt_half_duplex, read_only 0x2c)]"

definition supported_rates :: "u32 list" where
  "supported_rates =
    [33300, 33333, 50000, 62500, 83300, 83333, 95200, 95238, 100000, 125000, 166666, 166667, 200000,
     250000, 500000, 666666, 666667, 1000000]"

definition find_route :: "(u32 \<times> route) list \<Rightarrow> u32 \<Rightarrow> route option" where
  "find_route table parameter = map_option snd (find (\<lambda>e. fst e = parameter) table)"

definition config_route :: "u16 \<Rightarrow> u32 \<Rightarrow> exn + route" where
  "config_route protocol parameter =
     (if protocol \<noteq> CAN \<and> protocol \<noteq> ISO15765
      then Inl (Error ERR_NOT_SUPPORTED ''configuration is implemented for CAN and ISO15765 only'')
      else if parameter = cfg_j1962_pins
      then Inl (Error ERR_FAILED ''J1962_PINS only valid for *_PS ProtocolIDs'')
      else case (if protocol = CAN then find_route can_table parameter
                 else find_route iso_table parameter) of
        None \<Rightarrow> Inl (Error ERR_NOT_SUPPORTED ''configuration parameter not supported on this channel'')
      | Some route \<Rightarrow> Inr route)"

definition can_baud_supported :: "u32 \<Rightarrow> bool" where
  "can_baud_supported rate \<longleftrightarrow> rate \<in> set supported_rates"

definition config_validate_set :: "u16 \<Rightarrow> u32 \<Rightarrow> u32 \<Rightarrow> exn + unit" where
  "config_validate_set protocol parameter value =
     ebind (config_route protocol parameter) (\<lambda>route.
       if \<not> route_settable route
       then Inl (Error ERR_NOT_SUPPORTED
         ''this driver reads but does not change that parameter (electrical setting)'')
       else if parameter = cfg_data_rate \<and> \<not> can_baud_supported value
       then Inl (Error ERR_INVALID_IOCTL_VALUE ''unsupported CAN bit rate'')
       else if route_allow_ffff route \<and> value = 0xffff then Inr ()
       else if value < route_minimum route \<or> value > route_maximum route
       then Inl (Error ERR_INVALID_IOCTL_VALUE ''configuration value out of range'')
       else Inr ())"

section \<open>Lookup in the tables\<close>

lemma find_route_map_of: "find_route table p = map_of table p"
  by (induction table) (auto simp: find_route_def)

lemma distinct_can_table: "distinct (map fst can_table)"
  by (simp add: can_table_def)

lemma distinct_iso_table: "distinct (map fst iso_table)"
  by (simp add: iso_table_def)

lemma config_route_Inr_iff:
  "config_route protocol p = Inr r \<longleftrightarrow>
     protocol = CAN \<and> (p, r) \<in> set can_table \<or> protocol = ISO15765 \<and> (p, r) \<in> set iso_table"
proof -
  have "p \<noteq> cfg_j1962_pins" if "(p, r) \<in> set can_table \<or> (p, r) \<in> set iso_table"
    using that by (auto simp: can_table_def iso_table_def)
  then show ?thesis
    unfolding map_of_eq_Some_iff [OF distinct_can_table, symmetric]
      map_of_eq_Some_iff [OF distinct_iso_table, symmetric]
    by (auto simp: config_route_def find_route_map_of split: option.splits)
qed

text \<open>Every route of either table, as one finite check.\<close>

lemma all_routes:
  assumes "config_route protocol p = Inr r"
    and "\<forall>e \<in> set (can_table @ iso_table). P (fst e) (snd e)"
  shows "P p r"
  using assms unfolding config_route_Inr_iff set_append by force

lemma route_shape:
  assumes "config_route protocol p = Inr r"
  shows "unat (route_selector r) < 256"
    and "route_where r = HostLoopback \<longleftrightarrow> p = cfg_loopback"
    and "route_settable r \<Longrightarrow> route_maximum r \<le> 1000000"
    and "route_allow_ffff r \<Longrightarrow> p = cfg_bs_tx \<or> p = cfg_stmin_tx"
proof -
  have "unat (route_selector r) < 256 \<and> (route_where r = HostLoopback \<longleftrightarrow> p = cfg_loopback) \<and>
     (route_settable r \<longrightarrow> route_maximum r \<le> 1000000) \<and>
     (route_allow_ffff r \<longrightarrow> p = cfg_bs_tx \<or> p = cfg_stmin_tx)"
    by (rule all_routes [OF assms, where P = "\<lambda>p r. unat (route_selector r) < 256 \<and>
        (route_where r = HostLoopback \<longleftrightarrow> p = cfg_loopback) \<and>
        (route_settable r \<longrightarrow> route_maximum r \<le> 1000000) \<and>
        (route_allow_ffff r \<longrightarrow> p = cfg_bs_tx \<or> p = cfg_stmin_tx)"])
      (simp add: can_table_def iso_table_def fw_def read_only_def host_loopback_def)
  then show "unat (route_selector r) < 256"
    and "route_where r = HostLoopback \<longleftrightarrow> p = cfg_loopback"
    and "route_settable r \<Longrightarrow> route_maximum r \<le> 1000000"
    and "route_allow_ffff r \<Longrightarrow> p = cfg_bs_tx \<or> p = cfg_stmin_tx" by auto
qed

lemma supported_rate_range: "can_baud_supported v \<Longrightarrow> 1 \<le> v \<and> v \<le> 1000000"
  by (auto simp: can_baud_supported_def supported_rates_def)

lemma data_rate_route:
  "protocol = CAN \<or> protocol = ISO15765 \<Longrightarrow> config_route protocol cfg_data_rate = Inr (fw 0x04 1 1000000 False)"
  by (auto simp: config_route_Inr_iff can_table_def iso_table_def)

section \<open>Properties\<close>

text \<open>
  DATA_RATE through SetConfig is accepted for exactly the bit rates that Connect accepts: the
  table's range 1..1000000 never rejects a listed rate and the list is what decides.
\<close>

theorem config_data_rate_exact:
  assumes "protocol = CAN \<or> protocol = ISO15765"
  shows "config_validate_set protocol cfg_data_rate v =
    (if can_baud_supported v then Inr ()
     else Inl (Error ERR_INVALID_IOCTL_VALUE ''unsupported CAN bit rate''))"
  unfolding config_validate_set_def data_rate_route [OF assms]
  using supported_rate_range [of v] by (auto simp: fw_def)

theorem config_data_rate_exact_witness:
  "config_validate_set CAN cfg_data_rate 500000 = Inr () \<and>
   config_validate_set ISO15765 cfg_data_rate 500001 =
     Inl (Error ERR_INVALID_IOCTL_VALUE ''unsupported CAN bit rate'')"
proof -
  have "can_baud_supported 500000" and "\<not> can_baud_supported 500001"
    by (simp_all add: can_baud_supported_def supported_rates_def)
  then show ?thesis
    using config_data_rate_exact [of CAN 500000] config_data_rate_exact [of ISO15765 500001] by auto
qed

text \<open>
  Two different parameters of one channel are kept under different firmware selectors, except the
  two names of the ISO15765 padding byte, so a SetConfig of one parameter cannot overwrite another.
\<close>

theorem config_selectors_distinct:
  assumes "config_route protocol p = Inr r" and "config_route protocol q = Inr s"
    and "route_where r = Firmware" and "route_where s = Firmware"
    and "route_selector r = route_selector s"
  shows "p = q \<or> {p, q} = {cfg_iso15765_pad_value, cfg_dt_iso15765_pad_byte}"
proof -
  have "(\<forall>e \<in> set can_table. \<forall>f \<in> set can_table. route_selector (snd e) = route_selector (snd f) \<longrightarrow> fst e = fst f)"
    by (simp add: can_table_def fw_def read_only_def host_loopback_def)
  moreover have "\<forall>e \<in> set iso_table. \<forall>f \<in> set iso_table. route_selector (snd e) = route_selector (snd f) \<longrightarrow>
      fst e = fst f \<or> {fst e, fst f} = {cfg_iso15765_pad_value, cfg_dt_iso15765_pad_byte}"
    by (simp add: iso_table_def fw_def read_only_def host_loopback_def insert_commute)
  ultimately show ?thesis
    using assms unfolding config_route_Inr_iff by fastforce
qed

theorem config_selectors_distinct_witness:
  "{cfg_iso15765_pad_value, cfg_dt_iso15765_pad_byte} = {0x2b, 0x10000001 :: u32}"
proof -
  have "config_route ISO15765 0x2b = Inr (fw 0x22 0 0xff False)"
    and "config_route ISO15765 0x10000001 = Inr (fw 0x22 0 0xff False)"
    by (simp_all add: config_route_Inr_iff iso_table_def)
  from config_selectors_distinct [OF this] show ?thesis by (simp add: fw_def)
qed

text \<open>
  C4. A value that SetConfig accepts can be sent as it is: its parameter has a route that this driver may
  write, the selector fits the one byte GetConfig sends (so the echoed selector can match), the value is at
  most 1000000, LOOPBACK, the only parameter kept on the host, is 0 or 1, and 0xFFFF above the range is
  accepted for BS_TX and STMIN_TX only.
\<close>

theorem config_accepted_values:
  assumes "config_validate_set protocol p v = Inr ()"
  shows "\<exists>r. config_route protocol p = Inr r \<and> route_settable r \<and> unat (route_selector r) < 256 \<and>
    v \<le> 1000000 \<and> (route_where r = HostLoopback \<longleftrightarrow> p = cfg_loopback) \<and> (p = cfg_loopback \<longrightarrow> v = 0 \<or> v = 1) \<and>
    (route_minimum r \<le> v \<and> v \<le> route_maximum r \<or> v = 0xffff \<and> (p = cfg_bs_tx \<or> p = cfg_stmin_tx))"
proof -
  obtain r where r: "config_route protocol p = Inr r" "route_settable r"
    "route_allow_ffff r \<and> v = 0xffff \<or> route_minimum r \<le> v \<and> v \<le> route_maximum r"
    using assms by (auto simp: config_validate_set_def ebind_eq_Inr_iff not_less split: if_splits)
  have one: "w = 0 \<or> w = 1" if "w \<le> 1" for w :: u32
  proof -
    from that have "unat w = 0 \<or> unat w = 1" by (auto simp: word_le_nat_alt)
    then show ?thesis using word_unat_eq_iff [of w 1] by (auto simp: unat_eq_zero)
  qed
  have "r = host_loopback" if "p = cfg_loopback"
    using r(1) unfolding config_route_Inr_iff that by (auto simp: can_table_def iso_table_def)
  then have "p = cfg_loopback \<longrightarrow> v = 0 \<or> v = 1"
    using r(3) one [of v] by (auto simp: host_loopback_def)
  moreover have "v \<le> 1000000"
    using r(3) route_shape(3) [OF r(1,2)] by (auto intro: order_trans)
  moreover have "route_minimum r \<le> v \<and> v \<le> route_maximum r \<or> v = 0xffff \<and> (p = cfg_bs_tx \<or> p = cfg_stmin_tx)"
    using r(3) route_shape(4) [OF r(1)] by blast
  ultimately show ?thesis using r(1,2) route_shape(1,2) [OF r(1)] by (intro exI [of _ r] conjI)
qed

theorem config_accepted_values_witness:
  "config_validate_set ISO15765 cfg_bs_tx 0xffff = Inr () \<and> (0xffff :: u32) \<le> 1000000"
proof -
  have "config_validate_set ISO15765 cfg_bs_tx 0xffff = Inr ()"
    by (simp add: config_validate_set_def config_route_def find_route_def iso_table_def fw_def)
  with config_accepted_values [OF this] show ?thesis by blast
qed

end
