(* ===== verification/Selector.thy ===== *)
theory Selector
  imports Mongoose_Base
begin

text \<open>
  src/selector.cpp, with \<open>Backend\<close> and \<open>Selector\<close> of src/transport.hpp: the name given to
  PassThruOpen. The grammar \<open>open_name\<close> is the specification, one rule per accepted shape;
  \<open>parse_selector\<close> is proved to accept exactly it.
\<close>

section \<open>Definitions\<close>

datatype backend = Tty | Usb

record selector =
  sel_backend :: backend
  sel_serial :: string
  sel_path :: string

definition selector_default :: selector where
  "selector_default = \<lparr>sel_backend = Tty, sel_serial = [], sel_path = []\<rparr>"

definition accepted_names :: string where
  "accepted_names = ''Open name must be NULL, serial:S, tty:[serial:S|/dev/ttyACMn] or usb:[serial:S]''"

text \<open>\<open>consume\<close> removes the prefix from its reference argument; the model returns both.\<close>

definition consume :: "string \<Rightarrow> string \<Rightarrow> bool \<times> string" where
  "consume t prefix =
     (if take (length prefix) t \<noteq> prefix then (False, t) else (True, drop (length prefix) t))"

text \<open>\<open>rest.find("..")\<close> finds something.\<close>

fun has_dotdot :: "string \<Rightarrow> bool" where
  "has_dotdot [] = False"
| "has_dotdot (c # s) = (c = CHR ''.'' \<and> s \<noteq> [] \<and> hd s = CHR ''.'' \<or> has_dotdot s)"

definition parse_remainder :: "string \<Rightarrow> selector \<Rightarrow> bool \<Rightarrow> exn + selector" where
  "parse_remainder rest sel allow_path =
     (if rest = [] then Inr sel
      else if allow_path \<and> hd rest = CHR ''/'' then
        (if has_dotdot rest then Inl (Error ERR_FAILED (''device node path must not contain '' @ [CHR 0x27] @ ''..'' @ [CHR 0x27]))
         else Inr (sel\<lparr>sel_path := rest\<rparr>))
      else
        let (found, rest') = consume rest ''serial:'' in
        if \<not> found then Inl (Error ERR_FAILED accepted_names)
        else if rest' = [] then Inl (Error ERR_FAILED ''serial: needs a serial number'')
        else Inr (sel\<lparr>sel_serial := rest'\<rparr>))"

definition parse_selector :: "string \<Rightarrow> exn + selector" where
  "parse_selector name =
     (if name = [] then Inr selector_default
      else
        let (tty, rest) = consume name ''tty:'' in
        if tty then parse_remainder rest selector_default True
        else
          let (usb, rest) = consume name ''usb:'' in
          if usb then parse_remainder rest (selector_default\<lparr>sel_backend := Usb\<rparr>) False
          else if take 7 name = ''serial:'' then parse_remainder name selector_default False
          else Inl (Error ERR_FAILED accepted_names))"

section \<open>The grammar of names\<close>

inductive open_name :: "string \<Rightarrow> selector \<Rightarrow> bool" where
  any_adapter: "open_name [] selector_default"
| tty_any: "open_name ''tty:'' selector_default"
| tty_path: "hd p = CHR ''/'' \<Longrightarrow> p \<noteq> [] \<Longrightarrow> \<not> has_dotdot p \<Longrightarrow>
    open_name (''tty:'' @ p) (selector_default\<lparr>sel_path := p\<rparr>)"
| tty_serial: "s \<noteq> [] \<Longrightarrow> open_name (''tty:serial:'' @ s) (selector_default\<lparr>sel_serial := s\<rparr>)"
| usb_any: "open_name ''usb:'' (selector_default\<lparr>sel_backend := Usb\<rparr>)"
| usb_serial: "s \<noteq> [] \<Longrightarrow> open_name (''usb:serial:'' @ s) (selector_default\<lparr>sel_backend := Usb, sel_serial := s\<rparr>)"
| bare_serial: "s \<noteq> [] \<Longrightarrow> open_name (''serial:'' @ s) (selector_default\<lparr>sel_serial := s\<rparr>)"

lemma consume_append: "consume (prefix @ t) prefix = (True, t)"
  by (simp add: consume_def)

lemma consume_TrueE:
  assumes "consume t prefix = (True, rest)"
  obtains "t = prefix @ rest"
proof
  from assms have "take (length prefix) t = prefix" "rest = drop (length prefix) t"
    by (auto simp: consume_def split: if_splits)
  then show "t = prefix @ rest" by (metis append_take_drop_id)
qed

lemma parse_remainder_Inr:
  assumes "parse_remainder rest sel allow = Inr sel'"
  shows "rest = [] \<and> sel' = sel \<or>
    allow \<and> rest \<noteq> [] \<and> hd rest = CHR ''/'' \<and> \<not> has_dotdot rest \<and> sel' = sel\<lparr>sel_path := rest\<rparr> \<or>
    (\<exists>s. s \<noteq> [] \<and> rest = ''serial:'' @ s \<and> sel' = sel\<lparr>sel_serial := s\<rparr>)"
proof -
  obtain found rest' where c: "consume rest ''serial:'' = (found, rest')"
    by (cases "consume rest ''serial:''")
  show ?thesis
  proof (cases "found")
    case True
    then have "rest = ''serial:'' @ rest'" using c by (auto elim: consume_TrueE)
    with assms c show ?thesis by (auto simp: parse_remainder_def split: if_splits)
  next
    case False
    with assms c show ?thesis by (auto simp: parse_remainder_def split: if_splits)
  qed
qed

lemma parse_remainder_Inl: "parse_remainder rest sel allow = Inl e \<Longrightarrow> exn_status e = ERR_FAILED"
  by (auto simp: parse_remainder_def split: if_splits prod.splits)

lemma parse_selector_Inl: "parse_selector name = Inl e \<Longrightarrow> \<exists>w. e = Error ERR_FAILED w"
  by (auto simp: parse_selector_def parse_remainder_def split: if_splits prod.splits)

lemma open_name_parse: "open_name name sel \<Longrightarrow> parse_selector name = Inr sel"
proof (induction rule: open_name.induct)
  case (tty_path p)
  then show ?case by (simp add: parse_selector_def consume_def parse_remainder_def)
qed (simp_all add: parse_selector_def consume_def parse_remainder_def)

lemma parse_open_name:
  assumes "parse_selector name = Inr sel"
  shows "open_name name sel"
proof -
  obtain tty r1 usb r2 where c: "consume name ''tty:'' = (tty, r1)" "consume name ''usb:'' = (usb, r2)"
    by (metis surj_pair)
  consider (empty) "name = []" | (tty) "name \<noteq> []" tty | (usb) "name \<noteq> []" "\<not> tty" usb
    | (serial) "name \<noteq> []" "\<not> tty" "\<not> usb" by blast
  then show ?thesis
  proof cases
    case empty
    with assms show ?thesis by (auto simp: parse_selector_def intro: open_name.intros)
  next
    case tty
    with c have name: "name = ''tty:'' @ r1" by (auto elim: consume_TrueE)
    from tty c assms have "parse_remainder r1 selector_default True = Inr sel"
      by (simp add: parse_selector_def)
    from parse_remainder_Inr [OF this] show ?thesis
      using name open_name.tty_any open_name.tty_path open_name.tty_serial by auto
  next
    case usb
    with c have name: "name = ''usb:'' @ r2" by (auto elim: consume_TrueE)
    from usb c assms have "parse_remainder r2 (selector_default\<lparr>sel_backend := Usb\<rparr>) False = Inr sel"
      by (simp add: parse_selector_def)
    from parse_remainder_Inr [OF this] show ?thesis
      using name open_name.usb_any open_name.usb_serial by auto
  next
    case serial
    with c assms have "parse_remainder name selector_default False = Inr sel"
      by (auto simp: parse_selector_def split: if_splits)
    from parse_remainder_Inr [OF this] show ?thesis
      using serial open_name.bare_serial by auto
  qed
qed

section \<open>Properties\<close>

text \<open>
  C5. The name parser accepts exactly the documented grammar and yields the selector it denotes.
\<close>

theorem parse_selector_exact: "parse_selector name = Inr sel \<longleftrightarrow> open_name name sel"
  using parse_open_name open_name_parse by blast

text \<open>
  A rejected name always gives ERR_FAILED, and an accepted one never selects a device node with
  \<open>..\<close> in it, never both a node and a serial number, and never a node on the libusb backend.
\<close>

theorem parse_selector_safe:
  "case parse_selector name of
     Inl e \<Rightarrow> exn_status e = ERR_FAILED
   | Inr sel \<Rightarrow> \<not> has_dotdot (sel_path sel) \<and> (sel_path sel = [] \<or> sel_serial sel = []) \<and>
       (sel_backend sel = Tty \<or> sel_path sel = []) \<and> (sel_path sel = [] \<or> hd (sel_path sel) = CHR ''/'')"
proof (cases "parse_selector name")
  case (Inl e)
  then show ?thesis using parse_selector_Inl by fastforce
next
  case (Inr sel)
  from parse_open_name [OF this]
  have "\<not> has_dotdot (sel_path sel) \<and> (sel_path sel = [] \<or> sel_serial sel = []) \<and>
    (sel_backend sel = Tty \<or> sel_path sel = []) \<and> (sel_path sel = [] \<or> hd (sel_path sel) = CHR ''/'')"
    by cases (simp_all add: selector_default_def)
  then show ?thesis by (simp add: Inr)
qed

end
