(* ===== verification/IsoTp.thy ===== *)
theory IsoTp
  imports Mongoose_Base
begin

text \<open>
  src/isotp.hpp and src/isotp.cpp: host-side ISO15765 receive reassembly.

  The reassembler is the list of its assemblies, oldest first, as \<open>assemblies_\<close> is; \<open>find\<close>
  looks the first one with an identifier up, \<open>erase\<close> and the update through the iterator
  act on that one. The specification is a machine for ONE conversation, \<open>conv_step\<close>; the
  list is proved to implement one such machine per identifier, with eviction of the oldest
  conversation the only way in which one identifier affects another. \<open>isotp_segments\<close> is
  the sender's side of ISO 15765-2, used to state what reassembly promises.
\<close>

section \<open>Definitions\<close>

definition identifier_size :: nat where [simp]: "identifier_size = 4"
definition single_limit :: nat where [simp]: "single_limit = 7"
definition segmented_minimum :: nat where [simp]: "segmented_minimum = 8"
definition max_message :: nat where [simp]: "max_message = 0xfff"
definition max_conversations :: nat where [simp]: "max_conversations = 32"

record iso_output =
  out_status :: u32
  out_data :: bytes

record assembly =
  asm_id :: u32
  asm_message :: bytes
  asm_expected :: nat
  asm_sequence :: u8

type_synonym reassembler = "assembly list"

definition with_identifier :: "bytes \<Rightarrow> bytes" where
  "with_identifier frame = take identifier_size frame"

definition source_id :: "bytes \<Rightarrow> u32" where
  "source_id frame =
     push_bit 24 (ucast (frame ! 0)) OR push_bit 16 (ucast (frame ! 1)) OR
     push_bit 8 (ucast (frame ! 2)) OR ucast (frame ! 3)"

fun find_assembly :: "reassembler \<Rightarrow> u32 \<Rightarrow> assembly option" where
  "find_assembly [] i = None"
| "find_assembly (a # as) i = (if asm_id a = i then Some a else find_assembly as i)"

definition assembling :: "reassembler \<Rightarrow> u32 \<Rightarrow> bool" where
  "assembling as i \<longleftrightarrow> list_ex (\<lambda>a. asm_id a = i) as"

text \<open>\<open>assemblies_.erase(found)\<close>, and the in-place update of \<open>*found\<close>.\<close>

fun erase_assembly :: "reassembler \<Rightarrow> u32 \<Rightarrow> reassembler" where
  "erase_assembly [] i = []"
| "erase_assembly (a # as) i = (if asm_id a = i then as else a # erase_assembly as i)"

fun update_assembly :: "reassembler \<Rightarrow> u32 \<Rightarrow> assembly \<Rightarrow> reassembler" where
  "update_assembly [] i b = []"
| "update_assembly (a # as) i b = (if asm_id a = i then b # as else a # update_assembly as i b)"

definition drop_assembly :: "reassembler \<Rightarrow> u32 \<Rightarrow> reassembler" where
  "drop_assembly as i = (if find_assembly as i \<noteq> None then erase_assembly as i else as)"

definition reassembler_reset :: "reassembler \<Rightarrow> reassembler" where
  "reassembler_reset as = []"

definition iso_single :: "reassembler \<Rightarrow> bytes \<Rightarrow> iso_output list \<times> reassembler" where
  "iso_single as frame =
     (if length frame < identifier_size + 1 then ([], drop_assembly as (source_id frame))
      else
        let len = unat (frame ! identifier_size AND 0x0f) in
        if len > single_limit then ([], drop_assembly as (source_id frame))
        else if len > length frame - identifier_size - 1 then ([], drop_assembly as (source_id frame))
        else
          ([\<lparr>out_status = 0,
             out_data = with_identifier frame @ take len (drop (identifier_size + 1) frame)\<rparr>], as))"

definition announced_length :: "bytes \<Rightarrow> nat" where
  "announced_length frame =
     push_bit 8 (unat (frame ! identifier_size AND 0x0f)) OR unat (frame ! (identifier_size + 1))"

definition iso_first :: "reassembler \<Rightarrow> bytes \<Rightarrow> iso_output list \<times> reassembler" where
  "iso_first as frame =
     (if length frame < identifier_size + 2 then ([], as)
      else
        let announced = announced_length frame in
        if announced < segmented_minimum \<or> announced > max_message then ([], as)
        else
          let payload = drop (identifier_size + 2) frame;
              taken = min (length payload) announced;
              a = \<lparr>asm_id = source_id frame,
                   asm_message = with_identifier frame @ take taken payload,
                   asm_expected = announced, asm_sequence = 1\<rparr>;
              kept = (if length as = max_conversations then drop 1 as else as)
          in ([\<lparr>out_status = START_OF_MESSAGE, out_data = with_identifier frame\<rparr>], kept @ [a]))"

definition iso_consecutive :: "reassembler \<Rightarrow> bytes \<Rightarrow> iso_output list \<times> reassembler" where
  "iso_consecutive as frame =
     (case find_assembly as (source_id frame) of
        None \<Rightarrow> ([], as)
      | Some found \<Rightarrow>
          if length frame < identifier_size + 2 then ([], erase_assembly as (source_id frame))
          else if frame ! identifier_size AND 0x0f \<noteq> asm_sequence found
          then ([], erase_assembly as (source_id frame))
          else
            let payload = drop (identifier_size + 1) frame;
                outstanding = asm_expected found - (length (asm_message found) - identifier_size);
                taken = min (length payload) outstanding;
                found' = found\<lparr>asm_sequence := (asm_sequence found + 1) AND 0x0f,
                               asm_message := asm_message found @ take taken payload\<rparr>
            in if length (asm_message found') - identifier_size < asm_expected found'
               then ([], update_assembly as (source_id frame) found')
               else ([\<lparr>out_status = 0, out_data = asm_message found'\<rparr>],
                     erase_assembly as (source_id frame)))"

definition reassembler_feed :: "reassembler \<Rightarrow> bytes \<Rightarrow> iso_output list \<times> reassembler" where
  "reassembler_feed as frame =
     (if length frame \<le> identifier_size then ([], as)
      else
        let type = drop_bit 4 (frame ! identifier_size) in
        if find_assembly as (source_id frame) = None then
          (if type = 0 then iso_single as frame
           else if type = 1 then iso_first as frame
           else ([], as))
        else if type = 0 then iso_single as frame
        else if type = 1 then iso_first (drop_assembly as (source_id frame)) frame
        else if type = 2 then iso_consecutive as frame
        else ([], as))"

text \<open>The caller's loop: one frame after the other.\<close>

fun reassembler_run :: "reassembler \<Rightarrow> bytes list \<Rightarrow> iso_output list \<times> reassembler" where
  "reassembler_run as [] = ([], as)"
| "reassembler_run as (f # fs) =
     (let (o1, as1) = reassembler_feed as f; (o2, as2) = reassembler_run as1 fs in (o1 @ o2, as2))"

section \<open>The list as a map\<close>

abbreviation ids :: "reassembler \<Rightarrow> u32 list" where
  "ids as \<equiv> map asm_id as"

lemma find_assembly_None_iff: "find_assembly as i = None \<longleftrightarrow> i \<notin> set (ids as)"
  by (induction as) auto

lemma find_assembly_None [simp]: "i \<notin> asm_id ` set as \<Longrightarrow> find_assembly as i = None"
  by (simp add: find_assembly_None_iff)

lemma find_assembly_SomeD: "find_assembly as i = Some a \<Longrightarrow> a \<in> set as \<and> asm_id a = i"
  by (induction as) (auto split: if_splits)

lemma find_assembly_iff: "distinct (ids as) \<Longrightarrow> find_assembly as i = Some a \<longleftrightarrow> a \<in> set as \<and> asm_id a = i"
  by (induction as) (auto intro: rev_image_eqI)

lemma find_assembly_append:
  "find_assembly (as @ bs) i = (case find_assembly as i of None \<Rightarrow> find_assembly bs i | Some a \<Rightarrow> Some a)"
  by (induction as) auto

lemma erase_assembly_notin: "i \<notin> set (ids as) \<Longrightarrow> erase_assembly as i = as"
  by (induction as) auto

lemma drop_assembly_eq [simp]: "drop_assembly as i = erase_assembly as i"
  by (auto simp: drop_assembly_def erase_assembly_notin find_assembly_None_iff)

lemma set_erase_assembly: "set (erase_assembly as i) \<subseteq> set as"
  by (induction as) auto

lemma ids_erase_assembly: "distinct (ids as) \<Longrightarrow> set (ids (erase_assembly as i)) = set (ids as) - {i}"
proof (induction as)
  case (Cons a as)
  then show ?case by (cases "asm_id a = i") (auto simp del: set_map simp: set_map [symmetric])
qed simp

lemma distinct_erase_assembly: "distinct (ids as) \<Longrightarrow> distinct (ids (erase_assembly as i))"
  by (induction as) (use set_erase_assembly in fastforce)+

lemma length_erase_assembly: "length (erase_assembly as i) = (if i \<in> set (ids as) then length as - 1 else length as)"
  by (induction as) (auto simp: Suc_diff_le gr0_conv_Suc dest!: split_list)

lemma find_erase_assembly:
  "distinct (ids as) \<Longrightarrow> find_assembly (erase_assembly as i) j = (if i = j then None else find_assembly as j)"
  by (induction as) auto

lemma ids_update_assembly: "asm_id b = i \<Longrightarrow> ids (update_assembly as i b) = ids as"
  by (induction as) auto

lemma set_update_assembly: "set (update_assembly as i b) \<subseteq> insert b (set as)"
  by (induction as) auto

lemma find_update_assembly:
  "asm_id b = i \<Longrightarrow> i \<in> set (ids as) \<Longrightarrow>
   find_assembly (update_assembly as i b) j = (if i = j then Some b else find_assembly as j)"
  by (induction as) auto

lemma length_update_assembly [simp]: "length (update_assembly as i b) = length as"
  by (induction as) auto

section \<open>One conversation\<close>

text \<open>
  What ISO 15765-2 reception does for one identifier: a single frame is delivered and leaves the
  conversation alone when it is well formed and ends it when it is not; a first frame replaces it; a
  consecutive frame continues it, completes it, or, out of sequence, ends it.
\<close>

definition single_ok :: "bytes \<Rightarrow> bool" where
  "single_ok frame \<longleftrightarrow>
     unat (frame ! 4 AND 0x0f) \<le> 7 \<and> unat (frame ! 4 AND 0x0f) + 5 \<le> length frame"

definition single_message :: "bytes \<Rightarrow> iso_output" where
  "single_message frame =
     \<lparr>out_status = 0, out_data = take 4 frame @ take (unat (frame ! 4 AND 0x0f)) (drop 5 frame)\<rparr>"

definition first_ok :: "bytes \<Rightarrow> bool" where
  "first_ok frame \<longleftrightarrow> 6 \<le> length frame \<and> 8 \<le> announced_length frame \<and> announced_length frame \<le> 4095"

definition first_assembly :: "bytes \<Rightarrow> assembly" where
  "first_assembly frame =
     \<lparr>asm_id = source_id frame, asm_message = take 4 frame @ take (announced_length frame) (drop 6 frame),
      asm_expected = announced_length frame, asm_sequence = 1\<rparr>"

definition start_indication :: "bytes \<Rightarrow> iso_output" where
  "start_indication frame = \<lparr>out_status = START_OF_MESSAGE, out_data = take 4 frame\<rparr>"

definition extend_assembly :: "assembly \<Rightarrow> bytes \<Rightarrow> assembly" where
  "extend_assembly a frame =
     a\<lparr>asm_sequence := (asm_sequence a + 1) AND 0x0f,
       asm_message := asm_message a @
         take (asm_expected a - (length (asm_message a) - 4)) (drop 5 frame)\<rparr>"

definition conv_step :: "assembly option \<Rightarrow> bytes \<Rightarrow> iso_output list \<times> assembly option" where
  "conv_step c frame =
     (let type = drop_bit 4 (frame ! 4) in
      if type = 0 then (if single_ok frame then ([single_message frame], c) else ([], None))
      else if type = 1 then
        (if first_ok frame then ([start_indication frame], Some (first_assembly frame)) else ([], None))
      else if type = 2 then
        (case c of
           None \<Rightarrow> ([], None)
         | Some a \<Rightarrow>
             if length frame < 6 \<or> frame ! 4 AND 0x0f \<noteq> asm_sequence a then ([], None)
             else let a' = extend_assembly a frame in
               if length (asm_message a') - 4 < asm_expected a' then ([], Some a')
               else ([\<lparr>out_status = 0, out_data = asm_message a'\<rparr>], None))
      else ([], c))"

text \<open>The frame that pushes the oldest conversation out: a first frame of a 33rd identifier.\<close>

definition evicts :: "reassembler \<Rightarrow> bytes \<Rightarrow> bool" where
  "evicts as frame \<longleftrightarrow> drop_bit 4 (frame ! 4) = 1 \<and> first_ok frame \<and> length as = 32 \<and>
     source_id frame \<notin> set (ids as)"

definition reassembler_inv :: "reassembler \<Rightarrow> bool" where
  "reassembler_inv as \<longleftrightarrow> distinct (ids as) \<and> length as \<le> 32 \<and>
     (\<forall>a \<in> set as. 4 \<le> length (asm_message a) \<and> length (asm_message a) - 4 \<le> asm_expected a \<and>
        8 \<le> asm_expected a \<and> asm_expected a \<le> 4095 \<and> source_id (asm_message a) = asm_id a \<and>
        unat (asm_sequence a) < 16)"

lemma reassembler_inv_Nil [simp]: "reassembler_inv []"
  by (simp add: reassembler_inv_def)

lemma take_min_length [simp]: "take (min (length xs) n) xs = take n xs"
  by (simp add: min_def)

lemma iso_single_eq:
  "4 < length frame \<Longrightarrow>
   iso_single as frame =
     (if single_ok frame then ([single_message frame], as) else ([], erase_assembly as (source_id frame)))"
  by (auto simp: iso_single_def single_ok_def single_message_def with_identifier_def Let_def)

lemma iso_first_eq:
  "iso_first as frame =
     (if first_ok frame
      then ([start_indication frame], (if length as = 32 then drop 1 as else as) @ [first_assembly frame])
      else ([], as))"
  by (auto simp: iso_first_def first_ok_def start_indication_def first_assembly_def with_identifier_def
      Let_def take_min_length [of "drop 6 frame", simplified])

lemma iso_consecutive_eq:
  "4 < length frame \<Longrightarrow>
   iso_consecutive as frame =
     (case find_assembly as (source_id frame) of
        None \<Rightarrow> ([], as)
      | Some a \<Rightarrow>
          if length frame < 6 \<or> frame ! 4 AND 0x0f \<noteq> asm_sequence a
          then ([], erase_assembly as (source_id frame))
          else let a' = extend_assembly a frame in
            if length (asm_message a') - 4 < asm_expected a'
            then ([], update_assembly as (source_id frame) a')
            else ([\<lparr>out_status = 0, out_data = asm_message a'\<rparr>], erase_assembly as (source_id frame)))"
proof (cases "find_assembly as (source_id frame)")
  case (Some a)
  have num: "(4 :: nat) + 1 = 5" "(4 :: nat) + 2 = 6" by simp_all
  show ?thesis
    unfolding iso_consecutive_def Some Let_def option.case identifier_size_def num take_min_length
      extend_assembly_def [symmetric]
    by simp
qed (simp add: iso_consecutive_def)

text \<open>\<open>feed\<close>, by cases on the type, with the two lookups merged.\<close>

lemma reassembler_feed_eq:
  assumes "4 < length frame"
  shows "reassembler_feed as frame =
    (let type = drop_bit 4 (frame ! 4) in
     if type = 0 then iso_single as frame
     else if type = 1 then iso_first (erase_assembly as (source_id frame)) frame
     else if type = 2 then iso_consecutive as frame
     else ([], as))"
proof (cases "find_assembly as (source_id frame)")
  case None
  then have "source_id frame \<notin> asm_id ` set as" by (simp add: find_assembly_None_iff)
  then show ?thesis using assms None
    by (simp add: reassembler_feed_def Let_def erase_assembly_notin iso_consecutive_def)
next
  case (Some a)
  with assms show ?thesis by (simp add: reassembler_feed_def Let_def)
qed

lemma asm_id_extend [simp]: "asm_id (extend_assembly a frame) = asm_id a"
  by (simp add: extend_assembly_def)

lemma asm_id_first [simp]: "asm_id (first_assembly frame) = source_id frame"
  by (simp add: first_assembly_def)

lemma find_first:
  assumes "distinct (ids as)" and "i \<notin> set (ids as)"
  shows "find_assembly ((if full then drop 1 as else as) @ [b]) j =
    (if full \<and> as \<noteq> [] \<and> j = asm_id (hd as) then (if asm_id b = j then Some b else None)
     else if j \<in> set (ids as) then find_assembly as j
     else if asm_id b = j then Some b else None)"
proof (cases as)
  case (Cons a bs)
  then show ?thesis using assms
    by (cases "j \<in> asm_id ` set bs")
      (auto simp: find_assembly_append find_assembly_None_iff split: option.splits)
qed auto

section \<open>The list implements one conversation per identifier\<close>

lemma feed_outputs:
  assumes "4 < length frame" and "distinct (ids as)"
  shows "fst (reassembler_feed as frame) = fst (conv_step (find_assembly as (source_id frame)) frame)"
  unfolding reassembler_feed_eq [OF assms(1)] conv_step_def
  using assms
  by (cases "find_assembly as (source_id frame)")
    (simp_all add: iso_single_eq iso_first_eq iso_consecutive_eq Let_def)

lemma length_first: "length ((if full then drop 1 as else as) @ [b]) =
    (if full \<and> as \<noteq> [] then length as else Suc (length as))"
  by (cases as) auto

lemma feed_lookup:
  assumes "4 < length frame" and "distinct (ids as)" and "length as \<le> 32"
  shows "find_assembly (snd (reassembler_feed as frame)) j =
    (if j = source_id frame then snd (conv_step (find_assembly as (source_id frame)) frame)
     else if evicts as frame \<and> j = asm_id (hd as) then None
     else find_assembly as j)"
proof -
  let ?i = "source_id frame"
  let ?t = "drop_bit 4 (frame ! 4)"
  consider (single) "?t = 0" | (first) "?t = 1" | (cons) "?t = 2" | (other) "?t \<noteq> 0" "?t \<noteq> 1" "?t \<noteq> 2"
    by blast
  then show ?thesis
  proof cases
    case single
    then show ?thesis using assms
      by (auto simp: reassembler_feed_eq conv_step_def iso_single_eq evicts_def find_erase_assembly Let_def)
  next
    case first
    let ?es = "erase_assembly as ?i"
    have d: "distinct (ids ?es)" "?i \<notin> set (ids ?es)"
      using assms(2) distinct_erase_assembly ids_erase_assembly by blast+
    have ids: "asm_id ` set ?es = asm_id ` set as - {?i}"
      using ids_erase_assembly [OF assms(2), of ?i] by simp
    show ?thesis
    proof (cases "?i \<in> set (ids as)")
      case True
      then have "length ?es \<noteq> 32" using assms(3) by (auto simp: length_erase_assembly)
      then show ?thesis using first assms True ids find_first [OF d, of False "first_assembly frame" j]
        by (auto simp: reassembler_feed_eq conv_step_def iso_first_eq evicts_def find_erase_assembly Let_def)
    next
      case False
      then have es: "?es = as" by (rule erase_assembly_notin)
      then show ?thesis using first assms False find_first [OF assms(2), of ?i "length as = 32" "first_assembly frame" j]
        by (auto simp: reassembler_feed_eq conv_step_def iso_first_eq evicts_def Let_def)
    qed
  next
    case cons
    show ?thesis
    proof (cases "find_assembly as ?i")
      case (Some a)
      then have "asm_id a = ?i" "?i \<in> set (ids as)"
        by (auto dest!: find_assembly_SomeD intro: rev_image_eqI)
      with Some cons assms show ?thesis
        by (auto simp: reassembler_feed_eq conv_step_def iso_consecutive_eq evicts_def find_erase_assembly
            find_update_assembly Let_def)
    next
      case None
      with cons assms show ?thesis
        by (simp add: reassembler_feed_eq conv_step_def iso_consecutive_eq evicts_def Let_def)
    qed
  next
    case other
    then show ?thesis using assms
      by (simp add: reassembler_feed_eq conv_step_def evicts_def Let_def)
  qed
qed


lemma source_id_take [simp]: "4 \<le> length frame \<Longrightarrow> source_id (take 4 frame @ xs) = source_id frame"
  by (simp add: source_id_def nth_append)

lemma source_id_append: "4 \<le> length m \<Longrightarrow> source_id (m @ xs) = source_id m"
  by (auto simp: source_id_def nth_append)

lemma sequence_wraps: "unat ((s + 1 :: u8) AND 0x0f) < 16"
proof -
  have "(15 :: u8) = mask 4" by (simp add: mask_eq_exp_minus_1)
  then have "(s + 1) AND 0x0f = take_bit 4 (s + 1)" by (simp add: take_bit_eq_mask)
  then show ?thesis by (simp add: unsigned_take_bit_eq take_bit_nat_def)
qed

definition assembly_ok :: "assembly \<Rightarrow> bool" where
  "assembly_ok a \<longleftrightarrow> 4 \<le> length (asm_message a) \<and> length (asm_message a) - 4 \<le> asm_expected a \<and>
     8 \<le> asm_expected a \<and> asm_expected a \<le> 4095 \<and> source_id (asm_message a) = asm_id a \<and>
     unat (asm_sequence a) < 16"

lemma reassembler_inv_alt:
  "reassembler_inv as \<longleftrightarrow> distinct (ids as) \<and> length as \<le> 32 \<and> (\<forall>a \<in> set as. assembly_ok a)"
  by (auto simp: reassembler_inv_def assembly_ok_def)

lemma assembly_ok_first: "first_ok frame \<Longrightarrow> assembly_ok (first_assembly frame)"
  by (auto simp: first_ok_def first_assembly_def assembly_ok_def)

lemma assembly_ok_extend: "assembly_ok a \<Longrightarrow> assembly_ok (extend_assembly a frame)"
  by (auto simp: extend_assembly_def assembly_ok_def source_id_append sequence_wraps)

lemma reassembler_inv_erase: "reassembler_inv as \<Longrightarrow> reassembler_inv (erase_assembly as i)"
  using set_erase_assembly [of as i]
  by (auto simp: reassembler_inv_alt distinct_erase_assembly length_erase_assembly)

lemma reassembler_inv_update:
  "reassembler_inv as \<Longrightarrow> assembly_ok b \<Longrightarrow> asm_id b = i \<Longrightarrow> reassembler_inv (update_assembly as i b)"
  using set_update_assembly [of as i b]
  by (auto simp: reassembler_inv_alt ids_update_assembly)

lemma reassembler_inv_push:
  assumes "reassembler_inv as" and "assembly_ok b" and "asm_id b \<notin> set (ids as)"
  shows "reassembler_inv ((if length as = 32 then drop 1 as else as) @ [b])"
proof -
  have sub: "set (if length as = 32 then drop 1 as else as) \<subseteq> set as"
    using set_drop_subset [of 1 as] by auto
  have "distinct (ids (if length as = 32 then drop 1 as else as))"
    using assms(1) by (simp add: reassembler_inv_alt drop_map [symmetric])
  moreover have "length ((if length as = 32 then drop 1 as else as) @ [b]) \<le> 32"
    using assms(1) by (auto simp: reassembler_inv_alt)
  ultimately show ?thesis
    using assms sub unfolding reassembler_inv_alt by auto
qed

lemma feed_inv:
  assumes "reassembler_inv as"
  shows "reassembler_inv (snd (reassembler_feed as frame))"
proof (cases "4 < length frame")
  case False
  then show ?thesis using assms by (simp add: reassembler_feed_def)
next
  case True
  let ?i = "source_id frame"
  have d: "distinct (ids as)" using assms by (simp add: reassembler_inv_alt)
  have single: "reassembler_inv (snd (iso_single as frame))"
    using assms True by (simp add: iso_single_eq reassembler_inv_erase)
  have "?i \<notin> set (ids (erase_assembly as ?i))" using ids_erase_assembly [OF d] by blast
  then have first: "reassembler_inv (snd (iso_first (erase_assembly as ?i) frame))"
    using reassembler_inv_push [of "erase_assembly as ?i" "first_assembly frame"] assms
    by (simp add: iso_first_eq reassembler_inv_erase assembly_ok_first)
  have cons: "reassembler_inv (snd (iso_consecutive as frame))"
  proof (cases "find_assembly as ?i")
    case (Some a)
    then have "assembly_ok a" "asm_id a = ?i"
      using assms by (auto simp: reassembler_inv_alt dest: find_assembly_SomeD)
    then show ?thesis using Some True assms
      by (simp add: iso_consecutive_eq reassembler_inv_erase reassembler_inv_update assembly_ok_extend Let_def)
  qed (use True assms in \<open>simp add: iso_consecutive_eq\<close>)
  from single first cons assms show ?thesis
    by (simp add: reassembler_feed_eq [OF True] Let_def)
qed

lemma run_inv: "reassembler_inv as \<Longrightarrow> reassembler_inv (snd (reassembler_run as fs))"
proof (induction fs arbitrary: as)
  case (Cons f fs)
  from feed_inv [OF Cons.prems, of f] Cons.IH have
    "reassembler_inv (snd (reassembler_run (snd (reassembler_feed as f)) fs))" by blast
  then show ?case by (simp add: case_prod_unfold Let_def)
qed simp

text \<open>Every output: an identifier and at most 4095 bytes, so it fits the 4128 bytes of a message.\<close>

definition iso_output_ok :: "bytes \<Rightarrow> iso_output \<Rightarrow> bool" where
  "iso_output_ok frame out \<longleftrightarrow>
     take 4 (out_data out) = take 4 frame \<and> 4 \<le> length (out_data out) \<and> length (out_data out) \<le> 4099 \<and>
     (out_status out = START_OF_MESSAGE \<and> length (out_data out) = 4 \<or> out_status out = 0)"

lemma source_id_bytes:
  "(ucast (drop_bit 24 (source_id f)) :: u8) = f ! 0"
  "(ucast (drop_bit 16 (source_id f)) :: u8) = f ! 1"
  "(ucast (drop_bit 8 (source_id f)) :: u8) = f ! 2"
  "(ucast (source_id f) :: u8) = f ! 3"
  by (rule bit_word_eqI; auto simp: source_id_def bit_simps dest: bit_imp_le_length)+

lemma take_four: "4 \<le> length xs \<Longrightarrow> take 4 xs = [xs ! 0, xs ! 1, xs ! 2, xs ! 3]"
  by (auto intro!: nth_equalityI simp: less_Suc_eq numeral_eq_Suc)

lemma take_four_source_id:
  assumes "4 \<le> length a" "4 \<le> length b"
  shows "take 4 a = take 4 b \<longleftrightarrow> source_id a = source_id b"
proof
  assume "take 4 a = take 4 b"
  then show "source_id a = source_id b"
    using assms by (metis append.right_neutral source_id_take)
next
  assume "source_id a = source_id b"
  then show "take 4 a = take 4 b"
    using assms by (simp only: take_four source_id_bytes [symmetric])
qed

lemma feed_output_ok:
  assumes inv: "reassembler_inv as" and out: "out \<in> set (fst (reassembler_feed as frame))"
  shows "iso_output_ok frame out"
proof -
  have len: "4 < length frame"
    using out by (cases "4 < length frame") (simp_all add: reassembler_feed_def)
  have ext: "iso_output_ok frame \<lparr>out_status = 0, out_data = asm_message (extend_assembly a frame)\<rparr>"
    if a: "find_assembly as (source_id frame) = Some a" for a
  proof -
    have ok: "assembly_ok a" and i: "asm_id a = source_id frame"
      using inv find_assembly_SomeD [OF a] by (auto simp: reassembler_inv_alt)
    then have ok': "assembly_ok (extend_assembly a frame)" by (simp add: assembly_ok_extend)
    then have "take 4 (asm_message (extend_assembly a frame)) = take 4 frame"
      using len i by (subst take_four_source_id) (auto simp: assembly_ok_def)
    then show ?thesis using ok' by (auto simp: iso_output_ok_def assembly_ok_def)
  qed
  have single: "iso_output_ok frame (single_message frame)" if "single_ok frame"
    using that len by (auto simp: iso_output_ok_def single_message_def single_ok_def)
  have first: "iso_output_ok frame (start_indication frame)"
    using len by (auto simp: iso_output_ok_def start_indication_def)
  have "distinct (ids as)" using inv by (simp add: reassembler_inv_alt)
  with out have "out \<in> set (fst (conv_step (find_assembly as (source_id frame)) frame))"
    using feed_outputs [OF len] by simp
  then show ?thesis
    using single first ext by (auto simp: conv_step_def Let_def split: if_splits option.splits)
qed

section \<open>The sender's side\<close>

text \<open>
  Segmentation as ISO 15765-2 defines it, with normal addressing: one single frame for up to seven
  bytes, otherwise a first frame with six and consecutive frames with seven bytes each, numbered from 1
  modulo 16. The last frame of a message may carry padding.
\<close>

function consecutive_frames :: "bytes \<Rightarrow> nat \<Rightarrow> bytes \<Rightarrow> bytes \<Rightarrow> bytes list" where
  "consecutive_frames idb k rest pad =
     (if length rest \<le> 7 then [idb @ [of_nat (32 + k mod 16)] @ rest @ pad]
      else (idb @ [of_nat (32 + k mod 16)] @ take 7 rest) # consecutive_frames idb (Suc k) (drop 7 rest) pad)"
  by pat_completeness auto
termination
  by (relation "measure (\<lambda>(idb, k, rest, pad). length rest)") auto

declare consecutive_frames.simps [simp del]

definition isotp_segments :: "bytes \<Rightarrow> bytes \<Rightarrow> bytes \<Rightarrow> bytes list" where
  "isotp_segments idb pad payload =
     (if length payload \<le> 7 then [idb @ [of_nat (length payload)] @ payload @ pad]
      else (idb @ [of_nat (16 + length payload div 256), of_nat (length payload mod 256)] @ take 6 payload)
           # consecutive_frames idb 1 (drop 6 payload) pad)"

definition isotp_delivered :: "bytes \<Rightarrow> bytes \<Rightarrow> iso_output list" where
  "isotp_delivered idb payload =
     (if length payload \<le> 7 then [] else [\<lparr>out_status = START_OF_MESSAGE, out_data = idb\<rparr>]) @
     [\<lparr>out_status = 0, out_data = idb @ payload\<rparr>]"

fun conv_run :: "assembly option \<Rightarrow> bytes list \<Rightarrow> iso_output list \<times> assembly option" where
  "conv_run c [] = ([], c)"
| "conv_run c (f # fs) =
     (let (o1, c1) = conv_step c f; (o2, c2) = conv_run c1 fs in (o1 @ o2, c2))"

lemma conv_run_append:
  "conv_run c (fs @ gs) = (let (o1, c1) = conv_run c fs; (o2, c2) = conv_run c1 gs in (o1 @ o2, c2))"
  by (induction fs arbitrary: c) (simp_all add: case_prod_unfold Let_def)

lemma unat_small: "n < 256 \<Longrightarrow> unat (of_nat n :: u8) = n"
  by (simp add: unat_of_nat)

lemma pci_byte:
  assumes "t < 16" and "s < 16"
  shows "drop_bit 4 (of_nat (16 * t + s) :: u8) = of_nat t"
    and "(of_nat (16 * t + s) :: u8) AND 0x0f = of_nat s"
proof -
  obtain n where n: "n = 16 * t + s" "n < 256" using assms by simp
  have x: "unat (of_nat n :: u8) = n" using n(2) by (rule unat_small)
  have m: "(15 :: u8) = mask 4" by (simp add: mask_eq_exp_minus_1)
  have "unat (drop_bit 4 (of_nat n :: u8)) = t"
    unfolding unsigned_drop_bit_eq x using n assms by (simp add: drop_bit_nat_def take_bit_nat_def)
  then show "drop_bit 4 (of_nat (16 * t + s) :: u8) = of_nat t"
    unfolding n(1) by (metis of_nat_unat ucast_id)
  have "unat ((of_nat n :: u8) AND 0x0f) = s"
    unfolding m take_bit_eq_mask [symmetric] unsigned_take_bit_eq x
    using n assms by (simp add: take_bit_nat_def)
  then show "(of_nat (16 * t + s) :: u8) AND 0x0f = of_nat s"
    unfolding n(1) by (metis of_nat_unat ucast_id)
qed

lemma nth_after_id [simp]:
  assumes "length idb = 4"
  shows "(idb @ x # xs) ! 4 = x" and "(idb @ x # y # xs) ! 5 = y"
    and "drop 5 (idb @ x # xs) = xs" and "drop 6 (idb @ x # y # xs) = xs"
    and "take 4 (idb @ xs) = idb"
  using assms by (auto simp: nth_append)

lemma or_split:
  fixes a b :: nat
  assumes "b < 256"
  shows "push_bit 8 a OR b = 256 * a + b"
proof -
  have "take_bit 8 b = b" using assms by (simp add: take_bit_nat_def)
  then have "push_bit 8 a AND b = 0"
    by (intro bit_eqI) (metis bit_and_iff bit_0_eq bit_push_bit_iff bit_take_bit_iff not_le bot_apply bot_bool_def)
  then have "push_bit 8 a OR b = push_bit 8 a + b"
    by (rule disjunctive_add_eq_or [symmetric])
  then show ?thesis by (simp add: push_bit_nat_def)
qed

lemma conv_run_consecutive:
  assumes "length idb = 4" and "rest \<noteq> []" and "length (done @ rest) \<le> 4095"
  shows "conv_run (Some \<lparr>asm_id = i, asm_message = idb @ done, asm_expected = length (done @ rest),
                        asm_sequence = of_nat (k mod 16)\<rparr>) (consecutive_frames idb k rest pad) =
    ([\<lparr>out_status = 0, out_data = idb @ done @ rest\<rparr>], None)"
  using assms
proof (induction idb k rest pad arbitrary: "done" rule: consecutive_frames.induct)
  case (1 idb k rest pad)
  have pci: "drop_bit 4 (of_nat (32 + k mod 16) :: u8) = 2"
      "(of_nat (32 + k mod 16) :: u8) AND 0x0f = of_nat (k mod 16)"
    using pci_byte [of 2 "k mod 16"] by simp_all
  have sq: "((of_nat (k mod 16) :: u8) + 1) AND 0x0f = of_nat (Suc k mod 16)"
  proof -
    let ?m = "Suc (k mod 16)"
    have "(of_nat (16 * (?m div 16) + ?m mod 16) :: u8) AND 0x0f = of_nat (?m mod 16)"
      by (rule pci_byte) (simp_all add: less_mult_imp_div_less)
    moreover have "16 * (?m div 16) + ?m mod 16 = ?m" by simp
    ultimately have "(of_nat ?m :: u8) AND 0x0f = of_nat (?m mod 16)" by (simp only:)
    then show ?thesis by (simp add: mod_Suc_eq add.commute)
  qed
  show ?case
  proof (cases "length rest \<le> 7")
    case True
    then show ?thesis using "1.prems" pci
      by (subst consecutive_frames.simps) (simp add: conv_step_def extend_assembly_def Let_def)
  next
    case False
    let ?a = "\<lparr>asm_id = i, asm_message = idb @ done @ take 7 rest, asm_expected = length (done @ rest),
               asm_sequence = of_nat (Suc k mod 16)\<rparr>"
    have "conv_step (Some \<lparr>asm_id = i, asm_message = idb @ done, asm_expected = length (done @ rest),
        asm_sequence = of_nat (k mod 16)\<rparr>) (idb @ [of_nat (32 + k mod 16)] @ take 7 rest) = ([], Some ?a)"
      using False "1.prems" pci sq by (simp add: conv_step_def extend_assembly_def Let_def)
    moreover have "conv_run (Some ?a) (consecutive_frames idb (Suc k) (drop 7 rest) pad) =
        ([\<lparr>out_status = 0, out_data = idb @ done @ rest\<rparr>], None)"
      using "1.IH" [OF False, of "done @ take 7 rest"] "1.prems" False by simp
    ultimately show ?thesis
      using False by (subst consecutive_frames.simps) simp
  qed
qed


lemma conv_run_segments:
  assumes "length idb = 4" and "length payload \<le> 4095"
  shows "conv_run c (isotp_segments idb pad payload) =
    (isotp_delivered idb payload, if length payload \<le> 7 then c else None)"
proof (cases "length payload \<le> 7")
  case True
  have pci: "drop_bit 4 (of_nat (length payload) :: u8) = 0"
      "(of_nat (length payload) :: u8) AND 0x0f = of_nat (length payload)"
    using pci_byte [of 0 "length payload"] True by simp_all
  show ?thesis using True assms pci
    by (simp add: isotp_segments_def isotp_delivered_def conv_step_def single_ok_def single_message_def
        unat_small Let_def)
next
  case False
  let ?n = "length payload"
  let ?f = "idb @ [of_nat (16 + ?n div 256), of_nat (?n mod 256)] @ take 6 payload"
  have hi: "?n div 256 < 16" using assms by simp
  then have pci: "drop_bit 4 (of_nat (16 + ?n div 256) :: u8) = 1"
      "(of_nat (16 + ?n div 256) :: u8) AND 0x0f = of_nat (?n div 256)"
    using pci_byte [of 1 "?n div 256"] by simp_all
  have announced: "announced_length ?f = ?n"
    using assms(1) pci(2) hi or_split [of "?n mod 256" "?n div 256"]
    by (simp add: announced_length_def unat_small)
  have "conv_step c ?f = ([\<lparr>out_status = START_OF_MESSAGE, out_data = idb\<rparr>],
      Some \<lparr>asm_id = source_id ?f, asm_message = idb @ take 6 payload, asm_expected = ?n, asm_sequence = of_nat (1 mod 16)\<rparr>)"
    using assms False pci announced
    by (simp add: conv_step_def first_ok_def start_indication_def first_assembly_def Let_def)
  moreover have "conv_run (Some \<lparr>asm_id = source_id ?f, asm_message = idb @ take 6 payload, asm_expected = ?n,
        asm_sequence = of_nat (1 mod 16)\<rparr>) (consecutive_frames idb 1 (drop 6 payload) pad) =
      ([\<lparr>out_status = 0, out_data = idb @ payload\<rparr>], None)"
    using conv_run_consecutive [of idb "drop 6 payload" "take 6 payload" _ 1 pad] assms False by simp
  ultimately show ?thesis using False by (simp add: isotp_segments_def isotp_delivered_def)
qed

lemma conv_run_messages:
  assumes "length idb = 4" and "\<forall>p \<in> set payloads. length p \<le> 4095"
  shows "\<exists>c'. conv_run c (concat (map (isotp_segments idb pad) payloads)) =
    (concat (map (isotp_delivered idb) payloads), c')"
  using assms(2)
proof (induction payloads arbitrary: c)
  case (Cons p ps)
  obtain c' where "conv_run (if length p \<le> 7 then c else None) (concat (map (isotp_segments idb pad) ps)) =
      (concat (map (isotp_delivered idb) ps), c')"
    using Cons by (metis list.set_intros(2))
  then show ?case using Cons.prems assms(1) by (simp add: conv_run_append conv_run_segments)
qed simp

section \<open>Interleaved conversations\<close>

lemma no_eviction:
  assumes "reassembler_inv as" and "card (set (ids as) \<union> S) \<le> 32" and "finite S" and "source_id frame \<in> S"
  shows "\<not> evicts as frame"
proof
  assume e: "evicts as frame"
  then have "length as = 32" "source_id frame \<notin> set (ids as)" by (simp_all add: evicts_def)
  moreover from this assms(1) have "card (set (ids as)) = 32"
    by (metis distinct_card length_map reassembler_inv_alt)
  ultimately have "card (insert (source_id frame) (set (ids as))) = 33" by simp
  moreover have "card (insert (source_id frame) (set (ids as))) \<le> card (set (ids as) \<union> S)"
    using assms(3,4) by (intro card_mono) auto
  ultimately show False using assms(2) by simp
qed

lemma feed_ids:
  assumes "4 < length frame" and "reassembler_inv as"
  shows "set (ids (snd (reassembler_feed as frame))) \<subseteq> insert (source_id frame) (set (ids as))"
proof
  fix j assume "j \<in> set (ids (snd (reassembler_feed as frame)))"
  then have "find_assembly (snd (reassembler_feed as frame)) j \<noteq> None"
    by (simp only: find_assembly_None_iff not_not)
  moreover have "distinct (ids as)" "length as \<le> 32"
    using assms(2) by (simp_all add: reassembler_inv_alt)
  ultimately have "j = source_id frame \<or> find_assembly as j \<noteq> None"
    using feed_lookup [OF assms(1), of as j] by (metis (no_types, lifting))
  then show "j \<in> insert (source_id frame) (set (ids as))"
    unfolding find_assembly_None_iff by blast
qed

lemma run_interleaved:
  assumes "reassembler_inv as" and "\<forall>f \<in> set fs. 4 < length f"
    and "card (set (ids as) \<union> source_id ` set fs) \<le> 32"
  shows "filter (\<lambda>out. source_id (out_data out) = i) (fst (reassembler_run as fs)) =
      fst (conv_run (find_assembly as i) (filter (\<lambda>f. source_id f = i) fs))"
  using assms
proof (induction fs arbitrary: as)
  case (Cons f fs)
  let ?as = "snd (reassembler_feed as f)" and ?o = "fst (reassembler_feed as f)"
  have f: "4 < length f" and d: "distinct (ids as)" "length as \<le> 32"
    using Cons.prems by (simp_all add: reassembler_inv_alt)
  have ne: "\<not> evicts as f"
    using Cons.prems by (intro no_eviction [where S = "source_id ` set (f # fs)"]) auto
  have "card (set (ids ?as) \<union> source_id ` set fs) \<le> card (set (ids as) \<union> source_id ` set (f # fs))"
    using feed_ids [OF f Cons.prems(1)] by (intro card_mono) auto
  then have IH: "filter (\<lambda>out. source_id (out_data out) = i) (fst (reassembler_run ?as fs)) =
      fst (conv_run (find_assembly ?as i) (filter (\<lambda>f. source_id f = i) fs))"
    using Cons.prems by (intro Cons.IH feed_inv) auto
  have outs: "source_id (out_data out) = source_id f" if "out \<in> set ?o" for out
    using feed_output_ok [OF Cons.prems(1) that] f take_four_source_id [of "out_data out" f]
    by (simp add: iso_output_ok_def)
  show ?case
  proof (cases "source_id f = i")
    case True
    then have "filter (\<lambda>out. source_id (out_data out) = i) ?o = ?o"
      using outs by (simp add: filter_id_conv)
    with True IH show ?thesis
      using feed_outputs [OF f d(1)] feed_lookup [OF f d, of i]
      by (simp add: case_prod_unfold Let_def)
  next
    case False
    then have "filter (\<lambda>out. source_id (out_data out) = i) ?o = []"
      using outs by (simp add: filter_empty_conv)
    with False IH show ?thesis
      using feed_lookup [OF f d, of i] ne by (simp add: case_prod_unfold Let_def)
  qed
qed simp


section \<open>Properties\<close>

text \<open>
  C6. Reassembly round trip under interleaving: take any frames from at most 32 identifiers, in any
  order, such that the frames of one identifier are the ISO 15765-2 segments of some messages of up to
  4095 bytes (padded or not). Then what is delivered for that identifier is exactly those messages in
  order, each segmented one announced by a start-of-message indication.
\<close>

theorem isotp_interleaved_roundtrip:
  assumes "\<forall>f \<in> set frames. 4 < length f" and "card (source_id ` set frames) \<le> 32"
    and "length idb = 4" and "\<forall>p \<in> set payloads. length p \<le> 4095"
    and "filter (\<lambda>f. source_id f = source_id idb) frames = concat (map (isotp_segments idb pad) payloads)"
  shows "filter (\<lambda>out. source_id (out_data out) = source_id idb) (fst (reassembler_run [] frames)) =
    concat (map (isotp_delivered idb) payloads)"
proof -
  have "filter (\<lambda>out. source_id (out_data out) = source_id idb) (fst (reassembler_run [] frames)) =
      fst (conv_run None (concat (map (isotp_segments idb pad) payloads)))"
    using run_interleaved [of "[]" frames "source_id idb"] assms by simp
  also have "\<dots> = concat (map (isotp_delivered idb) payloads)"
    using conv_run_messages [OF assms(3,4), of None pad] by auto
  finally show ?thesis .
qed

theorem isotp_interleaved_roundtrip_witness:
  "filter (\<lambda>out. source_id (out_data out) = source_id [0, 0, 7, 0xe8])
     (fst (reassembler_run []
       [[0, 0, 7, 0xe8, 0x10, 0x0a, 1, 2, 3, 4, 5, 6], [0, 0, 7, 0xe9, 0x10, 0x09, 1, 1, 1, 1, 1, 1],
        [0, 0, 7, 0xe8, 0x21, 7, 8, 9, 10, 0xaa, 0xaa, 0xaa]])) =
   [\<lparr>out_status = START_OF_MESSAGE, out_data = [0, 0, 7, 0xe8]\<rparr>,
    \<lparr>out_status = 0, out_data = [0, 0, 7, 0xe8, 1, 2, 3, 4, 5, 6, 7, 8, 9, 10]\<rparr>]"
proof -
  let ?frames = "[[0, 0, 7, 0xe8, 0x10, 0x0a, 1, 2, 3, 4, 5, 6], [0, 0, 7, 0xe9, 0x10, 0x09, 1, 1, 1, 1, 1, 1],
        [0, 0, 7, 0xe8, 0x21, 7, 8, 9, 10, 0xaa, 0xaa, 0xaa]] :: bytes list"
  have segs: "filter (\<lambda>f. source_id f = source_id [0, 0, 7, 0xe8]) ?frames =
      concat (map (isotp_segments [0, 0, 7, 0xe8] [0xaa, 0xaa, 0xaa]) [[1, 2, 3, 4, 5, 6, 7, 8, 9, 10]])"
    by code_simp
  have card: "card (source_id ` set ?frames) \<le> 32"
    by (rule order_trans [OF card_image_le]) (auto intro: order_trans [OF card_length])
  have "concat (map (isotp_delivered [0, 0, 7, 0xe8]) [[1, 2, 3, 4, 5, 6, 7, 8, 9, 10 :: u8]]) =
    [\<lparr>out_status = START_OF_MESSAGE, out_data = [0, 0, 7, 0xe8]\<rparr>,
     \<lparr>out_status = 0, out_data = [0, 0, 7, 0xe8, 1, 2, 3, 4, 5, 6, 7, 8, 9, 10]\<rparr>]"
    by (simp add: isotp_delivered_def)
  then show ?thesis
    using isotp_interleaved_roundtrip [OF _ card _ _ segs] by simp
qed

text \<open>
  C7. The reassembler implements one conversation machine per CAN identifier: in every reachable state a
  frame produces exactly what its own conversation produces, moves its own conversation as specified, and
  leaves every other conversation alone, except that a first frame of a 33rd identifier discards the oldest one.
\<close>

theorem reassembler_refines_conversations:
  assumes "as = snd (reassembler_run [] frames)" and "4 < length frame"
  shows "fst (reassembler_feed as frame) = fst (conv_step (find_assembly as (source_id frame)) frame) \<and>
    (\<forall>j. find_assembly (snd (reassembler_feed as frame)) j =
      (if j = source_id frame then snd (conv_step (find_assembly as (source_id frame)) frame)
       else if evicts as frame \<and> j = asm_id (hd as) then None
       else find_assembly as j))"
proof -
  have inv: "distinct (ids as)" "length as \<le> 32"
    using run_inv [of "[]" frames] assms(1) by (simp_all add: reassembler_inv_alt)
  then show ?thesis
    using feed_outputs [OF assms(2) inv(1)] feed_lookup [OF assms(2) inv] by blast
qed

theorem reassembler_refines_conversations_witness:
  "fst (reassembler_feed [] [0, 0, 7, 0xe8, 0x02, 1, 2]) = [\<lparr>out_status = 0, out_data = [0, 0, 7, 0xe8, 1, 2]\<rparr>]"
proof -
  have "[] = snd (reassembler_run [] [])" by simp
  from reassembler_refines_conversations [OF this, of "[0, 0, 7, 0xe8, 0x02, 1, 2]"]
  have "fst (reassembler_feed [] [0, 0, 7, 0xe8, 0x02, 1, 2]) = fst (conv_step None [0, 0, 7, 0xe8, 0x02, 1, 2])"
    by simp
  also have "\<dots> = [\<lparr>out_status = 0, out_data = [0, 0, 7, 0xe8, 1, 2]\<rparr>]" by code_simp
  finally show ?thesis .
qed

text \<open>
  C8. On arbitrary bus traffic the reassembler holds at most 32 conversations with pairwise different
  identifiers, no partial message is longer than it announced (so \<open>outstanding\<close> never wraps), and every output
  carries its frame's identifier with at most 4095 bytes after it, so it fits \<open>PASSTHRU_MSG::Data\<close>.
\<close>

theorem reassembler_bounds:
  "reassembler_inv (snd (reassembler_run [] frames)) \<and>
   list_all (\<lambda>out. iso_output_ok frame out \<and> length (out_data out) \<le> data_capacity)
     (fst (reassembler_feed (snd (reassembler_run [] frames)) frame))"
proof -
  have inv: "reassembler_inv (snd (reassembler_run [] frames))" by (rule run_inv) simp
  then have "list_all (\<lambda>out. iso_output_ok frame out \<and> length (out_data out) \<le> data_capacity)
     (fst (reassembler_feed (snd (reassembler_run [] frames)) frame))"
    unfolding list_all_iff using feed_output_ok [OF inv]
    by (fastforce simp: iso_output_ok_def data_capacity_def)
  with inv show ?thesis by simp
qed

end
