(* ===== verification/CanMessages.thy ===== *)
theory CanMessages
  imports Codec
begin

text \<open>
  The message encoders of src/can.cpp: filter, transmit, periodic and flow-control payloads built from
  \<open>PASSTHRU_MSG\<close> arguments. Each encoder checks its arguments in the source's order and then fills a
  zeroed buffer with \<open>put16\<close>; \<open>put32\<close> is the pair of \<open>put16\<close> calls the source
  writes for a 32-bit field.
\<close>

section \<open>Definitions\<close>

definition table_pass :: u8 where [simp]: "table_pass = 0"
definition table_block :: u8 where [simp]: "table_block = 1"
definition table_flow_control :: u8 where [simp]: "table_flow_control = 2"
definition table_periodic :: u8 where [simp]: "table_periodic = 4"

definition put32 :: "bytes \<Rightarrow> nat \<Rightarrow> u32 \<Rightarrow> exn + bytes" where
  "put32 d off v = ebind (put16 d off (ucast v)) (\<lambda>d. put16 d (off + 2) (ucast (drop_bit 16 v)))"

text \<open>The first \<open>DataSize\<close> bytes of \<open>Data\<close>.\<close>

definition msg_data :: "passthru_msg \<Rightarrow> bytes" where
  "msg_data m = take (unat (DataSize m)) (Data m)"

definition can_table_filter ::
    "passthru_msg \<Rightarrow> passthru_msg \<Rightarrow> u32 \<Rightarrow> u8 \<Rightarrow> u8 \<Rightarrow> exn + bytes" where
  "can_table_filter msk pattern channel_flags table type =
     (if ProtocolID msk \<noteq> CAN \<or> ProtocolID pattern \<noteq> CAN
      then Inl (Error ERR_MSG_PROTOCOL_ID ''filter protocol must match CAN channel'')
      else if (TxFlags msk OR TxFlags pattern) AND NOT CAN_29BIT_ID \<noteq> 0
      then Inl (Error ERR_INVALID_FLAGS ''unsupported CAN filter flags'')
      else if TxFlags msk \<noteq> channel_flags \<or> TxFlags pattern \<noteq> channel_flags
      then Inl (Error ERR_INVALID_MSG ''filter identifier width must match channel'')
      else if DataSize msk < 4 \<or> DataSize msk > 12 \<or> DataSize pattern \<noteq> DataSize msk
      then Inl (Error ERR_INVALID_MSG ''CAN mask and pattern must have equal sizes in 4..12'')
      else
        ebind (put16 [table, 0, 0, 0, 0, 0, type, ucast (DataSize pattern)] 4 (ucast (TxFlags msk)))
          (\<lambda>payload. Inr (payload @ msg_data msk @ msg_data pattern)))"

definition can_pass_filter :: "passthru_msg \<Rightarrow> passthru_msg \<Rightarrow> u32 \<Rightarrow> exn + bytes" where
  "can_pass_filter msk pattern channel_flags = can_table_filter msk pattern channel_flags table_pass 1"

definition can_block_filter :: "passthru_msg \<Rightarrow> passthru_msg \<Rightarrow> u32 \<Rightarrow> exn + bytes" where
  "can_block_filter msk pattern channel_flags = can_table_filter msk pattern channel_flags table_block 2"

definition can_transmit :: "passthru_msg \<Rightarrow> u32 \<Rightarrow> exn + bytes" where
  "can_transmit message timeout_ms =
     (if ProtocolID message \<noteq> CAN
      then Inl (Error ERR_MSG_PROTOCOL_ID ''message protocol must match CAN channel'')
      else if TxFlags message AND NOT CAN_29BIT_ID \<noteq> 0
      then Inl (Error ERR_INVALID_FLAGS ''unsupported CAN transmit flags'')
      else if DataSize message < 4 \<or> DataSize message > 12
      then Inl (Error ERR_INVALID_MSG ''CAN message size must be 4..12'')
      else
        ebind (put32 (replicate 12 0) 0 (TxFlags message)) (\<lambda>payload.
        ebind (put32 payload 4 timeout_ms) (\<lambda>payload.
        ebind (put16 payload 8 (ucast (DataSize message))) (\<lambda>payload.
        ebind (put16 payload 10 (ucast (ExtraDataIndex message))) (\<lambda>payload.
          Inr (payload @ msg_data message))))))"

definition can_periodic :: "passthru_msg \<Rightarrow> u32 \<Rightarrow> exn + bytes" where
  "can_periodic message interval_ms =
     (if interval_ms < 5 \<or> interval_ms > 65535
      then Inl (Error ERR_INVALID_TIME_INTERVAL ''periodic interval must be 5..65535 ms'')
      else if ProtocolID message \<noteq> CAN
      then Inl (Error ERR_MSG_PROTOCOL_ID ''message protocol must match CAN channel'')
      else if TxFlags message AND NOT CAN_29BIT_ID \<noteq> 0
      then Inl (Error ERR_INVALID_FLAGS ''unsupported CAN transmit flags'')
      else if DataSize message < 4 \<or> DataSize message > 12
      then Inl (Error ERR_INVALID_MSG ''CAN message size must be 4..12'')
      else
        ebind (put32 ((replicate 13 0)[0 := table_periodic]) 4 interval_ms) (\<lambda>payload.
        ebind (put32 payload 8 (TxFlags message)) (\<lambda>payload.
          Inr (payload[12 := ucast (DataSize message)] @ msg_data message))))"

text \<open>The lambda \<open>identifier\<close>: the big-endian CAN identifier.\<close>

definition msg_identifier :: "passthru_msg \<Rightarrow> u32" where
  "msg_identifier m =
     push_bit 24 (ucast (Data m ! 0)) OR push_bit 16 (ucast (Data m ! 1)) OR
     push_bit 8 (ucast (Data m ! 2)) OR ucast (Data m ! 3)"

definition isotp_flow_control_filter ::
    "passthru_msg \<Rightarrow> passthru_msg \<Rightarrow> passthru_msg \<Rightarrow> exn + bytes" where
  "isotp_flow_control_filter msk pattern flow =
     (if list_ex (\<lambda>m. ProtocolID m \<noteq> ISO15765) [msk, pattern, flow]
      then Inl (Error ERR_MSG_PROTOCOL_ID ''filter protocol must match ISO15765 channel'')
      else
        let flags = TxFlags pattern in
        if TxFlags msk \<noteq> flags \<or> TxFlags flow \<noteq> flags
        then Inl (Error ERR_INVALID_MSG ''mask, pattern and flow-control flags must agree'')
        else if flags AND NOT ISO15765_FRAME_PAD \<noteq> 0
        then Inl (Error ERR_INVALID_FLAGS ''unsupported ISO15765 filter flags'')
        else if list_ex (\<lambda>m. DataSize m \<noteq> 4) [msk, pattern, flow]
        then Inl (Error ERR_INVALID_MSG ''ISO15765 filter messages are four ID bytes'')
        else if msg_identifier msk AND 0x7ff \<noteq> 0x7ff
        then Inl (Error ERR_INVALID_MSG ''the adapter matches the whole 11-bit ID; mask must cover it'')
        else if msg_identifier pattern > 0x7ff \<or> msg_identifier flow > 0x7ff
        then Inl (Error ERR_INVALID_MSG ''only 11-bit ISO15765 identifiers are supported'')
        else
          ebind (put32 (2 # replicate 18 0) 4 flags) (\<lambda>payload.
            Inr (copy_at 14 (take 4 (Data flow)) (copy_at 9 (take 4 (Data pattern)) payload))))"

definition isotp_transmit :: "passthru_msg \<Rightarrow> u32 \<Rightarrow> exn + bytes" where
  "isotp_transmit message timeout_ms =
     (if ProtocolID message \<noteq> ISO15765
      then Inl (Error ERR_MSG_PROTOCOL_ID ''message protocol must match ISO15765 channel'')
      else if TxFlags message AND NOT ISO15765_FRAME_PAD \<noteq> 0
      then Inl (Error ERR_INVALID_FLAGS ''unsupported ISO15765 transmit flags'')
      else if DataSize message < 5 \<or> DataSize message > 4 + 4095
      then Inl (Error ERR_INVALID_MSG ''ISO15765 message must be an ID plus 1..4095 data bytes'')
      else
        ebind (put32 (replicate 12 0) 0 (TxFlags message)) (\<lambda>payload.
        ebind (put32 payload 4 timeout_ms) (\<lambda>payload.
        ebind (put16 payload 8 (ucast (DataSize message))) (\<lambda>payload.
        ebind (put16 payload 10 0) (\<lambda>payload.
          Inr (payload @ msg_data message))))))"

section \<open>Fields as byte lists\<close>

definition u16_bytes :: "u16 \<Rightarrow> bytes" where
  "u16_bytes v = [ucast v, ucast (drop_bit 8 v)]"

definition u32_bytes :: "u32 \<Rightarrow> bytes" where
  "u32_bytes v = [ucast v, ucast (drop_bit 8 v), ucast (drop_bit 16 v), ucast (drop_bit 24 v)]"

lemma length_field_bytes [simp]: "length (u16_bytes v) = 2" "length (u32_bytes w) = 4"
  by (simp_all add: u16_bytes_def u32_bytes_def)

lemma u32_bytes_halves: "u32_bytes v = u16_bytes (ucast v) @ u16_bytes (ucast (drop_bit 16 v))"
  by (simp add: u16_bytes_def u32_bytes_def) (intro conjI; rule bit_word_eqI; auto simp: bit_simps)

lemma put16_copy: "off + 2 \<le> length d \<Longrightarrow> put16 d off v = Inr (copy_at off (u16_bytes v) d)"
  by (simp add: put16_Inr copy_at_def u16_bytes_def list_update_append1 id_take_nth_drop upd_conv_take_nth_drop)

lemma copy_at_twice:
  "off + length a + length b \<le> length d \<Longrightarrow> copy_at (off + length a) b (copy_at off a d) = copy_at off (a @ b) d"
  by (simp add: copy_at_def add.assoc add.commute [of "length b"])

lemma put32_copy: "off + 4 \<le> length d \<Longrightarrow> put32 d off v = Inr (copy_at off (u32_bytes v) d)"
  using copy_at_twice [of off "u16_bytes (ucast v)" "u16_bytes (ucast (drop_bit 16 v))" d]
  by (simp add: put32_def put16_copy u32_bytes_halves)

lemma copy_at_pad:
  "off = length p \<Longrightarrow> m = length a + n \<Longrightarrow>
   copy_at off a (p @ replicate m 0) = (p @ a) @ replicate n 0"
  by (simp add: copy_at_def)

lemma put16_pad:
  assumes "off = length p" and "m = 2 + n"
  shows "put16 (p @ replicate m 0) off v = Inr ((p @ u16_bytes v) @ replicate n 0)"
proof -
  have "copy_at off (u16_bytes v) (p @ replicate m 0) = (p @ u16_bytes v) @ replicate n 0"
    using assms by (intro copy_at_pad) simp_all
  then show ?thesis using assms put16_copy [of off "p @ replicate m 0" v] by simp
qed

lemma put32_pad:
  assumes "off = length p" and "m = 4 + n"
  shows "put32 (p @ replicate m 0) off v = Inr ((p @ u32_bytes v) @ replicate n 0)"
proof -
  have "copy_at off (u32_bytes v) (p @ replicate m 0) = (p @ u32_bytes v) @ replicate n 0"
    using assms by (intro copy_at_pad) simp_all
  then show ?thesis using assms put32_copy [of off "p @ replicate m 0" v] by simp
qed

lemma flag_set: "f AND NOT (2 ^ n) = 0 \<longleftrightarrow> f = 0 \<or> f = 2 ^ n" if "n < LENGTH('a)" for f :: "'a::len word"
proof
  assume z: "f AND NOT (2 ^ n) = 0"
  have only: "i = n" if "bit f i" for i
  proof (rule ccontr)
    assume "i \<noteq> n"
    then have "bit (f AND NOT (2 ^ n)) i"
      using that bit_imp_le_length [OF that] by (simp add: bit_simps)
    then show False by (simp add: z)
  qed
  show "f = 0 \<or> f = 2 ^ n"
  proof (cases "bit f n")
    case True
    then have "f = 2 ^ n" by (intro bit_word_eqI) (auto simp: bit_exp_iff dest: only)
    then show ?thesis ..
  next
    case False
    then have "f = 0" by (intro bit_word_eqI) (auto dest: only)
    then show ?thesis ..
  qed
next
  show "f = 0 \<or> f = 2 ^ n \<Longrightarrow> f AND NOT (2 ^ n) = 0" by auto
qed

lemma flag_29bit: "f AND NOT CAN_29BIT_ID = 0 \<longleftrightarrow> f = 0 \<or> f = CAN_29BIT_ID"
  using flag_set [of 8 f] by simp

lemma flag_pad: "f AND NOT ISO15765_FRAME_PAD = 0 \<longleftrightarrow> f = 0 \<or> f = ISO15765_FRAME_PAD"
  using flag_set [of 6 f] by simp

text \<open>The header shared by the two transmit payloads, field by field.\<close>

lemma transmit_header:
  "ebind (put32 (replicate 12 0) 0 f) (\<lambda>p. ebind (put32 p 4 t) (\<lambda>p.
   ebind (put16 p 8 n) (\<lambda>p. ebind (put16 p 10 x) (\<lambda>p. Inr (p @ tail))))) =
   Inr (u32_bytes f @ u32_bytes t @ u16_bytes n @ u16_bytes x @ tail)"
proof -
  have "put32 ([] @ replicate 12 0) 0 f = Inr (([] @ u32_bytes f) @ replicate 8 0)"
    by (rule put32_pad) simp_all
  moreover have "put32 (([] @ u32_bytes f) @ replicate 8 0) 4 t = Inr ((([] @ u32_bytes f) @ u32_bytes t) @ replicate 4 0)"
    by (rule put32_pad) simp_all
  moreover have "put16 ((([] @ u32_bytes f) @ u32_bytes t) @ replicate 4 0) 8 n =
      Inr (((([] @ u32_bytes f) @ u32_bytes t) @ u16_bytes n) @ replicate 2 0)"
    by (rule put16_pad) simp_all
  moreover have "put16 (((([] @ u32_bytes f) @ u32_bytes t) @ u16_bytes n) @ replicate 2 0) 10 x =
      Inr ((((([] @ u32_bytes f) @ u32_bytes t) @ u16_bytes n) @ u16_bytes x) @ replicate 0 0)"
    by (rule put16_pad) simp_all
  ultimately show ?thesis by simp
qed

lemma can_transmit_cases:
  "can_transmit m t =
     (if ProtocolID m \<noteq> CAN
      then Inl (Error ERR_MSG_PROTOCOL_ID ''message protocol must match CAN channel'')
      else if TxFlags m \<noteq> 0 \<and> TxFlags m \<noteq> CAN_29BIT_ID
      then Inl (Error ERR_INVALID_FLAGS ''unsupported CAN transmit flags'')
      else if DataSize m < 4 \<or> DataSize m > 12
      then Inl (Error ERR_INVALID_MSG ''CAN message size must be 4..12'')
      else Inr (u32_bytes (TxFlags m) @ u32_bytes t @ u16_bytes (ucast (DataSize m)) @
                u16_bytes (ucast (ExtraDataIndex m)) @ msg_data m))"
  unfolding can_transmit_def transmit_header flag_29bit by simp

lemma isotp_transmit_cases:
  "isotp_transmit m t =
     (if ProtocolID m \<noteq> ISO15765
      then Inl (Error ERR_MSG_PROTOCOL_ID ''message protocol must match ISO15765 channel'')
      else if TxFlags m \<noteq> 0 \<and> TxFlags m \<noteq> ISO15765_FRAME_PAD
      then Inl (Error ERR_INVALID_FLAGS ''unsupported ISO15765 transmit flags'')
      else if DataSize m < 5 \<or> DataSize m > 4099
      then Inl (Error ERR_INVALID_MSG ''ISO15765 message must be an ID plus 1..4095 data bytes'')
      else Inr (u32_bytes (TxFlags m) @ u32_bytes t @ u16_bytes (ucast (DataSize m)) @
                u16_bytes 0 @ msg_data m))"
  unfolding isotp_transmit_def transmit_header flag_pad by simp

lemma can_table_filter_cases:
  "can_table_filter a b flags table type =
     (if ProtocolID a \<noteq> CAN \<or> ProtocolID b \<noteq> CAN
      then Inl (Error ERR_MSG_PROTOCOL_ID ''filter protocol must match CAN channel'')
      else if (TxFlags a OR TxFlags b) \<noteq> 0 \<and> (TxFlags a OR TxFlags b) \<noteq> CAN_29BIT_ID
      then Inl (Error ERR_INVALID_FLAGS ''unsupported CAN filter flags'')
      else if TxFlags a \<noteq> flags \<or> TxFlags b \<noteq> flags
      then Inl (Error ERR_INVALID_MSG ''filter identifier width must match channel'')
      else if DataSize a < 4 \<or> DataSize a > 12 \<or> DataSize b \<noteq> DataSize a
      then Inl (Error ERR_INVALID_MSG ''CAN mask and pattern must have equal sizes in 4..12'')
      else Inr ([table, 0, 0, 0] @ u16_bytes (ucast (TxFlags a)) @ [type, ucast (DataSize b)] @
                msg_data a @ msg_data b))"
proof -
  have "put16 [table, 0, 0, 0, 0, 0, type, size] 4 v =
      Inr ([table, 0, 0, 0] @ u16_bytes v @ [type, size])" for v size
    by (simp add: put16_copy copy_at_def)
  then show ?thesis unfolding can_table_filter_def flag_29bit by (simp del: CAN_29BIT_ID_def)
qed

lemma can_periodic_cases:
  "can_periodic m i =
     (if i < 5 \<or> i > 65535
      then Inl (Error ERR_INVALID_TIME_INTERVAL ''periodic interval must be 5..65535 ms'')
      else if ProtocolID m \<noteq> CAN
      then Inl (Error ERR_MSG_PROTOCOL_ID ''message protocol must match CAN channel'')
      else if TxFlags m \<noteq> 0 \<and> TxFlags m \<noteq> CAN_29BIT_ID
      then Inl (Error ERR_INVALID_FLAGS ''unsupported CAN transmit flags'')
      else if DataSize m < 4 \<or> DataSize m > 12
      then Inl (Error ERR_INVALID_MSG ''CAN message size must be 4..12'')
      else Inr ([table_periodic, 0, 0, 0] @ u32_bytes i @ u32_bytes (TxFlags m) @ [ucast (DataSize m)] @ msg_data m))"
proof -
  have r: "(replicate 13 0)[0 := table_periodic] = [table_periodic, 0, 0, 0] @ replicate 9 0"
    by (simp add: numeral_eq_Suc)
  have "put32 ([table_periodic, 0, 0, 0] @ replicate 9 0) 4 i =
      Inr (([table_periodic, 0, 0, 0] @ u32_bytes i) @ replicate 5 0)"
    by (rule put32_pad) simp_all
  moreover have "put32 (([table_periodic, 0, 0, 0] @ u32_bytes i) @ replicate 5 0) 8 f =
      Inr ((([table_periodic, 0, 0, 0] @ u32_bytes i) @ u32_bytes f) @ replicate 1 0)" for f
    by (rule put32_pad) simp_all
  ultimately show ?thesis
    unfolding can_periodic_def flag_29bit r
    by (simp add: list_update_append)
qed

lemma flow_control_cases:
  assumes "msg_ok a" and "msg_ok b"
  shows "ebind (put32 (2 # replicate 18 0) 4 f) (\<lambda>p. Inr (copy_at 14 (take 4 (Data b)) (copy_at 9 (take 4 (Data a)) p))) =
    Inr ([2, 0, 0, 0] @ u32_bytes f @ [0] @ take 4 (Data a) @ [0] @ take 4 (Data b) @ [0])"
proof -
  have len: "length (take 4 (Data a)) = 4" "length (take 4 (Data b)) = 4"
    using assms by (simp_all add: msg_ok_def data_capacity_def)
  have z: "replicate 6 (0 :: u8) = [0] @ replicate 5 0" by (simp add: numeral_eq_Suc)
  have r: "2 # replicate 18 0 = [2, 0, 0, 0 :: u8] @ replicate 15 0" by (simp add: numeral_eq_Suc)
  have "put32 ([2, 0, 0, 0] @ replicate 15 0) 4 f = Inr (([2, 0, 0, 0] @ u32_bytes f) @ replicate 11 0)"
    by (rule put32_pad) simp_all
  moreover have "([2, 0, 0, 0] @ u32_bytes f) @ replicate 11 0 = ([2, 0, 0, 0] @ u32_bytes f @ [0]) @ replicate 10 0"
    by (simp add: numeral_eq_Suc)
  moreover have "copy_at 9 (take 4 (Data a)) (([2, 0, 0, 0] @ u32_bytes f @ [0]) @ replicate 10 0) =
      (([2, 0, 0, 0] @ u32_bytes f @ [0]) @ take 4 (Data a)) @ replicate 6 0"
    using len by (intro copy_at_pad) simp_all
  moreover have "(([2, 0, 0, 0] @ u32_bytes f @ [0]) @ take 4 (Data a)) @ replicate 6 0 =
      ([2, 0, 0, 0] @ u32_bytes f @ [0] @ take 4 (Data a) @ [0]) @ replicate 5 0"
    by (simp only: z append_assoc)
  moreover have "copy_at 14 (take 4 (Data b)) (([2, 0, 0, 0] @ u32_bytes f @ [0] @ take 4 (Data a) @ [0]) @ replicate 5 0) =
      (([2, 0, 0, 0] @ u32_bytes f @ [0] @ take 4 (Data a) @ [0]) @ take 4 (Data b)) @ replicate 1 0"
    using len by (intro copy_at_pad) simp_all
  ultimately show ?thesis
    unfolding r by simp
qed

lemma length_msg_data: "msg_ok m \<Longrightarrow> unat (DataSize m) \<le> 4128 \<Longrightarrow> length (msg_data m) = unat (DataSize m)"
  by (simp add: msg_data_def msg_ok_def data_capacity_def)

lemma can_transmit_length:
  assumes "can_transmit m t = Inr p" and "msg_ok m"
  shows "length p = 12 + unat (DataSize m)" and "unat (DataSize m) \<le> 12"
proof -
  show le: "unat (DataSize m) \<le> 12"
    using assms(1) by (auto simp: can_transmit_cases word_le_nat_alt not_less split: if_splits)
  show "length p = 12 + unat (DataSize m)"
    using assms le by (auto simp: can_transmit_cases length_msg_data split: if_splits)
qed

lemma isotp_transmit_length:
  assumes "isotp_transmit m t = Inr p" and "msg_ok m"
  shows "length p = 12 + unat (DataSize m)" and "unat (DataSize m) \<le> 4099"
proof -
  show le: "unat (DataSize m) \<le> 4099"
    using assms(1) by (auto simp: isotp_transmit_cases word_le_nat_alt not_less split: if_splits)
  show "length p = 12 + unat (DataSize m)"
    using assms le by (auto simp: isotp_transmit_cases length_msg_data split: if_splits)
qed

text \<open>A message of the Windows D3 capture that the source quotes.\<close>

definition vendor_filter_message :: "u8 \<Rightarrow> u8 \<Rightarrow> passthru_msg" where
  "vendor_filter_message b2 b3 =
     \<lparr>ProtocolID = 6, RxStatus = 0, TxFlags = 0x40, Timestamp = 0, DataSize = 4, ExtraDataIndex = 0,
      Data = [0, 0, b2, b3] @ replicate 4124 0\<rparr>"

section \<open>Properties\<close>

text \<open>
  Transmit payloads, exactly: a raw CAN message is accepted when it is a CAN message with an 11-bit or
  29-bit flag and 4..12 bytes, an ISO15765 message with 5..4099 bytes and at most the padding flag; the payload is
  flags, timeout, size, extra-data index (0 on ISO15765) and the data, in that order, and nothing else.
\<close>

theorem transmit_payloads_exact:
  "(can_transmit m t = Inr p \<longleftrightarrow>
      ProtocolID m = CAN \<and> (TxFlags m = 0 \<or> TxFlags m = CAN_29BIT_ID) \<and> 4 \<le> DataSize m \<and> DataSize m \<le> 12 \<and>
      p = u32_bytes (TxFlags m) @ u32_bytes t @ u16_bytes (ucast (DataSize m)) @
          u16_bytes (ucast (ExtraDataIndex m)) @ msg_data m) \<and>
   (isotp_transmit m t = Inr p \<longleftrightarrow>
      ProtocolID m = ISO15765 \<and> (TxFlags m = 0 \<or> TxFlags m = ISO15765_FRAME_PAD) \<and>
      5 \<le> DataSize m \<and> DataSize m \<le> 4099 \<and>
      p = u32_bytes (TxFlags m) @ u32_bytes t @ u16_bytes (ucast (DataSize m)) @ u16_bytes 0 @ msg_data m)"
  unfolding can_transmit_cases isotp_transmit_cases by (auto simp: not_less)

text \<open>
  Filter payloads, exactly: PASS and BLOCK differ only in table selector and type byte; both need CAN
  messages of equal size 4..12 whose identifier width is the channel's.
\<close>

theorem filter_payloads_exact:
  "can_table_filter a b flags table type = Inr p \<longleftrightarrow>
     ProtocolID a = CAN \<and> ProtocolID b = CAN \<and> (flags = 0 \<or> flags = CAN_29BIT_ID) \<and>
     TxFlags a = flags \<and> TxFlags b = flags \<and> 4 \<le> DataSize a \<and> DataSize a \<le> 12 \<and> DataSize b = DataSize a \<and>
     p = [table, 0, 0, 0] @ u16_bytes (ucast flags) @ [type, ucast (DataSize a)] @ msg_data a @ msg_data b"
  unfolding can_table_filter_cases by (auto simp: not_less)

text \<open>
  The flow-control payload is the one the vendor sends: table 2, the flags, and the response and request
  identifiers as the caller gave them, each followed by a zero byte; it is built for 11-bit identifiers only
  and only when the mask covers all eleven bits.
\<close>

theorem flow_control_payload_exact:
  assumes "msg_ok pattern" and "msg_ok flow" and "isotp_flow_control_filter m pattern flow = Inr p"
  shows "p = [2, 0, 0, 0] @ u32_bytes (TxFlags pattern) @ [0] @ take 4 (Data pattern) @ [0] @ take 4 (Data flow) @ [0]
    \<and> length p = 19 \<and> (TxFlags pattern = 0 \<or> TxFlags pattern = ISO15765_FRAME_PAD) \<and>
    msg_identifier pattern \<le> 0x7ff \<and> msg_identifier flow \<le> 0x7ff \<and> msg_identifier m AND 0x7ff = 0x7ff"
proof -
  have p: "p = [2, 0, 0, 0] @ u32_bytes (TxFlags pattern) @ [0] @ take 4 (Data pattern) @ [0] @ take 4 (Data flow) @ [0]"
    and g: "TxFlags pattern AND NOT ISO15765_FRAME_PAD = 0" "msg_identifier pattern \<le> 0x7ff"
      "msg_identifier flow \<le> 0x7ff" "msg_identifier m AND 0x7ff = 0x7ff"
    using assms(3) unfolding isotp_flow_control_filter_def Let_def flow_control_cases [OF assms(1,2)]
    by (auto simp: not_less simp del: ISO15765_FRAME_PAD_def split: if_splits)
  have "length p = 19" using p assms(1,2) by (simp add: msg_ok_def data_capacity_def)
  then show ?thesis using p g unfolding flag_pad by blast
qed

theorem flow_control_payload_exact_witness:
  "[2, 0, 0, 0, 0x40, 0, 0, 0, 0, 0, 0, 7, 0xe8, 0, 0, 0, 7, 0xe0, 0] =
   [2, 0, 0, 0] @ u32_bytes 0x40 @ [0] @ take 4 (Data (vendor_filter_message 7 0xe8)) @ [0] @
     take 4 (Data (vendor_filter_message 7 0xe0)) @ [0]"
proof -
  have ok: "msg_ok (vendor_filter_message a b)" for a b
    by (simp add: msg_ok_def vendor_filter_message_def data_capacity_def)
  have "isotp_flow_control_filter (vendor_filter_message 7 0xff) (vendor_filter_message 7 0xe8) (vendor_filter_message 7 0xe0) =
      Inr [2, 0, 0, 0, 0x40, 0, 0, 0, 0, 0, 0, 7, 0xe8, 0, 0, 0, 7, 0xe0, 0]"
    unfolding isotp_flow_control_filter_def Let_def flow_control_cases [OF ok ok]
    by (simp add: vendor_filter_message_def msg_identifier_def u32_bytes_def)
  from flow_control_payload_exact [OF ok ok this] show ?thesis
    by (simp add: vendor_filter_message_def)
qed

text \<open>
  Periodic payloads, exactly: intervals of 5..65535 ms, CAN messages as for a transmit.
\<close>

theorem periodic_payload_exact:
  "can_periodic m i = Inr p \<longleftrightarrow>
     5 \<le> i \<and> i \<le> 65535 \<and> ProtocolID m = CAN \<and> (TxFlags m = 0 \<or> TxFlags m = CAN_29BIT_ID) \<and>
     4 \<le> DataSize m \<and> DataSize m \<le> 12 \<and>
     p = [table_periodic, 0, 0, 0] @ u32_bytes i @ u32_bytes (TxFlags m) @ [ucast (DataSize m)] @ msg_data m"
  unfolding can_periodic_cases by (auto simp: not_less)

end
