(* ===== verification/Interfaces.thy ===== *)
theory Interfaces
  imports Mongoose_Base
begin

text \<open>
  The contracts between components, as locales. \<open>frame_sink\<close> is what the session relies on in the receiver it
  feeds; src/can.cpp provides it (interpreted in CanReceiver). \<open>byte_transport\<close> is the contract of src/transport.hpp
  that the session relies on below it; the replay, tty and USB transports provide it. The contract of the frame codec,
  \<open>framing\<close>, stands with the decoder in Codec.
\<close>

section \<open>A sink of frames\<close>

text \<open>
  The session hands every body to the sink, in order, and halts it once when the device is lost or closed.
  Accepting never throws; a halted sink stays halted, ignores what arrives, and valid states stay valid.
\<close>

fun accept_all :: "('r \<Rightarrow> bytes \<Rightarrow> exn + 'r) \<Rightarrow> 'r \<Rightarrow> bytes list \<Rightarrow> exn + 'r" where
  "accept_all accept r [] = Inr r"
| "accept_all accept r (b # bs) = ebind (accept r b) (\<lambda>r. accept_all accept r bs)"

locale frame_sink =
  fixes accept :: "'r \<Rightarrow> bytes \<Rightarrow> exn + 'r"
    and halt :: "'r \<Rightarrow> status \<Rightarrow> string \<Rightarrow> 'r"
    and valid :: "'r \<Rightarrow> bool"
    and halted :: "'r \<Rightarrow> bool"
  assumes accept_total: "\<exists>r'. accept r b = Inr r'"
    and accept_valid: "valid r \<Longrightarrow> accept r b = Inr r' \<Longrightarrow> valid r'"
    and accept_halted: "halted r \<Longrightarrow> accept r b = Inr r"
    and halt_valid: "valid r \<Longrightarrow> valid (halt r code reason)"
    and halt_halted: "code \<noteq> STATUS_NOERROR \<or> halted r \<Longrightarrow> halted (halt r code reason)"
begin

lemma accept_all_total: "\<exists>r'. accept_all accept r bs = Inr r'"
proof (induction bs arbitrary: r)
  case (Cons b bs)
  obtain r1 where "accept r b = Inr r1" using accept_total by blast
  with Cons.IH [of r1] show ?case by simp
qed simp

lemma accept_all_append:
  "accept_all accept r (bs @ cs) = ebind (accept_all accept r bs) (\<lambda>r. accept_all accept r cs)"
proof (induction bs arbitrary: r)
  case (Cons b bs)
  then show ?case by (cases "accept r b") simp_all
qed simp

lemma accept_all_valid: "valid r \<Longrightarrow> accept_all accept r bs = Inr r' \<Longrightarrow> valid r'"
proof (induction bs arbitrary: r)
  case (Cons b bs)
  then show ?case using accept_valid by (auto simp: ebind_eq_Inr_iff)
qed simp

lemma accept_all_halted: "halted r \<Longrightarrow> accept_all accept r bs = Inr r"
  by (induction bs) (simp_all add: accept_halted)

end

section \<open>A transport\<close>

text \<open>
  A transport starts at most once; once stopped it stays stopped, refuses to start and to send, and stopping it again
  does nothing. \<open>'t\<close> is its state, with all that it has written or taken from the system, and \<open>sound\<close> what holds of
  it at any time; the other arguments of the operations are what comes from outside.
\<close>

datatype ('g, 'e, 'f) transport_op = Start 'g | Send 'e bytes nat | Stop 'f

locale byte_transport =
  fixes start :: "'g \<Rightarrow> 't \<Rightarrow> (exn + unit) \<times> 't"
    and send :: "'e \<Rightarrow> bytes \<Rightarrow> nat \<Rightarrow> 't \<Rightarrow> (exn + unit) \<times> 't"
    and stop :: "'f \<Rightarrow> 't \<Rightarrow> (exn + unit) \<times> 't"
    and stopped :: "'t \<Rightarrow> bool"
    and sound :: "'t \<Rightarrow> bool"
  assumes start_sound: "sound t \<Longrightarrow> sound (snd (start g t))"
    and send_sound: "sound t \<Longrightarrow> sound (snd (send e data n t))"
    and stop_sound: "sound t \<Longrightarrow> sound (snd (stop f t))"
    and stop_stops: "sound t \<Longrightarrow> stopped (snd (stop f t))"
    and stop_again: "sound t \<Longrightarrow> stopped t \<Longrightarrow> stop f t = (Inr (), t)"
    and stopped_start: "sound t \<Longrightarrow> stopped t \<Longrightarrow> \<exists>x. start g t = (Inl x, t)"
    and stopped_send: "sound t \<Longrightarrow> stopped t \<Longrightarrow> \<exists>x. send e data n t = (Inl x, t)"
    and start_once: "sound t \<Longrightarrow> start g t = (Inr (), t') \<Longrightarrow> \<exists>x. start g' t' = (Inl x, t')"
begin

definition perform_op :: "('g, 'e, 'f) transport_op \<Rightarrow> 't \<Rightarrow> (exn + unit) \<times> 't" where
  "perform_op op t = (case op of Start g \<Rightarrow> start g t | Send e data n \<Rightarrow> send e data n t | Stop f \<Rightarrow> stop f t)"

fun run_ops :: "('g, 'e, 'f) transport_op list \<Rightarrow> 't \<Rightarrow> 't" where
  "run_ops [] t = t"
| "run_ops (op # ops) t = run_ops ops (snd (perform_op op t))"

lemma perform_sound: "sound t \<Longrightarrow> sound (snd (perform_op op t))"
  by (cases op) (simp_all add: perform_op_def start_sound send_sound stop_sound)

lemma run_sound: "sound t \<Longrightarrow> sound (run_ops ops t)"
  by (induction ops arbitrary: t) (simp_all add: perform_sound)

lemma stopped_op: assumes "sound t" and "stopped t" shows "snd (perform_op op t) = t"
proof (cases op)
  case (Start g)
  then show ?thesis using stopped_start [OF assms, of g] by (auto simp: perform_op_def)
next
  case (Send e data n)
  then show ?thesis using stopped_send [OF assms, of e data n] by (auto simp: perform_op_def)
next
  case (Stop f)
  then show ?thesis using stop_again [OF assms, of f] by (simp add: perform_op_def)
qed

text \<open>Stopping is final: whatever is asked of the transport afterwards changes nothing.\<close>

lemma stopped_for_good: "sound t \<Longrightarrow> stopped t \<Longrightarrow> run_ops ops t = t"
  by (induction ops) (simp_all add: stopped_op)

lemma nothing_after_stop: "sound t \<Longrightarrow> run_ops ops (snd (stop f t)) = snd (stop f t)"
  by (rule stopped_for_good [OF stop_sound stop_stops])

end

end
