(* ===== verification/CanReceiver.thy ===== *)
theory CanReceiver
  imports CanMessages IsoTp Interfaces
begin

text \<open>
  \<open>class CanReceiver\<close> of src/can.hpp and src/can.cpp: the queue between the reader thread, which
  delivers frame bodies, and the API threads, which read messages, record transmits and wait for their
  confirmation.

  Every method runs under \<open>mutex_\<close>, so each is one step on the record \<open>can_receiver\<close>. The
  two methods that wait on the condition variable release the mutex there: what other threads do to the
  receiver meanwhile is a list of events, one list per wait, and running out of lists is the deadline.
  The counters that writers share with the receiver (\<open>TransmitCall\<close>, a shared pointer that may be
  null) are a store addressed by number, \<open>rx_confirmed\<close>, since all access to them is under the
  same mutex.
\<close>

section \<open>Definitions\<close>

definition rx_capacity :: nat where [simp]: "rx_capacity = 4096"
definition message_capacity :: nat where [simp]: "message_capacity = 256"

record rx_frame =
  fr_status :: u32
  fr_timestamp :: u32
  fr_size :: u16
  fr_data :: bytes
  fr_tx_flags :: u32

record rx_message =
  rm_status :: u32
  rm_timestamp :: u32
  rm_data :: bytes
  rm_tx_flags :: u32

record pending_transmit =
  pt_sequence :: u16
  pt_flags :: u32
  pt_message :: bytes
  pt_call :: "nat option"

record can_receiver =
  rx_protocol :: u16
  rx_reassembler :: reassembler
  rx_messages :: "rx_message list"
  rx_pending :: "pending_transmit list"
  rx_frames :: "rx_frame list"
  rx_transmitted :: nat
  rx_overflow :: bool
  rx_malformed :: bool
  rx_loopback :: bool
  rx_stopped :: status
  rx_reason :: string
  rx_confirmed :: "nat \<Rightarrow> nat"

definition rx_new :: "u16 \<Rightarrow> can_receiver" where
  "rx_new protocol =
     \<lparr>rx_protocol = protocol, rx_reassembler = [], rx_messages = [], rx_pending = [], rx_frames = [],
      rx_transmitted = 0, rx_overflow = False, rx_malformed = False, rx_loopback = False,
      rx_stopped = STATUS_NOERROR, rx_reason = [], rx_confirmed = (\<lambda>_. 0)\<rparr>"

text \<open>\<open>deliver_confirmed\<close>: the ISO15765 and the raw CAN branch, after the record has been found.\<close>

definition push_message :: "can_receiver \<Rightarrow> rx_message \<Rightarrow> can_receiver" where
  "push_message r m = r\<lparr>rx_messages := rx_messages r @ [m]\<rparr>"

definition confirm_iso :: "can_receiver \<Rightarrow> pending_transmit \<Rightarrow> u32 \<Rightarrow> can_receiver" where
  "confirm_iso r sent timestamp =
     (if length (pt_message sent) \<ge> 4 \<and> length (rx_messages r) = message_capacity
      then r\<lparr>rx_overflow := True\<rparr>
      else
        let r = (if length (pt_message sent) \<ge> 4
                 then push_message r \<lparr>rm_status = TX_MSG_TYPE OR TX_DONE, rm_timestamp = timestamp,
                                      rm_data = take 4 (pt_message sent), rm_tx_flags = pt_flags sent\<rparr>
                 else r)
        in if rx_loopback r then
             (if length (rx_messages r) = message_capacity then r\<lparr>rx_overflow := True\<rparr>
              else push_message r \<lparr>rm_status = TX_MSG_TYPE, rm_timestamp = timestamp,
                                   rm_data = pt_message sent, rm_tx_flags = pt_flags sent\<rparr>)
           else r)"

definition confirm_can :: "can_receiver \<Rightarrow> pending_transmit \<Rightarrow> u32 \<Rightarrow> can_receiver" where
  "confirm_can r sent timestamp =
     (if rx_loopback r \<and> length (pt_message sent) \<ge> 4 \<and> length (pt_message sent) \<le> 12 then
        (if length (rx_frames r) = rx_capacity then r\<lparr>rx_overflow := True\<rparr>
         else
           r\<lparr>rx_frames := rx_frames r @
             [\<lparr>fr_status = TX_MSG_TYPE OR (if pt_flags sent AND CAN_29BIT_ID \<noteq> 0 then 0x100 else 0),
               fr_timestamp = timestamp, fr_size = of_nat (length (pt_message sent)),
               fr_data = copy_at 0 (pt_message sent) (replicate 12 0), fr_tx_flags = pt_flags sent\<rparr>]\<rparr>)
      else r)"

definition deliver_confirmed :: "can_receiver \<Rightarrow> u16 \<Rightarrow> u32 \<Rightarrow> bool \<times> can_receiver" where
  "deliver_confirmed r sequence timestamp =
     (case dropWhile (\<lambda>p. pt_sequence p \<noteq> sequence) (rx_pending r) of
        [] \<Rightarrow> (False, r)
      | sent # rest \<Rightarrow>
          let r = r\<lparr>rx_pending := rest\<rparr>;
              r = (case pt_call sent of
                     None \<Rightarrow> r
                   | Some c \<Rightarrow> r\<lparr>rx_confirmed := (rx_confirmed r)(c := rx_confirmed r c + 1)\<rparr>)
          in (True, if rx_protocol r = ISO15765 then confirm_iso r sent timestamp
                    else confirm_can r sent timestamp))"

text \<open>The loop over the reassembler's outputs; it stops at the first that finds the queue full.\<close>

fun push_outputs :: "can_receiver \<Rightarrow> u32 \<Rightarrow> iso_output list \<Rightarrow> can_receiver" where
  "push_outputs r timestamp [] = r"
| "push_outputs r timestamp (out # outs) =
     (if length (rx_messages r) = message_capacity then r\<lparr>rx_overflow := True\<rparr>
      else push_outputs (push_message r \<lparr>rm_status = out_status out, rm_timestamp = timestamp,
                                         rm_data = out_data out, rm_tx_flags = 0\<rparr>) timestamp outs)"

text \<open>\<open>receive\<close>: not for this receiver, an indication, or inbound data.\<close>

definition rx_ignores :: "can_receiver \<Rightarrow> bytes \<Rightarrow> exn + bool" where
  "rx_ignores r body =
     (if rx_stopped r \<noteq> STATUS_NOERROR \<or> length body < 12 then Inr True
      else ebind (le16 body 0) (\<lambda>dest.
        if dest \<noteq> 0 then Inr True
        else ebind (le16 body 2) (\<lambda>src. Inr (src \<noteq> channel_node (rx_protocol r) board_node))))"

definition rx_indication :: "can_receiver \<Rightarrow> bytes \<Rightarrow> exn + can_receiver" where
  "rx_indication r body =
     (if length body < 20 then Inr r
      else ebind (le32 body 12) (\<lambda>indication.
        if indication = 0x10b \<or> indication = 0x119 then Inr (r\<lparr>rx_overflow := True\<rparr>)
        else if indication = 0x106 then
          ebind (le16 body 6) (\<lambda>sequence. ebind (le32 body 16) (\<lambda>timestamp.
            let (paired, r') = deliver_confirmed r sequence timestamp
            in Inr (if paired then r'\<lparr>rx_transmitted := rx_transmitted r' + 1\<rparr> else r')))
        else Inr r))"

definition rx_data_malformed :: "bytes \<Rightarrow> exn + bool" where
  "rx_data_malformed body =
     (if length body < 24 then Inr True
      else ebind (le16 body 22) (\<lambda>n. Inr (n < 4 \<or> n > 12 \<or> length body \<noteq> 24 + unat n)))"

definition rx_data :: "can_receiver \<Rightarrow> bytes \<Rightarrow> exn + can_receiver" where
  "rx_data r body =
     ebind (rx_data_malformed body) (\<lambda>malformed.
       if malformed then Inr (r\<lparr>rx_malformed := True\<rparr>)
       else if rx_protocol r = ISO15765 then
         ebind (le32 body 16) (\<lambda>timestamp. ebind (le16 body 22) (\<lambda>n.
           let (outs, reassembler) = reassembler_feed (rx_reassembler r) (take (unat n) (drop 24 body))
           in Inr (push_outputs (r\<lparr>rx_reassembler := reassembler\<rparr>) timestamp outs)))
       else if length (rx_frames r) = rx_capacity then Inr (r\<lparr>rx_overflow := True\<rparr>)
       else
         ebind (le32 body 12) (\<lambda>status. ebind (le32 body 16) (\<lambda>timestamp. ebind (le16 body 22) (\<lambda>n.
           Inr (r\<lparr>rx_frames := rx_frames r @
             [\<lparr>fr_status = status AND 0xc0000100, fr_timestamp = timestamp, fr_size = n,
               fr_data = copy_at 0 (take (unat n) (drop 24 body)) (replicate 12 0), fr_tx_flags = 0\<rparr>]\<rparr>)))))"

definition rx_receive :: "can_receiver \<Rightarrow> bytes \<Rightarrow> exn + can_receiver" where
  "rx_receive r body =
     ebind (rx_ignores r body) (\<lambda>ignored.
       if ignored then Inr r
       else ebind (le16 body 4) (\<lambda>opcode.
         if opcode = 10 then rx_indication r body
         else if opcode \<noteq> 9 then Inr r
         else rx_data r body))"

definition note_transmit :: "can_receiver \<Rightarrow> passthru_msg \<Rightarrow> u16 \<Rightarrow> nat option \<Rightarrow> can_receiver" where
  "note_transmit r message sequence call =
     (let pending = (if length (rx_pending r) = message_capacity then drop 1 (rx_pending r) else rx_pending r);
          size = min (unat (DataSize message)) (4 + 8 + 4096)
      in r\<lparr>rx_pending := pending @
            [\<lparr>pt_sequence = sequence, pt_flags = TxFlags message,
              pt_message = take size (Data message), pt_call = call\<rparr>]\<rparr>)"

definition set_loopback :: "can_receiver \<Rightarrow> bool \<Rightarrow> can_receiver" where
  "set_loopback r enabled = r\<lparr>rx_loopback := enabled\<rparr>"

definition forget_transmit :: "can_receiver \<Rightarrow> can_receiver" where
  "forget_transmit r = (if rx_pending r \<noteq> [] then r\<lparr>rx_pending := butlast (rx_pending r)\<rparr> else r)"

definition flush_receive :: "can_receiver \<Rightarrow> can_receiver" where
  "flush_receive r =
     r\<lparr>rx_frames := [], rx_messages := [], rx_reassembler := reassembler_reset (rx_reassembler r),
       rx_overflow := False, rx_malformed := False\<rparr>"

definition forget_transmits :: "can_receiver \<Rightarrow> can_receiver" where
  "forget_transmits r = r\<lparr>rx_pending := []\<rparr>"

definition rx_stop :: "can_receiver \<Rightarrow> status \<Rightarrow> string \<Rightarrow> can_receiver" where
  "rx_stop r code reason =
     (let r = (if rx_stopped r = STATUS_NOERROR then r\<lparr>rx_stopped := code, rx_reason := reason\<rparr> else r)
      in r\<lparr>rx_frames := [], rx_messages := [], rx_pending := []\<rparr>)"

text \<open>
  \<open>read\<close>. \<open>out = {}\<close> zeroes a message before it is filled in.
\<close>

definition message_of_iso :: "rx_message \<Rightarrow> passthru_msg" where
  "message_of_iso m =
     \<lparr>ProtocolID = ISO15765, RxStatus = rm_status m, TxFlags = rm_tx_flags m, Timestamp = rm_timestamp m,
      DataSize = of_nat (length (rm_data m)),
      ExtraDataIndex = (if rm_status m AND (START_OF_MESSAGE OR TX_DONE) \<noteq> 0 then 0
                        else of_nat (length (rm_data m))),
      Data = copy_at 0 (rm_data m) (replicate data_capacity 0)\<rparr>"

definition message_of_frame :: "rx_frame \<Rightarrow> passthru_msg" where
  "message_of_frame f =
     \<lparr>ProtocolID = CAN, RxStatus = fr_status f, TxFlags = fr_tx_flags f, Timestamp = fr_timestamp f,
      DataSize = ucast (fr_size f), ExtraDataIndex = ucast (fr_size f),
      Data = copy_at 0 (take (unat (fr_size f)) (fr_data f)) (replicate data_capacity 0)\<rparr>"

text \<open>The two inner loops: up to \<open>n\<close> messages, then frames while there is room.\<close>

definition rx_drain :: "can_receiver \<Rightarrow> nat \<Rightarrow> passthru_msg list \<times> can_receiver" where
  "rx_drain r n =
     (let k = (if rx_protocol r = ISO15765 then min n (length (rx_messages r)) else 0);
          j = min (n - k) (length (rx_frames r))
      in (map message_of_iso (take k (rx_messages r)) @ map message_of_frame (take j (rx_frames r)),
          r\<lparr>rx_messages := drop k (rx_messages r), rx_frames := drop j (rx_frames r)\<rparr>))"

text \<open>What follows the loop; \<open>std::exchange\<close> clears the flag it reports.\<close>

definition rx_read_result ::
    "can_receiver \<Rightarrow> nat \<Rightarrow> nat \<Rightarrow> bool \<Rightarrow> (exn + unit) \<times> can_receiver" where
  "rx_read_result r count requested timed =
     (if rx_overflow r
      then (Inl (Error ERR_BUFFER_OVERFLOW ''CAN receive buffer overflow; messages lost''), r\<lparr>rx_overflow := False\<rparr>)
      else if rx_malformed r
      then (Inl (Error ERR_INVALID_MSG ''malformed CAN receive frame discarded''), r\<lparr>rx_malformed := False\<rparr>)
      else if count = 0 then (Inl (Error ERR_BUFFER_EMPTY ''zero CAN messages received''), r)
      else if timed \<and> count < requested
      then (Inl (Error ERR_TIMEOUT ''CAN read returned fewer messages than requested''), r)
      else (Inr (), r))"

text \<open>A read that does not wait (\<open>timeout_ms\<close> is 0).\<close>

definition rx_read_now :: "can_receiver \<Rightarrow> nat \<Rightarrow> passthru_msg list \<times> (exn + unit) \<times> can_receiver" where
  "rx_read_now r requested =
     (if requested > 0 \<and> rx_stopped r \<noteq> STATUS_NOERROR
      then ([], Inl (Error (rx_stopped r) (rx_reason r)), r)
      else
        let (got, r') = rx_drain r requested;
            (res, r'') = rx_read_result r' (length got) requested False
        in (got, res, r''))"

text \<open>What other threads may do to a receiver while one of its methods waits.\<close>

datatype rx_event =
    Deliver bytes
  | Stop status string
  | Note passthru_msg u16 "nat option"
  | Forget_last
  | Forget_all
  | Flush
  | Loopback bool
  | Read_now nat

definition rx_apply :: "can_receiver \<Rightarrow> rx_event \<Rightarrow> can_receiver" where
  "rx_apply r e =
     (case e of
        Deliver body \<Rightarrow> (case rx_receive r body of Inl _ \<Rightarrow> r | Inr r' \<Rightarrow> r')
      | Stop code reason \<Rightarrow> rx_stop r code reason
      | Note message sequence call \<Rightarrow> note_transmit r message sequence call
      | Forget_last \<Rightarrow> forget_transmit r
      | Forget_all \<Rightarrow> forget_transmits r
      | Flush \<Rightarrow> flush_receive r
      | Loopback b \<Rightarrow> set_loopback r b
      | Read_now n \<Rightarrow> snd (snd (rx_read_now r n)))"

definition rx_run :: "can_receiver \<Rightarrow> rx_event list \<Rightarrow> can_receiver" where
  "rx_run r evs = foldl rx_apply r evs"

text \<open>The predicate on which \<open>read\<close> waits.\<close>

definition rx_read_ready :: "can_receiver \<Rightarrow> bool" where
  "rx_read_ready r \<longleftrightarrow> rx_stopped r \<noteq> STATUS_NOERROR \<or>
     (if rx_protocol r = ISO15765 then rx_messages r \<noteq> [] else rx_frames r \<noteq> []) \<or>
     rx_overflow r \<or> rx_malformed r"

fun rx_read_loop ::
    "can_receiver \<Rightarrow> passthru_msg list \<Rightarrow> nat \<Rightarrow> bool \<Rightarrow> rx_event list list \<Rightarrow>
     passthru_msg list \<times> (exn + unit) \<times> can_receiver" where
  "rx_read_loop r out requested timed waits =
     (if length out < requested \<and> rx_stopped r \<noteq> STATUS_NOERROR
      then (out, Inl (Error (rx_stopped r) (rx_reason r)), r)
      else
        let (got, r') = (if length out < requested then rx_drain r (requested - length out) else ([], r));
            out' = out @ got
        in if length out' = requested \<or> \<not> timed \<or> rx_overflow r' \<or> rx_malformed r'
           then (let (res, r'') = rx_read_result r' (length out') requested timed in (out', res, r''))
           else case waits of
             [] \<Rightarrow> (let (res, r'') = rx_read_result r' (length out') requested timed in (out', res, r''))
           | evs # waits' \<Rightarrow>
               let woken = rx_run r' evs
               in if rx_read_ready woken then rx_read_loop woken out' requested timed waits'
                  else (let (res, r'') = rx_read_result woken (length out') requested timed in (out', res, r'')))"

declare rx_read_loop.simps [simp del]

definition rx_read ::
    "can_receiver \<Rightarrow> nat \<Rightarrow> bool \<Rightarrow> rx_event list list \<Rightarrow> passthru_msg list \<times> (exn + unit) \<times> can_receiver" where
  "rx_read r requested timed waits = rx_read_loop r [] requested timed waits"

text \<open>
  \<open>await_transmitted\<close>: one wait, on "stopped, or enough of this call confirmed".
\<close>

definition await_ready :: "can_receiver \<Rightarrow> nat \<Rightarrow> nat \<Rightarrow> bool" where
  "await_ready r call target \<longleftrightarrow> rx_stopped r \<noteq> STATUS_NOERROR \<or> rx_confirmed r call \<ge> target"

definition await_transmitted ::
    "can_receiver \<Rightarrow> nat \<Rightarrow> nat \<Rightarrow> rx_event list \<Rightarrow> (exn + bool) \<times> can_receiver" where
  "await_transmitted r call target evs =
     (let r = (if await_ready r call target then r else rx_run r evs)
      in (if rx_stopped r \<noteq> STATUS_NOERROR then Inl (Error (rx_stopped r) (rx_reason r))
          else Inr (rx_confirmed r call \<ge> target), r))"

section \<open>Reception never throws\<close>

lemma le32_Inr: "off + 4 \<le> length d \<Longrightarrow> \<exists>v. le32 d off = Inr v"
  by (rule le32_total)

lemma rx_ignores_total: "\<exists>b. rx_ignores r body = Inr b"
  by (auto simp: rx_ignores_def le16_Inr)

lemma rx_ignores_False: "rx_ignores r body = Inr False \<Longrightarrow> 12 \<le> length body \<and> rx_stopped r = STATUS_NOERROR"
  by (auto simp: rx_ignores_def split: if_splits)

lemma rx_indication_total: "\<exists>r'. rx_indication r body = Inr r'"
proof (cases "length body < 20")
  case False
  then obtain i t where "le32 body 12 = Inr i" "le32 body 16 = Inr t"
    using le32_total [of 12 body] le32_total [of 16 body] by auto
  with False show ?thesis by (auto simp: rx_indication_def le16_Inr split: prod.splits)
qed (simp add: rx_indication_def)

lemma rx_data_malformed_total: "\<exists>b. rx_data_malformed body = Inr b"
  by (auto simp: rx_data_malformed_def le16_Inr)

lemma rx_data_malformed_False:
  assumes "rx_data_malformed body = Inr False"
  obtains n s t where "le16 body 22 = Inr n" "le32 body 12 = Inr s" "le32 body 16 = Inr t"
    "4 \<le> unat n" "unat n \<le> 12" "length body = 24 + unat n"
proof -
  have len: "24 \<le> length body" using assms by (auto simp: rx_data_malformed_def split: if_splits)
  then obtain n s t where v: "le16 body 22 = Inr n" "le32 body 12 = Inr s" "le32 body 16 = Inr t"
    using le32_total [of 12 body] le32_total [of 16 body] by (auto simp: le16_Inr)
  with assms len have "\<not> n < 4" "\<not> n > 12" "length body = 24 + unat n"
    by (auto simp: rx_data_malformed_def)
  then show ?thesis using that [OF v] by (auto simp: word_le_nat_alt word_less_nat_alt)
qed

lemma rx_data_total: "\<exists>r'. rx_data r body = Inr r'"
proof -
  obtain b where b: "rx_data_malformed body = Inr b" using rx_data_malformed_total by blast
  show ?thesis
  proof (cases b)
    case False
    with b have "rx_data_malformed body = Inr False" by simp
    then show ?thesis
      by (rule rx_data_malformed_False) (auto simp: rx_data_def b split: prod.splits)
  qed (simp add: rx_data_def b)
qed

lemma rx_receive_total: "\<exists>r'. rx_receive r body = Inr r'"
proof -
  obtain ignored where i: "rx_ignores r body = Inr ignored" using rx_ignores_total by blast
  show ?thesis
  proof (cases ignored)
    case False
    with i have "12 \<le> length body" using rx_ignores_False [of r body] by simp
    then obtain op where "le16 body 4 = Inr op" by (auto simp: le16_Inr)
    then show ?thesis
      using i False rx_indication_total rx_data_total by (auto simp: rx_receive_def)
  qed (simp add: rx_receive_def i)
qed

section \<open>The invariant\<close>

text \<open>
  Queue bounds; only one of the two queues is in use, by protocol; a stored message fits the
  4128 bytes of \<open>PASSTHRU_MSG::Data\<close> and a stored frame its array of 12; after a stop
  nothing is queued for the reader.
\<close>

definition rx_inv :: "can_receiver \<Rightarrow> bool" where
  "rx_inv r \<longleftrightarrow>
     reassembler_inv (rx_reassembler r) \<and>
     length (rx_messages r) \<le> 256 \<and> length (rx_frames r) \<le> 4096 \<and> length (rx_pending r) \<le> 256 \<and>
     (if rx_protocol r = ISO15765 then rx_frames r = [] else rx_messages r = []) \<and>
     (\<forall>m \<in> set (rx_messages r). length (rm_data m) \<le> data_capacity) \<and>
     (\<forall>f \<in> set (rx_frames r). 4 \<le> unat (fr_size f) \<and> unat (fr_size f) \<le> 12 \<and> length (fr_data f) = 12) \<and>
     (\<forall>p \<in> set (rx_pending r). length (pt_message p) \<le> 4108) \<and>
     (rx_stopped r \<noteq> STATUS_NOERROR \<longrightarrow> rx_frames r = [] \<and> rx_messages r = [])"

lemma rx_inv_new [simp]: "rx_inv (rx_new protocol)"
  by (simp add: rx_inv_def rx_new_def)

lemma set_dropWhile_Cons:
  assumes "dropWhile P xs = y # ys"
  shows "y \<in> set xs \<and> set ys \<subseteq> set xs \<and> length ys < length xs \<and> \<not> P y"
proof -
  have "xs = takeWhile P xs @ y # ys" using assms by (metis takeWhile_dropWhile_id)
  then have "y \<in> set xs" "set ys \<subseteq> set xs" "length ys < length xs"
    by (metis in_set_conv_decomp, metis set_subset_Cons set_append Un_upper2 subset_trans,
        metis add_Suc_right le_add2 length_Cons length_append less_Suc_eq_le)
  moreover have "\<not> P y" using assms hd_dropWhile [of P xs] by simp
  ultimately show ?thesis by blast
qed


lemma rx_inv_stopped [simp]: "rx_inv r \<Longrightarrow> rx_inv (r\<lparr>rx_overflow := b\<rparr>)"
  "rx_inv r \<Longrightarrow> rx_inv (r\<lparr>rx_malformed := b\<rparr>)"
  "rx_inv r \<Longrightarrow> rx_inv (r\<lparr>rx_transmitted := n\<rparr>)"
  "rx_inv r \<Longrightarrow> rx_inv (r\<lparr>rx_loopback := b\<rparr>)"
  "rx_inv r \<Longrightarrow> rx_inv (r\<lparr>rx_confirmed := c\<rparr>)"
  by (simp_all add: rx_inv_def)

lemma rx_inv_push_message:
  assumes "rx_inv r" and "rx_protocol r = ISO15765" and "length (rx_messages r) \<noteq> 256"
    and "rx_stopped r = STATUS_NOERROR" and "length (rm_data m) \<le> data_capacity"
  shows "rx_inv (push_message r m)"
  using assms by (auto simp: rx_inv_def push_message_def)

lemma rx_inv_push_frame:
  assumes "rx_inv r" and "rx_protocol r \<noteq> ISO15765" and "length (rx_frames r) \<noteq> 4096"
    and "rx_stopped r = STATUS_NOERROR" and "4 \<le> unat (fr_size f)" "unat (fr_size f) \<le> 12" "length (fr_data f) = 12"
  shows "rx_inv (r\<lparr>rx_frames := rx_frames r @ [f]\<rparr>)"
  using assms by (auto simp: rx_inv_def)

lemma push_message_fields [simp]:
  "rx_protocol (push_message r m) = rx_protocol r" "rx_stopped (push_message r m) = rx_stopped r"
  "rx_loopback (push_message r m) = rx_loopback r" "rx_reason (push_message r m) = rx_reason r"
  "rx_pending (push_message r m) = rx_pending r" "rx_confirmed (push_message r m) = rx_confirmed r"
  "rx_transmitted (push_message r m) = rx_transmitted r" "rx_frames (push_message r m) = rx_frames r"
  "rx_messages (push_message r m) = rx_messages r @ [m]" "rx_overflow (push_message r m) = rx_overflow r"
  by (simp_all add: push_message_def)

lemma rx_inv_confirm_iso:
  assumes "rx_inv r" and "rx_protocol r = ISO15765" and "rx_stopped r = STATUS_NOERROR"
    and "length (pt_message sent) \<le> 4108"
  shows "rx_inv (confirm_iso r sent timestamp)"
proof -
  have fits: "length (pt_message sent) \<le> data_capacity" "length (take 4 (pt_message sent)) \<le> data_capacity"
    using assms(4) by (simp_all add: data_capacity_def)
  let ?full = "\<lambda>q. length (rx_messages q) = message_capacity"
  have push: "rx_inv (push_message q m)"
    if "rx_inv q" "rx_protocol q = ISO15765" "\<not> ?full q" "rx_stopped q = STATUS_NOERROR" "length (rm_data m) \<le> data_capacity"
    for q m using rx_inv_push_message that by simp
  show ?thesis
  proof (cases "4 \<le> length (pt_message sent) \<and> ?full r")
    case True
    then show ?thesis using assms(1) by (simp add: confirm_iso_def)
  next
    case False
    define q where "q = (if 4 \<le> length (pt_message sent)
      then push_message r \<lparr>rm_status = TX_MSG_TYPE OR TX_DONE, rm_timestamp = timestamp,
                           rm_data = take 4 (pt_message sent), rm_tx_flags = pt_flags sent\<rparr> else r)"
    have q: "rx_inv q" "rx_protocol q = ISO15765" "rx_stopped q = STATUS_NOERROR"
      using False assms fits push [of r] by (auto simp: q_def)
    have "confirm_iso r sent timestamp =
      (if rx_loopback r then if ?full q then q\<lparr>rx_overflow := True\<rparr>
         else push_message q \<lparr>rm_status = TX_MSG_TYPE, rm_timestamp = timestamp,
                rm_data = pt_message sent, rm_tx_flags = pt_flags sent\<rparr> else q)"
      using False by (auto simp: confirm_iso_def q_def Let_def)
    then show ?thesis using q fits push [of q] by simp
  qed
qed

lemma rx_inv_confirm_can:
  assumes "rx_inv r" and "rx_protocol r \<noteq> ISO15765" and "rx_stopped r = STATUS_NOERROR"
  shows "rx_inv (confirm_can r sent timestamp)"
  using assms unfolding confirm_can_def
  by (auto intro!: rx_inv_push_frame simp: unat_of_nat)

lemma rx_inv_deliver_confirmed:
  assumes "rx_inv r" and "rx_stopped r = STATUS_NOERROR"
  shows "rx_inv (snd (deliver_confirmed r sequence timestamp))"
proof (cases "dropWhile (\<lambda>p. pt_sequence p \<noteq> sequence) (rx_pending r)")
  case Nil
  then show ?thesis using assms unfolding deliver_confirmed_def Nil by simp
next
  case (Cons sent rest)
  from set_dropWhile_Cons [OF this] assms
  have "rx_inv (r\<lparr>rx_pending := rest\<rparr>)" and "length (pt_message sent) \<le> 4108"
    by (auto simp: rx_inv_def)
  then show ?thesis
    using Cons assms(2)
    by (auto simp: deliver_confirmed_def Let_def intro!: rx_inv_confirm_iso rx_inv_confirm_can split: option.splits)
qed

lemma rx_inv_push_outputs:
  assumes "rx_inv r" and "rx_protocol r = ISO15765" and "rx_stopped r = STATUS_NOERROR"
    and "\<forall>out \<in> set outs. length (out_data out) \<le> data_capacity"
  shows "rx_inv (push_outputs r timestamp outs)"
  using assms
proof (induction outs arbitrary: r)
  case (Cons out outs)
  show ?case
  proof (cases "length (rx_messages r) = message_capacity")
    case False
    with Cons.prems have "rx_inv (push_message r \<lparr>rm_status = out_status out, rm_timestamp = timestamp,
                                         rm_data = out_data out, rm_tx_flags = 0\<rparr>)"
      by (intro rx_inv_push_message) simp_all
    from Cons.IH [OF this] Cons.prems False show ?thesis by simp
  qed (use Cons.prems in simp)
qed simp

lemma rx_inv_data:
  assumes "rx_inv r" and "rx_stopped r = STATUS_NOERROR" and "rx_data r body = Inr r'"
  shows "rx_inv r'"
proof -
  obtain b where b: "rx_data_malformed body = Inr b" using rx_data_malformed_total by blast
  show ?thesis
  proof (cases b)
    case True
    with assms b show ?thesis by (auto simp: rx_data_def)
  next
    case False
    with b have f: "rx_data_malformed body = Inr False" by simp
    obtain n s t where n: "le16 body 22 = Inr n" "le32 body 12 = Inr s" "le32 body 16 = Inr t"
      "4 \<le> unat n" "unat n \<le> 12" "length body = 24 + unat n"
      using rx_data_malformed_False [OF f] by metis
    let ?frame = "take (unat n) (drop 24 body)"
    have inv: "reassembler_inv (rx_reassembler r)" using assms(1) by (simp add: rx_inv_def)
    have iso: "rx_inv (r\<lparr>rx_reassembler := snd (reassembler_feed (rx_reassembler r) ?frame)\<rparr>)"
      using assms(1) feed_inv [OF inv] by (simp add: rx_inv_def)
    have outs: "\<forall>out \<in> set (fst (reassembler_feed (rx_reassembler r) ?frame)). length (out_data out) \<le> data_capacity"
      using feed_output_ok [OF inv] by (fastforce simp: iso_output_ok_def data_capacity_def)
    from iso outs assms(2) have "rx_protocol r = ISO15765 \<Longrightarrow>
      rx_inv (push_outputs (r\<lparr>rx_reassembler := snd (reassembler_feed (rx_reassembler r) ?frame)\<rparr>) t
        (fst (reassembler_feed (rx_reassembler r) ?frame)))"
      by (intro rx_inv_push_outputs) simp_all
    moreover have "length ?frame \<le> 12" using n by simp
    ultimately show ?thesis
      using assms n f by (auto simp: rx_data_def case_prod_unfold Let_def intro!: rx_inv_push_frame split: if_splits)
  qed
qed

lemma rx_inv_receive:
  assumes "rx_inv r" and "rx_receive r body = Inr r'"
  shows "rx_inv r'"
proof -
  obtain ig where i: "rx_ignores r body = Inr ig" using rx_ignores_total by blast
  show ?thesis
  proof (cases ig)
    case True
    with i assms show ?thesis by (simp add: rx_receive_def)
  next
    case False
    with i have running: "rx_stopped r = STATUS_NOERROR" using rx_ignores_False [of r body] by simp
    from i assms False obtain op where "le16 body 4 = Inr op"
      "(if op = 10 then rx_indication r body else if op \<noteq> 9 then Inr r else rx_data r body) = Inr r'"
      by (auto simp: rx_receive_def ebind_eq_Inr_iff)
    moreover have "rx_inv r'" if "rx_indication r body = Inr r'"
      using that assms(1) rx_inv_deliver_confirmed [OF assms(1) running]
      by (auto simp: rx_indication_def ebind_eq_Inr_iff case_prod_unfold Let_def split: if_splits)
    ultimately show ?thesis
      using assms(1) rx_inv_data [OF assms(1) running, of body r'] by (auto split: if_splits)
  qed
qed

lemma rx_inv_note_transmit: "rx_inv r \<Longrightarrow> rx_inv (note_transmit r m sq c)"
  by (auto simp: rx_inv_def note_transmit_def Let_def dest: in_set_dropD)

lemma rx_inv_forget_transmit: "rx_inv r \<Longrightarrow> rx_inv (forget_transmit r)"
  by (auto simp: rx_inv_def forget_transmit_def dest: in_set_butlastD)

lemma rx_inv_forget_transmits: "rx_inv r \<Longrightarrow> rx_inv (forget_transmits r)"
  by (simp add: rx_inv_def forget_transmits_def)

lemma rx_inv_flush: "rx_inv r \<Longrightarrow> rx_inv (flush_receive r)"
  by (simp add: rx_inv_def flush_receive_def reassembler_reset_def)

lemma rx_inv_stop: "rx_inv r \<Longrightarrow> rx_inv (rx_stop r code reason)"
  by (simp add: rx_inv_def rx_stop_def Let_def)

lemma rx_inv_drain: "rx_inv r \<Longrightarrow> rx_inv (snd (rx_drain r n))"
  by (auto simp: rx_inv_def rx_drain_def Let_def dest: in_set_dropD)

lemma rx_inv_read_result: "rx_inv r \<Longrightarrow> rx_inv (snd (rx_read_result r k n timed))"
  by (simp add: rx_read_result_def)

lemma rx_inv_read_now: "rx_inv r \<Longrightarrow> rx_inv (snd (snd (rx_read_now r n)))"
  using rx_inv_drain [of r n] rx_inv_read_result
  by (simp add: rx_read_now_def case_prod_unfold Let_def)

lemma rx_inv_apply: "rx_inv r \<Longrightarrow> rx_inv (rx_apply r e)"
  using rx_receive_total
  by (cases e) (auto simp: rx_apply_def set_loopback_def rx_inv_stop rx_inv_note_transmit rx_inv_forget_transmit
      rx_inv_forget_transmits rx_inv_flush rx_inv_read_now intro: rx_inv_receive split: sum.splits)

lemma rx_run_simps [simp]: "rx_run r [] = r" "rx_run r (e # es) = rx_run (rx_apply r e) es"
  by (simp_all add: rx_run_def)

lemma rx_run_append: "rx_run r (es @ fs) = rx_run (rx_run r es) fs"
  by (simp add: rx_run_def)

lemma rx_inv_run: "rx_inv r \<Longrightarrow> rx_inv (rx_run r es)"
  by (induction es arbitrary: r) (auto intro: rx_inv_apply)

section \<open>Bodies as the adapter sends them\<close>

text \<open>Header of a body to the PC from the receiver's channel node; \<open>sq\<close> is the echoed sequence.\<close>

definition adapter_header :: "u16 \<Rightarrow> u16 \<Rightarrow> u16 \<Rightarrow> bytes" where
  "adapter_header protocol opcode sq =
     u16_bytes 0 @ u16_bytes (channel_node protocol board_node) @ u16_bytes opcode @ u16_bytes sq @
     u16_bytes 0 @ u16_bytes 0"

definition inbound_body :: "u16 \<Rightarrow> u32 \<Rightarrow> u32 \<Rightarrow> bytes \<Rightarrow> bytes" where
  "inbound_body protocol status timestamp frame =
     adapter_header protocol 9 0 @ u32_bytes status @ u32_bytes timestamp @ u16_bytes 0 @
     u16_bytes (of_nat (length frame)) @ frame"

definition indication_body :: "u16 \<Rightarrow> u16 \<Rightarrow> u32 \<Rightarrow> u32 \<Rightarrow> bytes" where
  "indication_body protocol sq indication timestamp =
     adapter_header protocol 10 sq @ u32_bytes indication @ u32_bytes timestamp"

lemma le16_u16_bytes: "le16 (xs @ u16_bytes v @ ys) (length xs) = Inr v"
  by (simp add: le16_Inr u16_bytes_def nth_append word_join_bytes)

lemma le16_at: "off = length xs \<Longrightarrow> le16 (xs @ u16_bytes v @ ys) off = Inr v"
  by (simp add: le16_u16_bytes)

lemma le32_at: "off = length xs \<Longrightarrow> le32 (xs @ u32_bytes v @ ys) off = Inr v"
  using le16_at [of "off + 2" "xs @ u16_bytes (ucast v)" "ucast (drop_bit 16 v)" ys]
  by (simp add: le32_def u32_bytes_halves le16_at word_join_halves)

lemma length_adapter_header [simp]: "length (adapter_header p op sq) = 12"
  by (simp add: adapter_header_def)

lemma adapter_header_fields [simp]:
  "le16 (adapter_header p op sq @ ys) 0 = Inr 0"
  "le16 (adapter_header p op sq @ ys) 2 = Inr (channel_node p board_node)"
  "le16 (adapter_header p op sq @ ys) 4 = Inr op"
  "le16 (adapter_header p op sq @ ys) 6 = Inr sq"
  using le16_at [of 0 "[]" 0] le16_at [of 2 "u16_bytes 0"] le16_at [of 4 "u16_bytes 0 @ u16_bytes (channel_node p board_node)"]
    le16_at [of 6 "u16_bytes 0 @ u16_bytes (channel_node p board_node) @ u16_bytes op"]
  by (simp_all add: adapter_header_def)

lemma length_inbound_body [simp]: "length (inbound_body p status timestamp frame) = 24 + length frame"
  by (simp add: inbound_body_def)

lemma length_indication_body [simp]: "length (indication_body p sq indication timestamp) = 20"
  by (simp add: indication_body_def)

lemma inbound_body_fields [simp]:
  "le16 (inbound_body p status timestamp frame) 0 = Inr 0"
  "le16 (inbound_body p status timestamp frame) 2 = Inr (channel_node p board_node)"
  "le16 (inbound_body p status timestamp frame) 4 = Inr 9"
  "le32 (inbound_body p status timestamp frame) 12 = Inr status"
  "le32 (inbound_body p status timestamp frame) 16 = Inr timestamp"
  "le16 (inbound_body p status timestamp frame) 22 = Inr (of_nat (length frame))"
  "drop 24 (inbound_body p status timestamp frame) = frame"
  using le32_at [of 12 "adapter_header p 9 0"] le32_at [of 16 "adapter_header p 9 0 @ u32_bytes status"]
    le16_at [of 22 "adapter_header p 9 0 @ u32_bytes status @ u32_bytes timestamp @ u16_bytes 0"]
  by (simp_all add: inbound_body_def)

lemma indication_body_fields [simp]:
  "le16 (indication_body p sq indication timestamp) 0 = Inr 0"
  "le16 (indication_body p sq indication timestamp) 2 = Inr (channel_node p board_node)"
  "le16 (indication_body p sq indication timestamp) 4 = Inr 10"
  "le16 (indication_body p sq indication timestamp) 6 = Inr sq"
  "le32 (indication_body p sq indication timestamp) 12 = Inr indication"
  "le32 (indication_body p sq indication timestamp) 16 = Inr timestamp"
  using le32_at [of 12 "adapter_header p 10 sq" indication] le32_at [of 16 "adapter_header p 10 sq @ u32_bytes indication" timestamp "[]"]
  by (simp_all add: indication_body_def)

lemma rx_receive_indication:
  assumes "rx_stopped r = STATUS_NOERROR"
  shows "rx_receive r (indication_body (rx_protocol r) sq 0x106 timestamp) =
    (let (paired, r') = deliver_confirmed r sq timestamp
     in Inr (if paired then r'\<lparr>rx_transmitted := rx_transmitted r' + 1\<rparr> else r'))"
  using assms by (simp add: rx_receive_def rx_ignores_def rx_indication_def)

lemma rx_receive_loss:
  assumes "rx_stopped r = STATUS_NOERROR" and "indication = 0x10b \<or> indication = 0x119"
  shows "rx_receive r (indication_body (rx_protocol r) sq indication timestamp) = Inr (r\<lparr>rx_overflow := True\<rparr>)"
  using assms by (auto simp: rx_receive_def rx_ignores_def rx_indication_def)

lemma rx_receive_inbound:
  assumes "rx_stopped r = STATUS_NOERROR" and "4 \<le> length frame" "length frame \<le> 12"
  shows "rx_receive r (inbound_body (rx_protocol r) status timestamp frame) =
    Inr (if rx_protocol r = ISO15765 then
           push_outputs (r\<lparr>rx_reassembler := snd (reassembler_feed (rx_reassembler r) frame)\<rparr>) timestamp
             (fst (reassembler_feed (rx_reassembler r) frame))
         else if length (rx_frames r) = rx_capacity then r\<lparr>rx_overflow := True\<rparr>
         else r\<lparr>rx_frames := rx_frames r @
             [\<lparr>fr_status = status AND 0xc0000100, fr_timestamp = timestamp, fr_size = of_nat (length frame),
               fr_data = copy_at 0 frame (replicate 12 0), fr_tx_flags = 0\<rparr>]\<rparr>)"
proof -
  have n: "unat (of_nat (length frame) :: u16) = length frame" using assms(3) by (simp add: unat_of_nat)
  then have "rx_data_malformed (inbound_body (rx_protocol r) status timestamp frame) = Inr False"
    using assms by (simp add: rx_data_malformed_def word_less_nat_alt)
  then show ?thesis
    using assms n by (auto simp: rx_receive_def rx_ignores_def rx_data_def case_prod_unfold Let_def)
qed

section \<open>Confirmations and the writes they belong to\<close>

text \<open>Fields that an operation leaves alone.\<close>

lemma confirm_iso_fields [simp]:
  "rx_protocol (confirm_iso r sent t) = rx_protocol r" "rx_pending (confirm_iso r sent t) = rx_pending r"
  "rx_confirmed (confirm_iso r sent t) = rx_confirmed r" "rx_transmitted (confirm_iso r sent t) = rx_transmitted r"
  "rx_stopped (confirm_iso r sent t) = rx_stopped r" "rx_reason (confirm_iso r sent t) = rx_reason r"
  "rx_loopback (confirm_iso r sent t) = rx_loopback r"
  by (simp_all add: confirm_iso_def Let_def)

lemma confirm_can_fields [simp]:
  "rx_protocol (confirm_can r sent t) = rx_protocol r" "rx_pending (confirm_can r sent t) = rx_pending r"
  "rx_confirmed (confirm_can r sent t) = rx_confirmed r" "rx_transmitted (confirm_can r sent t) = rx_transmitted r"
  "rx_stopped (confirm_can r sent t) = rx_stopped r" "rx_reason (confirm_can r sent t) = rx_reason r"
  "rx_loopback (confirm_can r sent t) = rx_loopback r"
  by (simp_all add: confirm_can_def)

lemma push_outputs_fields [simp]:
  "rx_protocol (push_outputs r t outs) = rx_protocol r" "rx_pending (push_outputs r t outs) = rx_pending r"
  "rx_confirmed (push_outputs r t outs) = rx_confirmed r" "rx_transmitted (push_outputs r t outs) = rx_transmitted r"
  "rx_stopped (push_outputs r t outs) = rx_stopped r" "rx_reason (push_outputs r t outs) = rx_reason r"
  "rx_loopback (push_outputs r t outs) = rx_loopback r"
  by (induction outs arbitrary: r) simp_all

text \<open>
  \<open>rx_split\<close>: one confirmation, as a relation between the pending records before and after it.
\<close>

lemma deliver_confirmed_miss:
  assumes "sq \<notin> pt_sequence ` set (rx_pending r)"
  shows "deliver_confirmed r sq timestamp = (False, r)"
proof -
  have d: "dropWhile (\<lambda>p. pt_sequence p \<noteq> sq) (rx_pending r) = []"
    using assms by (auto simp: dropWhile_eq_Nil_conv)
  show ?thesis by (simp only: deliver_confirmed_def d list.case)
qed

lemma deliver_confirmed_hit:
  assumes "rx_pending r = older @ sent # newer" and "sq \<notin> pt_sequence ` set older" and "pt_sequence sent = sq"
    and "deliver_confirmed r sq timestamp = (paired, r')"
  shows "paired" and "rx_pending r' = newer" and "rx_transmitted r' = rx_transmitted r"
    and "rx_confirmed r' = (case pt_call sent of None \<Rightarrow> rx_confirmed r
           | Some c \<Rightarrow> (rx_confirmed r)(c := rx_confirmed r c + 1))"
proof -
  have "dropWhile (\<lambda>p. pt_sequence p \<noteq> sq) (rx_pending r) = sent # newer"
    unfolding assms(1) using assms(2,3) by (subst dropWhile_append2) (auto simp: image_iff)
  with assms(4) show "paired" and "rx_pending r' = newer" and "rx_transmitted r' = rx_transmitted r"
    and "rx_confirmed r' = (case pt_call sent of None \<Rightarrow> rx_confirmed r
           | Some c \<Rightarrow> (rx_confirmed r)(c := rx_confirmed r c + 1))"
    by (auto simp: deliver_confirmed_def Let_def split: option.splits if_splits)
qed

lemma pending_cases:
  obtains "sq \<notin> pt_sequence ` set (ps :: pending_transmit list)"
  | older sent newer where "ps = older @ sent # newer" "sq \<notin> pt_sequence ` set older" "pt_sequence sent = sq"
proof (cases "sq \<in> pt_sequence ` set ps")
  case True
  then have "\<exists>p \<in> set ps. pt_sequence p = sq" by auto
  then obtain older sent newer where "ps = older @ sent # newer" "pt_sequence sent = sq"
    "\<forall>p \<in> set older. pt_sequence p \<noteq> sq" by (rule split_list_first_propE)
  then show ?thesis by (intro that(2) [of older sent newer]) auto
qed (use that(1) in blast)

text \<open>
  How many records belong to call \<open>c\<close>, and the measure that no event but a \<open>Note\<close> increases.
\<close>

definition outstanding :: "nat \<Rightarrow> can_receiver \<Rightarrow> nat" where
  "outstanding c r = length (filter (\<lambda>p. pt_call p = Some c) (rx_pending r))"

definition noted :: "nat \<Rightarrow> rx_event \<Rightarrow> nat" where
  "noted c e = (case e of Note m sq call \<Rightarrow> if call = Some c then 1 else 0 | _ \<Rightarrow> 0)"

lemma outstanding_le_suffix: "rx_pending r = xs @ rx_pending r' \<Longrightarrow> outstanding c r' \<le> outstanding c r"
  by (simp add: outstanding_def)

lemma deliver_confirmed_account:
  "rx_confirmed (snd (deliver_confirmed r sq timestamp)) c + outstanding c (snd (deliver_confirmed r sq timestamp))
     \<le> rx_confirmed r c + outstanding c r"
proof (rule pending_cases [of sq "rx_pending r"])
  assume "sq \<notin> pt_sequence ` set (rx_pending r)"
  then show ?thesis by (simp add: deliver_confirmed_miss)
next
  fix older sent newer
  assume s: "rx_pending r = older @ sent # newer" "sq \<notin> pt_sequence ` set older" "pt_sequence sent = sq"
  obtain b r' where d: "deliver_confirmed r sq timestamp = (b, r')" by fastforce
  show ?thesis
    using deliver_confirmed_hit(2,4) [OF s d] s(1) by (auto simp: d outstanding_def split: option.splits)
qed

lemma rx_receive_account:
  assumes "rx_receive r body = Inr r'"
  shows "rx_confirmed r' c + outstanding c r' \<le> rx_confirmed r c + outstanding c r"
proof -
  have ind: "rx_confirmed r' c + outstanding c r' \<le> rx_confirmed r c + outstanding c r"
    if i: "rx_indication r body = Inr r'"
  proof -
    have "r' = r \<or> r' = r\<lparr>rx_overflow := True\<rparr> \<or> (\<exists>sq t. r' = snd (deliver_confirmed r sq t) \<or>
        (let q = snd (deliver_confirmed r sq t) in r' = q\<lparr>rx_transmitted := rx_transmitted q + 1\<rparr>))"
      using i by (auto simp: rx_indication_def ebind_eq_Inr_iff case_prod_unfold Let_def split: if_splits)
    then show ?thesis
      using deliver_confirmed_account [of r _ _ c] by (auto simp: outstanding_def Let_def)
  qed
  have data: "rx_confirmed r' = rx_confirmed r \<and> rx_pending r' = rx_pending r" if "rx_data r body = Inr r'"
    using that by (auto simp: rx_data_def ebind_eq_Inr_iff case_prod_unfold Let_def split: if_splits)
  show ?thesis
    using assms ind data by (auto simp: rx_receive_def ebind_eq_Inr_iff outstanding_def split: if_splits)
qed

lemma rx_drain_fields [simp]:
  "rx_confirmed (snd (rx_drain r n)) = rx_confirmed r" "rx_pending (snd (rx_drain r n)) = rx_pending r"
  "rx_stopped (snd (rx_drain r n)) = rx_stopped r" "rx_reason (snd (rx_drain r n)) = rx_reason r"
  "rx_protocol (snd (rx_drain r n)) = rx_protocol r"
  "rx_overflow (snd (rx_drain r n)) = rx_overflow r" "rx_malformed (snd (rx_drain r n)) = rx_malformed r"
  by (simp_all add: rx_drain_def Let_def)

lemma rx_read_result_fields [simp]:
  "rx_confirmed (snd (rx_read_result r k n timed)) = rx_confirmed r"
  "rx_pending (snd (rx_read_result r k n timed)) = rx_pending r"
  "rx_stopped (snd (rx_read_result r k n timed)) = rx_stopped r"
  "rx_reason (snd (rx_read_result r k n timed)) = rx_reason r"
  "rx_protocol (snd (rx_read_result r k n timed)) = rx_protocol r"
  by (simp_all add: rx_read_result_def)

lemma rx_read_now_fields [simp]:
  "rx_confirmed (snd (snd (rx_read_now r n))) = rx_confirmed r"
  "rx_pending (snd (snd (rx_read_now r n))) = rx_pending r"
  "rx_stopped (snd (snd (rx_read_now r n))) = rx_stopped r"
  "rx_reason (snd (snd (rx_read_now r n))) = rx_reason r"
  "rx_protocol (snd (snd (rx_read_now r n))) = rx_protocol r"
  by (simp_all add: rx_read_now_def case_prod_unfold Let_def)

lemma outstanding_note:
  "outstanding c (note_transmit r m sq call) \<le> outstanding c r + (if call = Some c then 1 else 0)"
  by (cases "rx_pending r") (auto simp: outstanding_def note_transmit_def Let_def)

lemma outstanding_forget: "outstanding c (forget_transmit r) \<le> outstanding c r"
  by (cases "rx_pending r" rule: rev_cases) (auto simp: outstanding_def forget_transmit_def)

lemma forget_transmit_fields [simp]:
  "rx_confirmed (forget_transmit r) = rx_confirmed r" "rx_stopped (forget_transmit r) = rx_stopped r"
  "rx_reason (forget_transmit r) = rx_reason r" "rx_transmitted (forget_transmit r) = rx_transmitted r"
  by (simp_all add: forget_transmit_def)

lemma rx_apply_account:
  "rx_confirmed (rx_apply r e) c + outstanding c (rx_apply r e) \<le> rx_confirmed r c + outstanding c r + noted c e"
proof (cases e)
  case (Deliver body)
  then show ?thesis
    using rx_receive_account [of r body _ c] by (auto simp: rx_apply_def noted_def split: sum.splits)
next
  case (Note m sq call)
  then show ?thesis
    using outstanding_note [of c r m sq call] by (simp add: rx_apply_def noted_def note_transmit_def Let_def)
next
  case Forget_last
  then show ?thesis
    using outstanding_forget [of c r] by (simp add: rx_apply_def noted_def)
next
  case (Read_now n)
  then show ?thesis by (simp add: rx_apply_def noted_def outstanding_def)
qed (simp_all add: rx_apply_def noted_def rx_stop_def Let_def forget_transmits_def flush_receive_def
    set_loopback_def outstanding_def)

lemma rx_run_account:
  "rx_confirmed (rx_run r es) c + outstanding c (rx_run r es)
     \<le> rx_confirmed r c + outstanding c r + sum_list (map (noted c) es)"
proof (induction es arbitrary: r)
  case (Cons e es)
  from Cons [of "rx_apply r e"] rx_apply_account [of r e c] show ?case by simp
qed simp

section \<open>A stop is final\<close>

lemma deliver_confirmed_stop [simp]:
  "rx_stopped (snd (deliver_confirmed r sq t)) = rx_stopped r"
  "rx_reason (snd (deliver_confirmed r sq t)) = rx_reason r"
  by (simp_all add: deliver_confirmed_def Let_def split: list.splits option.splits)

lemma rx_receive_stopped: "rx_stopped r \<noteq> STATUS_NOERROR \<Longrightarrow> rx_receive r body = Inr r"
  by (simp add: rx_receive_def rx_ignores_def)

lemma rx_apply_stopped:
  assumes "rx_stopped r \<noteq> STATUS_NOERROR"
  shows "rx_stopped (rx_apply r e) = rx_stopped r \<and> rx_reason (rx_apply r e) = rx_reason r"
  using assms
  by (cases e) (simp_all add: rx_apply_def rx_receive_stopped rx_stop_def Let_def note_transmit_def
      forget_transmits_def flush_receive_def set_loopback_def)

lemma rx_run_stopped:
  assumes "rx_stopped r \<noteq> STATUS_NOERROR"
  shows "rx_stopped (rx_run r es) = rx_stopped r \<and> rx_reason (rx_run r es) = rx_reason r"
  using assms
proof (induction es arbitrary: r)
  case (Cons e es)
  from rx_apply_stopped [OF Cons.prems, of e] Cons.IH [of "rx_apply r e"] Cons.prems show ?case by simp
qed simp

lemma rx_read_loop_stopped:
  assumes "rx_stopped r \<noteq> STATUS_NOERROR" and "length out < n"
  shows "rx_read_loop r out n timed waits = (out, Inl (Error (rx_stopped r) (rx_reason r)), r)"
  using assms by (subst rx_read_loop.simps) simp

lemma deliver_confirmed_protocol [simp]: "rx_protocol (snd (deliver_confirmed r sq t)) = rx_protocol r"
  by (simp add: deliver_confirmed_def Let_def split: list.splits option.splits)

lemma rx_data_protocol: "rx_data r body = Inr r' \<Longrightarrow> rx_protocol r' = rx_protocol r"
  by (auto simp: rx_data_def ebind_eq_Inr_iff case_prod_unfold Let_def split: if_splits)

lemma rx_indication_protocol: "rx_indication r body = Inr r' \<Longrightarrow> rx_protocol r' = rx_protocol r"
  by (auto simp: rx_indication_def ebind_eq_Inr_iff case_prod_unfold Let_def split: if_splits)

lemma rx_receive_protocol: "rx_receive r body = Inr r' \<Longrightarrow> rx_protocol r' = rx_protocol r"
  using rx_data_protocol [of r body r'] rx_indication_protocol [of r body r']
  by (auto simp: rx_receive_def ebind_eq_Inr_iff split: if_splits)

lemma rx_apply_protocol [simp]: "rx_protocol (rx_apply r e) = rx_protocol r"
proof (cases e)
  case (Deliver body)
  then show ?thesis using rx_receive_protocol by (auto simp: rx_apply_def split: sum.splits)
next
  case (Stop code reason)
  then show ?thesis by (simp add: rx_apply_def rx_stop_def Let_def)
next
  case (Note m sq call)
  then show ?thesis by (simp add: rx_apply_def note_transmit_def Let_def)
qed (simp_all add: rx_apply_def forget_transmit_def forget_transmits_def flush_receive_def set_loopback_def)

lemma rx_run_protocol [simp]: "rx_protocol (rx_run r es) = rx_protocol r"
  by (induction es arbitrary: r) simp_all

text \<open>The receiver is the sink that the session feeds and halts.\<close>

definition rx_halted :: "can_receiver \<Rightarrow> bool" where
  "rx_halted r \<longleftrightarrow> rx_stopped r \<noteq> STATUS_NOERROR"

interpretation sink: frame_sink rx_receive rx_stop rx_inv rx_halted
proof unfold_locales
  show "\<exists>r'. rx_receive r b = Inr r'" for r b by (rule rx_receive_total)
  show "rx_inv r'" if "rx_inv r" "rx_receive r b = Inr r'" for r b r' using that by (rule rx_inv_receive)
  show "rx_inv (rx_stop r code reason)" if "rx_inv r" for r code reason using that by (rule rx_inv_stop)
qed (auto simp: rx_halted_def rx_receive_stopped rx_stop_def Let_def)

section \<open>Reading\<close>

lemma message_of_iso_ok: "length (rm_data m) \<le> data_capacity \<Longrightarrow> msg_ok (message_of_iso m)"
  by (simp add: msg_ok_def message_of_iso_def)

lemma message_of_frame_ok:
  "unat (fr_size f) \<le> 12 \<Longrightarrow> length (fr_data f) = 12 \<Longrightarrow> msg_ok (message_of_frame f)"
  by (simp add: msg_ok_def message_of_frame_def data_capacity_def)

definition readable :: "passthru_msg \<Rightarrow> bool" where
  "readable m \<longleftrightarrow> msg_ok m \<and> unat (DataSize m) \<le> data_capacity \<and> ExtraDataIndex m \<le> DataSize m"

lemma message_of_iso_readable:
  assumes "length (rm_data m) \<le> data_capacity" shows "readable (message_of_iso m)"
proof -
  have "unat (of_nat (length (rm_data m)) :: u32) = length (rm_data m)"
    using assms by (simp add: unat_of_nat data_capacity_def)
  then show ?thesis using assms message_of_iso_ok [OF assms] by (simp add: readable_def message_of_iso_def)
qed

lemma unat_ucast_u16_u32 [simp]: "unat (ucast (a :: u16) :: u32) = unat a"
  by (simp add: unsigned_ucast_eq take_bit_nat_eq_self less_trans [OF unat_u16_less])

lemma message_of_frame_readable:
  "unat (fr_size f) \<le> 12 \<Longrightarrow> length (fr_data f) = 12 \<Longrightarrow> readable (message_of_frame f)"
  using message_of_frame_ok [of f]
  by (simp add: readable_def message_of_frame_def data_capacity_def)

lemma drain_readable:
  assumes "rx_inv r" shows "list_all readable (fst (rx_drain r n))"
proof -
  have "\<forall>m \<in> set (rx_messages r). readable (message_of_iso m)"
    "\<forall>f \<in> set (rx_frames r). readable (message_of_frame f)"
    using assms message_of_iso_readable message_of_frame_readable by (auto simp: rx_inv_def)
  then show ?thesis by (auto simp: rx_drain_def Let_def list_all_iff dest!: in_set_takeD)
qed

lemma drain_length: "length (fst (rx_drain r n)) \<le> n"
  by (auto simp: rx_drain_def Let_def min_def)

text \<open>What a read may report, given what it has collected: \<open>rx_outcome\<close>.\<close>

definition rx_outcome :: "nat \<Rightarrow> bool \<Rightarrow> can_receiver \<Rightarrow> passthru_msg list \<Rightarrow> exn + unit \<Rightarrow> bool" where
  "rx_outcome n timed r out res \<longleftrightarrow>
     (case res of
        Inr _ \<Rightarrow> out \<noteq> [] \<and> (timed \<longrightarrow> length out = n)
      | Inl e \<Rightarrow>
          rx_stopped r \<noteq> STATUS_NOERROR \<and> e = Error (rx_stopped r) (rx_reason r) \<and> length out < n
        \<or> exn_status e = ERR_BUFFER_OVERFLOW \<and> \<not> rx_overflow r
        \<or> exn_status e = ERR_INVALID_MSG \<and> \<not> rx_overflow r \<and> \<not> rx_malformed r
        \<or> exn_status e = ERR_BUFFER_EMPTY \<and> out = []
        \<or> exn_status e = ERR_TIMEOUT \<and> timed \<and> out \<noteq> [] \<and> length out < n)"

lemma rx_read_result_outcome:
  assumes "length out \<le> n" and "rx_read_result r (length out) n timed = (res, r')"
  shows "rx_outcome n timed r' out res"
  using assms by (auto simp: rx_read_result_def rx_outcome_def split: if_splits)

lemma rx_read_finish:
  assumes "(out', res, r') = (out, rx_read_result r (length out) n timed)"
    and "rx_inv r" and "length out \<le> n" and "list_all readable out"
  shows "rx_inv r' \<and> length out' \<le> n \<and> list_all readable out' \<and> rx_outcome n timed r' out' res"
proof -
  have e: "out' = out" "rx_read_result r (length out) n timed = (res, r')" using assms(1) by simp_all
  then show ?thesis
    using rx_read_result_outcome [OF assms(3) e(2)] rx_inv_read_result [OF assms(2), of "length out" n timed] assms
    by simp
qed

lemma rx_read_loop_ok:
  assumes "rx_inv r" and "length out \<le> n" and "list_all readable out"
    and "rx_read_loop r out n timed waits = (out', res, r')"
  shows "rx_inv r' \<and> length out' \<le> n \<and> list_all readable out' \<and> rx_outcome n timed r' out' res"
  using assms
proof (induction waits arbitrary: r out)
  case (Nil r out)
  show ?case
  proof (cases "length out < n \<and> rx_stopped r \<noteq> STATUS_NOERROR")
    case True
    then show ?thesis using Nil.prems
      by (auto simp: rx_read_loop_stopped rx_outcome_def)
  next
    case False
    let ?d = "if length out < n then rx_drain r (n - length out) else ([], r)"
    have d: "rx_inv (snd ?d)" "length (out @ fst ?d) \<le> n" "list_all readable (out @ fst ?d)"
      using Nil.prems drain_length [of r "n - length out"] rx_inv_drain drain_readable by auto
    have "(out', res, r') = (out @ fst ?d, rx_read_result (snd ?d) (length (out @ fst ?d)) n timed)"
      using Nil.prems(4) False
      by (subst (asm) rx_read_loop.simps) (simp add: case_prod_unfold Let_def split: if_splits)
    then show ?thesis using d by (rule rx_read_finish)
  qed
next
  case (Cons evs waits r out)
  show ?case
  proof (cases "length out < n \<and> rx_stopped r \<noteq> STATUS_NOERROR")
    case True
    then show ?thesis using Cons.prems
      by (auto simp: rx_read_loop_stopped rx_outcome_def)
  next
    case False
    let ?d = "if length out < n then rx_drain r (n - length out) else ([], r)"
    let ?w = "rx_run (snd ?d) evs"
    have d: "rx_inv (snd ?d)" "length (out @ fst ?d) \<le> n" "list_all readable (out @ fst ?d)"
      using Cons.prems drain_length [of r "n - length out"] rx_inv_drain drain_readable by auto
    have w: "rx_inv ?w" using d(1) by (rule rx_inv_run)
    have "(out', res, r') = (out @ fst ?d, rx_read_result (snd ?d) (length (out @ fst ?d)) n timed) \<or>
      (out', res, r') = (out @ fst ?d, rx_read_result ?w (length (out @ fst ?d)) n timed) \<or>
      rx_read_loop ?w (out @ fst ?d) n timed waits = (out', res, r')"
      using Cons.prems(4) False
      by (subst (asm) rx_read_loop.simps) (auto simp: case_prod_unfold Let_def split: if_splits)
    then show ?thesis
    proof (elim disjE)
      show ?thesis if "(out', res, r') = (out @ fst ?d, rx_read_result (snd ?d) (length (out @ fst ?d)) n timed)"
        using that d by (rule rx_read_finish)
      show ?thesis if "(out', res, r') = (out @ fst ?d, rx_read_result ?w (length (out @ fst ?d)) n timed)"
        using that w d(2,3) by (rule rx_read_finish)
      show ?thesis if "rx_read_loop ?w (out @ fst ?d) n timed waits = (out', res, r')"
        using w d(2,3) that by (rule Cons.IH)
    qed
  qed
qed

text \<open>A read keeps the protocol, a stop and the confirmations; only events of other threads change the last.\<close>

lemma rx_read_result_snd:
  "rx_read_result r count n timed = (res, r') \<Longrightarrow>
   rx_protocol r' = rx_protocol r \<and> rx_stopped r' = rx_stopped r"
  by (auto simp: rx_read_result_def split: if_splits)

lemma rx_read_loop_keeps:
  assumes "rx_read_loop r out n timed waits = (out', res, r')"
  shows "rx_protocol r' = rx_protocol r \<and> (rx_halted r \<longrightarrow> rx_halted r')"
  using assms
proof (induction waits arbitrary: r out)
  case (Nil r out)
  show ?case
  proof (cases "length out < n \<and> rx_stopped r \<noteq> STATUS_NOERROR")
    case True
    then show ?thesis using Nil.prems by (auto simp: rx_read_loop_stopped)
  next
    case False
    let ?d = "if length out < n then rx_drain r (n - length out) else ([], r)"
    have "(res, r') = rx_read_result (snd ?d) (length (out @ fst ?d)) n timed"
      using Nil.prems False
      by (subst (asm) rx_read_loop.simps) (simp add: case_prod_unfold Let_def split: if_splits)
    from rx_read_result_snd [OF this [symmetric]] show ?thesis by (auto simp: rx_halted_def)
  qed
next
  case (Cons evs waits r out)
  show ?case
  proof (cases "length out < n \<and> rx_stopped r \<noteq> STATUS_NOERROR")
    case True
    then show ?thesis using Cons.prems by (auto simp: rx_read_loop_stopped)
  next
    case False
    let ?d = "if length out < n then rx_drain r (n - length out) else ([], r)"
    let ?w = "rx_run (snd ?d) evs"
    have k: "rx_protocol ?w = rx_protocol r" "rx_halted r \<Longrightarrow> rx_halted ?w"
      using rx_run_stopped [of "snd ?d" evs] by (auto simp: rx_halted_def)
    have "(res, r') = rx_read_result (snd ?d) (length (out @ fst ?d)) n timed \<or>
      (res, r') = rx_read_result ?w (length (out @ fst ?d)) n timed \<or>
      rx_read_loop ?w (out @ fst ?d) n timed waits = (out', res, r')"
      using Cons.prems False
      by (subst (asm) rx_read_loop.simps) (auto simp: case_prod_unfold Let_def split: if_splits)
    then show ?thesis
    proof (elim disjE)
      assume "(res, r') = rx_read_result (snd ?d) (length (out @ fst ?d)) n timed"
      from rx_read_result_snd [OF this [symmetric]] show ?thesis by (auto simp: rx_halted_def)
    next
      assume "(res, r') = rx_read_result ?w (length (out @ fst ?d)) n timed"
      from rx_read_result_snd [OF this [symmetric]] k show ?thesis by (auto simp: rx_halted_def)
    next
      assume "rx_read_loop ?w (out @ fst ?d) n timed waits = (out', res, r')"
      from Cons.IH [OF this] k show ?thesis by simp
    qed
  qed
qed

section \<open>Runs of inbound data\<close>

lemma rx_run_can_frames:
  assumes "rx_protocol r \<noteq> ISO15765" and "rx_stopped r = STATUS_NOERROR"
    and "\<forall>(st, ts, d) \<in> set fs. 4 \<le> length d \<and> length d \<le> 12" and "length (rx_frames r) + length fs \<le> 4096"
  shows "rx_run r (map (\<lambda>(st, ts, d). Deliver (inbound_body (rx_protocol r) st ts d)) fs) =
    r\<lparr>rx_frames := rx_frames r @ map (\<lambda>(st, ts, d).
        \<lparr>fr_status = st AND 0xc0000100, fr_timestamp = ts, fr_size = of_nat (length d),
         fr_data = copy_at 0 d (replicate 12 0), fr_tx_flags = 0\<rparr>) fs\<rparr>"
  using assms
proof (induction fs arbitrary: r)
  case (Cons f fs)
  obtain st ts d where f: "f = (st, ts, d)" by (cases f)
  let ?r = "r\<lparr>rx_frames := rx_frames r @
      [\<lparr>fr_status = st AND 0xc0000100, fr_timestamp = ts, fr_size = of_nat (length d),
        fr_data = copy_at 0 d (replicate 12 0), fr_tx_flags = 0\<rparr>]\<rparr>"
  have "rx_apply r (Deliver (inbound_body (rx_protocol r) st ts d)) = ?r"
    using Cons.prems f by (simp add: rx_apply_def rx_receive_inbound)
  with Cons.IH [of ?r] Cons.prems f show ?case by simp
qed simp

text \<open>ISO15765: the queue receives what the reassembler delivers, while it has room.\<close>

definition queued :: "u32 \<Rightarrow> iso_output \<Rightarrow> rx_message" where
  "queued ts out = \<lparr>rm_status = out_status out, rm_timestamp = ts, rm_data = out_data out, rm_tx_flags = 0\<rparr>"

lemma push_outputs_room:
  "length (rx_messages r) + length outs \<le> 256 \<Longrightarrow>
   push_outputs r ts outs = r\<lparr>rx_messages := rx_messages r @ map (queued ts) outs\<rparr>"
  by (induction outs arbitrary: r) (simp_all add: push_message_def queued_def)

lemma rx_run_iso_frames:
  assumes "rx_protocol r = ISO15765" and "rx_stopped r = STATUS_NOERROR"
    and "\<forall>d \<in> set fs. 4 \<le> length d \<and> length d \<le> 12"
    and "length (rx_messages r) + length (fst (reassembler_run (rx_reassembler r) fs)) \<le> 256"
  shows "rx_run r (map (\<lambda>d. Deliver (inbound_body ISO15765 st ts d)) fs) =
    r\<lparr>rx_reassembler := snd (reassembler_run (rx_reassembler r) fs),
      rx_messages := rx_messages r @ map (queued ts) (fst (reassembler_run (rx_reassembler r) fs))\<rparr>"
  using assms
proof (induction fs arbitrary: r)
  case (Cons d fs)
  obtain outs as where o: "reassembler_feed (rx_reassembler r) d = (outs, as)" by fastforce
  let ?r = "r\<lparr>rx_reassembler := as, rx_messages := rx_messages r @ map (queued ts) outs\<rparr>"
  have room: "length (rx_messages r) + length outs \<le> 256"
    using Cons.prems(4) by (simp add: o case_prod_unfold Let_def)
  have "rx_apply r (Deliver (inbound_body ISO15765 st ts d)) = ?r"
    using Cons.prems(1-3) o room rx_receive_inbound [of r d st ts]
    by (simp add: rx_apply_def push_outputs_room)
  with Cons.IH [of ?r] Cons.prems o show ?case by (simp add: case_prod_unfold Let_def add.assoc)
qed simp

section \<open>Properties\<close>

lemma rx_new_fields [simp]:
  "rx_protocol (rx_new p) = p" "rx_stopped (rx_new p) = STATUS_NOERROR" "rx_frames (rx_new p) = []"
  "rx_messages (rx_new p) = []" "rx_pending (rx_new p) = []" "rx_reassembler (rx_new p) = []"
  "rx_overflow (rx_new p) = False" "rx_malformed (rx_new p) = False" "rx_loopback (rx_new p) = False"
  by (simp_all add: rx_new_def)

text \<open>
  C9. Whatever the reader thread delivers and other threads do, in whatever order, a receiver never throws out
  of \<open>receive\<close>, keeps its queue bounds, and a \<open>read\<close> (waiting or not) returns at most the requested count of
  messages that fit their buffer, with the outcome that belongs to them: success only with messages (all of
  them, if timed), \<open>BUFFER_EMPTY\<close> only with none, \<open>TIMEOUT\<close> only with some but too few, and a loss report is
  cleared by being reported.
\<close>

theorem rx_any_traffic:
  "(\<exists>r'. rx_receive (rx_run (rx_new protocol) es) body = Inr r') \<and> rx_inv (rx_run (rx_new protocol) es) \<and>
   (case rx_read (rx_run (rx_new protocol) es) n timed waits of
      (out, res, r') \<Rightarrow> rx_inv r' \<and> length out \<le> n \<and> list_all readable out \<and> rx_outcome n timed r' out res)"
proof -
  have inv: "rx_inv (rx_run (rx_new protocol) es)" by (simp add: rx_inv_run)
  obtain out res r' where o: "rx_read (rx_run (rx_new protocol) es) n timed waits = (out, res, r')"
    by (cases "rx_read (rx_run (rx_new protocol) es) n timed waits")
  from o have "rx_read_loop (rx_run (rx_new protocol) es) [] n timed waits = (out, res, r')"
    by (simp add: rx_read_def)
  from rx_read_loop_ok [OF inv _ _ this] inv show ?thesis by (simp add: o rx_receive_total)
qed

text \<open>
  C10. A write call is never credited with more confirmations than it recorded requests: what is confirmed
  for a call and what is still pending for it together never exceed the number of its \<open>note_transmit\<close>s.
\<close>

theorem confirmed_at_most_noted:
  "rx_confirmed (rx_run (rx_new protocol) es) c + outstanding c (rx_run (rx_new protocol) es)
     \<le> sum_list (map (noted c) es)"
  using rx_run_account [of "rx_new protocol" es c] by (simp add: rx_new_def outstanding_def)

text \<open>
  C11. Pairing by sequence: a recorded ISO15765 request is confirmed by the indication that echoes its sequence,
  although other requests were recorded before and after it; its call alone is credited, the older records are
  dropped and the later ones kept; the reader gets the transmit-done message with the identifier alone, and
  with LOOPBACK the whole message after it.
\<close>

definition record_of :: "passthru_msg \<times> u16 \<times> nat option \<Rightarrow> pending_transmit" where
  "record_of = (\<lambda>(m, sq, call). \<lparr>pt_sequence = sq, pt_flags = TxFlags m,
      pt_message = take (min (unat (DataSize m)) (4 + 8 + 4096)) (Data m), pt_call = call\<rparr>)"

lemma rx_run_notes:
  assumes "length (rx_pending r) + length ns \<le> 256"
  shows "rx_run r (map (\<lambda>(m, sq, call). Note m sq call) ns) = r\<lparr>rx_pending := rx_pending r @ map record_of ns\<rparr>"
  using assms
proof (induction ns arbitrary: r)
  case (Cons x ns)
  obtain m sq call where x: "x = (m, sq, call)" by (cases x)
  have "rx_apply r (Note m sq call) = r\<lparr>rx_pending := rx_pending r @ [record_of x]\<rparr>"
    using Cons.prems by (simp add: rx_apply_def note_transmit_def record_of_def x)
  with Cons.IH [of "r\<lparr>rx_pending := rx_pending r @ [record_of x]\<rparr>"] Cons.prems x show ?case by simp
qed simp

theorem confirmed_write:
  assumes "rx_stopped r = STATUS_NOERROR" and "rx_protocol r = ISO15765"
    and "length (rx_pending r) + length later < 256" and "length (rx_messages r) + 2 \<le> 256"
    and "sq \<notin> pt_sequence ` set (rx_pending r)" and "4 \<le> DataSize m" and "msg_ok m"
    and "r' = rx_run r (map (\<lambda>(m, sq, call). Note m sq call) ((m, sq, Some c) # later) @
                        [Deliver (indication_body ISO15765 sq 0x106 timestamp)])"
  shows "rx_confirmed r' = (rx_confirmed r)(c := rx_confirmed r c + 1) \<and> rx_transmitted r' = rx_transmitted r + 1 \<and>
    rx_pending r' = map record_of later \<and>
    rx_messages r' = rx_messages r @
      [\<lparr>rm_status = TX_MSG_TYPE OR TX_DONE, rm_timestamp = timestamp, rm_data = take 4 (Data m), rm_tx_flags = TxFlags m\<rparr>] @
      (if rx_loopback r then [\<lparr>rm_status = TX_MSG_TYPE, rm_timestamp = timestamp,
          rm_data = take (min (unat (DataSize m)) 4108) (Data m), rm_tx_flags = TxFlags m\<rparr>] else [])"
proof -
  let ?ns = "(m, sq, Some c) # later"
  let ?q = "r\<lparr>rx_pending := rx_pending r @ record_of (m, sq, Some c) # map record_of later\<rparr>"
  have "rx_run r (map (\<lambda>(m, sq, call). Note m sq call) ?ns) = ?q"
    using rx_run_notes [of r ?ns] assms(3) by simp
  with assms(8) have "r' = rx_apply ?q (Deliver (indication_body ISO15765 sq 0x106 timestamp))"
    by (simp only: rx_run_append) simp
  moreover have "rx_receive ?q (indication_body ISO15765 sq 0x106 timestamp) =
      (let (paired, r') = deliver_confirmed ?q sq timestamp
       in Inr (if paired then r'\<lparr>rx_transmitted := rx_transmitted r' + 1\<rparr> else r'))"
    using rx_receive_indication [of ?q sq timestamp] assms(1,2) by simp
  moreover have "dropWhile (\<lambda>p. pt_sequence p \<noteq> sq) (rx_pending ?q) =
      record_of (m, sq, Some c) # map record_of later"
    using assms(5) by (simp, subst dropWhile_append2) (auto simp: image_iff record_of_def)
  moreover have "4 \<le> unat (DataSize m)" using assms(6) by (simp add: word_le_nat_alt)
  ultimately show ?thesis
    using assms(1-4,7)
    by (simp add: rx_apply_def deliver_confirmed_def record_of_def confirm_iso_def push_message_def
        msg_ok_def data_capacity_def min_def)
qed

theorem confirmed_write_witness:
  "let m = \<lparr>ProtocolID = 6, RxStatus = 0, TxFlags = 0x40, Timestamp = 0, DataSize = 5, ExtraDataIndex = 0,
            Data = [0, 0, 7, 0xe0, 1] @ replicate 4123 0\<rparr>;
       r = rx_run (rx_new ISO15765) [Loopback True, Note m 3 (Some 0)]
   in rx_messages (rx_run r [Note m 4 (Some 1), Note m 5 None, Deliver (indication_body ISO15765 4 0x106 77)]) =
        [\<lparr>rm_status = 9, rm_timestamp = 77, rm_data = [0, 0, 7, 0xe0], rm_tx_flags = 0x40\<rparr>,
         \<lparr>rm_status = 1, rm_timestamp = 77, rm_data = [0, 0, 7, 0xe0, 1], rm_tx_flags = 0x40\<rparr>]"
proof -
  define m where "m = \<lparr>ProtocolID = 6, RxStatus = 0, TxFlags = 0x40, Timestamp = 0, DataSize = 5, ExtraDataIndex = 0,
            Data = [0, 0, 7, 0xe0, 1] @ replicate 4123 (0 :: u8)\<rparr>"
  define r where "r = rx_run (rx_new ISO15765) [Loopback True, Note m 3 (Some 0)]"
  have f: "rx_stopped r = STATUS_NOERROR" "rx_protocol r = ISO15765" "rx_messages r = []" "rx_loopback r"
    "rx_pending r = [record_of (m, 3, Some 0)]"
    by (simp_all add: r_def rx_apply_def set_loopback_def note_transmit_def Let_def rx_new_def record_of_def)
  have ok: "msg_ok m" "4 \<le> DataSize m" by (simp_all add: m_def msg_ok_def data_capacity_def)
  from confirmed_write [OF f(1,2) _ _ _ ok(2,1) refl, of "[(m, 5, None)]" 4 1 77] f
  show ?thesis unfolding Let_def m_def [symmetric] r_def [symmetric]
    by (simp add: record_of_def) (simp add: m_def)
qed

text \<open>
  First in, first out on raw CAN: up to 4096 inbound frames, delivered to a new channel, are read back in
  order with their identifier and data bytes unchanged, their timestamps, and the status masked to the bits
  the API reports.
\<close>

definition can_message :: "u32 \<times> u32 \<times> bytes \<Rightarrow> passthru_msg" where
  "can_message = (\<lambda>(status, timestamp, d).
     \<lparr>ProtocolID = CAN, RxStatus = status AND 0xc0000100, TxFlags = 0, Timestamp = timestamp,
      DataSize = of_nat (length d), ExtraDataIndex = of_nat (length d),
      Data = d @ replicate (4128 - length d) 0\<rparr>)"

lemma message_of_frame_can:
  assumes "length d \<le> 12"
  shows "message_of_frame \<lparr>fr_status = st AND 0xc0000100, fr_timestamp = ts, fr_size = of_nat (length d),
      fr_data = copy_at 0 d (replicate 12 0), fr_tx_flags = 0\<rparr> = can_message (st, ts, d)"
proof -
  have n: "unat (of_nat (length d) :: u16) = length d" using assms by (simp add: unat_of_nat)
  have w: "(ucast (of_nat (length d) :: u16) :: u32) = of_nat (length d)"
    using assms by (simp add: word_unat_eq_iff unat_of_nat)
  show ?thesis using assms n w
    by (simp add: message_of_frame_def can_message_def copy_at_def data_capacity_def)
qed

theorem can_receive_fifo:
  assumes "\<forall>(st, ts, d) \<in> set fs. 4 \<le> length d \<and> length d \<le> 12" and "length fs \<le> 4096"
    and "fs \<noteq> []" and "0 < n"
  shows "rx_read_now (rx_run (rx_new CAN) (map (\<lambda>(st, ts, d). Deliver (inbound_body CAN st ts d)) fs)) n =
    (map can_message (take n fs), Inr (),
     rx_run (rx_new CAN) (map (\<lambda>(st, ts, d). Deliver (inbound_body CAN st ts d)) (drop n fs)))"
proof -
  let ?frame = "\<lambda>(st, ts, d). \<lparr>fr_status = st AND 0xc0000100, fr_timestamp = ts, fr_size = of_nat (length d),
         fr_data = copy_at 0 d (replicate 12 0), fr_tx_flags = 0\<rparr>"
  have run: "rx_run (rx_new CAN) (map (\<lambda>(st, ts, d). Deliver (inbound_body CAN st ts d)) gs) =
      (rx_new CAN)\<lparr>rx_frames := map ?frame gs\<rparr>" if "set gs \<subseteq> set fs" "length gs \<le> 4096" for gs
  proof -
    have "\<forall>(st, ts, d) \<in> set gs. 4 \<le> length d \<and> length d \<le> 12" using assms(1) that(1) by blast
    from rx_run_can_frames [OF _ _ this, of "rx_new CAN"] that(2) show ?thesis by simp
  qed
  have msgs: "map message_of_frame (map ?frame (take n fs)) = map can_message (take n fs)"
    using assms(1) by (auto simp: message_of_frame_can dest!: in_set_takeD)
  have "rx_read_now ((rx_new CAN)\<lparr>rx_frames := map ?frame fs\<rparr>) n =
      (map message_of_frame (map ?frame (take n fs)), Inr (), (rx_new CAN)\<lparr>rx_frames := map ?frame (drop n fs)\<rparr>)"
    using assms(3,4) by (simp add: rx_read_now_def rx_drain_def rx_read_result_def rx_new_def take_map drop_map min_def)
  then show ?thesis
    using assms(2) run [of fs] run [of "drop n fs"] msgs set_drop_subset [of n fs] by simp
qed

theorem can_receive_fifo_witness:
  "fst (rx_read_now (rx_run (rx_new CAN)
     (map (\<lambda>(st, ts, d). Deliver (inbound_body CAN st ts d)) [(0x80000123, 5, [0, 0, 7, 0xe8, 1]), (0, 6, [0, 0, 7, 0xe9])])) 1)
   = [can_message (0x80000123, 5, [0, 0, 7, 0xe8, 1])]"
  using can_receive_fifo [of "[(0x80000123, 5, [0, 0, 7, 0xe8, 1]), (0, 6, [0, 0, 7, 0xe9])]" 1] by simp

text \<open>
  C12. End to end on ISO15765: the adapter delivers frames of up to 32 ECUs in any order; if the frames of one
  identifier are the segments of some messages, then what a read returns for that identifier is those messages in
  order, whole, each segmented one preceded by its start-of-message indication, as long as the queue has room.
\<close>

definition iso_message :: "u32 \<Rightarrow> iso_output \<Rightarrow> passthru_msg" where
  "iso_message timestamp out =
     \<lparr>ProtocolID = ISO15765, RxStatus = out_status out, TxFlags = 0, Timestamp = timestamp,
      DataSize = of_nat (length (out_data out)),
      ExtraDataIndex = (if out_status out = START_OF_MESSAGE then 0 else of_nat (length (out_data out))),
      Data = out_data out @ replicate (4128 - length (out_data out)) 0\<rparr>"

lemma run_output_ok:
  assumes "reassembler_inv as" and "out \<in> set (fst (reassembler_run as fs))"
  shows "4 \<le> length (out_data out) \<and> length (out_data out) \<le> 4099 \<and> (out_status out = START_OF_MESSAGE \<or> out_status out = 0)"
  using assms
proof (induction fs arbitrary: as)
  case (Cons f fs)
  from Cons.prems(2) have "out \<in> set (fst (reassembler_feed as f)) \<or>
      out \<in> set (fst (reassembler_run (snd (reassembler_feed as f)) fs))"
    by (auto simp: case_prod_unfold Let_def)
  then show ?case
  proof
    assume "out \<in> set (fst (reassembler_feed as f))"
    from feed_output_ok [OF Cons.prems(1) this] show ?thesis by (auto simp: iso_output_ok_def)
  next
    assume "out \<in> set (fst (reassembler_run (snd (reassembler_feed as f)) fs))"
    with Cons.IH [OF feed_inv [OF Cons.prems(1)]] show ?thesis by blast
  qed
qed simp

lemma message_of_queued:
  assumes "length (out_data out) \<le> 4099" and "out_status out = START_OF_MESSAGE \<or> out_status out = 0"
  shows "message_of_iso (queued ts out) = iso_message ts out"
  using assms by (auto simp: message_of_iso_def queued_def iso_message_def copy_at_def data_capacity_def)

lemma source_id_iso_message:
  assumes "4 \<le> length (out_data out)"
  shows "source_id (Data (iso_message ts out)) = source_id (out_data out)"
  using assms by (auto simp: iso_message_def source_id_def nth_append)

theorem isotp_receive_end_to_end:
  assumes "\<forall>f \<in> set frames. 4 < length f \<and> length f \<le> 12" and "card (source_id ` set frames) \<le> 32"
    and "length idb = 4" and "\<forall>p \<in> set payloads. length p \<le> 4095"
    and "filter (\<lambda>f. source_id f = source_id idb) frames = concat (map (isotp_segments idb pad) payloads)"
    and "length (fst (reassembler_run [] frames)) \<le> 256"
  shows "filter (\<lambda>m. source_id (Data m) = source_id idb)
      (fst (rx_read_now (rx_run (rx_new ISO15765)
        (map (\<lambda>f. Deliver (inbound_body ISO15765 status timestamp f)) frames)) 256)) =
    map (iso_message timestamp) (concat (map (isotp_delivered idb) payloads))"
proof -
  let ?outs = "fst (reassembler_run [] frames)"
  let ?id = "\<lambda>out. source_id (out_data out) = source_id idb"
  let ?r = "(rx_new ISO15765)\<lparr>rx_reassembler := snd (reassembler_run [] frames), rx_messages := map (queued timestamp) ?outs\<rparr>"
  have four: "\<forall>f \<in> set frames. 4 \<le> length f \<and> length f \<le> 12" and gt: "\<forall>f \<in> set frames. 4 < length f"
    using assms(1) by fastforce+
  have "rx_run (rx_new ISO15765) (map (\<lambda>f. Deliver (inbound_body ISO15765 status timestamp f)) frames) = ?r"
    using rx_run_iso_frames [OF _ _ four, of "rx_new ISO15765" status timestamp] assms(6) by simp
  moreover have "fst (rx_read_now ?r 256) = map (message_of_iso \<circ> queued timestamp) ?outs"
    using assms(6) by (simp add: rx_read_now_def rx_drain_def case_prod_unfold Let_def min_def)
  moreover have "map (message_of_iso \<circ> queued timestamp) ?outs = map (iso_message timestamp) ?outs"
    using run_output_ok [of "[]" _ frames] message_of_queued by (auto simp: reassembler_inv_def)
  moreover have "filter (\<lambda>m. source_id (Data m) = source_id idb) (map (iso_message timestamp) ?outs) =
      map (iso_message timestamp) (filter ?id ?outs)"
    using run_output_ok [of "[]" _ frames]
    by (auto simp: filter_map comp_def reassembler_inv_def source_id_iso_message intro!: arg_cong [of _ _ "map _"] filter_cong)
  moreover have "filter ?id ?outs = fst (conv_run None (concat (map (isotp_segments idb pad) payloads)))"
    using run_interleaved [of "[]" frames "source_id idb"] gt assms(2,5) by (simp add: reassembler_inv_def)
  moreover have "\<dots> = concat (map (isotp_delivered idb) payloads)"
    using conv_run_messages [OF assms(3,4), of None pad] by auto
  ultimately show ?thesis by simp
qed

theorem isotp_receive_end_to_end_witness:
  "filter (\<lambda>m. source_id (Data m) = source_id [0, 0, 7, 0xe8])
     (fst (rx_read_now (rx_run (rx_new ISO15765) (map (\<lambda>f. Deliver (inbound_body ISO15765 0 9 f))
       [[0, 0, 7, 0xe8, 0x10, 0x09, 1, 2, 3, 4, 5, 6], [0, 0, 7, 0xe9, 1, 0x7f], [0, 0, 7, 0xe8, 0x21, 7, 8, 9]])) 256)) =
   [iso_message 9 \<lparr>out_status = START_OF_MESSAGE, out_data = [0, 0, 7, 0xe8]\<rparr>,
    iso_message 9 \<lparr>out_status = 0, out_data = [0, 0, 7, 0xe8, 1, 2, 3, 4, 5, 6, 7, 8, 9]\<rparr>]"
proof -
  let ?frames = "[[0, 0, 7, 0xe8, 0x10, 0x09, 1, 2, 3, 4, 5, 6], [0, 0, 7, 0xe9, 1, 0x7f], [0, 0, 7, 0xe8, 0x21, 7, 8, 9]] :: bytes list"
  have segs: "filter (\<lambda>f. source_id f = source_id [0, 0, 7, 0xe8]) ?frames =
      concat (map (isotp_segments [0, 0, 7, 0xe8] []) [[1, 2, 3, 4, 5, 6, 7, 8, 9]])"
    by code_simp
  have card: "card (source_id ` set ?frames) \<le> 32"
    by (rule order_trans [OF card_image_le]) (auto intro: order_trans [OF card_length])
  have room: "length (fst (reassembler_run [] ?frames)) \<le> 256" by code_simp
  have "concat (map (isotp_delivered [0, 0, 7, 0xe8]) [[1, 2, 3, 4, 5, 6, 7, 8, 9 :: u8]]) =
    [\<lparr>out_status = START_OF_MESSAGE, out_data = [0, 0, 7, 0xe8]\<rparr>,
     \<lparr>out_status = 0, out_data = [0, 0, 7, 0xe8, 1, 2, 3, 4, 5, 6, 7, 8, 9]\<rparr>]"
    by (simp add: isotp_delivered_def)
  then show ?thesis
    using isotp_receive_end_to_end [OF _ card _ _ segs room] by simp
qed

text \<open>
  A stop is final and wakes everyone: a reader that waits, a reader that comes later and a writer that waits
  for confirmations all get the code and the reason of the first stop, whatever happens after it; nothing stays
  queued, and deliveries have no effect any more.
\<close>

lemma rx_stop_run:
  assumes "rx_stopped (rx_run r before) = STATUS_NOERROR" and "code \<noteq> STATUS_NOERROR"
  shows "rx_stopped (rx_run r (before @ Stop code reason # after)) = code"
    and "rx_reason (rx_run r (before @ Stop code reason # after)) = reason"
  using assms rx_run_stopped [of "rx_stop (rx_run r before) code reason" after]
  by (simp_all add: rx_run_append rx_apply_def rx_stop_def Let_def)

lemma rx_drain_empty:
  "rx_frames r = [] \<Longrightarrow> rx_messages r = [] \<Longrightarrow> rx_drain r n = ([], r)"
  by (simp add: rx_drain_def)

theorem stop_is_final:
  assumes "rx_inv r" and "rx_frames r = []" and "rx_messages r = []" and "\<not> rx_overflow r" and "\<not> rx_malformed r"
    and "rx_stopped r = STATUS_NOERROR" and "rx_stopped (rx_run r before) = STATUS_NOERROR"
    and "code \<noteq> STATUS_NOERROR" and "0 < n" and "rx_confirmed r c < target"
    and "r' = rx_run r (before @ Stop code reason # after)"
  shows "rx_read r n True ((before @ Stop code reason # after) # waits) = ([], Inl (Error code reason), r') \<and>
    rx_read r' n timed waits' = ([], Inl (Error code reason), r') \<and>
    await_transmitted r c target (before @ Stop code reason # after) = (Inl (Error code reason), r') \<and>
    rx_frames r' = [] \<and> rx_messages r' = [] \<and> rx_receive r' body = Inr r'"
proof -
  let ?es = "before @ Stop code reason # after"
  have s: "rx_stopped r' = code" "rx_reason r' = reason"
    using rx_stop_run [OF assms(7,8)] assms(11) by simp_all
  have later: "rx_read_loop r' [] n timed' ws = ([], Inl (Error code reason), r')" for timed' ws
    using rx_read_loop_stopped [of r' "[]" n timed' ws] s assms(8,9) by simp
  have "rx_read_loop r [] n True (?es # waits) = rx_read_loop r' [] n True waits"
    using assms s by (subst rx_read_loop.simps) (simp add: rx_drain_empty rx_read_ready_def)
  moreover have "rx_frames r' = [] \<and> rx_messages r' = []"
    using rx_inv_run [OF assms(1), of ?es] s assms(8,11) by (simp add: rx_inv_def)
  ultimately show ?thesis
    using s later assms by (simp add: rx_read_def await_transmitted_def await_ready_def rx_receive_stopped)
qed

theorem stop_is_final_witness:
  "rx_read (rx_new CAN) 1 True [[Loopback True, Stop ERR_DEVICE_NOT_CONNECTED ''gone'', Stop ERR_FAILED ''late'']]
   = ([], Inl (Error ERR_DEVICE_NOT_CONNECTED ''gone''),
      rx_run (rx_new CAN) [Loopback True, Stop ERR_DEVICE_NOT_CONNECTED ''gone'', Stop ERR_FAILED ''late''])"
proof -
  let ?es = "[Loopback True] @ Stop ERR_DEVICE_NOT_CONNECTED ''gone'' # [Stop ERR_FAILED ''late'']"
  have run: "rx_stopped (rx_run (rx_new CAN) [Loopback True]) = STATUS_NOERROR" "rx_confirmed (rx_new CAN) 0 < 1"
    by (simp_all add: rx_apply_def set_loopback_def) (simp add: rx_new_def)
  have "rx_read (rx_new CAN) 1 True [?es] = ([], Inl (Error ERR_DEVICE_NOT_CONNECTED ''gone''), rx_run (rx_new CAN) ?es)"
    using stop_is_final [OF rx_inv_new _ _ _ _ _ run(1) _ _ run(2) refl, of ERR_DEVICE_NOT_CONNECTED 1 "''gone''" "[Stop ERR_FAILED ''late'']" "[]"]
    by (simp only: rx_new_fields) simp
  then show ?thesis by (simp only: append.simps)
qed

text \<open>
  C13. Overflow keeps the old and drops the new: with the raw CAN queue full, further frames change nothing queued;
  the next read returns its messages and reports the loss once, the read after it goes on where it left off and
  reports success.
\<close>

lemma rx_full_deliver:
  assumes "rx_protocol r \<noteq> ISO15765" and "rx_stopped r = STATUS_NOERROR" and "length (rx_frames r) = 4096"
    and "\<forall>(st, ts, d) \<in> set fs. 4 \<le> length d \<and> length d \<le> 12"
  shows "rx_run r (map (\<lambda>(st, ts, d). Deliver (inbound_body (rx_protocol r) st ts d)) fs) =
    (if fs = [] then r else r\<lparr>rx_overflow := True\<rparr>)"
  using assms
proof (induction fs arbitrary: r)
  case (Cons f fs)
  obtain st ts d where f: "f = (st, ts, d)" by (cases f)
  have "rx_apply r (Deliver (inbound_body (rx_protocol r) st ts d)) = r\<lparr>rx_overflow := True\<rparr>"
    using Cons.prems f by (simp add: rx_apply_def rx_receive_inbound)
  with Cons.IH [of "r\<lparr>rx_overflow := True\<rparr>"] Cons.prems f show ?case by simp
qed simp

lemma rx_read_now_frames:
  assumes "rx_protocol r \<noteq> ISO15765" and "rx_stopped r = STATUS_NOERROR" and "\<not> rx_malformed r"
    and "0 < n" and "n \<le> length (rx_frames r)"
  shows "rx_read_now r n = (map message_of_frame (take n (rx_frames r)),
    if rx_overflow r then Inl (Error ERR_BUFFER_OVERFLOW ''CAN receive buffer overflow; messages lost'') else Inr (),
    r\<lparr>rx_overflow := False, rx_frames := drop n (rx_frames r)\<rparr>)"
proof -
  have "rx_drain r n = (map message_of_frame (take n (rx_frames r)), r\<lparr>rx_frames := drop n (rx_frames r)\<rparr>)"
    using assms(1,5) by (simp add: rx_drain_def)
  then show ?thesis
    using assms(2-5) by (auto simp: rx_read_now_def rx_read_result_def)
qed

theorem overflow_reported_once:
  assumes "rx_protocol r \<noteq> ISO15765" and "rx_stopped r = STATUS_NOERROR" and "\<not> rx_malformed r"
    and "length (rx_frames r) = 4096" and "\<forall>(st, ts, d) \<in> set fs. 4 \<le> length d \<and> length d \<le> 12" and "fs \<noteq> []"
    and "0 < n" and "n < 4096" and "0 < k" and "k \<le> 4096 - n"
    and "r1 = rx_run r (map (\<lambda>(st, ts, d). Deliver (inbound_body (rx_protocol r) st ts d)) fs)"
    and "rx_read_now r1 n = (out1, res1, r2)" and "rx_read_now r2 k = (out2, res2, r3)"
  shows "out1 = map message_of_frame (take n (rx_frames r)) \<and>
    res1 = Inl (Error ERR_BUFFER_OVERFLOW ''CAN receive buffer overflow; messages lost'') \<and>
    out2 = map message_of_frame (take k (drop n (rx_frames r))) \<and> res2 = Inr () \<and>
    rx_frames r3 = drop (n + k) (rx_frames r)"
proof -
  have r1: "r1 = r\<lparr>rx_overflow := True\<rparr>" using assms(1-6,11) by (simp add: rx_full_deliver)
  let ?r2 = "r\<lparr>rx_overflow := False, rx_frames := drop n (rx_frames r)\<rparr>"
  have e1: "rx_read_now r1 n = (map message_of_frame (take n (rx_frames r)),
      Inl (Error ERR_BUFFER_OVERFLOW ''CAN receive buffer overflow; messages lost''), ?r2)"
    using rx_read_now_frames [of r1 n] assms(1-4,7,8) by (simp add: r1)
  have e2: "rx_read_now ?r2 k = (map message_of_frame (take k (drop n (rx_frames r))), Inr (),
      r\<lparr>rx_overflow := False, rx_frames := drop k (drop n (rx_frames r))\<rparr>)"
    using rx_read_now_frames [of ?r2 k] assms(1-4,9,10) by simp
  show ?thesis using assms(12,13) unfolding e1 using e2 by (auto simp: add.commute)
qed

lemma channel_differs: "rx_protocol r = CAN \<Longrightarrow> rx_protocol r \<noteq> ISO15765"
  by simp

theorem overflow_reported_once_witness:
  "let f = \<lparr>fr_status = 0, fr_timestamp = 1, fr_size = 4, fr_data = replicate 12 7, fr_tx_flags = 0\<rparr>;
       r1 = rx_run ((rx_new CAN)\<lparr>rx_frames := replicate 4096 f\<rparr>) [Deliver (inbound_body CAN 0 2 [0, 0, 7, 0xe8])];
       r2 = snd (snd (rx_read_now r1 1))
   in fst (snd (rx_read_now r1 1)) = Inl (Error ERR_BUFFER_OVERFLOW ''CAN receive buffer overflow; messages lost'') \<and>
      fst (snd (rx_read_now r2 4095)) = Inr ()"
proof -
  define f where "f = \<lparr>fr_status = 0, fr_timestamp = 1, fr_size = 4, fr_data = replicate 12 (7 :: u8), fr_tx_flags = 0\<rparr>"
  define r where "r = (rx_new CAN)\<lparr>rx_frames := replicate 4096 f\<rparr>"
  define r1 where "r1 = rx_run r [Deliver (inbound_body CAN 0 2 [0, 0, 7, 0xe8])]"
  define r2 where "r2 = snd (snd (rx_read_now r1 1))"
  have r: "rx_protocol r = CAN" "rx_stopped r = STATUS_NOERROR" "\<not> rx_malformed r" "length (rx_frames r) = 4096"
    by (simp_all add: r_def)
  have a: "r1 = rx_run r (map (\<lambda>(st, ts, d). Deliver (inbound_body (rx_protocol r) st ts d)) [(0, 2, [0, 0, 7, 0xe8])])"
    by (simp add: r1_def r(1))
  have b: "rx_read_now r1 1 = (fst (rx_read_now r1 1), fst (snd (rx_read_now r1 1)), r2)"
    "rx_read_now r2 4095 = (fst (rx_read_now r2 4095), fst (snd (rx_read_now r2 4095)), snd (snd (rx_read_now r2 4095)))"
    by (simp_all add: r2_def)
  from overflow_reported_once [OF r(1) [THEN channel_differs] r(2-4) _ _ _ _ _ _ a b]
  have "fst (snd (rx_read_now r1 1)) = Inl (Error ERR_BUFFER_OVERFLOW ''CAN receive buffer overflow; messages lost'') \<and>
      fst (snd (rx_read_now r2 4095)) = Inr ()"
    by simp
  then show ?thesis by (simp add: Let_def f_def r_def r1_def r2_def)
qed

end
