(* ===== verification/Session.thy ===== *)
theory Session
  imports CanReceiver
begin

text \<open>
  \<open>class Session\<close> of src/session.hpp and src/session.cpp: one command at a time over a transport, the
  matching of responses, and the delivery of everything that arrives to the channel's receiver.

  The state is the record \<open>session\<close>. Receivers are shared objects (\<open>shared_ptr<CanReceiver>\<close>, held by
  the session and by the API's channel): they live in a store addressed by number, and \<open>ses_can\<close> is the pointer.
  Every critical section under \<open>mutex_\<close> is one step. \<open>command\<close> leaves that mutex at four places; what the
  reader thread and other API threads do there is a list of events of the environment record \<open>cmd_env\<close>, which
  also holds the clock readings, whether the command slot was obtained in time, and the transport's
  \<open>send\<close>, a function from the bytes and the budget to an outcome and to the events that happen during it.
  Clock readings are nanoseconds; 0 is \<open>time_point{}\<close>.
\<close>

section \<open>Definitions\<close>

definition response_opcode :: "u16 \<Rightarrow> bool" where
  "response_opcode op \<longleftrightarrow>
     op = 1 \<or> (op \<ge> 0x8003 \<and> op \<le> 0x8008 \<and> op \<noteq> 0x8004) \<or>
     (op \<ge> 0x800b \<and> op \<le> 0x800e) \<or> (op \<ge> 0x8010 \<and> op \<le> 0x8015) \<or>
     op = 0x8100 \<or> op = 0x8102 \<or> op = 0x8103 \<or>
     (op \<ge> 0x8109 \<and> op \<le> 0x810c) \<or> op = 0x8111 \<or> op = 0x8112"

record session =
  ses_decoder :: decoder
  ses_can :: "nat option"
  ses_receivers :: "nat \<Rightarrow> can_receiver"
  ses_response :: "bytes option"
  ses_failure :: string
  ses_sequence :: u16
  ses_pending :: u16
  ses_pending_source :: u16
  ses_minimum :: nat
  ses_closing :: bool
  ses_stopped :: bool
  ses_used :: "u16 \<Rightarrow> int"

definition session_new :: session where
  "session_new =
     \<lparr>ses_decoder = decoder_init, ses_can = None, ses_receivers = (\<lambda>_. rx_new CAN), ses_response = None,
      ses_failure = [], ses_sequence = 0, ses_pending = 0, ses_pending_source = board_node, ses_minimum = 20,
      ses_closing = False, ses_stopped = False, ses_used = (\<lambda>_. 0)\<rparr>"

text \<open>
  The constructor: whether a transport was given, and what its \<open>start\<close> and (on failure) \<open>stop\<close> did.
\<close>

definition session_open :: "bool \<Rightarrow> exn + unit \<Rightarrow> exn + session" where
  "session_open has_transport started =
     (if \<not> has_transport then Inl (Invalid_argument ''null transport'')
      else case started of Inl e \<Rightarrow> Inl e | Inr _ \<Rightarrow> Inr session_new)"

text \<open>\<open>if (can_receiver_) can_receiver_->stop(...)\<close>\<close>

definition halt_receiver :: "session \<Rightarrow> status \<Rightarrow> string \<Rightarrow> session" where
  "halt_receiver s code reason =
     (case ses_can s of
        None \<Rightarrow> s
      | Some h \<Rightarrow> s\<lparr>ses_receivers := (ses_receivers s)(h := rx_stop (ses_receivers s h) code reason)\<rparr>)"

definition ses_failed :: "session \<Rightarrow> string \<Rightarrow> session" where
  "ses_failed s reason =
     (let s = (if ses_failure s = [] then s\<lparr>ses_failure := reason\<rparr> else s)
      in halt_receiver s ERR_DEVICE_NOT_CONNECTED (ses_failure s))"

definition response_matches :: "session \<Rightarrow> bytes \<Rightarrow> exn + bool" where
  "response_matches s body =
     (if ses_pending s \<noteq> 0 \<and> ses_response s = None \<and> length body \<ge> ses_minimum s then
        ebind (le16 body 4) (\<lambda>op.
          if \<not> response_opcode op then Inr False
          else ebind (le16 body 0) (\<lambda>dest.
            if dest \<noteq> 0 then Inr False
            else ebind (le16 body 2) (\<lambda>src.
              if src \<noteq> ses_pending_source s then Inr False
              else ebind (le16 body 6) (\<lambda>sq. Inr (sq = ses_pending s)))))
      else Inr False)"

definition ses_body :: "session \<Rightarrow> bytes \<Rightarrow> exn + session" where
  "ses_body s body =
     ebind (case ses_can s of
              None \<Rightarrow> Inr s
            | Some h \<Rightarrow> ebind (rx_receive (ses_receivers s h) body) (\<lambda>r.
                Inr (s\<lparr>ses_receivers := (ses_receivers s)(h := r)\<rparr>))) (\<lambda>s.
     ebind (response_matches s body) (\<lambda>matched.
       Inr (if matched then s\<lparr>ses_response := Some body\<rparr> else s)))"

fun ses_bodies :: "session \<Rightarrow> bytes list \<Rightarrow> exn + session" where
  "ses_bodies s [] = Inr s"
| "ses_bodies s (body # bodies) = ebind (ses_body s body) (\<lambda>s. ses_bodies s bodies)"

definition ses_receive :: "session \<Rightarrow> bytes \<Rightarrow> exn + session" where
  "ses_receive s bytes =
     ebind (decoder_feed (ses_decoder s) bytes) (\<lambda>(bodies, d). ses_bodies (s\<lparr>ses_decoder := d\<rparr>) bodies)"

definition ses_usable :: "session \<Rightarrow> bool" where
  "ses_usable s \<longleftrightarrow> \<not> ses_closing s \<and> ses_failure s = []"

definition set_can_receiver :: "session \<Rightarrow> nat option \<Rightarrow> session" where
  "set_can_receiver s receiver =
     (let s = halt_receiver s ERR_INVALID_CHANNEL_ID ''CAN channel retired'';
          s = s\<lparr>ses_can := receiver\<rparr>
      in if ses_closing s \<or> ses_failure s \<noteq> []
         then halt_receiver s ERR_DEVICE_NOT_CONNECTED ''device connection lost'' else s)"

text \<open>\<open>close\<close>: the first critical section, and what follows once the command slot is free.\<close>

definition close_begin :: "session \<Rightarrow> session" where
  "close_begin s =
     (if ses_stopped s then s
      else halt_receiver (s\<lparr>ses_closing := True\<rparr>) ERR_DEVICE_NOT_CONNECTED ''device closed'')"

text \<open>
  Steps of other threads. \<open>set_can_receiver\<close> is not among them: like \<open>command\<close> it is only called under the
  lifecycle lock of the device (src/j2534.cpp), so it never runs during a command.
\<close>

datatype ses_event =
    Arrived bytes
  | Transport_failed string
  | Close_begun
  | On_receiver nat rx_event

definition ses_apply :: "session \<Rightarrow> ses_event \<Rightarrow> session" where
  "ses_apply s e =
     (case e of
        Arrived bytes \<Rightarrow> (case ses_receive s bytes of Inl _ \<Rightarrow> s | Inr s' \<Rightarrow> s')
      | Transport_failed reason \<Rightarrow> ses_failed s reason
      | Close_begun \<Rightarrow> close_begin s
      | On_receiver h ev \<Rightarrow> s\<lparr>ses_receivers := (ses_receivers s)(h := rx_apply (ses_receivers s h) ev)\<rparr>)"

definition ses_run :: "session \<Rightarrow> ses_event list \<Rightarrow> session" where
  "ses_run s es = foldl ses_apply s es"

definition ses_close :: "session \<Rightarrow> ses_event list \<Rightarrow> exn + unit \<Rightarrow> (exn + unit) \<times> session" where
  "ses_close s es transport_stop =
     (if ses_stopped s then (Inr (), s)
      else (transport_stop, (ses_run (close_begin s) es)\<lparr>ses_stopped := True\<rparr>))"

text \<open>\<open>command\<close>.\<close>

record cmd_env =
  env_start :: int
  env_slot :: bool
  env_queued :: "ses_event list"
  env_now :: int
  env_known :: "ses_event list"
  env_unsent :: "ses_event list"
  env_left :: int
  env_send :: "bytes \<Rightarrow> nat \<Rightarrow> (exn + unit) \<times> ses_event list"
  env_wait :: "ses_event list"

fun allocate :: "nat \<Rightarrow> (u16 \<Rightarrow> int) \<Rightarrow> int \<Rightarrow> u16 \<Rightarrow> bool \<times> u16" where
  "allocate 0 used now sq = (False, sq)"
| "allocate (Suc n) used now sq =
     (let sq = sq mod 255 + 1 in
      if used sq = 0 \<or> now - used sq \<ge> 10000000000 then (True, sq) else allocate n used now sq)"

text \<open>The first critical section: the sequence number and the bytes to write.\<close>

definition cmd_begin ::
    "session \<Rightarrow> int \<Rightarrow> u16 \<Rightarrow> bytes \<Rightarrow> u16 \<Rightarrow> u16 \<Rightarrow> (exn + bytes) \<times> session" where
  "cmd_begin s now opcode payload destination chan =
     (if ses_closing s then (Inl (Error ERR_DEVICE_NOT_CONNECTED ''session is closing''), s)
      else if ses_failure s \<noteq> [] then (Inl (Error ERR_DEVICE_NOT_CONNECTED (ses_failure s)), s)
      else
        let (available, sq) = allocate 255 (ses_used s) now (ses_sequence s);
            s = s\<lparr>ses_sequence := sq\<rparr>
        in if \<not> available
           then (Inl (Error ERR_EXCEEDED_LIMIT ''all sequence numbers are in the 10-second reuse quarantine''), s)
           else case ebind (request opcode sq payload destination chan) encode of
             Inl e \<Rightarrow> (Inl e, s)
           | Inr wire \<Rightarrow>
               (Inr wire, s\<lparr>ses_pending_source := destination, ses_pending := sq,
                            ses_minimum := (if opcode = 0x100 then 12 else 20), ses_response := None,
                            ses_used := (ses_used s)(sq := now)\<rparr>))"

text \<open>Paths on which nothing has been written: the sequence is free again.\<close>

definition cmd_release :: "session \<Rightarrow> u16 \<Rightarrow> session" where
  "cmd_release s sq = s\<lparr>ses_pending := 0, ses_used := (ses_used s)(sq := 0)\<rparr>"

definition cmd_send_failed :: "session \<Rightarrow> session" where
  "cmd_send_failed s =
     (let s = s\<lparr>ses_pending := 0\<rparr>;
          s = (if ses_failure s = [] then s\<lparr>ses_failure := ''write failed; reopen before retrying''\<rparr> else s)
      in halt_receiver s ERR_DEVICE_NOT_CONNECTED (ses_failure s))"

text \<open>After the wait: timed out, answered, closed or failed.\<close>

definition cmd_finish :: "session \<Rightarrow> u16 \<Rightarrow> (exn + bytes) \<times> session" where
  "cmd_finish s sq =
     (if ses_response s = None \<and> \<not> ses_closing s \<and> ses_failure s = [] then
        let reason = ''response timed out; reopen to avoid accepting a late response''
        in (Inl (Error ERR_TIMEOUT reason),
            halt_receiver (s\<lparr>ses_pending := 0, ses_failure := reason\<rparr>) ERR_DEVICE_NOT_CONNECTED reason)
      else
        let s = s\<lparr>ses_pending := 0\<rparr>;
            s = (if ses_response s \<noteq> None then s\<lparr>ses_used := (ses_used s)(sq := 0)\<rparr> else s)
        in (if ses_closing s then Inl (Error ERR_DEVICE_NOT_CONNECTED ''session closed while waiting'')
            else if ses_failure s \<noteq> [] then Inl (Error ERR_DEVICE_NOT_CONNECTED (ses_failure s))
            else Inr (the (ses_response s)), s))"

text \<open>The write and the wait; \<open>left\<close> is in nanoseconds and positive here.\<close>

definition cmd_exchange :: "cmd_env \<Rightarrow> session \<Rightarrow> bytes \<Rightarrow> u16 \<Rightarrow> int \<Rightarrow> (exn + bytes) \<times> session" where
  "cmd_exchange env s wire sq left =
     (let (sent, es) = env_send env wire (nat ((left + 999999) div 1000000));
          s = ses_run s es
      in case sent of
           Inl e \<Rightarrow> (Inl e, cmd_send_failed s)
         | Inr _ \<Rightarrow> cmd_finish (ses_run s (env_wait env)) sq)"

type_synonym seq_callback = "u16 \<Rightarrow> session \<Rightarrow> (exn + unit) \<times> session"

definition ses_command ::
    "cmd_env \<Rightarrow> u16 \<Rightarrow> bytes \<Rightarrow> int \<Rightarrow> u16 \<Rightarrow> u16 \<Rightarrow> seq_callback option \<Rightarrow> session \<Rightarrow> (exn + bytes) \<times> session" where
  "ses_command env opcode payload timeout destination chan known s =
     (if timeout \<le> 0 \<or> timeout > 60000 then (Inl (Invalid_argument ''command timeout must be 1..60000 ms''), s)
      else if \<not> env_slot env
      then (Inl (Error ERR_TIMEOUT ''waiting for command slot timed out''), ses_run s (env_queued env))
      else
        let deadline = env_start env + timeout * 1000000;
            (begun, s) = cmd_begin (ses_run s (env_queued env)) (env_now env) opcode payload destination chan;
            sq = ses_sequence s
        in case begun of
             Inl e \<Rightarrow> (Inl e, s)
           | Inr wire \<Rightarrow>
               let (told, s) = (case known of None \<Rightarrow> (Inr (), s) | Some f \<Rightarrow> f sq (ses_run s (env_known env)));
                   s = ses_run s (env_unsent env);
                   left = deadline - env_left env
               in case told of
                    Inl e \<Rightarrow> (Inl e, cmd_release s sq)
                  | Inr _ \<Rightarrow>
                      if left \<le> 0
                      then (Inl (Error ERR_TIMEOUT ''command deadline expired before write''), cmd_release s sq)
                      else cmd_exchange env s wire sq left)"

definition session_status :: "bytes \<Rightarrow> exn + u32" where
  "session_status body =
     (if length body < 20 then Inl (Error ERR_FAILED ''general response shorter than 20 bytes'')
      else le32 body 12)"

section \<open>What a step leaves alone\<close>

lemma halt_receiver_fields [simp]:
  "ses_decoder (halt_receiver s c m) = ses_decoder s" "ses_can (halt_receiver s c m) = ses_can s"
  "ses_response (halt_receiver s c m) = ses_response s" "ses_failure (halt_receiver s c m) = ses_failure s"
  "ses_sequence (halt_receiver s c m) = ses_sequence s" "ses_pending (halt_receiver s c m) = ses_pending s"
  "ses_pending_source (halt_receiver s c m) = ses_pending_source s" "ses_minimum (halt_receiver s c m) = ses_minimum s"
  "ses_closing (halt_receiver s c m) = ses_closing s" "ses_stopped (halt_receiver s c m) = ses_stopped s"
  "ses_used (halt_receiver s c m) = ses_used s"
  by (simp_all add: halt_receiver_def split: option.splits)

text \<open>A body answers the pending command: \<open>is_answer\<close>, total on every body.\<close>

definition is_answer :: "u16 \<Rightarrow> u16 \<Rightarrow> nat \<Rightarrow> bytes \<Rightarrow> bool" where
  "is_answer source sq minimum body \<longleftrightarrow>
     minimum \<le> length body \<and> (\<exists>op. le16 body 4 = Inr op \<and> response_opcode op) \<and>
     le16 body 0 = Inr 0 \<and> le16 body 2 = Inr source \<and> le16 body 6 = Inr sq"

definition minimum_ok :: "session \<Rightarrow> bool" where
  "minimum_ok s \<longleftrightarrow> ses_minimum s = 12 \<or> ses_minimum s = 20"

lemma response_matches_total:
  assumes "minimum_ok s"
  shows "response_matches s body =
    Inr (ses_pending s \<noteq> 0 \<and> ses_response s = None \<and> is_answer (ses_pending_source s) (ses_pending s) (ses_minimum s) body)"
proof (cases "ses_minimum s \<le> length body")
  case True
  then have "8 \<le> length body" using assms by (auto simp: minimum_ok_def)
  then show ?thesis by (auto simp: response_matches_def is_answer_def le16_Inr)
qed (simp add: response_matches_def is_answer_def)

definition attach :: "session \<Rightarrow> bytes list \<Rightarrow> nat \<Rightarrow> can_receiver" where
  "attach s bodies =
     (case ses_can s of
        None \<Rightarrow> ses_receivers s
      | Some h \<Rightarrow> (ses_receivers s)(h := rx_run (ses_receivers s h) (map Deliver bodies)))"

lemma rx_receive_apply: "rx_receive r body = Inr (rx_apply r (Deliver body))"
  using rx_receive_total [of r body] by (auto simp: rx_apply_def)

lemma accept_all_run: "accept_all rx_receive r bodies = Inr (rx_run r (map Deliver bodies))"
  by (induction bodies arbitrary: r) (simp_all add: rx_receive_apply)

text \<open>One read of the transport: every body goes to the receiver, the first answer is kept.\<close>

lemma ses_bodies_effect:
  assumes "minimum_ok s"
  shows "ses_bodies s bodies =
    Inr (s\<lparr>ses_receivers := attach s bodies,
           ses_response := (if ses_pending s \<noteq> 0 \<and> ses_response s = None
             then find (is_answer (ses_pending_source s) (ses_pending s) (ses_minimum s)) bodies
             else ses_response s)\<rparr>)"
  using assms
proof (induction bodies arbitrary: s)
  case Nil
  then show ?case by (cases s) (simp add: attach_def split: option.splits)
next
  case (Cons b bs)
  let ?s = "s\<lparr>ses_receivers := attach s [b],
      ses_response := (if ses_pending s \<noteq> 0 \<and> ses_response s = None
        then find (is_answer (ses_pending_source s) (ses_pending s) (ses_minimum s)) [b] else ses_response s)\<rparr>"
  have "ses_body s b = Inr ?s"
    using Cons.prems
    by (cases s, cases "ses_can s")
       (auto simp: ses_body_def attach_def rx_receive_apply response_matches_total minimum_ok_def)
  moreover have "minimum_ok ?s" using Cons.prems by (simp add: minimum_ok_def)
  ultimately show ?case
    using Cons.IH [of ?s] by (cases "ses_can s") (auto simp: attach_def)
qed

lemma ses_receive_effect:
  assumes "minimum_ok s" and "decoder_feed (ses_decoder s) bytes = Inr (bodies, d)"
  shows "ses_receive s bytes =
    Inr (s\<lparr>ses_decoder := d, ses_receivers := attach s bodies,
           ses_response := (if ses_pending s \<noteq> 0 \<and> ses_response s = None
             then find (is_answer (ses_pending_source s) (ses_pending s) (ses_minimum s)) bodies
             else ses_response s)\<rparr>)"
  using assms ses_bodies_effect [of "s\<lparr>ses_decoder := d\<rparr>" bodies]
  by (simp add: ses_receive_def attach_def minimum_ok_def cong: option.case_cong)

text \<open>
  Events of other threads. None touches what belongs to the command in flight (\<open>same_command\<close>), and the
  session never becomes usable again.
\<close>

definition same_command :: "session \<Rightarrow> session \<Rightarrow> bool" where
  "same_command s t \<longleftrightarrow>
     ses_sequence t = ses_sequence s \<and> ses_pending t = ses_pending s \<and> ses_pending_source t = ses_pending_source s \<and>
     ses_minimum t = ses_minimum s \<and> ses_used t = ses_used s \<and> ses_stopped t = ses_stopped s \<and>
     ses_can t = ses_can s \<and> (ses_usable t \<longrightarrow> ses_usable s) \<and> (ses_closing s \<longrightarrow> ses_closing t)"

lemma same_command_refl: "same_command s s"
  by (simp add: same_command_def)

lemma same_command_trans: "same_command s t \<Longrightarrow> same_command t u \<Longrightarrow> same_command s u"
  by (simp add: same_command_def)

lemma same_command_halt: "same_command s t \<Longrightarrow> same_command s (halt_receiver t c m)"
  by (simp add: same_command_def ses_usable_def)

lemma minimum_ok_same: "same_command s t \<Longrightarrow> minimum_ok t = minimum_ok s"
  by (simp add: same_command_def minimum_ok_def)

lemma same_command_apply:
  assumes "minimum_ok s" shows "same_command s (ses_apply s e)"
proof (cases e)
  case (Arrived bytes)
  obtain bodies d where "decoder_feed (ses_decoder s) bytes = Inr (bodies, d)"
    using decoder_feed_total by blast
  from ses_receive_effect [OF assms this] Arrived show ?thesis
    by (simp add: ses_apply_def same_command_def ses_usable_def)
qed (auto simp: ses_apply_def ses_failed_def close_begin_def Let_def same_command_def ses_usable_def)

lemma ses_run_simps [simp]: "ses_run s [] = s" "ses_run s (e # es) = ses_run (ses_apply s e) es"
  by (simp_all add: ses_run_def)

lemma ses_run_append: "ses_run s (es @ fs) = ses_run (ses_run s es) fs"
  by (simp add: ses_run_def)

lemma same_command_run: "minimum_ok s \<Longrightarrow> same_command s (ses_run s es)"
proof (induction es arbitrary: s)
  case (Cons e es)
  from same_command_apply [OF Cons.prems, of e] have s: "same_command s (ses_apply s e)" .
  with Cons.prems have "minimum_ok (ses_apply s e)" by (simp add: minimum_ok_same)
  from same_command_trans [OF s Cons.IH [OF this]] show ?case by simp
qed (simp add: same_command_refl)

text \<open>The bytes that arrive during a list of events, and what they do to decoder and response.\<close>

fun arrived :: "ses_event list \<Rightarrow> bytes" where
  "arrived [] = []"
| "arrived (Arrived bytes # es) = bytes @ arrived es"
| "arrived (_ # es) = arrived es"

lemma arrived_append: "arrived (es @ fs) = arrived es @ arrived fs"
  by (induction es rule: arrived.induct) simp_all

lemma apply_other_event:
  assumes "\<forall>bytes. e \<noteq> Arrived bytes"
  shows "ses_decoder (ses_apply s e) = ses_decoder s \<and> ses_response (ses_apply s e) = ses_response s"
  using assms by (cases e) (auto simp: ses_apply_def ses_failed_def close_begin_def Let_def)

lemma find_append: "find P (xs @ ys) = (case find P xs of None \<Rightarrow> find P ys | Some x \<Rightarrow> Some x)"
  by (induction xs) simp_all

lemma ses_run_response:
  assumes "minimum_ok s" and "decoder_feed (ses_decoder s) (arrived es) = Inr (bodies, d)"
  shows "ses_decoder (ses_run s es) = d \<and>
    ses_response (ses_run s es) =
      (if ses_pending s \<noteq> 0 \<and> ses_response s = None
       then find (is_answer (ses_pending_source s) (ses_pending s) (ses_minimum s)) bodies
       else ses_response s)"
  using assms
proof (induction es arbitrary: s bodies)
  case Nil
  then show ?case by (auto simp: wire.feed_nil)
next
  case (Cons e es)
  have same: "same_command s (ses_apply s e)" using Cons.prems(1) by (rule same_command_apply)
  then have ok: "minimum_ok (ses_apply s e)" using Cons.prems(1) by (simp add: minimum_ok_same)
  show ?case
  proof (cases "\<exists>bytes. e = Arrived bytes")
    case True
    then obtain bytes where e: "e = Arrived bytes" by blast
    obtain b1 d1 where f: "decoder_feed (ses_decoder s) bytes = Inr (b1, d1)" using decoder_feed_total by blast
    obtain b2 d2 where g: "decoder_feed d1 (arrived es) = Inr (b2, d2)" using decoder_feed_total by blast
    from Cons.prems(2) e f g have "bodies = b1 @ b2" "d2 = d" by (simp_all add: wire.feed_append)
    moreover have "ses_apply s e = s\<lparr>ses_decoder := d1, ses_receivers := attach s b1,
           ses_response := (if ses_pending s \<noteq> 0 \<and> ses_response s = None
             then find (is_answer (ses_pending_source s) (ses_pending s) (ses_minimum s)) b1 else ses_response s)\<rparr>"
      using ses_receive_effect [OF Cons.prems(1) f] e by (simp add: ses_apply_def)
    ultimately show ?thesis
      using Cons.IH [OF ok, of b2] g by (auto simp: find_append split: option.splits)
  next
    case False
    then have "arrived (e # es) = arrived es" by (cases e) auto
    moreover have "ses_decoder (ses_apply s e) = ses_decoder s \<and> ses_response (ses_apply s e) = ses_response s"
      using False by (intro apply_other_event) blast
    ultimately show ?thesis
      using Cons.IH [OF ok, of bodies] Cons.prems(2) same by (simp add: same_command_def)
  qed
qed

section \<open>The invariant\<close>

text \<open>
  In every state: the limits on \<open>minimum_\<close> and \<open>sequence_\<close>, valid receivers, and a lost or closed device never
  leaves a running receiver attached, so no reader waits on it for ever.
\<close>

definition ses_base :: "session \<Rightarrow> bool" where
  "ses_base s \<longleftrightarrow>
     minimum_ok s \<and> unat (ses_sequence s) \<le> 255 \<and> (\<forall>h. rx_inv (ses_receivers s h)) \<and>
     (ses_stopped s \<longrightarrow> ses_closing s)"

definition ses_inv :: "session \<Rightarrow> bool" where
  "ses_inv s \<longleftrightarrow> ses_base s \<and>
     (\<not> ses_usable s \<longrightarrow> (\<forall>h. ses_can s = Some h \<longrightarrow> rx_halted (ses_receivers s h)))"

text \<open>Between commands: nothing pending, and a usable session holds no sequence in quarantine.\<close>

definition ses_quiet :: "session \<Rightarrow> bool" where
  "ses_quiet s \<longleftrightarrow> ses_pending s = 0 \<and> (ses_usable s \<longrightarrow> (\<forall>q. ses_used s q = 0))"

lemma ses_base_update [simp]:
  "ses_base (s\<lparr>ses_failure := m\<rparr>) = ses_base s" "ses_base (s\<lparr>ses_pending := q\<rparr>) = ses_base s"
  "ses_base (s\<lparr>ses_can := c\<rparr>) = ses_base s" "ses_base (s\<lparr>ses_used := u\<rparr>) = ses_base s"
  "ses_base (s\<lparr>ses_response := x\<rparr>) = ses_base s" "ses_base (s\<lparr>ses_decoder := d\<rparr>) = ses_base s"
  "ses_base s \<Longrightarrow> ses_base (s\<lparr>ses_closing := True\<rparr>)"
  by (auto simp: ses_base_def minimum_ok_def)

lemma ses_inv_base: "ses_inv s \<Longrightarrow> ses_base s"
  by (simp add: ses_inv_def)

lemma ses_inv_minimum: "ses_inv s \<Longrightarrow> minimum_ok s"
  by (simp add: ses_inv_def ses_base_def)

lemma ses_inv_new: "ses_inv session_new" "ses_quiet session_new"
  by (simp_all add: ses_inv_def ses_base_def ses_quiet_def session_new_def minimum_ok_def ses_usable_def)

lemma halt_receiver_inv:
  assumes "ses_base s" and "code \<noteq> STATUS_NOERROR"
  shows "ses_inv (halt_receiver s code reason)"
  using assms sink.halt_valid [of "ses_receivers s h" code reason for h] sink.halt_halted [of code _ reason]
  by (auto simp: ses_inv_def ses_base_def halt_receiver_def minimum_ok_def split: option.splits)

lemma rx_halted_apply: "rx_halted r \<Longrightarrow> rx_halted (rx_apply r e)"
  using rx_apply_stopped [of r e] by (simp add: rx_halted_def)

lemma ses_inv_receivers:
  assumes "ses_inv s" and "\<forall>h. rx_inv (rs h)"
    and "\<forall>h. rx_halted (ses_receivers s h) \<longrightarrow> rx_halted (rs h)"
  shows "ses_inv (s\<lparr>ses_receivers := rs\<rparr>)"
  using assms by (auto simp: ses_inv_def ses_base_def minimum_ok_def ses_usable_def)

lemma attach_valid:
  assumes "\<forall>h. rx_inv (ses_receivers s h)" shows "rx_inv (attach s bodies h)"
  using assms rx_inv_run by (auto simp: attach_def split: option.splits)

lemma rx_halted_run: "rx_halted r \<Longrightarrow> rx_halted (rx_run r es)"
  using rx_run_stopped [of r es] by (simp add: rx_halted_def)

lemma attach_halted: "rx_halted (ses_receivers s h) \<Longrightarrow> rx_halted (attach s bodies h)"
  by (auto simp: attach_def rx_halted_run split: option.splits)

lemma ses_inv_receive:
  assumes "ses_inv s" and "ses_receive s bytes = Inr s'"
  shows "ses_inv s'"
proof -
  have ok: "minimum_ok s" using assms(1) by (rule ses_inv_minimum)
  obtain bodies d where f: "decoder_feed (ses_decoder s) bytes = Inr (bodies, d)" using decoder_feed_total by blast
  from ses_receive_effect [OF ok f] assms(2)
  have s': "s' = (s\<lparr>ses_receivers := attach s bodies\<rparr>)\<lparr>ses_decoder := d, ses_response := ses_response s'\<rparr>"
    by (cases s) auto
  have "ses_inv (s\<lparr>ses_receivers := attach s bodies\<rparr>)"
    using assms(1) attach_valid [of s bodies] attach_halted [of s _ bodies]
    by (intro ses_inv_receivers) (auto simp: ses_inv_def ses_base_def)
  then show ?thesis by (subst s') (simp add: ses_inv_def ses_usable_def)
qed

lemma ses_receive_total: "ses_inv s \<Longrightarrow> \<exists>s'. ses_receive s bytes = Inr s'"
  using decoder_feed_total [of "ses_decoder s" bytes] ses_receive_effect [of s bytes]
  by (auto dest: ses_inv_minimum)

lemma ses_inv_apply:
  assumes "ses_inv s" shows "ses_inv (ses_apply s e)"
proof (cases e)
  case (Arrived bytes)
  then show ?thesis
    using assms ses_receive_total [OF assms, of bytes] ses_inv_receive [OF assms, of bytes]
    by (auto simp: ses_apply_def)
next
  case (Transport_failed reason)
  have "ses_base s" using assms by (rule ses_inv_base)
  then show ?thesis using Transport_failed
    by (auto simp: ses_apply_def ses_failed_def Let_def halt_receiver_inv)
next
  case Close_begun
  have "ses_base s" using assms by (rule ses_inv_base)
  then show ?thesis using assms Close_begun
    by (auto simp: ses_apply_def close_begin_def halt_receiver_inv)
next
  case (On_receiver h ev)
  let ?rs = "(ses_receivers s)(h := rx_apply (ses_receivers s h) ev)"
  have "\<forall>k. rx_inv (?rs k)" "\<forall>k. rx_halted (ses_receivers s k) \<longrightarrow> rx_halted (?rs k)"
    using ses_inv_base [OF assms] rx_inv_apply rx_halted_apply by (simp_all add: ses_base_def)
  then have "ses_inv (s\<lparr>ses_receivers := ?rs\<rparr>)" by (rule ses_inv_receivers [OF assms])
  then show ?thesis using On_receiver by (simp add: ses_apply_def)
qed

lemma ses_inv_install:
  assumes "ses_inv s" shows "ses_inv (set_can_receiver s receiver)"
proof -
  let ?s = "(halt_receiver s ERR_INVALID_CHANNEL_ID ''CAN channel retired'')\<lparr>ses_can := receiver\<rparr>"
  have "ses_base s" using assms by (rule ses_inv_base)
  then have "ses_base (halt_receiver s ERR_INVALID_CHANNEL_ID ''CAN channel retired'')"
    by (auto intro: ses_inv_base halt_receiver_inv)
  then have b: "ses_base ?s" by simp
  then have "ses_inv (halt_receiver ?s ERR_DEVICE_NOT_CONNECTED m)" for m by (simp add: halt_receiver_inv)
  moreover have "ses_inv ?s" if "ses_usable s"
    using b that by (simp add: ses_inv_def ses_usable_def)
  ultimately show ?thesis
    by (auto simp: set_can_receiver_def Let_def ses_usable_def)
qed

lemma set_can_receiver_fields [simp]:
  "ses_can (set_can_receiver s receiver) = receiver" "ses_pending (set_can_receiver s receiver) = ses_pending s"
  "ses_used (set_can_receiver s receiver) = ses_used s" "ses_usable (set_can_receiver s receiver) = ses_usable s"
  by (simp_all add: set_can_receiver_def Let_def ses_usable_def)

lemma ses_inv_run: "ses_inv s \<Longrightarrow> ses_inv (ses_run s es)"
  by (induction es arbitrary: s) (auto intro: ses_inv_apply)

section \<open>Commands\<close>

lemma allocate_bounds:
  assumes "allocate n used now sq = (True, q)"
  shows "0 < unat q \<and> unat q \<le> 255 \<and> (used q = 0 \<or> now - used q \<ge> 10000000000)"
  using assms
proof (induction n arbitrary: sq)
  case (Suc n)
  have "unat (sq mod 255 + 1) = unat sq mod 255 + 1"
    by (simp add: unat_word_ariths unat_mod_distrib mod_less)
  with Suc show ?case by (auto simp: Let_def split: if_splits)
qed simp

lemma allocate_free: "\<forall>q. used q = 0 \<Longrightarrow> allocate (Suc n) used now sq = (True, sq mod 255 + 1)"
  by (simp add: Let_def)

definition next_sequence :: "session \<Rightarrow> u16" where
  "next_sequence s = ses_sequence s mod 255 + 1"

lemma unat_next_sequence: "unat (next_sequence s) = unat (ses_sequence s) mod 255 + 1"
proof -
  have "unat (ses_sequence s mod 255) = unat (ses_sequence s) mod 255" by (simp add: unat_mod_distrib)
  moreover have "unat (ses_sequence s) mod 255 + 1 < 65536" using mod_less_divisor [of 255 "unat (ses_sequence s)"] by linarith
  ultimately show ?thesis by (simp add: next_sequence_def unat_word_ariths)
qed

lemma next_sequence_range: "0 < unat (next_sequence s)" "unat (next_sequence s) \<le> 255" "next_sequence s \<noteq> 0"
proof -
  show *: "0 < unat (next_sequence s)" "unat (next_sequence s) \<le> 255"
    using mod_less_divisor [of 255 "unat (ses_sequence s)"] by (simp_all add: unat_next_sequence)
  then show "next_sequence s \<noteq> 0" by auto
qed

text \<open>A command in flight: its sequence is pending and, in a usable session, the only one held.\<close>

definition in_flight :: "session \<Rightarrow> bool" where
  "in_flight s \<longleftrightarrow> ses_pending s = ses_sequence s \<and> ses_sequence s \<noteq> 0 \<and>
     (ses_usable s \<longrightarrow> (\<forall>q. q \<noteq> ses_sequence s \<longrightarrow> ses_used s q = 0))"

lemma in_flight_same: "in_flight s \<Longrightarrow> same_command s t \<Longrightarrow> in_flight t"
  by (auto simp: in_flight_def same_command_def)

lemma ses_quiet_same: "ses_quiet s \<Longrightarrow> same_command s t \<Longrightarrow> ses_quiet t"
  by (auto simp: ses_quiet_def same_command_def)

lemma ses_run_keeps:
  assumes "ses_inv s" shows "ses_inv (ses_run s es)" and "same_command s (ses_run s es)"
  using assms by (auto intro: ses_inv_run same_command_run ses_inv_minimum)

text \<open>What \<open>command\<close> needs of its callback: it may only act on receivers.\<close>

definition callback_ok :: "seq_callback option \<Rightarrow> bool" where
  "callback_ok known \<longleftrightarrow> (\<forall>f q s. known = Some f \<and> ses_inv s \<longrightarrow>
     ses_inv (snd (f q s)) \<and> same_command s (snd (f q s)) \<and>
     ses_decoder (snd (f q s)) = ses_decoder s \<and> ses_response (snd (f q s)) = ses_response s)"

lemma cmd_begin_Inr:
  assumes "ses_inv s" and "ses_quiet s" and "cmd_begin s now opcode payload destination chan = (Inr wire, t)"
  shows "ses_usable s \<and> (\<exists>body. request opcode (next_sequence s) payload destination chan = Inr body \<and> encode body = Inr wire) \<and>
    t = s\<lparr>ses_sequence := next_sequence s, ses_pending_source := destination, ses_pending := next_sequence s,
          ses_minimum := (if opcode = 0x100 then 12 else 20), ses_response := None,
          ses_used := (ses_used s)(next_sequence s := now)\<rparr>"
proof -
  have u: "ses_usable s" using assms(3) by (auto simp: cmd_begin_def ses_usable_def split: if_splits)
  then have a: "allocate 255 (ses_used s) now (ses_sequence s) = (True, next_sequence s)"
    using assms(2) allocate_free [of "ses_used s" 254] by (simp add: ses_quiet_def next_sequence_def)
  from u assms(3) show ?thesis
    unfolding cmd_begin_def a ses_usable_def by (auto simp: Let_def ebind_eq_Inr_iff split: sum.splits)
qed

lemma cmd_begin_Inl:
  assumes "ses_inv s" and "ses_quiet s" and "cmd_begin s now opcode payload destination chan = (Inl e, t)"
  shows "(t = s \<or> t = s\<lparr>ses_sequence := next_sequence s\<rparr>) \<and>
    (\<not> ses_usable s \<and> exn_status e = ERR_DEVICE_NOT_CONNECTED \<or> (\<exists>m. e = Invalid_argument m) \<or> (\<exists>m. e = Out_of_range m))"
proof (cases "ses_usable s")
  case True
  then have a: "allocate 255 (ses_used s) now (ses_sequence s) = (True, next_sequence s)"
    using assms(2) allocate_free [of "ses_used s" 254] by (simp add: ses_quiet_def next_sequence_def)
  have "(\<exists>m. e = Invalid_argument m) \<or> (\<exists>m. e = Out_of_range m)"
    if "ebind (request opcode q payload destination chan) encode = Inl e" for q
    using that by (auto simp: ebind_eq_Inl_iff request_def encode_def put16_def Let_def split: if_splits)
  with True assms(3) show ?thesis
    unfolding cmd_begin_def a ses_usable_def by (auto simp: Let_def split: sum.splits)
qed (use assms in \<open>auto simp: cmd_begin_def ses_usable_def split: if_splits\<close>)

lemma cmd_begin_keeps:
  assumes "ses_inv s" and "ses_quiet s" and "cmd_begin s now opcode payload destination chan = (r, t)"
  shows "ses_inv t" and "(\<exists>e. r = Inl e) \<Longrightarrow> ses_quiet t" and "(\<exists>w. r = Inr w) \<Longrightarrow> in_flight t"
    and "ses_usable t = ses_usable s" and "ses_decoder t = ses_decoder s"
proof -
  have sq: "ses_inv (s\<lparr>ses_sequence := next_sequence s\<rparr>)" "ses_quiet (s\<lparr>ses_sequence := next_sequence s\<rparr>)"
    using assms(1,2) next_sequence_range [of s]
    by (auto simp: ses_inv_def ses_base_def ses_quiet_def ses_usable_def minimum_ok_def)
  have "ses_inv t \<and> ((\<exists>e. r = Inl e) \<longrightarrow> ses_quiet t) \<and> ((\<exists>w. r = Inr w) \<longrightarrow> in_flight t) \<and>
      ses_usable t = ses_usable s \<and> ses_decoder t = ses_decoder s"
  proof (cases r)
    case (Inl e)
    with cmd_begin_Inl [OF assms(1,2), of now opcode payload destination chan e t] assms sq show ?thesis
      by (auto simp: ses_usable_def)
  next
    case (Inr w)
    with cmd_begin_Inr [OF assms(1,2), of now opcode payload destination chan w t] assms(3)
    have u: "ses_usable s" and t: "t = s\<lparr>ses_sequence := next_sequence s, ses_pending_source := destination,
        ses_pending := next_sequence s, ses_minimum := (if opcode = 0x100 then 12 else 20), ses_response := None,
        ses_used := (ses_used s)(next_sequence s := now)\<rparr>" by simp_all
    have "ses_used s q = 0" for q using u assms(2) by (simp add: ses_quiet_def)
    moreover have "ses_usable t" using u t by (simp add: ses_usable_def)
    moreover have "ses_base t"
      using assms(1) next_sequence_range [of s] t by (auto simp: ses_inv_def ses_base_def minimum_ok_def)
    ultimately show ?thesis
      using u t Inr next_sequence_range [of s] by (auto simp: in_flight_def ses_inv_def)
  qed
  then show "ses_inv t" and "(\<exists>e. r = Inl e) \<Longrightarrow> ses_quiet t" and "(\<exists>w. r = Inr w) \<Longrightarrow> in_flight t"
    and "ses_usable t = ses_usable s" and "ses_decoder t = ses_decoder s" by blast+
qed

lemma cmd_release_keeps:
  assumes "ses_inv s" and "in_flight s"
  shows "ses_inv (cmd_release s (ses_sequence s))" "ses_quiet (cmd_release s (ses_sequence s))"
    "ses_usable (cmd_release s (ses_sequence s)) = ses_usable s"
  using assms by (auto simp: cmd_release_def ses_inv_def ses_quiet_def in_flight_def ses_usable_def)

lemma cmd_send_failed_keeps:
  assumes "ses_inv s"
  shows "ses_inv (cmd_send_failed s)" "ses_quiet (cmd_send_failed s)" "\<not> ses_usable (cmd_send_failed s)"
proof -
  show "ses_inv (cmd_send_failed s)"
    using ses_inv_base [OF assms] by (auto simp: cmd_send_failed_def Let_def intro!: halt_receiver_inv)
  show "\<not> ses_usable (cmd_send_failed s)" by (simp add: cmd_send_failed_def Let_def ses_usable_def)
  then show "ses_quiet (cmd_send_failed s)" by (simp add: ses_quiet_def) (simp add: cmd_send_failed_def Let_def)
qed

lemma cmd_finish_keeps:
  assumes "ses_inv s" and "in_flight s" and "cmd_finish s (ses_sequence s) = (r, t)"
  shows "ses_inv t" "ses_quiet t" "(\<exists>e. r = Inl e) \<longleftrightarrow> \<not> ses_usable t" "ses_usable t \<longrightarrow> ses_usable s"
proof -
  have b: "ses_base s" using assms(1) by (rule ses_inv_base)
  have "ses_inv t \<and> ses_quiet t \<and> ((\<exists>e. r = Inl e) \<longleftrightarrow> \<not> ses_usable t) \<and> (ses_usable t \<longrightarrow> ses_usable s)"
  proof (cases "ses_response s = None \<and> \<not> ses_closing s \<and> ses_failure s = []")
    case True
    with assms(3) b show ?thesis
      by (auto simp: cmd_finish_def Let_def halt_receiver_inv ses_quiet_def ses_usable_def)
  next
    case False
    with assms show ?thesis
      by (auto simp: cmd_finish_def Let_def ses_quiet_def ses_usable_def ses_inv_def in_flight_def split: if_splits)
  qed
  then show "ses_inv t" "ses_quiet t" "(\<exists>e. r = Inl e) \<longleftrightarrow> \<not> ses_usable t" "ses_usable t \<longrightarrow> ses_usable s" by blast+
qed

lemma cmd_exchange_keeps:
  assumes "ses_inv s" and "in_flight s" and "cmd_exchange env s wire (ses_sequence s) left = (r, t)"
  shows "ses_inv t" "ses_quiet t" "(\<exists>e. r = Inl e) \<longleftrightarrow> \<not> ses_usable t" "ses_usable t \<longrightarrow> ses_usable s"
proof -
  obtain sent es where e: "env_send env wire (nat ((left + 999999) div 1000000)) = (sent, es)" by fastforce
  let ?u = "ses_run s es"
  let ?w = "ses_run ?u (env_wait env)"
  have u: "ses_inv ?u" "same_command s ?u" and w: "ses_inv ?w" "same_command s ?w"
    using ses_run_keeps [OF assms(1), of es] ses_run_keeps [of ?u "env_wait env"] same_command_trans by blast+
  have "ses_inv t \<and> ses_quiet t \<and> ((\<exists>e. r = Inl e) \<longleftrightarrow> \<not> ses_usable t) \<and> (ses_usable t \<longrightarrow> ses_usable s)"
  proof (cases sent)
    case (Inl x)
    with assms(3) e have "r = Inl x" "t = cmd_send_failed ?u" by (simp_all add: cmd_exchange_def Let_def)
    with cmd_send_failed_keeps [OF u(1)] show ?thesis by blast
  next
    case (Inr x)
    with assms(3) e have "cmd_finish ?w (ses_sequence s) = (r, t)" by (simp add: cmd_exchange_def Let_def)
    moreover have "ses_sequence ?w = ses_sequence s" "in_flight ?w" "ses_usable ?w \<longrightarrow> ses_usable s"
      using w(2) in_flight_same [OF assms(2) w(2)] by (simp_all add: same_command_def)
    ultimately show ?thesis using cmd_finish_keeps [OF w(1), of r t] by simp
  qed
  then show "ses_inv t" "ses_quiet t" "(\<exists>e. r = Inl e) \<longleftrightarrow> \<not> ses_usable t" "ses_usable t \<longrightarrow> ses_usable s" by blast+
qed

text \<open>The callback step and the events around it, between the two critical sections.\<close>

definition cmd_told :: "cmd_env \<Rightarrow> seq_callback option \<Rightarrow> session \<Rightarrow> (exn + unit) \<times> session" where
  "cmd_told env known s =
     (let (told, t) = (case known of None \<Rightarrow> (Inr (), s) | Some f \<Rightarrow> f (ses_sequence s) (ses_run s (env_known env)))
      in (told, ses_run t (env_unsent env)))"

definition cmd_left :: "cmd_env \<Rightarrow> int \<Rightarrow> int" where
  "cmd_left env timeout = env_start env + timeout * 1000000 - env_left env"

lemma ses_command_cases:
  "ses_command env opcode payload timeout destination chan known s =
     (if timeout \<le> 0 \<or> timeout > 60000 then (Inl (Invalid_argument ''command timeout must be 1..60000 ms''), s)
      else if \<not> env_slot env
      then (Inl (Error ERR_TIMEOUT ''waiting for command slot timed out''), ses_run s (env_queued env))
      else
        (case cmd_begin (ses_run s (env_queued env)) (env_now env) opcode payload destination chan of
           (Inl e, s) \<Rightarrow> (Inl e, s)
         | (Inr wire, s) \<Rightarrow>
             (case cmd_told env known s of
                (Inl e, t) \<Rightarrow> (Inl e, cmd_release t (ses_sequence s))
              | (Inr _, t) \<Rightarrow>
                  if cmd_left env timeout \<le> 0
                  then (Inl (Error ERR_TIMEOUT ''command deadline expired before write''), cmd_release t (ses_sequence s))
                  else cmd_exchange env t wire (ses_sequence s) (cmd_left env timeout))))"
  by (simp add: ses_command_def cmd_told_def cmd_left_def Let_def case_prod_unfold split: sum.splits option.splits)

lemma cmd_told_keeps:
  assumes "ses_inv s" and "callback_ok known" and "cmd_told env known s = (r, t)"
  shows "ses_inv t" "same_command s t"
proof -
  let ?q = "ses_run s (env_known env)"
  obtain u where t: "t = ses_run u (env_unsent env)" and
      u: "known = None \<and> u = s \<or> (\<exists>f. known = Some f \<and> u = snd (f (ses_sequence s) ?q))"
    using assms(3) by (cases known) (auto simp: cmd_told_def Let_def case_prod_unfold)
  have q: "ses_inv ?q" "same_command s ?q" using ses_run_keeps [OF assms(1)] by blast+
  have "ses_inv u \<and> same_command s u"
    using u assms(1,2) q same_command_refl same_command_trans unfolding callback_ok_def by metis
  then show "ses_inv t" "same_command s t"
    using ses_run_keeps [of u "env_unsent env"] same_command_trans t by blast+
qed

lemma ses_command_keeps:
  assumes "ses_inv s" and "ses_quiet s" and "callback_ok known"
    and "ses_command env opcode payload timeout destination chan known s = (r, t)"
  shows "ses_inv t \<and> ses_quiet t \<and> (ses_usable t \<longrightarrow> ses_usable s) \<and> ((\<exists>b. r = Inr b) \<longrightarrow> ses_usable t)"
proof -
  let ?q = "ses_run s (env_queued env)"
  have q: "ses_inv ?q" "same_command s ?q" using ses_run_keeps [OF assms(1)] by blast+
  have qq: "ses_quiet ?q" using assms(2) q(2) by (rule ses_quiet_same)
  have qu: "ses_usable ?q \<longrightarrow> ses_usable s" using q(2) by (simp add: same_command_def)
  obtain b u where b: "cmd_begin ?q (env_now env) opcode payload destination chan = (b, u)" by fastforce
  note u = cmd_begin_keeps [OF q(1) qq b]
  obtain c v where c: "cmd_told env known u = (c, v)" by fastforce
  note v = cmd_told_keeps [OF u(1) assms(3) c]
  have vu: "ses_usable v \<longrightarrow> ses_usable s" using v(2) u(4) qu by (simp add: same_command_def)
  have sv: "ses_sequence u = ses_sequence v" using v(2) by (simp add: same_command_def)
  consider "r = Inl (Invalid_argument ''command timeout must be 1..60000 ms'')" "t = s"
    | "\<exists>e. r = Inl e" "t = ?q" | e where "b = Inl e" "r = Inl e" "t = u"
    | w e where "b = Inr w" "r = Inl e" "t = cmd_release v (ses_sequence v)"
    | w where "b = Inr w" "cmd_exchange env v w (ses_sequence v) (cmd_left env timeout) = (r, t)"
    using assms(4) b c sv by (auto simp: ses_command_cases split: if_splits sum.splits)
  then show ?thesis
  proof cases
    case 1 then show ?thesis using assms(1,2) by simp
  next
    case 2 then show ?thesis using q qq qu by auto
  next
    case 3 then show ?thesis using u qu by auto
  next
    case 4
    then have f: "in_flight v" using u(3) in_flight_same [OF _ v(2)] by blast
    from cmd_release_keeps [OF v(1) f] 4 vu show ?thesis by auto
  next
    case 5
    then have f: "in_flight v" using u(3) in_flight_same [OF _ v(2)] by blast
    from cmd_exchange_keeps [OF v(1) f 5(2)] vu show ?thesis by (cases r) auto
  qed
qed

text \<open>All the states a session can be in between two calls.\<close>

inductive session_reachable :: "session \<Rightarrow> bool" where
  opened: "session_reachable session_new"
| event: "session_reachable s \<Longrightarrow> session_reachable (ses_apply s e)"
| command: "session_reachable s \<Longrightarrow> callback_ok known \<Longrightarrow>
    session_reachable (snd (ses_command env opcode payload timeout destination chan known s))"
| installed: "session_reachable s \<Longrightarrow> session_reachable (set_can_receiver s receiver)"
| closed: "session_reachable s \<Longrightarrow> session_reachable (snd (ses_close s es transport_stop))"
| receiver_created: "session_reachable s \<Longrightarrow> ses_can s \<noteq> Some h \<Longrightarrow>
    session_reachable (s\<lparr>ses_receivers := (ses_receivers s)(h := rx_new protocol)\<rparr>)"

lemma ses_close_keeps:
  assumes "ses_inv s" and "ses_quiet s"
  shows "ses_inv (snd (ses_close s es ts)) \<and> ses_quiet (snd (ses_close s es ts))"
proof (cases "ses_stopped s")
  case False
  let ?b = "ses_apply s Close_begun"
  let ?t = "ses_run ?b es"
  have b: "ses_inv ?b" "same_command s ?b" using assms(1) by (auto intro: ses_inv_apply same_command_apply ses_inv_minimum)
  then have t: "ses_inv ?t" "same_command s ?t" using ses_run_keeps [OF b(1)] same_command_trans by blast+
  have "ses_closing ?b" using False by (simp add: ses_apply_def close_begin_def)
  then have "\<not> ses_usable ?b" by (simp add: ses_usable_def)
  then have "\<not> ses_usable ?t" using ses_run_keeps(2) [OF b(1), of es] by (auto simp: same_command_def)
  moreover have "ses_closing ?t"
    using ses_run_keeps(2) [OF b(1), of es] \<open>ses_closing ?b\<close> by (simp add: same_command_def)
  ultimately show ?thesis
    using False t ses_quiet_same [OF assms(2) t(2)]
    by (auto simp: ses_close_def ses_apply_def ses_inv_def ses_base_def ses_quiet_def ses_usable_def minimum_ok_def)
qed (use assms in \<open>simp add: ses_close_def\<close>)

lemma session_reachable_inv:
  assumes "session_reachable s" shows "ses_inv s \<and> ses_quiet s"
  using assms
proof (induction rule: session_reachable.induct)
  case opened
  then show ?case by (simp add: ses_inv_new)
next
  case (event s e)
  then show ?case
    using ses_inv_apply [of s e] same_command_apply [of s e] ses_quiet_same ses_inv_minimum by blast
next
  case (command s known env opcode payload timeout destination chan)
  then show ?case using ses_command_keeps by (metis prod.collapse)
next
  case (installed s receiver)
  then show ?case by (simp add: ses_inv_install ses_quiet_def)
next
  case (closed s es transport_stop)
  then show ?case by (simp add: ses_close_keeps)
next
  case (receiver_created s h protocol)
  then show ?case by (auto simp: ses_inv_def ses_base_def minimum_ok_def ses_usable_def ses_quiet_def)
qed

text \<open>The events of a command after its sequence number was chosen.\<close>

definition cmd_events :: "cmd_env \<Rightarrow> seq_callback option \<Rightarrow> bytes \<Rightarrow> nat \<Rightarrow> ses_event list" where
  "cmd_events env known wire ms =
     (if known = None then [] else env_known env) @ env_unsent env @ snd (env_send env wire ms) @ env_wait env"

lemma ses_run_find:
  assumes "minimum_ok s" and "decoder_feed (ses_decoder s) (arrived es) = Inr (frames, d)"
    and "ses_pending s \<noteq> 0" and "ses_response s = None"
  shows "ses_response (ses_run s es) = find (is_answer (ses_pending_source s) (ses_pending s) (ses_minimum s)) frames"
  using ses_run_response [OF assms(1,2)] assms(3,4) by simp

text \<open>A callback that acts on receivers is invisible to the decoder and the response.\<close>

lemma cmd_told_response:
  assumes "ses_inv s" and "callback_ok known" and "cmd_told env known s = (r, t)"
    and "decoder_feed (ses_decoder s) (arrived ((if known = None then [] else env_known env) @ env_unsent env @ es)) = Inr (frames, d)"
    and "ses_pending s \<noteq> 0" and "ses_response s = None"
  shows "ses_response (ses_run t es) = find (is_answer (ses_pending_source s) (ses_pending s) (ses_minimum s)) frames"
proof (cases known)
  case None
  then have "ses_run t es = ses_run s (env_unsent env @ es)"
    using assms(3) by (auto simp: cmd_told_def ses_run_append)
  then show ?thesis
    using ses_run_find [OF ses_inv_minimum [OF assms(1)], of "env_unsent env @ es"] assms(4-6) None by simp
next
  case (Some f)
  let ?q = "ses_run s (env_known env)"
  let ?v = "snd (f (ses_sequence s) ?q)"
  let ?is = "is_answer (ses_pending_source s) (ses_pending s) (ses_minimum s)"
  have q: "ses_inv ?q" "same_command s ?q" using ses_run_keeps [OF assms(1)] by blast+
  have v: "ses_inv ?v" "same_command ?q ?v" "ses_decoder ?v = ses_decoder ?q" "ses_response ?v = ses_response ?q"
    using assms(2) q(1) Some unfolding callback_ok_def by blast+
  have t: "ses_run t es = ses_run ?v (env_unsent env @ es)"
    using assms(3) Some by (auto simp: cmd_told_def Let_def case_prod_unfold ses_run_append)
  obtain f1 d1 where f1: "decoder_feed (ses_decoder s) (arrived (env_known env)) = Inr (f1, d1)"
    using decoder_feed_total by blast
  obtain f2 d2 where f2: "decoder_feed d1 (arrived (env_unsent env @ es)) = Inr (f2, d2)"
    using decoder_feed_total by blast
  have fr: "frames = f1 @ f2" using assms(4) f1 f2 Some by (simp add: arrived_append wire.feed_append)
  have m: "minimum_ok s" using assms(1) by (rule ses_inv_minimum)
  from ses_run_response [OF m f1] assms(5,6)
  have "ses_decoder ?q = d1" "ses_response ?q = find ?is f1" by simp_all
  then have "ses_response (ses_run ?v (env_unsent env @ es)) = (if find ?is f1 = None then find ?is f2 else find ?is f1)"
    using ses_run_response [OF ses_inv_minimum [OF v(1)], of "env_unsent env @ es" f2 d2] v f2 q(2) assms(5)
    by (simp add: same_command_def)
  then show ?thesis unfolding t fr find_append by (auto split: option.splits)
qed

lemma cmd_exchange_Inr:
  assumes "cmd_exchange env s wire q left = (Inr body, t)"
  shows "fst (env_send env wire (nat ((left + 999999) div 1000000))) = Inr () \<and>
    ses_response (ses_run s (snd (env_send env wire (nat ((left + 999999) div 1000000))) @ env_wait env)) = Some body"
proof -
  obtain sent es where e: "env_send env wire (nat ((left + 999999) div 1000000)) = (sent, es)" by fastforce
  with assms have "sent = Inr ()" "cmd_finish (ses_run (ses_run s es) (env_wait env)) q = (Inr body, t)"
    by (simp_all add: cmd_exchange_def Let_def split: sum.splits)
  then show ?thesis by (auto simp: e ses_run_append cmd_finish_def Let_def split: if_splits)
qed

lemma ses_command_Inr:
  assumes "ses_command env opcode payload timeout destination chan known s = (Inr body, t)"
  obtains wire u v where "cmd_begin (ses_run s (env_queued env)) (env_now env) opcode payload destination chan = (Inr wire, u)"
    "cmd_told env known u = (Inr (), v)" "0 < cmd_left env timeout"
    "cmd_exchange env v wire (ses_sequence u) (cmd_left env timeout) = (Inr body, t)"
proof -
  obtain b u where b: "cmd_begin (ses_run s (env_queued env)) (env_now env) opcode payload destination chan = (b, u)" by fastforce
  obtain c v where c: "cmd_told env known u = (c, v)" by fastforce
  from assms b c show thesis
    by (intro that [of "projr b" u v]) (auto simp: ses_command_cases split: if_splits sum.splits)
qed

section \<open>Properties\<close>

text \<open>
  C14. A command that succeeds returns the answer to itself: the bytes it wrote are the framed request with the
  next sequence number (1..255), handed to the transport with a budget of at least one millisecond, and what it
  returns is the first frame, among those completed after that number was chosen, that has a response opcode,
  comes from the node addressed, echoes the number and is long enough. The session is usable and idle again and
  no sequence is left in quarantine.
\<close>

theorem command_answer:
  assumes "session_reachable s" and "callback_ok known"
    and "ses_command env opcode payload timeout destination chan known s = (Inr body, t)"
  shows "\<exists>wire ms frames d sq request_body.
    sq = next_sequence s \<and> 0 < unat sq \<and> unat sq \<le> 255 \<and>
    request opcode sq payload destination chan = Inr request_body \<and> encode request_body = Inr wire \<and>
    0 < ms \<and> fst (env_send env wire ms) = Inr () \<and>
    decoder_feed (ses_decoder (ses_run s (env_queued env))) (arrived (cmd_events env known wire ms)) = Inr (frames, d) \<and>
    find (is_answer destination sq (if opcode = 0x100 then 12 else 20)) frames = Some body \<and>
    ses_usable t \<and> ses_pending t = 0 \<and> ses_used t = (\<lambda>_. 0)"
proof -
  let ?q = "ses_run s (env_queued env)" and ?ms = "nat ((cmd_left env timeout + 999999) div 1000000)"
  have s: "ses_inv s" "ses_quiet s" using session_reachable_inv [OF assms(1)] by blast+
  have q: "ses_inv ?q" "same_command s ?q" using ses_run_keeps [OF s(1)] by blast+
  then have nq: "next_sequence ?q = next_sequence s" and qq: "ses_quiet ?q"
    using ses_quiet_same [OF s(2) q(2)] by (simp_all add: next_sequence_def same_command_def)
  from assms(3) obtain wire u v where b: "cmd_begin ?q (env_now env) opcode payload destination chan = (Inr wire, u)"
    and c: "cmd_told env known u = (Inr (), v)" and l: "0 < cmd_left env timeout"
    and x: "cmd_exchange env v wire (ses_sequence u) (cmd_left env timeout) = (Inr body, t)"
    by (rule ses_command_Inr)
  from cmd_begin_Inr [OF q(1) qq b] nq obtain request_body where
    r: "request opcode (next_sequence s) payload destination chan = Inr request_body" "encode request_body = Inr wire"
    and u: "ses_pending u = next_sequence s" "ses_pending_source u = destination" "ses_response u = None"
      "ses_minimum u = (if opcode = 0x100 then 12 else 20)" "ses_decoder u = ses_decoder ?q"
    by auto
  have ui: "ses_inv u" using cmd_begin_keeps [OF q(1) qq b] by blast
  obtain frames d where f: "decoder_feed (ses_decoder u) (arrived (cmd_events env known wire ?ms)) = Inr (frames, d)"
    using decoder_feed_total by blast
  have "ses_response (ses_run v (snd (env_send env wire ?ms) @ env_wait env)) =
      find (is_answer (ses_pending_source u) (ses_pending u) (ses_minimum u)) frames"
    using f u next_sequence_range [of s] by (intro cmd_told_response [OF ui assms(2) c]) (simp_all add: cmd_events_def)
  with cmd_exchange_Inr [OF x] u have "find (is_answer destination (next_sequence s) (if opcode = 0x100 then 12 else 20)) frames = Some body"
    "fst (env_send env wire ?ms) = Inr ()" by simp_all
  moreover have "ses_usable t" "ses_pending t = 0" "ses_used t = (\<lambda>_. 0)"
    using ses_command_keeps [OF s assms(2,3)] by (auto simp: ses_quiet_def)
  moreover have "0 < ?ms" using l by simp
  ultimately show ?thesis using r f u(5) next_sequence_range [of s] by metis
qed

text \<open>A board that answers \<open>cReset\<close>-like opcode 0x100 with twelve bytes, for the witnesses.\<close>

definition sample_env :: "ses_event list \<Rightarrow> cmd_env" where
  "sample_env es =
     \<lparr>env_start = 0, env_slot = True, env_queued = [], env_now = 5, env_known = [], env_unsent = [], env_left = 9,
      env_send = (\<lambda>wire ms. (Inr (), [])), env_wait = es\<rparr>"

definition sample_begun :: session where
  "sample_begun = session_new\<lparr>ses_sequence := 1, ses_pending_source := 1, ses_pending := 1, ses_minimum := 12,
                  ses_response := None, ses_used := (\<lambda>_. 0)(1 := 5)\<rparr>"

definition sample_answer :: bytes where
  "sample_answer = [0, 0, 1, 0, 0, 0x81, 1, 0, 0, 0, 0, 0]"

definition sample_wire :: bytes where
  "sample_wire = [12, 0, 0xea, 0x51, 0, 0, 1, 0, 0, 0x81, 1, 0, 0, 0, 0, 0]"

lemma sample_begin:
  "cmd_begin session_new 5 0x100 [] 1 0 =
     (Inr [12, 0, 0xea, 0x51, 1, 0, 0, 0, 0, 1, 1, 0, 0, 0, 0, 0], sample_begun)"
proof -
  have "allocate 255 (\<lambda>_. 0) 5 0 = (True, 1)" using allocate_free [of "\<lambda>_. 0" 254 5 0] by simp
  moreover have "ebind (request 0x100 1 [] 1 0) encode = Inr [12, 0, 0xea, 0x51, 1, 0, 0, 0, 0, 1, 1, 0, 0, 0, 0, 0]"
    by code_simp
  ultimately show ?thesis by (simp add: cmd_begin_def session_new_def sample_begun_def)
qed

lemma sample_begun_fields [simp]:
  "ses_can sample_begun = None" "ses_response sample_begun = None" "ses_pending sample_begun = 1"
  "ses_pending_source sample_begun = 1" "ses_minimum sample_begun = 12" "ses_decoder sample_begun = decoder_init"
  "ses_closing sample_begun = False" "ses_failure sample_begun = []" "ses_sequence sample_begun = 1"
  by (simp_all add: sample_begun_def session_new_def)

lemma sample_command:
  "ses_command (sample_env es) 0x100 [] 10000 1 0 None session_new = cmd_finish (ses_run sample_begun es) 1"
  by (simp add: ses_command_cases sample_env_def sample_begin cmd_told_def cmd_left_def cmd_exchange_def)

lemma sample_feed: "decoder_feed decoder_init sample_wire = Inr ([sample_answer], decoder_init)"
proof -
  have "encode sample_answer = Inr sample_wire" by code_simp
  then show ?thesis by (rule wire.feed_enc [rotated]) (simp add: decoder_between_def decoder_init_def)
qed

theorem command_answer_witness:
  "let result = ses_command (sample_env [Arrived sample_wire]) 0x100 [] 10000 1 0 None session_new
   in fst result = Inr sample_answer \<and> ses_usable (snd result) \<and> ses_used (snd result) = (\<lambda>_. 0)"
proof -
  let ?env = "sample_env [Arrived sample_wire]"
  have ans: "is_answer 1 1 12 sample_answer" by (simp add: is_answer_def sample_answer_def le16_def response_opcode_def)
  define result where "result = ses_command ?env 0x100 [] 10000 1 0 None session_new"
  have "minimum_ok sample_begun" by (simp add: minimum_ok_def)
  from ses_receive_effect [OF this, of sample_wire "[sample_answer]" decoder_init] sample_feed ans
  have "ses_receive sample_begun sample_wire = Inr (sample_begun\<lparr>ses_decoder := decoder_init,
      ses_receivers := attach sample_begun [sample_answer], ses_response := Some sample_answer\<rparr>)"
    by simp
  then have r: "fst result = Inr sample_answer"
    by (simp add: result_def sample_command ses_apply_def cmd_finish_def)
  then have run: "ses_command ?env 0x100 [] 10000 1 0 None session_new = (Inr sample_answer, snd result)"
    by (simp add: result_def) (metis prod.collapse)
  have "callback_ok None" by (simp add: callback_ok_def)
  from command_answer [OF opened this run] have "ses_usable (snd result)" "ses_used (snd result) = (\<lambda>_. 0)" by blast+
  with r show ?thesis unfolding Let_def result_def [symmetric] by simp
qed

text \<open>
  C15. An ambiguous outcome poisons the session. If a failed command leaves the session usable, nothing was written:
  the outcome does not depend on the transport. Otherwise the session stays unusable whatever happens next, and
  every later command fails before anything is written, so a late response is never taken for another one's.
\<close>

lemma ses_command_dead:
  assumes "ses_inv s" and "\<not> ses_usable s"
  shows "\<exists>e t. \<forall>send. ses_command (env\<lparr>env_send := send\<rparr>) opcode payload timeout destination chan known s = (Inl e, t) \<and>
    \<not> ses_usable t"
proof -
  let ?q = "ses_run s (env_queued env)"
  have q: "\<not> ses_usable ?q" using ses_run_keeps(2) [OF assms(1), of "env_queued env"] assms(2) by (auto simp: same_command_def)
  have "\<exists>e. cmd_begin ?q (env_now env) opcode payload destination chan = (Inl e, ?q)"
    by (cases "ses_closing ?q") (use q in \<open>simp_all add: cmd_begin_def ses_usable_def\<close>)
  then obtain e where "cmd_begin ?q (env_now env) opcode payload destination chan = (Inl e, ?q)" by blast
  then show ?thesis using q assms(2) by (auto simp: ses_command_cases)
qed

lemma cmd_told_send [simp]: "cmd_told (env\<lparr>env_send := send\<rparr>) = cmd_told env"
  by (intro ext) (simp add: cmd_told_def split: option.splits)

lemma cmd_left_send [simp]: "cmd_left (env\<lparr>env_send := send\<rparr>) timeout = cmd_left env timeout"
  by (simp add: cmd_left_def)

theorem failed_command_outcome:
  assumes "session_reachable s" and "callback_ok known"
    and "ses_command env opcode payload timeout destination chan known s = (Inl e, t)"
  shows "if ses_usable t
    then \<forall>send. ses_command (env\<lparr>env_send := send\<rparr>) opcode payload timeout destination chan known s = (Inl e, t)
    else \<exists>e' u. \<forall>send. ses_command (env'\<lparr>env_send := send\<rparr>) opcode' payload' timeout' destination' chan' known'
           (ses_run t es) = (Inl e', u) \<and> \<not> ses_usable u"
proof (cases "ses_usable t")
  case True
  let ?q = "ses_run s (env_queued env)"
  have s: "ses_inv s" "ses_quiet s" using session_reachable_inv [OF assms(1)] by blast+
  have q: "ses_inv ?q" "ses_quiet ?q"
    using ses_run_keeps [OF s(1), of "env_queued env"] ses_quiet_same [OF s(2)] by blast+
  obtain b u where b: "cmd_begin ?q (env_now env) opcode payload destination chan = (b, u)" by fastforce
  obtain c v where c: "cmd_told env known u = (c, v)" by fastforce
  note u = cmd_begin_keeps [OF q b] and v = cmd_told_keeps [OF cmd_begin_keeps(1) [OF q b] assms(2) c]
  have "cmd_exchange env v w (ses_sequence u) left \<noteq> (Inl e, t)" if "b = Inr w" for w left
  proof
    assume x: "cmd_exchange env v w (ses_sequence u) left = (Inl e, t)"
    have "in_flight v" "ses_sequence v = ses_sequence u"
      using u(3) that in_flight_same [OF _ v(2)] v(2) by (auto simp: same_command_def)
    with cmd_exchange_keeps(3) [OF v(1), of env w left "Inl e" t] x True show False by simp
  qed
  with assms(3) True b c show ?thesis
    by (auto simp: ses_command_cases split: if_splits sum.splits)
next
  case False
  have t: "ses_inv t" using ses_command_keeps [OF _ _ assms(2,3)] session_reachable_inv [OF assms(1)] by blast
  have "\<not> ses_usable (ses_run t es)" using ses_run_keeps(2) [OF t, of es] False by (auto simp: same_command_def)
  from ses_command_dead [OF ses_inv_run [OF t] this] False show ?thesis by simp
qed

theorem failed_command_outcome_witness:
  "let t = snd (ses_command (sample_env []) 0x100 [] 10000 1 0 None session_new)
   in \<exists>e' u. \<forall>send. ses_command ((sample_env [])\<lparr>env_send := send\<rparr>) 3 [] 10000 1 0 None (ses_run t [Arrived sample_wire])
          = (Inl e', u) \<and> \<not> ses_usable u"
proof -
  define result where "result = ses_command (sample_env []) 0x100 [] 10000 1 0 None session_new"
  have r: "fst result = Inl (Error ERR_TIMEOUT ''response timed out; reopen to avoid accepting a late response'')"
    "\<not> ses_usable (snd result)"
    by (simp_all add: result_def sample_command cmd_finish_def ses_usable_def Let_def)
  then have run: "ses_command (sample_env []) 0x100 [] 10000 1 0 None session_new =
      (Inl (Error ERR_TIMEOUT ''response timed out; reopen to avoid accepting a late response''), snd result)"
    by (simp add: result_def) (metis prod.collapse)
  have "callback_ok None" by (simp add: callback_ok_def)
  from failed_command_outcome [OF opened this run, of "sample_env []" 3 "[]" 10000 1 0 None "[Arrived sample_wire]"] r(2)
  show ?thesis unfolding Let_def result_def [symmetric] by simp
qed

text \<open>
  C16. The ten-second quarantine never blocks a command: in every reachable session, whatever other threads did
  before it got the slot, beginning a command never fails with \<open>ERR_EXCEEDED_LIMIT\<close>, and when it succeeds the
  number it takes is the successor of the last one in the cycle 1..255 and the only one held.
\<close>

theorem quarantine_never_blocks:
  assumes "session_reachable s"
  shows "case cmd_begin (ses_run s es) now opcode payload destination chan of
      (Inl e, t) \<Rightarrow> exn_status e \<noteq> ERR_EXCEEDED_LIMIT \<and> ses_used t = ses_used (ses_run s es)
    | (Inr wire, t) \<Rightarrow> ses_sequence t = next_sequence s \<and> ses_used t = (\<lambda>_. 0)(next_sequence s := now)"
proof -
  let ?q = "ses_run s es"
  have s: "ses_inv s" "ses_quiet s" using session_reachable_inv [OF assms] by blast+
  have q: "ses_inv ?q" "same_command s ?q" using ses_run_keeps [OF s(1)] by blast+
  have qq: "ses_quiet ?q" using ses_quiet_same [OF s(2) q(2)] .
  have nq: "next_sequence ?q = next_sequence s" using q(2) by (simp add: next_sequence_def same_command_def)
  obtain r t where b: "cmd_begin ?q now opcode payload destination chan = (r, t)" by fastforce
  show ?thesis
  proof (cases r)
    case (Inl e)
    with cmd_begin_Inl [OF q(1) qq] b show ?thesis by fastforce
  next
    case (Inr wire)
    with cmd_begin_Inr [OF q(1) qq, of now opcode payload destination chan wire t] b
    have "ses_usable ?q" "ses_sequence t = next_sequence s" "ses_used t = (ses_used ?q)(next_sequence s := now)"
      by (simp_all add: nq)
    moreover have "ses_used ?q = (\<lambda>_. 0)" using qq \<open>ses_usable ?q\<close> by (auto simp: ses_quiet_def)
    ultimately show ?thesis using Inr b by simp
  qed
qed

theorem quarantine_never_blocks_witness:
  "ses_sequence (snd (cmd_begin (ses_run session_new []) 5 0x100 [] 1 0)) = next_sequence session_new"
  using quarantine_never_blocks [OF opened, where es = "[]" and now = 5 and opcode = "0x100" and payload = "[]" and destination = 1 and chan = 0] by (simp add: sample_begin)

text \<open>
  C17. What arrives is handled the same however the transport cuts it: in every reachable session no read makes
  \<open>receive\<close> throw, and feeding the pieces leaves the session, its receivers and the response exactly as feeding
  the whole does.
\<close>

lemma attach_append: "attach (s\<lparr>ses_receivers := attach s a\<rparr>) b = attach s (a @ b)"
  by (simp add: attach_def rx_run_append split: option.splits)

lemma ses_apply_arrived_append:
  assumes "minimum_ok s"
  shows "ses_apply (ses_apply s (Arrived a)) (Arrived b) = ses_apply s (Arrived (a @ b))"
proof -
  obtain f1 d1 where f1: "decoder_feed (ses_decoder s) a = Inr (f1, d1)" using decoder_feed_total by blast
  obtain f2 d2 where f2: "decoder_feed d1 b = Inr (f2, d2)" using decoder_feed_total by blast
  have f: "decoder_feed (ses_decoder s) (a @ b) = Inr (f1 @ f2, d2)" by (simp add: wire.feed_append f1 f2)
  let ?is = "is_answer (ses_pending_source s) (ses_pending s) (ses_minimum s)"
  let ?t = "s\<lparr>ses_decoder := d1, ses_receivers := attach s f1,
      ses_response := (if ses_pending s \<noteq> 0 \<and> ses_response s = None then find ?is f1 else ses_response s)\<rparr>"
  have t: "ses_apply s (Arrived a) = ?t" using ses_receive_effect [OF assms f1] by (simp add: ses_apply_def)
  have "minimum_ok ?t" using assms by (simp add: minimum_ok_def)
  from ses_receive_effect [OF this, of b f2 d2] f2
  have "ses_apply ?t (Arrived b) = s\<lparr>ses_decoder := d2, ses_receivers := attach s (f1 @ f2),
      ses_response := (if ses_pending s \<noteq> 0 \<and> ses_response s = None then find ?is (f1 @ f2) else ses_response s)\<rparr>"
    by (cases "ses_can s") (auto simp: ses_apply_def attach_def rx_run_append find_append split: option.splits)
  moreover have "ses_apply s (Arrived (a @ b)) = s\<lparr>ses_decoder := d2, ses_receivers := attach s (f1 @ f2),
      ses_response := (if ses_pending s \<noteq> 0 \<and> ses_response s = None then find ?is (f1 @ f2) else ses_response s)\<rparr>"
    using ses_receive_effect [OF assms f] by (simp add: ses_apply_def)
  ultimately show ?thesis by (simp only: t)
qed

theorem receive_any_chunking:
  assumes "session_reachable s"
  shows "(\<exists>t. ses_receive s bytes = Inr t) \<and> ses_run s (map Arrived chunks) = ses_apply s (Arrived (concat chunks))"
proof
  have inv: "ses_inv s" using session_reachable_inv [OF assms] by blast
  then show "\<exists>t. ses_receive s bytes = Inr t" by (rule ses_receive_total)
  show "ses_run s (map Arrived chunks) = ses_apply s (Arrived (concat chunks))"
    using ses_inv_minimum [OF inv]
  proof (induction chunks arbitrary: s)
    case Nil
    from ses_receive_effect [OF Nil, of "[]" "[]" "ses_decoder s"] show ?case
      by (cases "ses_can s") (simp_all add: wire.feed_nil ses_apply_def attach_def)
  next
    case (Cons c cs)
    have "minimum_ok (ses_apply s (Arrived c))"
      using Cons.prems minimum_ok_same [OF same_command_apply [OF Cons.prems]] by blast
    from Cons.IH [OF this] ses_apply_arrived_append [OF Cons.prems] show ?case by simp
  qed
qed

theorem receive_any_chunking_witness:
  "ses_run session_new [Arrived (take 7 sample_wire), Arrived (drop 7 sample_wire)] = ses_apply session_new (Arrived sample_wire)"
  using receive_any_chunking [OF opened, of "[]" "[take 7 sample_wire, drop 7 sample_wire]"] by simp

section \<open>How a receiver in use ends\<close>

text \<open>
  The attached receiver is stopped in three ways: the transport fails (\<open>failed\<close>), the device is closed (\<open>close\<close>), or
  the channel is retired (\<open>set_can_receiver\<close> with another receiver or none); each with its status and reason.
\<close>

datatype ending = Lost string | Closing | Retired "nat option"

definition apply_ending :: "ending \<Rightarrow> session \<Rightarrow> session" where
  "apply_ending e s = (case e of Lost reason \<Rightarrow> ses_failed s reason | Closing \<Rightarrow> close_begin s
     | Retired other \<Rightarrow> set_can_receiver s other)"

definition ending_status :: "ending \<Rightarrow> status" where
  "ending_status e = (case e of Retired _ \<Rightarrow> ERR_INVALID_CHANNEL_ID | _ \<Rightarrow> ERR_DEVICE_NOT_CONNECTED)"

definition ending_reason :: "ending \<Rightarrow> string" where
  "ending_reason e = (case e of Lost reason \<Rightarrow> reason | Closing \<Rightarrow> ''device closed''
     | Retired _ \<Rightarrow> ''CAN channel retired'')"

lemma ending_stops:
  assumes "session_reachable s" and "ses_can s = Some h" and "rx_stopped (ses_receivers s h) = STATUS_NOERROR"
  shows "ses_receivers (apply_ending e s) h = rx_stop (ses_receivers s h) (ending_status e) (ending_reason e)"
proof -
  have u: "ses_usable s" "\<not> ses_stopped s"
    using session_reachable_inv [OF assms(1)] assms(2,3)
    by (auto simp: ses_inv_def ses_base_def ses_usable_def rx_halted_def)
  have again: "rx_stop (rx_stop (ses_receivers s h) c m) c' m' = rx_stop (ses_receivers s h) c m"
    if "c \<noteq> STATUS_NOERROR" for c c' m m'
    using that assms(3) by (simp add: rx_stop_def Let_def)
  show ?thesis
    using u assms(2) by (cases e)
      (auto simp: apply_ending_def ending_status_def ending_reason_def ses_failed_def close_begin_def set_can_receiver_def
        halt_receiver_def ses_usable_def again Let_def split: option.splits)
qed

text \<open>
  C18. Nobody waits for ever on a lost, closed or retired channel: in every reachable session with a running receiver,
  take a timed read that found nothing and waits, and a timed write that waits for confirmations. Whichever way the
  receiver ends, and whatever other threads do to it before and after, both calls are woken and throw the status and
  reason of that end, the read keeping the messages it had; and so does every read begun later.
\<close>

theorem waiting_calls_released:
  assumes "session_reachable s" and "ses_can s = Some h" and "rx_stopped (ses_receivers s h) = STATUS_NOERROR"
    and "rx_inv r" and "ses_receivers s h = rx_run r before" and "\<not> rx_read_ready r" and "length out < n"
    and "rx_confirmed r call < target" and "0 < m"
  shows "let stop = Stop (ending_status e) (ending_reason e);
             why = Error (ending_status e) (ending_reason e);
             ended = ses_receivers (apply_ending e s) h;
             late = rx_run r (before @ stop # after)
         in ended = rx_run r (before @ [stop]) \<and>
            rx_read_loop r out n True ((before @ stop # after) # waits) = (out, Inl why, late) \<and>
            await_transmitted r call target (before @ stop # after) = (Inl why, late) \<and>
            rx_read ended m timed waits = ([], Inl why, ended)"
proof -
  let ?es = "before @ Stop (ending_status e) (ending_reason e) # after"
  have code: "ending_status e \<noteq> STATUS_NOERROR" by (cases e) (simp_all add: ending_status_def)
  have before: "rx_stopped (rx_run r before) = STATUS_NOERROR" using assms(3,5) by simp
  note stop = rx_stop_run [OF before code, of "ending_reason e"]
  have ended: "ses_receivers (apply_ending e s) h = rx_run r (before @ [Stop (ending_status e) (ending_reason e)])"
    using ending_stops [OF assms(1-3)] assms(5) by (simp add: rx_run_append rx_apply_def)
  have idle: "rx_stopped r = STATUS_NOERROR" "\<not> rx_overflow r" "\<not> rx_malformed r" "rx_drain r k = ([], r)" for k
    using assms(4,6) by (auto simp: rx_read_ready_def rx_inv_def rx_drain_def split: if_splits)
  have "rx_read_loop r out n True (?es # waits) = rx_read_loop (rx_run r ?es) out n True waits"
    using idle assms(7) stop [of after] code by (subst rx_read_loop.simps) (simp add: rx_read_ready_def)
  moreover have "await_transmitted r call target ?es =
      (Inl (Error (ending_status e) (ending_reason e)), rx_run r ?es)"
    using idle(1) assms(8) stop [of after] code by (simp add: await_transmitted_def await_ready_def Let_def)
  ultimately show ?thesis
    using ended stop [of after] stop [of "[]"] code assms(7,9) rx_read_loop_stopped [of "rx_run r ?es" out n True waits]
      rx_read_loop_stopped [of "rx_run r (before @ [Stop (ending_status e) (ending_reason e)])" "[]" m timed waits]
    by (simp add: rx_read_def Let_def)
qed

theorem waiting_calls_released_witness:
  "let es = [Loopback True, Stop ERR_DEVICE_NOT_CONNECTED ''unplugged'', Deliver []];
       why = Error ERR_DEVICE_NOT_CONNECTED ''unplugged''
   in fst (snd (rx_read_loop (rx_new CAN) [] 1 True [es])) = Inl why \<and>
      fst (await_transmitted (rx_new CAN) 7 1 es) = Inl why"
proof -
  define s where "s = ses_apply (set_can_receiver session_new (Some 0)) (On_receiver 0 (Loopback True))"
  have r: "session_reachable s" unfolding s_def by (intro session_reachable.intros)
  have d: "ses_can s = Some 0" "ses_receivers s 0 = rx_run (rx_new CAN) [Loopback True]"
    "rx_stopped (ses_receivers s 0) = STATUS_NOERROR"
    by (simp_all add: s_def ses_apply_def set_can_receiver_def halt_receiver_def session_new_def rx_apply_def
        set_loopback_def rx_new_def)
  have waits: "\<not> rx_read_ready (rx_new CAN)" "rx_confirmed (rx_new CAN) 7 < 1"
    by (simp_all add: rx_read_ready_def rx_new_def)
  from waiting_calls_released [OF r d(1,3) rx_inv_new d(2) waits(1) _ waits(2), of "[]" 1 1 "Lost ''unplugged''" "[Deliver []]" "[]"]
  show ?thesis by (simp add: Let_def ending_status_def ending_reason_def)
qed

end
