(* ===== verification/Effects.thy ===== *)
theory Effects
  imports Mongoose_Base
begin

text \<open>
  Stateful code that can throw, as functions from a state to a result and the state it leaves: the API functions
  of src/j2534.cpp are written in it, with \<open>exn\<close> for what they throw (\<open>eff\<close>). An exception keeps the changes made before it. \<open>triple\<close> states what a
  piece of code guarantees when it returns and when it throws; its rules, one per combinator, are collected in
  \<open>keeps_intros\<close>.
\<close>

type_synonym ('e, 's, 'a) action = "'s \<Rightarrow> ('e + 'a) \<times> 's"

type_synonym ('s, 'a) eff = "(exn, 's, 'a) action"

definition ret :: "'a \<Rightarrow> ('e, 's, 'a) action" where
  "ret x s = (Inr x, s)"

definition raise :: "'e \<Rightarrow> ('e, 's, 'a) action" where
  "raise e s = (Inl e, s)"

definition andthen :: "('e, 's, 'a) action \<Rightarrow> ('a \<Rightarrow> ('e, 's, 'b) action) \<Rightarrow> ('e, 's, 'b) action" where
  "andthen m f s = (case m s of (Inl e, s') \<Rightarrow> (Inl e, s') | (Inr x, s') \<Rightarrow> f x s')"

definition catch :: "('e, 's, 'a) action \<Rightarrow> ('e \<Rightarrow> ('e, 's, 'a) action) \<Rightarrow> ('e, 's, 'a) action" where
  "catch m h s = (case m s of (Inl e, s') \<Rightarrow> h e s' | (Inr x, s') \<Rightarrow> (Inr x, s'))"

text \<open>\<open>attempt\<close> is \<open>try { ... } catch (...) { e = std::current_exception(); }\<close>.\<close>

definition attempt :: "('e, 's, 'a) action \<Rightarrow> ('e, 's, 'e + 'a) action" where
  "attempt m s = (case m s of (r, s') \<Rightarrow> (Inr r, s'))"

definition lift :: "'e + 'a \<Rightarrow> ('e, 's, 'a) action" where
  "lift r s = (r, s)"

definition asks :: "('s \<Rightarrow> 'a) \<Rightarrow> ('e, 's, 'a) action" where
  "asks f s = (Inr (f s), s)"

definition modify :: "('s \<Rightarrow> 's) \<Rightarrow> ('e, 's, unit) action" where
  "modify f s = (Inr (), f s)"

definition throw_if :: "bool \<Rightarrow> 'e \<Rightarrow> ('e, 's, unit) action" where
  "throw_if b e = (if b then raise e else ret ())"

definition only_if :: "bool \<Rightarrow> ('e, 's, unit) action \<Rightarrow> ('e, 's, unit) action" where
  "only_if b m = (if b then m else ret ())"

lemma eff_apply [effect_simps]:
  "ret x s = (Inr x, s)" "raise e s = (Inl e, s)" "lift r s = (r, s)"
  "asks f s = (Inr (f s), s)" "modify g s = (Inr (), g s)"
  by (simp_all add: ret_def raise_def lift_def asks_def modify_def)

lemma andthen_apply [effect_simps]:
  "m s = (Inl e, s') \<Longrightarrow> andthen m f s = (Inl e, s')"
  "m s = (Inr x, s') \<Longrightarrow> andthen m f s = f x s'"
  by (simp_all add: andthen_def)

lemma throw_if_apply [effect_simps]:
  "throw_if b e s = (if b then Inl e else Inr (), s)"
  by (simp add: throw_if_def effect_simps)

lemma only_if_apply [effect_simps]:
  "only_if b m s = (if b then m s else (Inr (), s))"
  by (simp add: only_if_def effect_simps)

lemma throw_if_then [effect_simps]:
  "andthen (throw_if b e) f s = (if b then (Inl e, s) else f () s)"
  by (simp add: andthen_def effect_simps)

lemma asks_then [effect_simps]: "andthen (asks g) f s = f (g s) s"
  by (simp add: andthen_def effect_simps)

lemma modify_then [effect_simps]: "andthen (modify g) f s = f () (g s)"
  by (simp add: andthen_def effect_simps)

lemma lift_then [effect_simps]: "andthen (lift r) f s = (case r of Inl e \<Rightarrow> (Inl e, s) | Inr x \<Rightarrow> f x s)"
  by (simp add: andthen_def effect_simps split: sum.splits)

lemma andthen_assoc: "andthen (andthen m f) g = andthen m (\<lambda>x. andthen (f x) g)"
  by (rule ext) (simp add: andthen_def split: prod.splits sum.splits)

section \<open>What code guarantees\<close>

definition triple ::
    "('s \<Rightarrow> bool) \<Rightarrow> ('e, 's, 'a) action \<Rightarrow> ('a \<Rightarrow> 's \<Rightarrow> bool) \<Rightarrow> ('e \<Rightarrow> 's \<Rightarrow> bool) \<Rightarrow> bool" where
  "triple P m Q E \<longleftrightarrow> (\<forall>s. P s \<longrightarrow> (case m s of (Inl e, s') \<Rightarrow> E e s' | (Inr x, s') \<Rightarrow> Q x s'))"

lemma tripleI: "(\<And>s. P s \<Longrightarrow> case m s of (Inl e, s') \<Rightarrow> E e s' | (Inr x, s') \<Rightarrow> Q x s') \<Longrightarrow> triple P m Q E"
  by (simp add: triple_def)

lemma tripleD:
  assumes "triple P m Q E" and "P s"
  shows "m s = (Inr x, s') \<Longrightarrow> Q x s'" and "m s = (Inl e, s') \<Longrightarrow> E e s'"
  using assms by (auto simp: triple_def dest: spec [of _ s])

lemma triple_snd:
  assumes "triple P m (\<lambda>_. Q) (\<lambda>_. Q)" and "P s"
  shows "Q (snd (m s))"
  using assms by (cases "m s") (auto simp: triple_def split: sum.splits dest: spec [of _ s])

lemma triple_weaken:
  assumes "triple P m Q E" and "\<And>s. P' s \<Longrightarrow> P s" and "\<And>x s. Q x s \<Longrightarrow> Q' x s" and "\<And>e s. E e s \<Longrightarrow> E' e s"
  shows "triple P' m Q' E'"
  using assms by (fastforce simp: triple_def split: prod.splits sum.splits)

lemma triple_ret [keeps_intros]: "(\<And>s. P s \<Longrightarrow> Q x s) \<Longrightarrow> triple P (ret x) Q E"
  by (simp add: triple_def ret_def)

lemma triple_raise [keeps_intros]: "(\<And>s. P s \<Longrightarrow> E e s) \<Longrightarrow> triple P (raise e) Q E"
  by (simp add: triple_def raise_def)

lemma triple_andthen [keeps_intros]:
  assumes "triple P m R E" and "\<And>x. triple (R x) (f x) Q E"
  shows "triple P (andthen m f) Q E"
  using assms by (fastforce simp: triple_def andthen_def split: prod.splits sum.splits)

lemma triple_catch [keeps_intros]:
  assumes "triple P m Q R" and "\<And>e. triple (R e) (h e) Q E"
  shows "triple P (catch m h) Q E"
  using assms by (fastforce simp: triple_def catch_def split: prod.splits sum.splits)

lemma triple_attempt [keeps_intros]:
  assumes "triple P m (\<lambda>x. Q (Inr x)) (\<lambda>e. Q (Inl e))"
  shows "triple P (attempt m) Q E"
proof (rule tripleI)
  fix s assume p: "P s"
  obtain r s' where m: "m s = (r, s')" by fastforce
  then have "Q r s'" using tripleD [OF assms p] by (cases r) auto
  then show "case attempt m s of (Inl e, s') \<Rightarrow> E e s' | (Inr x, s') \<Rightarrow> Q x s'"
    by (simp add: attempt_def m)
qed

lemma triple_lift [keeps_intros]:
  assumes "\<And>x s. P s \<Longrightarrow> r = Inr x \<Longrightarrow> Q x s" and "\<And>e s. P s \<Longrightarrow> r = Inl e \<Longrightarrow> E e s"
  shows "triple P (lift r) Q E"
  using assms by (auto simp: triple_def lift_def split: sum.splits)

lemma triple_asks [keeps_intros]: "(\<And>s. P s \<Longrightarrow> Q (f s) s) \<Longrightarrow> triple P (asks f) Q E"
  by (simp add: triple_def asks_def)

lemma triple_modify [keeps_intros]: "(\<And>s. P s \<Longrightarrow> Q () (f s)) \<Longrightarrow> triple P (modify f) Q E"
  by (simp add: triple_def modify_def)

lemma triple_throw_if [keeps_intros]:
  assumes "\<And>s. P s \<Longrightarrow> b \<Longrightarrow> E e s" and "\<And>s. P s \<Longrightarrow> \<not> b \<Longrightarrow> Q () s"
  shows "triple P (throw_if b e) Q E"
  using assms by (simp add: triple_def throw_if_apply)

lemma triple_only_if [keeps_intros]:
  assumes "b \<Longrightarrow> triple P m Q E" and "\<And>s. P s \<Longrightarrow> \<not> b \<Longrightarrow> Q () s"
  shows "triple P (only_if b m) Q E"
  using assms by (simp add: triple_def only_if_apply)

lemma triple_if [keeps_intros]:
  assumes "b \<Longrightarrow> triple P m Q E" and "\<not> b \<Longrightarrow> triple P n Q E"
  shows "triple P (if b then m else n) Q E"
  using assms by simp

text \<open>What code keeps, whether it returns or throws.\<close>

abbreviation keeps :: "('s \<Rightarrow> bool) \<Rightarrow> ('e, 's, 'a) action \<Rightarrow> bool" where
  "keeps P m \<equiv> triple P m (\<lambda>_. P) (\<lambda>_. P)"

lemma keeps_andthen: "keeps P m \<Longrightarrow> (\<And>x. keeps P (f x)) \<Longrightarrow> keeps P (andthen m f)"
  by (rule triple_andthen)

lemma keeps_basic: "keeps P (ret x)" "keeps P (raise e)" "keeps P (lift r)" "keeps P (asks f)" "keeps P (throw_if b e)"
  by (auto intro: keeps_intros)

lemma keeps_only_if: "(b \<Longrightarrow> keeps P m) \<Longrightarrow> keeps P (only_if b m)"
  by (rule triple_only_if) simp_all

lemma keeps_modify: "(\<And>d. P d \<Longrightarrow> P (f d)) \<Longrightarrow> keeps P (modify f)"
  by (rule triple_modify)

lemma triple_change:
  assumes "\<And>d r d'. P d \<Longrightarrow> m d = (r, d') \<Longrightarrow> case r of Inl e \<Rightarrow> E e d' | Inr x \<Rightarrow> Q x d'"
  shows "triple P m Q E"
  using assms by (auto simp: triple_def split: prod.split)

end
