(* ===== verification/Device.thy ===== *)
theory Device
  imports Effects Session Config "HOL-Library.AList"
begin

text \<open>
  The state of src/j2534.cpp and its helper functions: the device and channel registries, the \<open>Device\<close> objects,
  handles, the last error, and the commands a device sends.

  A \<open>Device\<close> is shared by the two registries, so devices live in a store and the registries map IDs to places in
  it. Registries and the per-channel maps (\<open>std::map\<close>) are association lists with distinct keys. Every API call
  holds the lifecycle lock of its device, so calls are modelled as atomic, except for what the reader thread and
  other readers do to the session during a command; those steps, and the outcome of every command, come from
  \<open>w_env\<close>, one \<open>cmd_env\<close> for each command still to be issued. A call that runs out of them finds every further
  command slot taken.
\<close>

section \<open>Definitions\<close>

record filter_entry =
  fl_handle :: u32
  fl_table :: u8

record device =
  dev_session :: session
  dev_closed :: bool
  dev_reopen_required :: bool
  dev_wire_open :: bool
  dev_untracked :: bool
  dev_channel :: u32
  dev_channel_flags :: u32
  dev_protocol :: u16
  dev_receiver :: "nat option"
  dev_filters :: "(u32 \<times> filter_entry) list"
  dev_periodics :: "(u32 \<times> u32) list"

definition device_new :: "session \<Rightarrow> device" where
  "device_new s =
     \<lparr>dev_session = s, dev_closed = False, dev_reopen_required = False, dev_wire_open = False, dev_untracked = False,
      dev_channel = 0, dev_channel_flags = 0, dev_protocol = CAN, dev_receiver = None, dev_filters = [],
      dev_periodics = []\<rparr>"

text \<open>
  \<open>w_fresh\<close>, \<open>w_objects\<close> and \<open>w_calls\<close> number the objects created with \<open>make_shared\<close>: devices, receivers
  and the counters of write calls.
\<close>

record world =
  w_devices :: "(u32 \<times> nat) list"
  w_channels :: "(u32 \<times> nat) list"
  w_store :: "nat \<Rightarrow> device"
  w_fresh :: nat
  w_objects :: nat
  w_calls :: nat
  w_next_handle :: nat
  w_last_error :: string
  w_env :: "cmd_env list"

definition world_init :: "cmd_env list \<Rightarrow> world" where
  "world_init env =
     \<lparr>w_devices = [], w_channels = [], w_store = (\<lambda>_. device_new session_new), w_fresh = 0, w_objects = 0, w_calls = 0,
      w_next_handle = 1, w_last_error = [], w_env = env\<rparr>"

type_synonym 'a api = "(world, 'a) eff"

definition update_device :: "nat \<Rightarrow> (device \<Rightarrow> device) \<Rightarrow> unit api" where
  "update_device k f = modify (\<lambda>w. w\<lparr>w_store := (w_store w)(k := f (w_store w k))\<rparr>)"

definition the_device :: "nat \<Rightarrow> device api" where
  "the_device k = asks (\<lambda>w. w_store w k)"

definition allocate_handle :: "u32 api" where
  "allocate_handle w =
     (if w_next_handle w > 4294967295 then raise (Error ERR_EXCEEDED_LIMIT ''handle IDs exhausted'') w
      else (Inr (of_nat (w_next_handle w)), w\<lparr>w_next_handle := w_next_handle w + 1\<rparr>))"

text \<open>
  \<open>guarded\<close>: the status, what the out parameters hold (\<open>out0\<close> if the body threw before it set them, as every
  function clears them first), and the state with the error text, cut to the 80 bytes of \<open>last_error\<close>.
\<close>

definition guarded :: "'a \<Rightarrow> ((exn + unit) \<times> 'a) api \<Rightarrow> world \<Rightarrow> status \<times> 'a \<times> world" where
  "guarded out0 operation w =
     (case operation (w\<lparr>w_last_error := []\<rparr>) of
        (Inr (Inr _, out), w') \<Rightarrow> (STATUS_NOERROR, out, w')
      | (Inr (Inl e, out), w') \<Rightarrow> (exn_status e, out, w'\<lparr>w_last_error := take 79 (exn_what e)\<rparr>)
      | (Inl e, w') \<Rightarrow> (exn_status e, out0, w'\<lparr>w_last_error := take 79 (exn_what e)\<rparr>))"

definition returns :: "'a \<Rightarrow> ((exn + unit) \<times> 'a) api" where
  "returns out = ret (Inr (), out)"

definition required :: "bool \<Rightarrow> unit api" where
  "required given = throw_if (\<not> given) (Error ERR_NULL_PARAMETER ''required pointer is null'')"

text \<open>\<open>LockedDevice\<close>, \<open>lookup\<close>, \<open>device\<close> and \<open>session()\<close>.\<close>

definition locked_device :: "nat \<Rightarrow> u32 \<Rightarrow> nat api" where
  "locked_device k channel_id =
     andthen (the_device k) (\<lambda>d.
     andthen (throw_if (dev_closed d \<or> channel_id \<noteq> 0 \<and> dev_channel d \<noteq> channel_id)
       (Error (if channel_id \<noteq> 0 then ERR_INVALID_CHANNEL_ID else ERR_INVALID_DEVICE_ID) ''invalid or closed handle'')) (\<lambda>_.
     ret k))"

definition lookup :: "u32 \<Rightarrow> bool \<Rightarrow> nat api" where
  "lookup handle channel =
     andthen (asks (\<lambda>w. map_of (if channel then w_channels w else w_devices w) handle)) (\<lambda>found.
       case found of
         None \<Rightarrow> raise (if channel then Error ERR_INVALID_CHANNEL_ID ''invalid channel ID''
                        else Error ERR_INVALID_DEVICE_ID ''invalid device ID'')
       | Some k \<Rightarrow> locked_device k (if channel then handle else 0))"

definition use_session :: "nat \<Rightarrow> unit api" where
  "use_session k =
     andthen (the_device k) (\<lambda>d.
       throw_if (dev_reopen_required d)
         (Error ERR_DEVICE_NOT_CONNECTED ''channel state uncertain; close and reopen device''))"

definition unsupported :: "string \<Rightarrow> 'a api" where
  "unsupported operation = raise (Error ERR_NOT_SUPPORTED (operation @ '': awaiting protocol/hardware validation''))"

text \<open>The environment of the next command; without one, its slot is never free.\<close>

definition env_blocked :: cmd_env where
  "env_blocked =
     \<lparr>env_start = 0, env_slot = False, env_queued = [], env_now = 0, env_known = [], env_unsent = [], env_left = 0,
      env_send = (\<lambda>_ _. (Inr (), [])), env_wait = []\<rparr>"

definition next_env :: "world \<Rightarrow> cmd_env" where
  "next_env w = (case w_env w of [] \<Rightarrow> env_blocked | e # _ \<Rightarrow> e)"

definition session_command ::
    "nat \<Rightarrow> u16 \<Rightarrow> bytes \<Rightarrow> int \<Rightarrow> u16 \<Rightarrow> u16 \<Rightarrow> seq_callback option \<Rightarrow> bytes api" where
  "session_command k opcode payload timeout destination chan known w =
     (let d = w_store w k;
          (r, s) = ses_command (next_env w) opcode payload timeout destination chan known (dev_session d)
      in (r, w\<lparr>w_store := (w_store w)(k := d\<lparr>dev_session := s\<rparr>), w_env := tl (w_env w)\<rparr>))"

text \<open>\<open>session->command(opcode)\<close> with its default arguments.\<close>

definition board_command :: "nat \<Rightarrow> u16 \<Rightarrow> bytes \<Rightarrow> bytes api" where
  "board_command k opcode payload = session_command k opcode payload 10000 board_node 0 None"

definition install_receiver :: "nat \<Rightarrow> nat option \<Rightarrow> unit api" where
  "install_receiver k receiver =
     update_device k (\<lambda>d. d\<lparr>dev_session := set_can_receiver (dev_session d) receiver\<rparr>)"

definition on_receiver :: "nat \<Rightarrow> nat \<Rightarrow> (can_receiver \<Rightarrow> can_receiver) \<Rightarrow> unit api" where
  "on_receiver k h f =
     update_device k (\<lambda>d. let s = dev_session d in
       d\<lparr>dev_session := s\<lparr>ses_receivers := (ses_receivers s)(h := f (ses_receivers s h))\<rparr>\<rparr>)"

definition retire_channel :: "nat \<Rightarrow> bool api" where
  "retire_channel k =
     andthen (the_device k) (\<lambda>owner.
     andthen (install_receiver k None) (\<lambda>_.
     andthen (update_device k (\<lambda>d. d\<lparr>dev_receiver := None, dev_filters := [], dev_periodics := []\<rparr>)) (\<lambda>_.
     andthen (modify (\<lambda>w. w\<lparr>w_channels := AList.delete (dev_channel owner) (w_channels w)\<rparr>)) (\<lambda>_.
     andthen (update_device k (\<lambda>d. d\<lparr>dev_channel := 0\<rparr>)) (\<lambda>_.
     ret (dev_untracked owner \<or> dev_periodics owner \<noteq> []))))))"

definition uncertain_channel :: "nat \<Rightarrow> unit api" where
  "uncertain_channel k =
     andthen (update_device k (\<lambda>d. d\<lparr>dev_reopen_required := True\<rparr>)) (\<lambda>_.
     andthen (the_device k) (\<lambda>d.
       case dev_receiver d of
         None \<Rightarrow> ret ()
       | Some h \<Rightarrow> on_receiver k h (\<lambda>r. rx_stop r ERR_DEVICE_NOT_CONNECTED ''channel state uncertain; reopen device'')))"

definition channel_command :: "nat \<Rightarrow> u16 \<Rightarrow> bytes \<Rightarrow> int \<Rightarrow> u16 \<Rightarrow> seq_callback option \<Rightarrow> bytes api" where
  "channel_command k opcode payload timeout chan known =
     andthen (the_device k) (\<lambda>owner.
       catch (session_command k opcode payload timeout (channel_node (dev_protocol owner) board_node) chan known) (\<lambda>e.
         andthen (the_device k) (\<lambda>d.
         andthen (only_if (\<not> ses_usable (dev_session d)) (uncertain_channel k)) (\<lambda>_.
         raise e))))"

text \<open>\<open>channel_command\<close> with its default arguments.\<close>

definition plain_command :: "nat \<Rightarrow> u16 \<Rightarrow> bytes \<Rightarrow> bytes api" where
  "plain_command k opcode payload = channel_command k opcode payload 10000 0 None"

datatype allow = Allow_none | Already_started | Queued

definition hex8 :: "u32 \<Rightarrow> string" where
  "hex8 v = hex [ucast (drop_bit 24 v), ucast (drop_bit 16 v), ucast (drop_bit 8 v), ucast v]"

definition accepted :: "bytes \<Rightarrow> allow \<Rightarrow> exn + unit" where
  "accepted response allowed =
     ebind (session_status response) (\<lambda>status.
       if status = 0 then Inr ()
       else if allowed = Already_started \<and> status = 7 then Inr ()
       else if allowed = Queued \<and> status = 0x100 then Inr ()
       else if status = 0x20a
       then Inl (Error ERR_FAILED ''adapter reports missing vehicle-connector voltage (0x020a)'')
       else Inl (Error ERR_FAILED (''adapter status 0x'' @ hex8 status @ '' (mapping not yet validated)'')))"

definition accept_response :: "bytes api \<Rightarrow> allow \<Rightarrow> unit api" where
  "accept_response m allowed = andthen m (\<lambda>response. lift (accepted response allowed))"

definition clear_periodic_table :: "nat \<Rightarrow> unit api" where
  "clear_periodic_table k =
     andthen (accept_response (plain_command k 0x10 [table_periodic, 0, 0, 0]) Allow_none) (\<lambda>_.
     update_device k (\<lambda>d. d\<lparr>dev_periodics := [], dev_untracked := False\<rparr>))"

text \<open>Clock arithmetic: nanoseconds, \<open>time_point::max()\<close> is $2^{63}-1$.\<close>

definition time_max :: int where
  "time_max = 9223372036854775807"

definition deadline_after :: "int \<Rightarrow> u32 \<Rightarrow> int" where
  "deadline_after now timeout_ms =
     (let available = (time_max - now) div 1000000; duration = int (unat timeout_ms)
      in if duration \<ge> available then time_max else now + duration * 1000000)"

definition acknowledgement_budget :: "u32 \<Rightarrow> int \<Rightarrow> int" where
  "acknowledgement_budget timeout_ms remaining =
     (if timeout_ms = 0 then 1000 else max 1000 (min 10000 (remaining div 1000000)))"

fun encode_write_batch :: "u16 \<Rightarrow> passthru_msg list \<Rightarrow> u32 \<Rightarrow> exn + bytes list" where
  "encode_write_batch protocol [] timeout_ms = Inr []"
| "encode_write_batch protocol (m # ms) timeout_ms =
     ebind (if protocol = ISO15765 then isotp_transmit m timeout_ms else can_transmit m timeout_ms) (\<lambda>p.
     ebind (encode_write_batch protocol ms timeout_ms) (\<lambda>ps. Inr (p # ps)))"

definition value_response :: "bytes \<Rightarrow> u32 \<Rightarrow> exn + u32" where
  "value_response response selector =
     (if length response < 28 then Inl (Error ERR_FAILED ''invalid get-value response'')
      else ebind (le32 response 20) (\<lambda>echo.
        if echo \<noteq> selector then Inl (Error ERR_FAILED ''invalid get-value response'')
        else le32 response 24))"

definition get_value :: "nat \<Rightarrow> u8 \<Rightarrow> u32 api" where
  "get_value k selector =
     andthen (board_command k 0xc [selector, 0, 0, 0]) (\<lambda>response.
     andthen (lift (accepted response Allow_none)) (\<lambda>_.
     lift (value_response response (ucast selector))))"

section \<open>What commands leave alone\<close>

text \<open>
  \<open>same_tables\<close>: two states of a device that differ at most in its session and in \<open>reopen_required\<close>, which is
  never taken back. \<open>stable k w w'\<close>: only device \<open>k\<close> may differ, and that way; the environment script and the error
  text may differ too.
\<close>

definition same_tables :: "device \<Rightarrow> device \<Rightarrow> bool" where
  "same_tables d d' \<longleftrightarrow>
     dev_closed d' = dev_closed d \<and> dev_wire_open d' = dev_wire_open d \<and> dev_untracked d' = dev_untracked d \<and>
     dev_channel d' = dev_channel d \<and> dev_channel_flags d' = dev_channel_flags d \<and> dev_protocol d' = dev_protocol d \<and>
     dev_receiver d' = dev_receiver d \<and> dev_filters d' = dev_filters d \<and> dev_periodics d' = dev_periodics d \<and>
     (dev_reopen_required d \<longrightarrow> dev_reopen_required d')"

definition stable :: "nat \<Rightarrow> world \<Rightarrow> world \<Rightarrow> bool" where
  "stable k w w' \<longleftrightarrow>
     w_devices w' = w_devices w \<and> w_channels w' = w_channels w \<and> w_fresh w' = w_fresh w \<and> w_objects w' = w_objects w \<and>
     w_next_handle w' = w_next_handle w \<and> (\<forall>j. j \<noteq> k \<longrightarrow> w_store w' j = w_store w j) \<and>
     same_tables (w_store w k) (w_store w' k)"

lemma stable_refl: "stable k w w"
  by (simp add: stable_def same_tables_def)

lemma stable_trans: "stable k u v \<Longrightarrow> stable k v w \<Longrightarrow> stable k u w"
  by (simp add: stable_def same_tables_def)

lemma stable_tables: "stable k w w' \<Longrightarrow> same_tables (w_store w j) (w_store w' j)"
  by (cases "j = k") (simp_all add: stable_def same_tables_def)

text \<open>
  \<open>session_ok\<close>: the session is as it is after any call, the receiver attached to it is the channel's and has its
  protocol, and a channel in an uncertain state has a halted receiver.
\<close>

definition session_ok :: "device \<Rightarrow> bool" where
  "session_ok d \<longleftrightarrow>
     ses_inv (dev_session d) \<and> ses_quiet (dev_session d) \<and> ses_can (dev_session d) = dev_receiver d \<and>
     (\<forall>h. dev_receiver d = Some h \<longrightarrow> rx_protocol (ses_receivers (dev_session d) h) = dev_protocol d) \<and>
     (dev_reopen_required d \<longrightarrow> (\<forall>h. dev_receiver d = Some h \<longrightarrow> rx_halted (ses_receivers (dev_session d) h)))"

definition inside :: "nat \<Rightarrow> world \<Rightarrow> world \<Rightarrow> bool" where
  "inside k w0 w \<longleftrightarrow> stable k w0 w \<and> session_ok (w_store w k)"

lemma inside_refl: "session_ok (w_store w k) \<Longrightarrow> inside k w w"
  by (simp add: inside_def stable_refl)

lemma inside_trans: "inside k u v \<Longrightarrow> inside k v w \<Longrightarrow> inside k u w"
  unfolding inside_def using stable_trans by blast

text \<open>Receivers keep their protocol and stay halted through a command.\<close>

lemma halted_halt_receiver:
  "rx_halted (ses_receivers s h) \<Longrightarrow> rx_halted (ses_receivers (halt_receiver s c m) h)"
  by (auto simp: halt_receiver_def sink.halt_halted split: option.splits)

lemma rx_stop_protocol [simp]: "rx_protocol (rx_stop r c m) = rx_protocol r"
  by (simp add: rx_stop_def Let_def)

lemma protocol_halt_receiver [simp]:
  "rx_protocol (ses_receivers (halt_receiver s c m) h) = rx_protocol (ses_receivers s h)"
  by (simp add: halt_receiver_def rx_stop_def Let_def split: option.splits)

definition keeps_receivers :: "session \<Rightarrow> session \<Rightarrow> bool" where
  "keeps_receivers s t \<longleftrightarrow> ses_can t = ses_can s \<and> (\<forall>h. (rx_halted (ses_receivers s h) \<longrightarrow> rx_halted (ses_receivers t h)) \<and>
     rx_protocol (ses_receivers t h) = rx_protocol (ses_receivers s h))"

lemma keeps_receivers_refl: "keeps_receivers s s"
  by (simp add: keeps_receivers_def)

lemma keeps_receivers_trans: "keeps_receivers s t \<Longrightarrow> keeps_receivers t u \<Longrightarrow> keeps_receivers s u"
  by (simp add: keeps_receivers_def)

lemma keeps_receivers_apply:
  assumes "minimum_ok s" shows "keeps_receivers s (ses_apply s e)"
proof (cases e)
  case (Arrived bytes)
  obtain bodies d where "decoder_feed (ses_decoder s) bytes = Inr (bodies, d)"
    using decoder_feed_total by blast
  from ses_receive_effect [OF assms this] Arrived show ?thesis
    by (auto simp: ses_apply_def keeps_receivers_def rx_halted_run attach_def split: option.splits)
next
  case (On_receiver h ev)
  then show ?thesis by (simp add: ses_apply_def keeps_receivers_def rx_halted_apply)
qed (auto simp: ses_apply_def ses_failed_def close_begin_def Let_def keeps_receivers_def intro!: halted_halt_receiver)

lemma keeps_receivers_run: "minimum_ok s \<Longrightarrow> keeps_receivers s (ses_run s es)"
proof (induction es arbitrary: s)
  case (Cons e es)
  have "minimum_ok (ses_apply s e)" using minimum_ok_same [OF same_command_apply [OF Cons.prems]] Cons.prems by blast
  from keeps_receivers_trans [OF keeps_receivers_apply [OF Cons.prems] Cons.IH [OF this]] show ?case by simp
qed (simp add: keeps_receivers_refl)

definition callback_receivers :: "seq_callback option \<Rightarrow> bool" where
  "callback_receivers known \<longleftrightarrow> (\<forall>f q s. known = Some f \<longrightarrow> keeps_receivers s (snd (f q s)))"

lemma keeps_receivers_command:
  assumes "ses_inv s" and "ses_quiet s" and "callback_ok known" and "callback_receivers known"
  shows "keeps_receivers s (snd (ses_command env opcode payload timeout destination chan known s))"
proof -
  let ?q = "ses_run s (env_queued env)"
  have q: "ses_inv ?q" "ses_quiet ?q" "keeps_receivers s ?q"
    using ses_run_keeps [OF assms(1), of "env_queued env"] ses_quiet_same [OF assms(2)] keeps_receivers_run ses_inv_minimum assms(1) by blast+
  obtain b u where b: "cmd_begin ?q (env_now env) opcode payload destination chan = (b, u)" by fastforce
  have ui: "ses_inv u" using cmd_begin_keeps [OF q(1,2) b] by blast
  have "ses_receivers u = ses_receivers ?q \<and> ses_can u = ses_can ?q"
    using b by (auto simp: cmd_begin_def Let_def case_prod_unfold split: if_splits sum.splits)
  then have u: "keeps_receivers s u" using q(3) by (simp add: keeps_receivers_def)
  obtain c v where c: "cmd_told env known u = (c, v)" by fastforce
  note vi = cmd_told_keeps(1) [OF ui assms(3) c]
  have "keeps_receivers u v"
  proof (cases known)
    case None
    then show ?thesis using c keeps_receivers_run [OF ses_inv_minimum [OF ui]] by (auto simp: cmd_told_def)
  next
    case (Some f)
    let ?x = "ses_run u (env_known env)"
    let ?y = "snd (f (ses_sequence u) ?x)"
    have x: "ses_inv ?x" using ui by (rule ses_inv_run)
    have "ses_inv ?y" using assms(3) Some x unfolding callback_ok_def by blast
    moreover have "keeps_receivers u ?x" using keeps_receivers_run [OF ses_inv_minimum [OF ui]] .
    moreover have "keeps_receivers ?x ?y" using assms(4) Some unfolding callback_receivers_def by blast
    moreover have "v = ses_run ?y (env_unsent env)"
      using c Some by (auto simp: cmd_told_def Let_def case_prod_unfold)
    ultimately show ?thesis using keeps_receivers_trans keeps_receivers_run ses_inv_minimum by metis
  qed
  then have v: "keeps_receivers s v" using u keeps_receivers_trans by blast
  have rel: "keeps_receivers s (cmd_release v n)" for n using v by (simp add: cmd_release_def keeps_receivers_def)
  have ex: "keeps_receivers s (snd (cmd_exchange env v wire n left))" for wire n left
  proof -
    obtain sent es where e: "env_send env wire (nat ((left + 999999) div 1000000)) = (sent, es)" by fastforce
    have a: "keeps_receivers s (ses_run v es)" "keeps_receivers s (ses_run (ses_run v es) (env_wait env))"
      using v keeps_receivers_run keeps_receivers_trans ses_inv_minimum ses_inv_run vi by metis+
    have "keeps_receivers t (cmd_send_failed t)" "keeps_receivers t (snd (cmd_finish t n))" for t
      by (auto simp: keeps_receivers_def cmd_send_failed_def cmd_finish_def Let_def intro!: halted_halt_receiver)
    then show ?thesis
      using a keeps_receivers_trans by (auto simp: cmd_exchange_def e Let_def split: sum.splits)
  qed
  show ?thesis
    using u rel ex q(3) b c by (auto simp: ses_command_cases keeps_receivers_refl split: sum.splits)
qed

section \<open>The helpers\<close>

lemma inside_session_command:
  assumes "callback_ok known" and "callback_receivers known"
  shows "triple (inside k w0) (session_command k opcode payload timeout destination chan known) (\<lambda>_. inside k w0) (\<lambda>_. inside k w0)"
proof (rule tripleI)
  fix w assume w: "inside k w0 w"
  let ?d = "w_store w k"
  obtain r s where c: "ses_command (next_env w) opcode payload timeout destination chan known (dev_session ?d) = (r, s)"
    by fastforce
  have d: "ses_inv (dev_session ?d)" "ses_quiet (dev_session ?d)" using w by (simp_all add: inside_def session_ok_def)
  have "keeps_receivers (dev_session ?d) s" using keeps_receivers_command [OF d assms, of "next_env w"] c by (metis snd_conv)
  then have "session_ok (?d\<lparr>dev_session := s\<rparr>)"
    using ses_command_keeps [OF d assms(1) c] w by (auto simp: session_ok_def inside_def keeps_receivers_def)
  moreover have "stable k w0 (w\<lparr>w_store := (w_store w)(k := ?d\<lparr>dev_session := s\<rparr>), w_env := tl (w_env w)\<rparr>)"
    using w by (simp add: inside_def stable_def same_tables_def)
  ultimately show "case session_command k opcode payload timeout destination chan known w of
      (Inl e, w') \<Rightarrow> inside k w0 w' | (Inr x, w') \<Rightarrow> inside k w0 w'"
    by (simp add: session_command_def c inside_def split: sum.splits)
qed

lemma inside_receiver_update:
  assumes w: "inside k w0 w" and r: "rx_inv r" and d: "d = w_store w k" and s: "s = dev_session d"
    and "rx_halted (ses_receivers s h) \<Longrightarrow> rx_halted r" and "rx_protocol r = rx_protocol (ses_receivers s h)"
  shows "inside k w0 (w\<lparr>w_store := (w_store w)(k := d\<lparr>dev_session := s\<lparr>ses_receivers := (ses_receivers s)(h := r)\<rparr>\<rparr>)\<rparr>)"
proof -
  let ?rs = "(ses_receivers s)(h := r)"
  have si: "ses_inv s" using w d s by (simp add: inside_def session_ok_def)
  have "\<forall>j. rx_inv (?rs j)" "\<forall>j. rx_halted (ses_receivers s j) \<longrightarrow> rx_halted (?rs j)"
    using ses_inv_base [OF si] assms(5) r by (simp_all add: ses_base_def)
  then have "ses_inv (s\<lparr>ses_receivers := ?rs\<rparr>)" by (intro ses_inv_receivers si)
  then show ?thesis
    using assms by (simp add: inside_def session_ok_def stable_def same_tables_def ses_quiet_def ses_usable_def)
qed

lemma inside_on_receiver:
  assumes "\<And>r. rx_inv r \<Longrightarrow> rx_inv (f r)" and "\<And>r. rx_halted r \<Longrightarrow> rx_halted (f r)"
    and "\<And>r. rx_protocol (f r) = rx_protocol r"
  shows "triple (inside k w0) (on_receiver k h f) (\<lambda>_. inside k w0) E"
proof -
  have "inside k w0 (w\<lparr>w_store := (w_store w)(k := (let d = w_store w k; s = dev_session d in
      d\<lparr>dev_session := s\<lparr>ses_receivers := (ses_receivers s)(h := f (ses_receivers s h))\<rparr>\<rparr>))\<rparr>)"
    if w: "inside k w0 w" for w
  proof -
    have "rx_inv (ses_receivers (dev_session (w_store w k)) h)"
      using w by (simp add: inside_def session_ok_def ses_inv_def ses_base_def)
    then show ?thesis using inside_receiver_update [OF w] assms by (simp add: Let_def)
  qed
  then show ?thesis by (simp add: on_receiver_def update_device_def triple_modify Let_def)
qed

abbreviation calm :: "nat \<Rightarrow> world \<Rightarrow> 'a api \<Rightarrow> bool" where
  "calm k w0 m \<equiv> triple (inside k w0) m (\<lambda>_. inside k w0) (\<lambda>_. inside k w0)"

lemma calm_andthen: "calm k w0 m \<Longrightarrow> (\<And>x. calm k w0 (f x)) \<Longrightarrow> calm k w0 (andthen m f)"
  by (rule triple_andthen)

lemma calm_basic:
  "calm k w0 (ret x)" "calm k w0 (raise e)" "calm k w0 (lift r)" "calm k w0 (asks g)" "calm k w0 (throw_if b e)"
  "calm k w0 (the_device j)"
  by (simp_all add: the_device_def) (auto intro: keeps_intros)

lemma calm_only_if: "(b \<Longrightarrow> calm k w0 m) \<Longrightarrow> calm k w0 (only_if b m)"
  by (rule triple_only_if)

lemma calm_attempt: "calm k w0 m \<Longrightarrow> calm k w0 (attempt m)"
  by (rule triple_attempt)

lemma calm_catch: "calm k w0 m \<Longrightarrow> (\<And>e. calm k w0 (h e)) \<Longrightarrow> calm k w0 (catch m h)"
  by (rule triple_catch)

lemma calm_if: "(b \<Longrightarrow> calm k w0 m) \<Longrightarrow> (\<not> b \<Longrightarrow> calm k w0 n) \<Longrightarrow> calm k w0 (if b then m else n)"
  by simp

lemma calm_uncertain: "calm k w0 (uncertain_channel k)"
proof (rule tripleI)
  fix w assume w: "inside k w0 w"
  let ?d = "w_store w k"
  let ?s = "dev_session ?d"
  let ?stop = "\<lambda>r. rx_stop r ERR_DEVICE_NOT_CONNECTED ''channel state uncertain; reopen device''"
  show "case uncertain_channel k w of (Inl e, w') \<Rightarrow> inside k w0 w' | (Inr x, w') \<Rightarrow> inside k w0 w'"
  proof (cases "dev_receiver ?d")
    case None
    then show ?thesis using w
      by (simp add: uncertain_channel_def update_device_def the_device_def effect_simps inside_def session_ok_def
          stable_def same_tables_def)
  next
    case (Some h)
    let ?rs = "(ses_receivers ?s)(h := ?stop (ses_receivers ?s h))"
    have si: "ses_inv ?s" using w by (simp add: inside_def session_ok_def)
    have "\<forall>j. rx_inv (?rs j)" "\<forall>j. rx_halted (ses_receivers ?s j) \<longrightarrow> rx_halted (?rs j)"
      using ses_inv_base [OF si] by (simp_all add: ses_base_def rx_inv_stop sink.halt_halted)
    then have "ses_inv (?s\<lparr>ses_receivers := ?rs\<rparr>)" by (intro ses_inv_receivers si)
    moreover have "dev_receiver (w_store w0 k) = Some h" using w Some by (simp add: inside_def stable_def same_tables_def)
    ultimately show ?thesis using w Some
      by (simp add: uncertain_channel_def update_device_def the_device_def on_receiver_def effect_simps inside_def
          session_ok_def stable_def same_tables_def ses_quiet_def ses_usable_def Let_def sink.halt_halted)
  qed
qed

lemma calm_channel_command:
  assumes "callback_ok known" and "callback_receivers known"
  shows "calm k w0 (channel_command k opcode payload timeout chan known)"
  unfolding channel_command_def
  by (intro calm_andthen calm_catch calm_only_if calm_basic calm_uncertain inside_session_command assms)

lemma callback_none: "callback_ok None" "callback_receivers None"
  by (simp_all add: callback_ok_def callback_receivers_def)

lemma calm_plain_command: "calm k w0 (plain_command k opcode payload)"
  unfolding plain_command_def by (intro calm_channel_command callback_none)

lemma calm_board_command: "calm k w0 (board_command k opcode payload)"
  unfolding board_command_def by (intro inside_session_command callback_none)

lemma calm_accept_response: "calm k w0 m \<Longrightarrow> calm k w0 (accept_response m allowed)"
  unfolding accept_response_def by (intro calm_andthen calm_basic)

lemma calm_get_value: "calm k w0 (get_value k selector)"
  unfolding get_value_def by (intro calm_andthen calm_basic calm_board_command)

lemmas calm_rules = calm_andthen calm_catch calm_only_if calm_attempt calm_basic calm_uncertain calm_plain_command
  calm_board_command calm_accept_response calm_get_value

section \<open>Handles\<close>

lemma lookup_cases:
  assumes "lookup handle channel w = (r, w')"
  shows "w' = w \<and>
    (case r of
       Inl e \<Rightarrow> exn_status e = (if channel then ERR_INVALID_CHANNEL_ID else ERR_INVALID_DEVICE_ID)
         \<or> channel \<and> handle = 0 \<and> exn_status e = ERR_INVALID_DEVICE_ID
     | Inr k \<Rightarrow> map_of (if channel then w_channels w else w_devices w) handle = Some k \<and> \<not> dev_closed (w_store w k) \<and>
         (channel \<and> handle \<noteq> 0 \<longrightarrow> dev_channel (w_store w k) = handle))"
  using assms
  by (auto simp: lookup_def locked_device_def the_device_def effect_simps split: option.splits if_splits)

end
