(* ===== verification/Api.thy ===== *)
theory Api
  imports Device Selector
begin

text \<open>
  The exported functions of src/j2534.cpp, each whole: argument checks in the code's order, the commands sent, the
  changes to the device and the registries, and what is undone on the way out of an exception.

  A pointer argument is a flag (was it given) or an option; what an out parameter holds afterwards is returned with
  the status. What comes from outside is an argument: the outcome of opening the transport for a selector, of
  stopping it, the clock, what other threads do while a read or a timed write waits, and, as \<open>memory\<close>, whether
  \<open>std::map::emplace\<close> finds the memory for a new entry.
\<close>

section \<open>Definitions\<close>

definition map_emplace :: "'k \<Rightarrow> 'v \<Rightarrow> ('k \<times> 'v) list \<Rightarrow> ('k \<times> 'v) list" where
  "map_emplace k v m = (case map_of m k of None \<Rightarrow> m @ [(k, v)] | Some _ \<Rightarrow> m)"

subsection \<open>Devices\<close>

definition create_device :: "nat api" where
  "create_device w =
     (Inr (w_fresh w), w\<lparr>w_fresh := w_fresh w + 1, w_store := (w_store w)(w_fresh w := device_new session_new)\<rparr>)"

definition open_selector :: "string option \<Rightarrow> exn + selector" where
  "open_selector name =
     (case name of
        None \<Rightarrow> Inr selector_default
      | Some text \<Rightarrow>
          if length text \<ge> 256 then Inl (Error ERR_FAILED ''Open name is not NUL-terminated'')
          else parse_selector text)"

definition PassThruOpen ::
    "exn + unit \<Rightarrow> (selector \<Rightarrow> exn + unit) \<Rightarrow> string option \<Rightarrow> bool \<Rightarrow> world \<Rightarrow> status \<times> u32 \<times> world" where
  "PassThruOpen memory open_transport name id_given = guarded 0 (
     andthen (required id_given) (\<lambda>_.
     andthen (lift (open_selector name)) (\<lambda>selector.
     andthen (lift (session_open True (open_transport selector))) (\<lambda>_.
     andthen create_device (\<lambda>k.
     andthen (accept_response (board_command k 0x103 []) Already_started) (\<lambda>_.
     andthen (accept_response (board_command k 3 []) Allow_none) (\<lambda>_.
     catch
       (andthen (accept_response (board_command k 0x109 []) Allow_none) (\<lambda>_.
        andthen allocate_handle (\<lambda>allocated.
        andthen (lift memory) (\<lambda>_.
        andthen (modify (\<lambda>w. w\<lparr>w_devices := map_emplace allocated k (w_devices w)\<rparr>)) (\<lambda>_.
        returns allocated)))))
       (\<lambda>e. andthen (attempt (board_command k 5 [])) (\<lambda>_. raise e)))))))))"

definition close_session :: "nat \<Rightarrow> ses_event list \<Rightarrow> exn + unit \<Rightarrow> unit api" where
  "close_session k es transport_stop w =
     (let d = w_store w k; (r, s) = ses_close (dev_session d) es transport_stop
      in (r, w\<lparr>w_store := (w_store w)(k := d\<lparr>dev_session := s\<rparr>)\<rparr>))"

definition close_wire_channel :: "nat \<Rightarrow> unit api" where
  "close_wire_channel k =
     andthen (accept_response (plain_command k 7 []) Allow_none) (\<lambda>_.
     update_device k (\<lambda>d. d\<lparr>dev_wire_open := False\<rparr>))"

text \<open>\<open>if (!error) error = ...\<close> and \<open>error = ...\<close> on what an attempt returned.\<close>

definition keep_error :: "exn option \<Rightarrow> exn + unit \<Rightarrow> exn option" where
  "keep_error err r = (case err of Some e \<Rightarrow> Some e | None \<Rightarrow> (case r of Inl e \<Rightarrow> Some e | Inr _ \<Rightarrow> None))"

definition last_failure :: "exn option \<Rightarrow> exn + unit \<Rightarrow> exn option" where
  "last_failure err r = (case r of Inl e \<Rightarrow> Some e | Inr _ \<Rightarrow> err)"

definition rethrow :: "exn option \<Rightarrow> unit api" where
  "rethrow err = (case err of None \<Rightarrow> ret () | Some e \<Rightarrow> raise e)"

definition PassThruClose :: "ses_event list \<Rightarrow> exn + unit \<Rightarrow> u32 \<Rightarrow> world \<Rightarrow> status \<times> unit \<times> world" where
  "PassThruClose es transport_stop device_id = guarded () (
     andthen (lookup device_id False) (\<lambda>k.
     andthen (update_device k (\<lambda>d. d\<lparr>dev_closed := True\<rparr>)) (\<lambda>_.
     andthen (modify (\<lambda>w. w\<lparr>w_devices := AList.delete device_id (w_devices w)\<rparr>)) (\<lambda>_.
     andthen (retire_channel k) (\<lambda>periodic.
     andthen (the_device k) (\<lambda>state.
     andthen (attempt (only_if (dev_wire_open state \<and> periodic) (clear_periodic_table k))) (\<lambda>r1.
     andthen (attempt (only_if (dev_wire_open state) (close_wire_channel k))) (\<lambda>r2.
     andthen (attempt (accept_response (board_command k 5 []) Allow_none)) (\<lambda>r3.
     andthen (attempt (close_session k es transport_stop)) (\<lambda>r4.
     andthen (rethrow (keep_error (keep_error (last_failure (last_failure None r1) r2) r3) r4)) (\<lambda>_.
     returns ())))))))))))"

subsection \<open>Channels\<close>

definition create_receiver :: "nat \<Rightarrow> u16 \<Rightarrow> nat api" where
  "create_receiver k protocol =
     andthen (asks w_objects) (\<lambda>h.
     andthen (modify (\<lambda>w. w\<lparr>w_objects := h + 1\<rparr>)) (\<lambda>_.
     andthen (on_receiver k h (\<lambda>_. rx_new protocol)) (\<lambda>_.
     ret h)))"

definition connect_checks :: "device \<Rightarrow> u32 \<Rightarrow> u32 \<Rightarrow> u32 \<Rightarrow> exn + unit" where
  "connect_checks state protocol flags baud =
     (if protocol < J1850VPW \<or> protocol > ISO15765 then Inl (Error ERR_INVALID_PROTOCOL_ID ''unknown protocol ID'')
      else if baud = 0 then Inl (Error ERR_INVALID_BAUDRATE ''baud rate is zero'')
      else if dev_reopen_required state
      then Inl (Error ERR_DEVICE_NOT_CONNECTED ''channel state uncertain; close and reopen device'')
      else if (protocol = CAN \<or> protocol = ISO15765) \<and> dev_channel state \<noteq> 0
      then Inl (Error ERR_CHANNEL_IN_USE ''CAN hardware is already in use'')
      else if protocol \<noteq> CAN \<and> protocol \<noteq> ISO15765
      then Inl (Error ERR_NOT_SUPPORTED ''channel protocol: awaiting protocol/hardware validation'')
      else if \<not> can_baud_supported baud then Inl (Error ERR_INVALID_BAUDRATE ''unsupported CAN bit rate'')
      else if flags AND NOT (if protocol = CAN then CAN_29BIT_ID else 0) \<noteq> 0
      then Inl (Error ERR_INVALID_FLAGS (if protocol = CAN then ''unsupported CAN flags'' else ''unsupported ISO15765 flags''))
      else Inr ())"

definition register_channel :: "nat \<Rightarrow> u32 \<Rightarrow> u32 \<Rightarrow> nat \<Rightarrow> unit api" where
  "register_channel k allocated flags receiver =
     andthen (modify (\<lambda>w. w\<lparr>w_channels := map_emplace allocated k (w_channels w)\<rparr>)) (\<lambda>_.
     update_device k (\<lambda>d. d\<lparr>dev_channel := allocated, dev_channel_flags := flags, dev_receiver := Some receiver\<rparr>))"

definition PassThruConnect ::
    "exn + unit \<Rightarrow> u32 \<Rightarrow> u32 \<Rightarrow> u32 \<Rightarrow> u32 \<Rightarrow> bool \<Rightarrow> world \<Rightarrow> status \<times> u32 \<times> world" where
  "PassThruConnect memory device_id protocol flags baud channel_given = guarded 0 (
     andthen (required channel_given) (\<lambda>_.
     andthen (lookup device_id False) (\<lambda>k.
     andthen (the_device k) (\<lambda>state.
     andthen (lift (connect_checks state protocol flags baud)) (\<lambda>_.
     andthen allocate_handle (\<lambda>allocated.
     andthen (create_receiver k (ucast protocol)) (\<lambda>receiver.
     andthen (update_device k (\<lambda>d. d\<lparr>dev_protocol := ucast protocol\<rparr>)) (\<lambda>_.
     andthen (accept_response (plain_command k 6 (u32_bytes flags @ u32_bytes baud)) Allow_none) (\<lambda>_.
     andthen (update_device k (\<lambda>d. d\<lparr>dev_wire_open := True\<rparr>)) (\<lambda>_.
     catch
       (andthen (install_receiver k (Some receiver)) (\<lambda>_.
        andthen (accept_response (plain_command k 0x12 [1, 0, 0, 0, 6, 0, 0, 0, 14, 0, 0, 0]) Allow_none) (\<lambda>_.
        andthen (lift memory) (\<lambda>_.
        andthen (register_channel k allocated flags receiver) (\<lambda>_.
        returns allocated)))))
       (\<lambda>e.
        andthen (install_receiver k None) (\<lambda>_.
        andthen (the_device k) (\<lambda>d.
        andthen (only_if (\<not> dev_reopen_required d)
          (catch (close_wire_channel k) (\<lambda>_. update_device k (\<lambda>d. d\<lparr>dev_reopen_required := True\<rparr>)))) (\<lambda>_.
        raise e))))))))))))))"

definition PassThruDisconnect :: "u32 \<Rightarrow> world \<Rightarrow> status \<times> unit \<times> world" where
  "PassThruDisconnect channel_id = guarded () (
     andthen (lookup channel_id True) (\<lambda>k.
     andthen (retire_channel k) (\<lambda>periodic.
     andthen (attempt (only_if periodic (clear_periodic_table k))) (\<lambda>r1.
     andthen (catch (close_wire_channel k) (\<lambda>e.
       andthen (update_device k (\<lambda>d. d\<lparr>dev_reopen_required := True\<rparr>)) (\<lambda>_. raise e))) (\<lambda>_.
     case r1 of
       Inr _ \<Rightarrow> returns ()
     | Inl e \<Rightarrow> andthen (update_device k (\<lambda>d. d\<lparr>dev_reopen_required := True\<rparr>)) (\<lambda>_. raise e))))))"

subsection \<open>Messages\<close>

definition read_messages :: "nat \<Rightarrow> nat \<Rightarrow> nat \<Rightarrow> bool \<Rightarrow> rx_event list list \<Rightarrow> ((exn + unit) \<times> passthru_msg list) api" where
  "read_messages k h requested timed waits w =
     (let d = w_store w k; s = dev_session d; (out, res, r) = rx_read (ses_receivers s h) requested timed waits
      in (Inr (res, out),
          w\<lparr>w_store := (w_store w)(k := d\<lparr>dev_session := s\<lparr>ses_receivers := (ses_receivers s)(h := r)\<rparr>\<rparr>)\<rparr>))"

text \<open>\<open>count\<close> holds the requested number; afterwards it is the length of the list returned. A null receiver
  would be dereferenced here; it is the \<open>Logic_error\<close>.\<close>

definition PassThruReadMsgs ::
    "rx_event list list \<Rightarrow> u32 \<Rightarrow> bool \<Rightarrow> u32 option \<Rightarrow> u32 \<Rightarrow> world \<Rightarrow> status \<times> passthru_msg list \<times> world" where
  "PassThruReadMsgs waits channel_id messages_given count timeout = guarded [] (
     andthen (required (count \<noteq> None)) (\<lambda>_.
     andthen (required messages_given) (\<lambda>_.
     andthen (lookup channel_id True) (\<lambda>k.
     andthen (throw_if (the count = 0 \<or> the count > 10000)
       (Error ERR_FAILED ''requested message count must be 1..10000'')) (\<lambda>_.
     andthen (use_session k) (\<lambda>_.
     andthen (the_device k) (\<lambda>state.
       case dev_receiver state of
         None \<Rightarrow> raise (Logic_error ''null receiver'')
       | Some h \<Rightarrow> read_messages k h (unat (the count)) (timeout \<noteq> 0) waits)))))))"

definition note_callback :: "nat \<Rightarrow> passthru_msg \<Rightarrow> nat \<Rightarrow> seq_callback" where
  "note_callback h message call sq s =
     (Inr (), s\<lparr>ses_receivers := (ses_receivers s)(h := note_transmit (ses_receivers s h) message sq (Some call))\<rparr>)"

text \<open>Whether a command gets as far as its callback, which sets \<open>noted\<close>.\<close>

definition reaches_callback :: "cmd_env \<Rightarrow> u16 \<Rightarrow> bytes \<Rightarrow> int \<Rightarrow> u16 \<Rightarrow> u16 \<Rightarrow> session \<Rightarrow> bool" where
  "reaches_callback env opcode payload timeout destination chan s \<longleftrightarrow>
     0 < timeout \<and> timeout \<le> 60000 \<and> env_slot env \<and>
     (case fst (cmd_begin (ses_run s (env_queued env)) (env_now env) opcode payload destination chan) of
        Inl _ \<Rightarrow> False | Inr _ \<Rightarrow> True)"

definition write_one ::
    "nat \<Rightarrow> nat \<Rightarrow> nat \<Rightarrow> u32 \<Rightarrow> int \<Rightarrow> int \<Rightarrow> passthru_msg \<Rightarrow> bytes \<Rightarrow> unit api" where
  "write_one k h call timeout deadline before_send message payload =
     andthen (throw_if (timeout \<noteq> 0 \<and> before_send \<ge> deadline) (Error ERR_TIMEOUT ''write deadline expired'')) (\<lambda>_.
     let budget = acknowledgement_budget timeout (deadline - before_send) in
     andthen (asks (\<lambda>w. reaches_callback (next_env w) 8 payload budget
       (channel_node (dev_protocol (w_store w k)) board_node) 1 (dev_session (w_store w k)))) (\<lambda>noted.
     catch
       (andthen (channel_command k 8 payload budget 1 (Some (note_callback h message call))) (\<lambda>response.
        andthen (lift (session_status response)) (\<lambda>status.
        andthen (throw_if (status = 0x101) (Error ERR_BUFFER_FULL ''adapter transmit buffer full'')) (\<lambda>_.
        lift (accepted response Queued)))))
       (\<lambda>e. andthen (only_if noted (on_receiver k h forget_transmit)) (\<lambda>_. raise e))))"

fun write_all ::
    "nat \<Rightarrow> nat \<Rightarrow> nat \<Rightarrow> u32 \<Rightarrow> int \<Rightarrow> (nat \<Rightarrow> int) \<Rightarrow> nat \<Rightarrow> (passthru_msg \<times> bytes) list \<Rightarrow>
     ((exn + unit) \<times> nat) api" where
  "write_all k h call timeout deadline clock index [] = ret (Inr (), index)"
| "write_all k h call timeout deadline clock index ((message, payload) # rest) =
     andthen (attempt (write_one k h call timeout deadline (clock index) message payload)) (\<lambda>r.
       case r of
         Inl e \<Rightarrow> ret (Inl e, index)
       | Inr _ \<Rightarrow> write_all k h call timeout deadline clock (index + 1) rest)"

definition await_confirmed :: "nat \<Rightarrow> nat \<Rightarrow> nat \<Rightarrow> nat \<Rightarrow> rx_event list \<Rightarrow> unit api" where
  "await_confirmed k h call requested evs w =
     (let d = w_store w k; s = dev_session d;
          (res, r) = await_transmitted (ses_receivers s h) call requested evs
      in (ebind res (\<lambda>confirmed.
            if confirmed then Inr ()
            else Inl (Error ERR_TIMEOUT ''adapter did not confirm transmission of every message'')),
          w\<lparr>w_store := (w_store w)(k := d\<lparr>dev_session := s\<lparr>ses_receivers := (ses_receivers s)(h := r)\<rparr>\<rparr>)\<rparr>))"

definition confirmed_count :: "nat \<Rightarrow> nat \<Rightarrow> nat \<Rightarrow> nat api" where
  "confirmed_count k h call = asks (\<lambda>w. rx_confirmed (ses_receivers (dev_session (w_store w k)) h) call)"

definition create_call :: "nat api" where
  "create_call w = (Inr (w_calls w), w\<lparr>w_calls := w_calls w + 1\<rparr>)"

text \<open>\<open>now\<close> and \<open>clock\<close> are the clock readings, \<open>evs\<close> what happens to the receiver while the call waits.\<close>

definition write_messages ::
    "int \<Rightarrow> (nat \<Rightarrow> int) \<Rightarrow> rx_event list \<Rightarrow> nat \<Rightarrow> passthru_msg list \<Rightarrow> u32 \<Rightarrow> ((exn + unit) \<times> nat) api" where
  "write_messages now clock evs k messages timeout =
     andthen (the_device k) (\<lambda>state.
     andthen (throw_if (dev_protocol state = ISO15765 \<and> dev_filters state = [])
       (Error ERR_NO_FLOW_CONTROL ''ISO15765 channel has no flow-control filter'')) (\<lambda>_.
     andthen (lift (encode_write_batch (dev_protocol state) messages timeout)) (\<lambda>payloads.
       case dev_receiver state of
         None \<Rightarrow> raise (Error ERR_DEVICE_NOT_CONNECTED ''channel has no receiver'')
       | Some h \<Rightarrow>
           andthen create_call (\<lambda>call.
           andthen (write_all k h call timeout (deadline_after now timeout) clock 0 (zip messages payloads)) (\<lambda>(r, n).
             if timeout = 0 then ret (r, n)
             else
               andthen (case r of Inl e \<Rightarrow> ret (Inl e)
                        | Inr _ \<Rightarrow> attempt (await_confirmed k h call (length messages) evs)) (\<lambda>res.
               andthen (confirmed_count k h call) (\<lambda>count. ret (res, count))))))))"

definition PassThruWriteMsgs ::
    "int \<Rightarrow> (nat \<Rightarrow> int) \<Rightarrow> rx_event list \<Rightarrow> u32 \<Rightarrow> passthru_msg list option \<Rightarrow> u32 option \<Rightarrow> u32 \<Rightarrow>
     world \<Rightarrow> status \<times> nat \<times> world" where
  "PassThruWriteMsgs now clock evs channel_id messages count timeout = guarded 0 (
     andthen (required (count \<noteq> None)) (\<lambda>_.
     andthen (required (messages \<noteq> None)) (\<lambda>_.
     andthen (lookup channel_id True) (\<lambda>k.
     andthen (use_session k) (\<lambda>_.
     andthen (throw_if (the count = 0 \<or> the count > 10000) (Error ERR_FAILED ''message count must be 1..10000'')) (\<lambda>_.
     write_messages now clock evs k (take (unat (the count)) (the messages)) timeout))))))"

subsection \<open>Periodic messages and filters\<close>

text \<open>The eight bytes that name an entry of a wire table.\<close>

definition remove_entry :: "u8 \<Rightarrow> u32 \<Rightarrow> exn + bytes" where
  "remove_entry table handle = put32 ((replicate 8 0)[0 := table]) 4 handle"

definition table_handle :: "nat \<Rightarrow> bytes \<Rightarrow> string \<Rightarrow> u32 api" where
  "table_handle k response reason =
     (if length response < 24 then andthen (uncertain_channel k) (\<lambda>_. raise (Error ERR_FAILED reason))
      else lift (le32 response 20))"

text \<open>A new entry of the adapter's tables is taken out again when there is no memory to remember it.\<close>

definition remember_entry ::
    "exn + unit \<Rightarrow> nat \<Rightarrow> u8 \<Rightarrow> u32 \<Rightarrow> (device \<Rightarrow> device) \<Rightarrow> unit api \<Rightarrow> unit api" where
  "remember_entry memory k table handle f removed =
     catch (andthen (lift memory) (\<lambda>_. update_device k f)) (\<lambda>e.
       andthen (attempt
         (andthen (lift (remove_entry table handle)) (\<lambda>payload.
          andthen (accept_response (plain_command k 0x0e payload) Allow_none) (\<lambda>_.
          removed)))) (\<lambda>r.
       andthen (case r of Inl _ \<Rightarrow> uncertain_channel k | Inr _ \<Rightarrow> ret ()) (\<lambda>_.
       raise e)))"

definition PassThruStartPeriodicMsg ::
    "exn + unit \<Rightarrow> u32 \<Rightarrow> passthru_msg option \<Rightarrow> bool \<Rightarrow> u32 \<Rightarrow> world \<Rightarrow> status \<times> u32 \<times> world" where
  "PassThruStartPeriodicMsg memory channel_id message id_given interval = guarded 0 (
     andthen (required id_given) (\<lambda>_.
     andthen (required (message \<noteq> None)) (\<lambda>_.
     andthen (lookup channel_id True) (\<lambda>k.
     andthen (use_session k) (\<lambda>_.
     andthen (the_device k) (\<lambda>state.
     andthen (only_if (dev_protocol state \<noteq> CAN) (unsupported ''periodic messages are implemented for CAN channels only'')) (\<lambda>_.
     andthen (lift (can_periodic (the message) interval)) (\<lambda>payload.
     andthen (throw_if (length (dev_periodics state) \<ge> 10)
       (Error ERR_EXCEEDED_LIMIT ''at most 10 periodic messages per channel'')) (\<lambda>_.
     andthen allocate_handle (\<lambda>allocated.
     andthen (update_device k (\<lambda>d. d\<lparr>dev_untracked := True\<rparr>)) (\<lambda>_.
     andthen (plain_command k 0x0d payload) (\<lambda>response.
     andthen (catch (lift (accepted response Allow_none)) (\<lambda>e.
       andthen (update_device k (\<lambda>d. d\<lparr>dev_untracked := dev_untracked state\<rparr>)) (\<lambda>_. raise e))) (\<lambda>_.
     andthen (table_handle k response ''periodic response missing firmware handle; reopen device'') (\<lambda>handle.
     andthen (remember_entry memory k table_periodic handle
       (\<lambda>d. d\<lparr>dev_periodics := map_emplace allocated handle (dev_periodics d)\<rparr>)
       (update_device k (\<lambda>d. d\<lparr>dev_untracked := dev_untracked state\<rparr>))) (\<lambda>_.
     andthen (update_device k (\<lambda>d. d\<lparr>dev_untracked := dev_untracked state\<rparr>)) (\<lambda>_.
     returns allocated))))))))))))))))"

definition PassThruStopPeriodicMsg :: "u32 \<Rightarrow> u32 \<Rightarrow> world \<Rightarrow> status \<times> unit \<times> world" where
  "PassThruStopPeriodicMsg channel_id msg_id = guarded () (
     andthen (lookup channel_id True) (\<lambda>k.
     andthen (use_session k) (\<lambda>_.
     andthen (the_device k) (\<lambda>state.
       case map_of (dev_periodics state) msg_id of
         None \<Rightarrow> raise (Error ERR_INVALID_MSG_ID ''invalid periodic message ID for channel'')
       | Some handle \<Rightarrow>
           andthen (lift (remove_entry table_periodic handle)) (\<lambda>payload.
           andthen (accept_response (plain_command k 0x0e payload) Allow_none) (\<lambda>_.
           andthen (update_device k (\<lambda>d. d\<lparr>dev_periodics := AList.delete msg_id (dev_periodics d)\<rparr>)) (\<lambda>_.
           returns ())))))))"

definition filter_payload ::
    "device \<Rightarrow> u32 \<Rightarrow> passthru_msg \<Rightarrow> passthru_msg \<Rightarrow> passthru_msg option \<Rightarrow> exn + bytes" where
  "filter_payload state type msk pattern flow =
     (if dev_protocol state = ISO15765 then
        if type \<noteq> FLOW_CONTROL_FILTER
        then Inl (Error ERR_NOT_SUPPORTED
          ''only ISO15765 FLOW_CONTROL_FILTER is implemented: awaiting protocol/hardware validation'')
        else case flow of
          None \<Rightarrow> Inl (Error ERR_NULL_PARAMETER ''FLOW_CONTROL_FILTER requires a flow-control message'')
        | Some fc \<Rightarrow>
            if length (filter (\<lambda>e. fl_table (snd e) = table_flow_control) (dev_filters state)) \<ge> 64
            then Inl (Error ERR_EXCEEDED_LIMIT ''at most 64 flow-control filters per channel'')
            else isotp_flow_control_filter msk pattern fc
      else
        if type \<noteq> PASS_FILTER \<and> type \<noteq> BLOCK_FILTER
        then Inl (Error ERR_NOT_SUPPORTED
          ''only CAN PASS_FILTER and BLOCK_FILTER are implemented: awaiting protocol/hardware validation'')
        else if flow \<noteq> None
        then Inl (Error ERR_INVALID_MSG ''PASS_FILTER and BLOCK_FILTER require no flow-control message'')
        else if type = PASS_FILTER then can_pass_filter msk pattern (dev_channel_flags state)
        else can_block_filter msk pattern (dev_channel_flags state))"

definition filter_table :: "device \<Rightarrow> u32 \<Rightarrow> u8" where
  "filter_table state type =
     (if dev_protocol state = ISO15765 then table_flow_control
      else if type = BLOCK_FILTER then table_block else table_pass)"

definition PassThruStartMsgFilter ::
    "exn + unit \<Rightarrow> u32 \<Rightarrow> u32 \<Rightarrow> passthru_msg option \<Rightarrow> passthru_msg option \<Rightarrow> passthru_msg option \<Rightarrow> bool \<Rightarrow>
     world \<Rightarrow> status \<times> u32 \<times> world" where
  "PassThruStartMsgFilter memory channel_id type msk pattern flow id_given = guarded 0 (
     andthen (required id_given) (\<lambda>_.
     andthen (required (msk \<noteq> None)) (\<lambda>_.
     andthen (required (pattern \<noteq> None)) (\<lambda>_.
     andthen (lookup channel_id True) (\<lambda>k.
     andthen (use_session k) (\<lambda>_.
     andthen (the_device k) (\<lambda>state.
     andthen (lift (filter_payload state type (the msk) (the pattern) flow)) (\<lambda>payload.
     andthen allocate_handle (\<lambda>allocated.
     andthen (plain_command k 0x0d payload) (\<lambda>response.
     andthen (lift (accepted response Allow_none)) (\<lambda>_.
     andthen (table_handle k response ''filter response missing firmware handle; reopen device'') (\<lambda>handle.
     andthen (remember_entry memory k (filter_table state type) handle
       (\<lambda>d. d\<lparr>dev_filters := map_emplace allocated
         \<lparr>fl_handle = handle, fl_table = filter_table state type\<rparr> (dev_filters d)\<rparr>) (ret ())) (\<lambda>_.
     returns allocated)))))))))))))"

definition PassThruStopMsgFilter :: "u32 \<Rightarrow> u32 \<Rightarrow> world \<Rightarrow> status \<times> unit \<times> world" where
  "PassThruStopMsgFilter channel_id filter_id = guarded () (
     andthen (lookup channel_id True) (\<lambda>k.
     andthen (use_session k) (\<lambda>_.
     andthen (the_device k) (\<lambda>state.
       case map_of (dev_filters state) filter_id of
         None \<Rightarrow> raise (Error ERR_INVALID_FILTER_ID ''invalid filter ID for channel'')
       | Some f \<Rightarrow>
           andthen (lift (remove_entry (fl_table f) (fl_handle f))) (\<lambda>payload.
           andthen (accept_response (plain_command k 0x0e payload) Allow_none) (\<lambda>_.
           andthen (update_device k (\<lambda>d. d\<lparr>dev_filters := AList.delete filter_id (dev_filters d)\<rparr>)) (\<lambda>_.
           returns ())))))))"

subsection \<open>Version, voltage and the last error\<close>

definition PassThruSetProgrammingVoltage :: "u32 \<Rightarrow> world \<Rightarrow> status \<times> unit \<times> world" where
  "PassThruSetProgrammingVoltage device_id = guarded () (
     andthen (lookup device_id False) (\<lambda>_. unsupported ''programming voltage''))"

definition version_text :: "u32 \<Rightarrow> string" where
  "version_text version =
     decimal (unat (drop_bit 24 version)) @ ''.'' @ decimal (unat (drop_bit 16 version AND 255)) @ ''.'' @
     decimal (unat (drop_bit 8 version AND 255)) @ ''.'' @ decimal (unat (version AND 255))"

definition PassThruReadVersion ::
    "u32 \<Rightarrow> bool \<Rightarrow> bool \<Rightarrow> bool \<Rightarrow> world \<Rightarrow> status \<times> (string \<times> string \<times> string) \<times> world" where
  "PassThruReadVersion device_id firmware_given dll_given api_given = guarded ([], [], []) (
     andthen (required firmware_given) (\<lambda>_.
     andthen (required dll_given) (\<lambda>_.
     andthen (required api_given) (\<lambda>_.
     andthen (lookup device_id False) (\<lambda>k.
     andthen (use_session k) (\<lambda>_.
     andthen (get_value k 0x2b) (\<lambda>version.
     returns (take 79 (version_text version), ''0.1.0-experimental'', ''04.04''))))))))"

definition PassThruGetLastError :: "bool \<Rightarrow> world \<Rightarrow> status \<times> string \<times> world" where
  "PassThruGetLastError description_given w =
     (if \<not> description_given then (ERR_NULL_PARAMETER, [], w)
      else (STATUS_NOERROR, take 79 (w_last_error w), w))"

subsection \<open>Ioctl\<close>

definition GET_CONFIG :: u32 where [simp]: "GET_CONFIG = 1"
definition SET_CONFIG :: u32 where [simp]: "SET_CONFIG = 2"
definition READ_VBATT :: u32 where [simp]: "READ_VBATT = 3"
definition CLEAR_TX_BUFFER :: u32 where [simp]: "CLEAR_TX_BUFFER = 7"
definition CLEAR_RX_BUFFER :: u32 where [simp]: "CLEAR_RX_BUFFER = 8"
definition CLEAR_PERIODIC_MSGS :: u32 where [simp]: "CLEAR_PERIODIC_MSGS = 9"
definition CLEAR_MSG_FILTERS :: u32 where [simp]: "CLEAR_MSG_FILTERS = 10"
definition READ_PROG_VOLTAGE :: u32 where [simp]: "READ_PROG_VOLTAGE = 14"

definition clear_filter_table :: "nat \<Rightarrow> u8 \<Rightarrow> unit api" where
  "clear_filter_table k table =
     andthen (the_device k) (\<lambda>state.
     only_if (list_ex (\<lambda>e. fl_table (snd e) = table) (dev_filters state))
       (andthen (accept_response (plain_command k 0x10 [table, 0, 0, 0]) Allow_none) (\<lambda>_.
        update_device k (\<lambda>d. d\<lparr>dev_filters := filter (\<lambda>e. fl_table (snd e) \<noteq> table) (dev_filters d)\<rparr>))))"

definition with_receiver :: "nat \<Rightarrow> nat option \<Rightarrow> (can_receiver \<Rightarrow> can_receiver) \<Rightarrow> unit api" where
  "with_receiver k receiver f = (case receiver of None \<Rightarrow> ret () | Some h \<Rightarrow> on_receiver k h f)"

definition channel_ioctl :: "u32 \<Rightarrow> u32 \<Rightarrow> unit api" where
  "channel_ioctl channel_id ioctl_id =
     andthen (lookup channel_id True) (\<lambda>k.
     andthen (use_session k) (\<lambda>_.
     andthen (the_device k) (\<lambda>state.
       if ioctl_id = CLEAR_TX_BUFFER then
         andthen (accept_response (plain_command k 0x11 [2, 0, 0, 0]) Allow_none) (\<lambda>_.
         with_receiver k (dev_receiver state) forget_transmits)
       else if ioctl_id = CLEAR_RX_BUFFER then
         andthen (accept_response (plain_command k 0x11 [3, 0, 0, 0]) Allow_none) (\<lambda>_.
         with_receiver k (dev_receiver state) flush_receive)
       else if ioctl_id = CLEAR_MSG_FILTERS then
         andthen (clear_filter_table k table_pass) (\<lambda>_.
         andthen (clear_filter_table k table_block) (\<lambda>_.
         clear_filter_table k table_flow_control))
       else if ioctl_id = CLEAR_PERIODIC_MSGS then
         only_if (dev_untracked state \<or> dev_periodics state \<noteq> []) (clear_periodic_table k)
       else raise (Error ERR_INVALID_IOCTL_ID ''not a channel IOCTL''))))"

text \<open>One parameter of a GET or SET list; the result is the value left in the caller's list.\<close>

definition config_one :: "nat \<Rightarrow> bool \<Rightarrow> u32 \<Rightarrow> u32 \<Rightarrow> u32 api" where
  "config_one k set_values parameter value =
     andthen (the_device k) (\<lambda>state.
     andthen (lift (config_route (dev_protocol state) parameter)) (\<lambda>route.
       if route_where route = HostLoopback then
         (case dev_receiver state of
            None \<Rightarrow> raise (Error ERR_DEVICE_NOT_CONNECTED ''channel has no receiver'')
          | Some h \<Rightarrow>
              if \<not> set_values
              then ret (if rx_loopback (ses_receivers (dev_session state) h) then 1 else 0)
              else andthen (on_receiver k h (\<lambda>r. set_loopback r (value \<noteq> 0))) (\<lambda>_. ret value))
       else if \<not> set_values then
         andthen (plain_command k 0xc [ucast (route_selector route), 0, 0, 0]) (\<lambda>response.
         andthen (lift (accepted response Allow_none)) (\<lambda>_.
         lift (value_response response (route_selector route))))
       else
         andthen (lift (ebind (put16 (replicate 8 0) 0 (ucast (route_selector route))) (\<lambda>p. put32 p 4 value))) (\<lambda>payload.
         andthen (accept_response (plain_command k 0xb payload) Allow_none) (\<lambda>_.
         ret value))))"

fun config_all :: "nat \<Rightarrow> bool \<Rightarrow> (u32 \<times> u32) list \<Rightarrow> ((exn + unit) \<times> (u32 \<times> u32) list) api" where
  "config_all k set_values [] = ret (Inr (), [])"
| "config_all k set_values ((parameter, value) # items) =
     andthen (attempt (config_one k set_values parameter value)) (\<lambda>r.
       case r of
         Inl e \<Rightarrow> ret (Inl e, (parameter, value) # items)
       | Inr v \<Rightarrow>
           andthen (config_all k set_values items) (\<lambda>(res, out). ret (res, (parameter, v) # out)))"

fun validate_all :: "u16 \<Rightarrow> (u32 \<times> u32) list \<Rightarrow> exn + unit" where
  "validate_all protocol [] = Inr ()"
| "validate_all protocol ((parameter, value) # items) =
     ebind (config_validate_set protocol parameter value) (\<lambda>_. validate_all protocol items)"

text \<open>\<open>input\<close> is the \<open>SCONFIG_LIST\<close>: \<open>NumOfParams\<close> and, if \<open>ConfigPtr\<close> is not null, the array it points to.\<close>

definition config_ioctl ::
    "u32 \<Rightarrow> u32 \<Rightarrow> (u32 \<times> (u32 \<times> u32) list option) option \<Rightarrow> bool \<Rightarrow> ((exn + unit) \<times> (u32 \<times> u32) list) api" where
  "config_ioctl channel_id ioctl_id input output_given =
     andthen (lookup channel_id True) (\<lambda>k.
     andthen (use_session k) (\<lambda>_.
     andthen (required (input \<noteq> None)) (\<lambda>_.
     andthen (required (snd (the input) \<noteq> None)) (\<lambda>_.
     andthen (throw_if (fst (the input) = 0 \<or> fst (the input) > 50)
       (Error ERR_FAILED ''NumOfParams is unreasonable; is the input a bogus pointer?'')) (\<lambda>_.
     andthen (throw_if output_given (Error ERR_FAILED ''the output parameter must be NULL'')) (\<lambda>_.
     andthen (the_device k) (\<lambda>state.
     let items = take (unat (fst (the input))) (the (snd (the input))) in
     andthen (only_if (ioctl_id = SET_CONFIG) (lift (validate_all (dev_protocol state) items))) (\<lambda>_.
     config_all k (ioctl_id = SET_CONFIG) items))))))))"

datatype ioctl_out = Untouched | Config_values "(u32 \<times> u32) list" | Voltage u32

text \<open>Millivolts rounded to the nearest 100, ties upward, in 64 bits.\<close>

definition rounded_voltage :: "u32 \<Rightarrow> exn + u32" where
  "rounded_voltage raw =
     (let rounded = (((ucast raw :: 64 word) + 50) div 100) * 100
      in if rounded > 0xffffffff then Inl (Error ERR_FAILED ''voltage response overflow'')
         else Inr (ucast rounded))"

definition PassThruIoctl ::
    "u32 \<Rightarrow> u32 \<Rightarrow> (u32 \<times> (u32 \<times> u32) list option) option \<Rightarrow> bool \<Rightarrow> world \<Rightarrow> status \<times> ioctl_out \<times> world" where
  "PassThruIoctl handle ioctl_id input output_given = guarded Untouched (
     if ioctl_id = GET_CONFIG \<or> ioctl_id = SET_CONFIG then
       andthen (config_ioctl handle ioctl_id input output_given) (\<lambda>(res, items). ret (res, Config_values items))
     else if ioctl_id = CLEAR_TX_BUFFER \<or> ioctl_id = CLEAR_RX_BUFFER \<or> ioctl_id = CLEAR_MSG_FILTERS \<or>
             ioctl_id = CLEAR_PERIODIC_MSGS then
       andthen (channel_ioctl handle ioctl_id) (\<lambda>_. returns Untouched)
     else
       andthen (throw_if (ioctl_id \<noteq> READ_VBATT \<and> ioctl_id \<noteq> READ_PROG_VOLTAGE)
         (Error ERR_INVALID_IOCTL_ID ''IoctlID unrecognized, or not valid for this protocol'')) (\<lambda>_.
       andthen (lookup handle False) (\<lambda>k.
       andthen (required output_given) (\<lambda>_.
       andthen (use_session k) (\<lambda>_.
       andthen (get_value k (if ioctl_id = READ_VBATT then 3 else 2)) (\<lambda>raw.
       andthen (lift (rounded_voltage raw)) (\<lambda>value.
       returns (Voltage value))))))))"

end
