(* ===== verification/Api_State.thy ===== *)
theory Api_State
  imports Api
begin

section \<open>The state of the API\<close>

text \<open>
  \<open>device_ok n d\<close>: what holds of every device when no call is running, \<open>n\<close> being the next handle. A device without
  a channel has no receiver and empty tables; the tables keep their limits and their IDs are handles already given
  out. \<open>world_ok\<close>: the registries name open devices and channels only, each device is registered at most once as a
  device, the channel registry holds exactly the channels of the devices, and no ID is in both registries.
\<close>

definition table_ids :: "device \<Rightarrow> u32 set" where
  "table_ids d = fst ` set (dev_filters d) \<union> fst ` set (dev_periodics d)"

definition device_ok :: "nat \<Rightarrow> device \<Rightarrow> bool" where
  "device_ok n d \<longleftrightarrow>
     session_ok d \<and> (dev_protocol d = CAN \<or> dev_protocol d = ISO15765) \<and>
     (dev_channel d = 0 \<longrightarrow> dev_receiver d = None \<and> dev_filters d = [] \<and> dev_periodics d = []) \<and>
     (dev_channel d \<noteq> 0 \<longrightarrow> dev_receiver d \<noteq> None \<and> \<not> dev_closed d) \<and>
     length (dev_periodics d) \<le> 10 \<and>
     length (filter (\<lambda>e. fl_table (snd e) = table_flow_control) (dev_filters d)) \<le> 64 \<and>
     distinct (map fst (dev_filters d)) \<and> distinct (map fst (dev_periodics d)) \<and>
     (\<forall>i \<in> table_ids d. 0 < unat i \<and> unat i < n)"

definition registered :: "nat \<Rightarrow> nat \<Rightarrow> (u32 \<times> nat) list \<Rightarrow> bool" where
  "registered n fresh m \<longleftrightarrow>
     distinct (map fst m) \<and> distinct (map snd m) \<and> (\<forall>(i, k) \<in> set m. 0 < unat i \<and> unat i < n \<and> k < fresh)"

definition world_ok :: "world \<Rightarrow> bool" where
  "world_ok w \<longleftrightarrow>
     (\<forall>k. device_ok (w_next_handle w) (w_store w k)) \<and>
     1 \<le> w_next_handle w \<and> w_next_handle w \<le> 4294967296 \<and>
     registered (w_next_handle w) (w_fresh w) (w_devices w) \<and>
     registered (w_next_handle w) (w_fresh w) (w_channels w) \<and>
     (\<forall>(i, k) \<in> set (w_devices w). \<not> dev_closed (w_store w k)) \<and>
     (\<forall>i k. (i, k) \<in> set (w_channels w) \<longleftrightarrow> i \<noteq> 0 \<and> dev_channel (w_store w k) = i) \<and>
     fst ` set (w_devices w) \<inter> fst ` set (w_channels w) = {}"

lemma device_ok_tables:
  assumes "device_ok n d" and "same_tables d d'" and "session_ok d'"
  shows "device_ok n d'"
  using assms by (simp add: device_ok_def same_tables_def table_ids_def)

lemma device_ok_mono: "device_ok n d \<Longrightarrow> n \<le> m \<Longrightarrow> device_ok m d"
  by (fastforce simp: device_ok_def)

lemma world_ok_session: "world_ok w \<Longrightarrow> session_ok (w_store w k)"
  by (simp add: world_ok_def device_ok_def)

lemma world_ok_inside:
  assumes "world_ok w0" and "inside k w0 w" shows "world_ok w"
proof -
  have st: "stable k w0 w" and sk: "session_ok (w_store w k)" using assms(2) by (simp_all add: inside_def)
  have tab: "same_tables (w_store w0 j) (w_store w j)" for j using st by (rule stable_tables)
  have "session_ok (w_store w j)" for j
    using sk st world_ok_session [OF assms(1), of j] by (cases "j = k") (simp_all add: stable_def)
  then have "\<forall>j. device_ok (w_next_handle w) (w_store w j)"
    using assms(1) st tab device_ok_tables unfolding world_ok_def stable_def by metis
  moreover have "dev_closed (w_store w j) = dev_closed (w_store w0 j)" "dev_channel (w_store w j) = dev_channel (w_store w0 j)" for j
    using tab [of j] by (simp_all add: same_tables_def)
  ultimately show ?thesis using assms(1) st by (simp add: world_ok_def stable_def)
qed

lemma world_ok_last_error [simp]: "world_ok (w\<lparr>w_last_error := e\<rparr>) = world_ok w"
  by (simp add: world_ok_def)

lemma world_ok_init: "world_ok (world_init env)"
  using ses_inv_new
  by (simp add: world_ok_def registered_def world_init_def device_ok_def device_new_def session_ok_def table_ids_def session_new_def)

text \<open>One handler: what its body guarantees of the world, through \<open>guarded\<close>.\<close>

abbreviation safe :: "'a api \<Rightarrow> bool" where
  "safe m \<equiv> triple world_ok m (\<lambda>_. world_ok) (\<lambda>_. world_ok)"

lemma guarded_world_ok:
  assumes "safe m" and "world_ok w"
  shows "world_ok (snd (snd (guarded out m w)))"
proof -
  have w: "world_ok (w\<lparr>w_last_error := []\<rparr>)" using assms(2) by simp
  obtain r w' where m: "m (w\<lparr>w_last_error := []\<rparr>) = (r, w')" by fastforce
  then have "world_ok w'" using tripleD [OF assms(1) w] by (cases r) auto
  then show ?thesis by (auto simp: guarded_def m split: sum.splits)
qed

lemma safe_andthen: "safe m \<Longrightarrow> (\<And>x. safe (f x)) \<Longrightarrow> safe (andthen m f)"
  by (rule triple_andthen)

lemma safe_basic:
  "safe (ret x)" "safe (raise e)" "safe (lift r)" "safe (asks g)" "safe (throw_if b e)"
  "safe (the_device j)" "safe (required b)" "safe (returns y)" "safe (use_session k)" "safe (unsupported u)"
  by (simp_all add: the_device_def required_def returns_def use_session_def unsupported_def)
     (auto intro: keeps_intros)

lemma safe_calm: "(\<And>w0. world_ok w0 \<Longrightarrow> calm k w0 m) \<Longrightarrow> safe m"
proof (rule tripleI)
  fix w assume c: "\<And>w0. world_ok w0 \<Longrightarrow> calm k w0 m" and w: "world_ok w"
  have i: "inside k w w" using world_ok_session [OF w] by (rule inside_refl)
  show "case m w of (Inl e, w') \<Rightarrow> world_ok w' | (Inr x, w') \<Rightarrow> world_ok w'"
  proof -
    obtain r w' where m: "m w = (r, w')" by fastforce
    then have "inside k w w'" using tripleD [OF c [OF w] i] by (cases r) auto
    then show ?thesis using world_ok_inside [OF w] m by (auto split: sum.splits)
  qed
qed

text \<open>After \<open>lookup\<close>: the world is unchanged, and the handle names the device.\<close>

definition found_device :: "u32 \<Rightarrow> nat \<Rightarrow> world \<Rightarrow> bool" where
  "found_device i k w \<longleftrightarrow> world_ok w \<and> (i, k) \<in> set (w_devices w)"

definition found_channel :: "u32 \<Rightarrow> nat \<Rightarrow> world \<Rightarrow> bool" where
  "found_channel i k w \<longleftrightarrow> world_ok w \<and> i \<noteq> 0 \<and> dev_channel (w_store w k) = i"

lemma lookup_device: "triple world_ok (lookup i False) (\<lambda>k. found_device i k) (\<lambda>_. world_ok)"
proof (rule tripleI)
  fix w assume w: "world_ok w"
  obtain r w' where l: "lookup i False w = (r, w')" by fastforce
  show "case lookup i False w of (Inl e, w') \<Rightarrow> world_ok w' | (Inr k, w') \<Rightarrow> found_device i k w'"
    using lookup_cases [OF l] w by (auto simp: l found_device_def dest: map_of_SomeD split: sum.splits)
qed

lemma lookup_channel: "triple world_ok (lookup i True) (\<lambda>k. found_channel i k) (\<lambda>_. world_ok)"
proof (rule tripleI)
  fix w assume w: "world_ok w"
  obtain r w' where l: "lookup i True w = (r, w')" by fastforce
  have "i \<noteq> 0" if "map_of (w_channels w) i = Some k" for k
    using map_of_SomeD [OF that] w by (fastforce simp: world_ok_def)
  then show "case lookup i True w of (Inl e, w') \<Rightarrow> world_ok w' | (Inr k, w') \<Rightarrow> found_channel i k w'"
    using lookup_cases [OF l] w by (auto simp: l found_channel_def split: sum.splits)
qed

lemma safe_lookup_channel: "(\<And>k. triple (found_channel i k) (f k) (\<lambda>_. world_ok) (\<lambda>_. world_ok)) \<Longrightarrow> safe (andthen (lookup i True) f)"
  by (rule triple_andthen [OF lookup_channel])

lemma safe_lookup_device: "(\<And>k. triple (found_device i k) (f k) (\<lambda>_. world_ok) (\<lambda>_. world_ok)) \<Longrightarrow> safe (andthen (lookup i False) f)"
  by (rule triple_andthen [OF lookup_device])

lemma safe_found: "safe m \<Longrightarrow> triple (found_channel i k) m (\<lambda>_. world_ok) (\<lambda>_. world_ok)"
  "safe m \<Longrightarrow> triple (found_device i k) m (\<lambda>_. world_ok) (\<lambda>_. world_ok)"
  by (auto elim: triple_weaken simp: found_channel_def found_device_def)

section \<open>Reading and writing\<close>

lemma calm_read_messages: "calm k w0 (read_messages k h n timed waits)"
proof (rule tripleI)
  fix w assume w: "inside k w0 w"
  let ?s = "dev_session (w_store w k)"
  obtain out res r where o: "rx_read (ses_receivers ?s h) n timed waits = (out, res, r)"
    by (cases "rx_read (ses_receivers ?s h) n timed waits")
  have inv: "rx_inv (ses_receivers ?s h)" using w by (simp add: inside_def session_ok_def ses_inv_def ses_base_def)
  have l: "rx_read_loop (ses_receivers ?s h) [] n timed waits = (out, res, r)" using o by (simp add: rx_read_def)
  from rx_read_loop_ok [OF inv _ _ l] rx_read_loop_keeps [OF l] inside_receiver_update [OF w _ refl refl, of r h]
  show "case read_messages k h n timed waits w of (Inl e, w') \<Rightarrow> inside k w0 w' | (Inr x, w') \<Rightarrow> inside k w0 w'"
    by (simp add: read_messages_def o Let_def)
qed

lemma calm_required: "calm k w0 (required b)" "calm k w0 (use_session j)" "calm k w0 (returns x)" "calm k w0 (unsupported u)"
  by (simp_all add: required_def use_session_def returns_def unsupported_def calm_andthen calm_basic)

lemma calm_option: "(\<And>x. calm k w0 (f x)) \<Longrightarrow> calm k w0 m \<Longrightarrow> calm k w0 (case v of None \<Rightarrow> m | Some x \<Rightarrow> f x)"
  by (cases v) simp_all

lemma calm_sum: "(\<And>x. calm k w0 (f x)) \<Longrightarrow> (\<And>x. calm k w0 (g x)) \<Longrightarrow> calm k w0 (case v of Inl x \<Rightarrow> f x | Inr x \<Rightarrow> g x)"
  by (cases v) simp_all

lemma calm_prod: "(\<And>x y. calm k w0 (f x y)) \<Longrightarrow> calm k w0 (case v of (x, y) \<Rightarrow> f x y)"
  by (cases v) simp

lemma calm_let: "(\<And>x. calm k w0 (f x)) \<Longrightarrow> calm k w0 (let x = v in f x)"
  by simp

lemma note_callback_ok: "callback_ok (Some (note_callback h m call))" "callback_receivers (Some (note_callback h m call))"
proof -
  have n: "rx_inv (note_transmit r m q c) = rx_inv (note_transmit r m q c)" "rx_halted (note_transmit r m q c) = rx_halted r"
    "rx_protocol (note_transmit r m q c) = rx_protocol r" for r q c
    by (simp_all add: note_transmit_def Let_def rx_halted_def)
  have "ses_inv (s\<lparr>ses_receivers := (ses_receivers s)(h := note_transmit (ses_receivers s h) m q c)\<rparr>)" if "ses_inv s" for s q c
    using ses_inv_base [OF that] rx_inv_note_transmit n
    by (intro ses_inv_receivers that) (simp_all add: ses_base_def)
  then show "callback_ok (Some (note_callback h m call))"
    by (simp add: callback_ok_def note_callback_def same_command_def ses_usable_def)
  show "callback_receivers (Some (note_callback h m call))"
    using n by (simp add: callback_receivers_def note_callback_def keeps_receivers_def)
qed

lemma calm_forget: "calm k w0 (on_receiver k h forget_transmit)"
  by (rule inside_on_receiver) (simp_all add: rx_inv_forget_transmit rx_halted_def, simp add: forget_transmit_def)

lemma calm_write_one: "calm k w0 (write_one k h call timeout deadline before message payload)"
  unfolding write_one_def
  by (intro calm_andthen calm_let calm_catch calm_only_if calm_basic calm_forget calm_channel_command note_callback_ok)

lemma calm_write_all: "calm k w0 (write_all k h call timeout deadline clock index batch)"
proof (induction batch arbitrary: index)
  case Nil
  show ?case by (simp add: calm_basic)
next
  case (Cons x batch)
  obtain m p where x: "x = (m, p)" by fastforce
  show ?case unfolding x write_all.simps
    by (intro calm_andthen calm_attempt calm_write_one calm_sum calm_basic Cons.IH)
qed

lemma calm_await: "calm k w0 (await_confirmed k h call n evs)"
proof (rule tripleI)
  fix w assume w: "inside k w0 w"
  let ?s = "dev_session (w_store w k)"
  let ?r = "ses_receivers ?s h"
  have inv: "rx_inv ?r" using w by (simp add: inside_def session_ok_def ses_inv_def ses_base_def)
  obtain res r where a: "await_transmitted ?r call n evs = (res, r)" by fastforce
  then have "r = ?r \<or> r = rx_run ?r evs" by (auto simp: await_transmitted_def Let_def split: if_splits)
  then have "rx_inv r" "rx_halted ?r \<Longrightarrow> rx_halted r" "rx_protocol r = rx_protocol ?r"
    using inv rx_inv_run rx_halted_run by auto
  from inside_receiver_update [OF w this(1) refl refl this(2,3)]
  show "case await_confirmed k h call n evs w of (Inl e, w') \<Rightarrow> inside k w0 w' | (Inr x, w') \<Rightarrow> inside k w0 w'"
    by (simp add: await_confirmed_def a Let_def split: sum.splits)
qed

lemma calm_create_call: "calm k w0 create_call"
  by (rule tripleI) (simp add: create_call_def inside_def stable_def)

lemma calm_write_messages: "calm k w0 (write_messages now clock evs k messages timeout)"
  unfolding write_messages_def confirmed_count_def
  by (intro calm_andthen calm_basic calm_option calm_prod calm_if calm_sum calm_attempt calm_create_call calm_write_all calm_await)

lemmas api_rules = safe_andthen safe_basic safe_lookup_channel safe_lookup_device safe_found

lemma world_ok_ReadMsgs:
  "world_ok w \<Longrightarrow> world_ok (snd (snd (PassThruReadMsgs waits channel_id messages_given count timeout w)))"
  unfolding PassThruReadMsgs_def
  by (intro guarded_world_ok api_rules, assumption?)
     (auto intro!: safe_calm calm_andthen calm_basic calm_required calm_option calm_read_messages)

lemma world_ok_WriteMsgs:
  "world_ok w \<Longrightarrow> world_ok (snd (snd (PassThruWriteMsgs now clock evs channel_id messages count timeout w)))"
  unfolding PassThruWriteMsgs_def
  by (intro guarded_world_ok api_rules) (auto intro!: safe_calm calm_write_messages)

end
