(* ===== verification/Api_Invariant.thy ===== *)
theory Api_Invariant
  imports Api_State
begin

text \<open>
  \<open>world_ok\<close> through the calls that take a channel away: how the invariant is taken apart and put together, what
  \<open>retire_channel\<close> does to it, and \<open>PassThruDisconnect\<close> and \<open>PassThruClose\<close>.
\<close>

lemma world_okD:
  assumes "world_ok w"
  shows "device_ok (w_next_handle w) (w_store w k)"
    and "1 \<le> w_next_handle w" "w_next_handle w \<le> 4294967296"
    and "registered (w_next_handle w) (w_fresh w) (w_devices w)" "registered (w_next_handle w) (w_fresh w) (w_channels w)"
    and "(i, k) \<in> set (w_devices w) \<Longrightarrow> \<not> dev_closed (w_store w k)"
    and "(i, k) \<in> set (w_channels w) \<longleftrightarrow> i \<noteq> 0 \<and> dev_channel (w_store w k) = i"
    and "(i, k) \<in> set (w_devices w) \<Longrightarrow> (i, j) \<notin> set (w_channels w)"
proof -
  note c1 = assms [unfolded world_ok_def]
  note c2 = c1 [THEN conjunct2]
  note c3 = c2 [THEN conjunct2]
  note c4 = c3 [THEN conjunct2]
  note c5 = c4 [THEN conjunct2]
  note c6 = c5 [THEN conjunct2]
  note c7 = c6 [THEN conjunct2]
  show "1 \<le> w_next_handle w" "w_next_handle w \<le> 4294967296"
    "registered (w_next_handle w) (w_fresh w) (w_devices w)" "registered (w_next_handle w) (w_fresh w) (w_channels w)"
    using c2 [THEN conjunct1] c3 [THEN conjunct1] c4 [THEN conjunct1] c5 [THEN conjunct1] by simp_all
  show "device_ok (w_next_handle w) (w_store w k)" using c1 [THEN conjunct1] by (rule spec)
  show "(i, k) \<in> set (w_channels w) \<longleftrightarrow> i \<noteq> 0 \<and> dev_channel (w_store w k) = i" using c7 [THEN conjunct1] by blast
  show "(i, k) \<in> set (w_devices w) \<Longrightarrow> \<not> dev_closed (w_store w k)" using c6 [THEN conjunct1] by fast
  have dis: "fst ` set (w_devices w) \<inter> fst ` set (w_channels w) = {}" using c7 [THEN conjunct2] .
  assume "(i, k) \<in> set (w_devices w)"
  then have "i \<in> fst ` set (w_devices w)" by force
  then have "i \<notin> fst ` set (w_channels w)" using dis by blast
  then show "(i, j) \<notin> set (w_channels w)" by force
qed

lemma world_okI:
  assumes "\<And>k. device_ok (w_next_handle w) (w_store w k)"
    and "1 \<le> w_next_handle w" "w_next_handle w \<le> 4294967296"
    and "registered (w_next_handle w) (w_fresh w) (w_devices w)" "registered (w_next_handle w) (w_fresh w) (w_channels w)"
    and "\<And>i k. (i, k) \<in> set (w_devices w) \<Longrightarrow> \<not> dev_closed (w_store w k)"
    and "\<And>i k. (i, k) \<in> set (w_channels w) \<longleftrightarrow> i \<noteq> 0 \<and> dev_channel (w_store w k) = i"
    and "\<And>i k j. (i, k) \<in> set (w_devices w) \<Longrightarrow> (i, j) \<notin> set (w_channels w)"
  shows "world_ok w"
proof -
  have "fst ` set (w_devices w) \<inter> fst ` set (w_channels w) = {}" using assms(8) by force
  moreover have "\<forall>(i, k) \<in> set (w_devices w). \<not> dev_closed (w_store w k)" using assms(6) by fast
  ultimately show ?thesis using assms(1-5,7) by (simp only: world_ok_def) blast
qed

lemma registeredD:
  assumes "registered n f m"
  shows "(i, k) \<in> set m \<Longrightarrow> 0 < unat i \<and> unat i < n \<and> k < f"
    and "(i, k) \<in> set m \<Longrightarrow> (i, l) \<in> set m \<Longrightarrow> k = l"
    and "(i, k) \<in> set m \<Longrightarrow> (j, k) \<in> set m \<Longrightarrow> i = j"
proof -
  show "(i, k) \<in> set m \<Longrightarrow> 0 < unat i \<and> unat i < n \<and> k < f" using assms by (auto simp: registered_def)
  show "(i, k) \<in> set m \<Longrightarrow> (i, l) \<in> set m \<Longrightarrow> k = l"
    using assms inj_onD [of fst "set m" "(i, k)" "(i, l)"] by (simp add: registered_def distinct_map)
  show "(i, k) \<in> set m \<Longrightarrow> (j, k) \<in> set m \<Longrightarrow> i = j"
    using assms inj_onD [of snd "set m" "(i, k)" "(j, k)"] by (simp add: registered_def distinct_map)
qed

section \<open>Retiring a channel\<close>

definition retired :: "device \<Rightarrow> device" where
  "retired d =
     d\<lparr>dev_session := set_can_receiver (dev_session d) None, dev_receiver := None, dev_filters := [], dev_periodics := [],
       dev_channel := 0\<rparr>"

lemma retire_channel_apply [effect_simps]:
  "retire_channel k w =
     (Inr (dev_untracked (w_store w k) \<or> dev_periodics (w_store w k) \<noteq> []),
      w\<lparr>w_store := (w_store w)(k := retired (w_store w k)),
        w_channels := AList.delete (dev_channel (w_store w k)) (w_channels w)\<rparr>)"
  by (simp add: retire_channel_def the_device_def install_receiver_def update_device_def retired_def effect_simps)

text \<open>\<open>idle k\<close>: the device has no channel.\<close>

definition idle :: "nat \<Rightarrow> world \<Rightarrow> bool" where
  "idle k w \<longleftrightarrow> world_ok w \<and> dev_channel (w_store w k) = 0"

lemma idle_world_ok: "idle k w \<Longrightarrow> world_ok w"
  by (simp add: idle_def)

lemma device_ok_retired: "device_ok n d \<Longrightarrow> device_ok n (retired d)"
  by (simp add: device_ok_def retired_def session_ok_def table_ids_def ses_inv_install ses_quiet_def)

lemma AList_delete_set: "set (AList.delete i xs) = {e \<in> set xs. fst e \<noteq> i}"
  by (auto simp: AList.delete_eq)

lemma registered_delete: "registered n f m \<Longrightarrow> registered n f (AList.delete i m)"
  by (auto simp: registered_def AList.delete_eq distinct_map_filter)

lemma world_ok_channel_unique:
  assumes "world_ok w" and "dev_channel (w_store w j) = dev_channel (w_store w k)" and "dev_channel (w_store w k) \<noteq> 0"
  shows "j = k"
  using registeredD(2) [OF world_okD(5) [OF assms(1)]] world_okD(7) [OF assms(1)] assms(2,3) by metis

lemma idle_retired:
  assumes "world_ok w" and "retire_channel k w = (r, w')"
  shows "idle k w'"
proof -
  let ?d = "w_store w k"
  have w': "w' = w\<lparr>w_store := (w_store w)(k := retired ?d), w_channels := AList.delete (dev_channel ?d) (w_channels w)\<rparr>"
    using assms(2) by (simp add: effect_simps)
  have c0: "dev_channel (retired ?d) = 0" "dev_closed (retired ?d) = dev_closed ?d" by (simp_all add: retired_def)
  note ok = world_okD [OF assms(1)]
  have "world_ok w'"
  proof (rule world_okI)
    show "device_ok (w_next_handle w') (w_store w' j)" for j using ok(1) device_ok_retired [OF ok(1)] by (simp add: w')
    show "\<not> dev_closed (w_store w' j)" if "(i, j) \<in> set (w_devices w')" for i j using ok(6) [of i j] that c0 by (auto simp: w')
    show "(i, j) \<in> set (w_channels w') \<longleftrightarrow> i \<noteq> 0 \<and> dev_channel (w_store w' j) = i" for i j
      using ok(7) [of i j] world_ok_channel_unique [OF assms(1), of j k] by (auto simp: w' AList_delete_set c0)
    show "(i, l) \<notin> set (w_channels w')" if "(i, j) \<in> set (w_devices w')" for i j l
      using ok(8) [of i j l] that by (simp add: w' AList_delete_set)
  qed (use ok registered_delete in \<open>simp_all add: w'\<close>)
  then show ?thesis by (simp add: idle_def w' c0)
qed

text \<open>\<open>PassThruClose\<close> marks the device closed and unregisters it before it retires the channel.\<close>

definition closed_at :: "u32 \<Rightarrow> nat \<Rightarrow> world \<Rightarrow> world" where
  "closed_at i k w =
     w\<lparr>w_store := (w_store w)(k := (w_store w k)\<lparr>dev_closed := True\<rparr>), w_devices := AList.delete i (w_devices w)\<rparr>"

lemma idle_closed:
  assumes "idle k w" and "(i, k) \<in> set (w_devices w)"
  shows "idle k (closed_at i k w)"
proof -
  have w: "world_ok w" and c0: "dev_channel (w_store w k) = 0" using assms(1) by (simp_all add: idle_def)
  note ok = world_okD [OF w]
  have d: "device_ok (w_next_handle w) ((w_store w k)\<lparr>dev_closed := True\<rparr>)"
    using ok(1) [of k] c0 by (simp add: device_ok_def session_ok_def table_ids_def)
  have "world_ok (closed_at i k w)"
  proof (rule world_okI)
    show "device_ok (w_next_handle (closed_at i k w)) (w_store (closed_at i k w) j)" for j
      using ok(1) d by (simp add: closed_at_def)
    show "\<not> dev_closed (w_store (closed_at i k w) j)" if "(i', j) \<in> set (w_devices (closed_at i k w))" for i' j
      using that ok(6) [of i' j] registeredD(3) [OF ok(4), of i k i'] assms(2) by (auto simp: closed_at_def AList_delete_set)
    show "(i', j) \<in> set (w_channels (closed_at i k w)) \<longleftrightarrow> i' \<noteq> 0 \<and> dev_channel (w_store (closed_at i k w) j) = i'" for i' j
      using ok(7) [of i' j] by (simp add: closed_at_def)
    show "(i', l) \<notin> set (w_channels (closed_at i k w))" if "(i', j) \<in> set (w_devices (closed_at i k w))" for i' j l
      using ok(8) [of i' j l] that by (simp add: closed_at_def AList_delete_set)
  qed (use ok registered_delete in \<open>simp_all add: closed_at_def\<close>)
  then show ?thesis using c0 by (simp add: idle_def closed_at_def)
qed

lemma retire_closed:
  assumes "retire_channel k w = (r, w')"
  shows "retire_channel k (closed_at i k w) = (r, closed_at i k w')"
  using assms by (auto simp: effect_simps closed_at_def retired_def fun_eq_iff intro!: world.equality)

section \<open>What a piece of code keeps besides\<close>

text \<open>
  \<open>keeping G m\<close>: the invariant holds and \<open>G\<close> of the state, before and after, exception or not. Code that is
  \<open>calm\<close> at device \<open>k\<close> keeps everything \<open>stable k\<close> does.
\<close>

abbreviation keeping :: "(world \<Rightarrow> bool) \<Rightarrow> 'a api \<Rightarrow> bool" where
  "keeping G m \<equiv> triple (\<lambda>w. world_ok w \<and> G w) m (\<lambda>_ w. world_ok w \<and> G w) (\<lambda>_ w. world_ok w \<and> G w)"

definition steady :: "nat \<Rightarrow> (world \<Rightarrow> bool) \<Rightarrow> bool" where
  "steady k G \<longleftrightarrow> (\<forall>w w'. stable k w w' \<longrightarrow> G w \<longrightarrow> G w')"

lemma steady_conj: "steady k F \<Longrightarrow> steady k G \<Longrightarrow> steady k (\<lambda>w. F w \<and> G w)"
  unfolding steady_def by blast

lemma keeping_calm:
  assumes "\<And>w0. calm k w0 m" and "steady k G"
  shows "keeping G m"
proof (rule tripleI)
  fix w assume w: "world_ok w \<and> G w"
  have i: "inside k w w" using world_ok_session w by (blast intro: inside_refl)
  obtain r w' where m: "m w = (r, w')" by fastforce
  then have "inside k w w'" using tripleD [OF assms(1) i] by (cases r) auto
  then have "world_ok w' \<and> G w'" using world_ok_inside w assms(2) unfolding steady_def inside_def by blast
  then show "case m w of (Inl e, w') \<Rightarrow> world_ok w' \<and> G w' | (Inr x, w') \<Rightarrow> world_ok w' \<and> G w'"
    using m by (auto split: sum.splits)
qed

lemma keeping_basic:
  "keeping G (ret x)" "keeping G (raise e)" "keeping G (lift r)" "keeping G (asks g)" "keeping G (throw_if b e)"
  "keeping G (the_device j)" "keeping G (required b)" "keeping G (returns y)" "keeping G (use_session k)"
  "keeping G (unsupported u)" "keeping G (rethrow err)"
  by (auto simp: the_device_def required_def returns_def use_session_def unsupported_def rethrow_def
      intro: keeps_intros split: option.splits intro!: triple_andthen [where R = "\<lambda>_ w. world_ok w \<and> G w"])

lemma keeping_andthen: "keeping G m \<Longrightarrow> (\<And>x. keeping G (f x)) \<Longrightarrow> keeping G (andthen m f)"
  by (rule triple_andthen)

lemma keeping_catch: "keeping G m \<Longrightarrow> (\<And>e. keeping G (h e)) \<Longrightarrow> keeping G (catch m h)"
  by (rule triple_catch)

lemma keeping_attempt: "keeping G m \<Longrightarrow> keeping G (attempt m)"
  by (rule triple_attempt)

lemma keeping_only_if: "(b \<Longrightarrow> keeping G m) \<Longrightarrow> keeping G (only_if b m)"
  by (rule triple_only_if)

lemma keeping_safe: "keeping G m \<Longrightarrow> triple (\<lambda>w. world_ok w \<and> G w) m (\<lambda>_. world_ok) (\<lambda>_. world_ok)"
  by (erule triple_weaken) auto

lemma world_ok_update:
  assumes "world_ok w" and "device_ok (w_next_handle w) d"
    and "dev_closed d = dev_closed (w_store w k)" and "dev_channel d = dev_channel (w_store w k)"
  shows "world_ok (w\<lparr>w_store := (w_store w)(k := d)\<rparr>)"
proof (rule world_okI)
  note ok = world_okD [OF assms(1)]
  let ?w = "w\<lparr>w_store := (w_store w)(k := d)\<rparr>"
  show "device_ok (w_next_handle ?w) (w_store ?w j)" for j using ok(1) assms(2) by simp
  show "\<not> dev_closed (w_store ?w j)" if "(i, j) \<in> set (w_devices ?w)" for i j using ok(6) [of i j] that assms(3) by auto
  show "(i, j) \<in> set (w_channels ?w) \<longleftrightarrow> i \<noteq> 0 \<and> dev_channel (w_store ?w j) = i" for i j using ok(7) [of i j] assms(4) by auto
  show "(i, l) \<notin> set (w_channels ?w)" if "(i, j) \<in> set (w_devices ?w)" for i j l using ok(8) [of i j l] that by simp
qed (use world_okD [OF assms(1)] in simp_all)

lemma keeping_update:
  assumes "\<And>w. world_ok w \<Longrightarrow> G w \<Longrightarrow> device_ok (w_next_handle w) (f (w_store w k)) \<and>
      dev_closed (f (w_store w k)) = dev_closed (w_store w k) \<and> dev_channel (f (w_store w k)) = dev_channel (w_store w k)"
    and "\<And>w. world_ok w \<Longrightarrow> G w \<Longrightarrow> H (w\<lparr>w_store := (w_store w)(k := f (w_store w k))\<rparr>)"
  shows "triple (\<lambda>w. world_ok w \<and> G w) (update_device k f) (\<lambda>_ w. world_ok w \<and> H w) E"
  unfolding update_device_def by (rule triple_modify) (use assms in \<open>auto intro: world_ok_update\<close>)

section \<open>Disconnect and close\<close>

lemma ses_close_can:
  assumes "ses_inv s" shows "ses_can (snd (ses_close s es ts)) = ses_can s"
proof -
  let ?b = "ses_apply s Close_begun"
  have b: "ses_inv ?b" "same_command s ?b" using assms by (auto intro: ses_inv_apply same_command_apply ses_inv_minimum)
  then have "same_command s (ses_run ?b es)" using ses_run_keeps [OF b(1)] same_command_trans by blast
  then show ?thesis by (simp add: ses_close_def ses_apply_def same_command_def)
qed

definition no_channel :: "nat \<Rightarrow> world \<Rightarrow> bool" where
  "no_channel k w \<longleftrightarrow> dev_channel (w_store w k) = 0"

lemma steady_no_channel: "steady k (no_channel k)"
  by (simp add: steady_def no_channel_def stable_def same_tables_def)

text \<open>Changes to the flags of a device without a channel, and to tables that only shrink.\<close>

lemma device_ok_flags:
  assumes "device_ok n d"
  shows "device_ok n (d\<lparr>dev_wire_open := b\<rparr>)" "device_ok n (d\<lparr>dev_untracked := b\<rparr>)"
    "device_ok n (d\<lparr>dev_periodics := [], dev_untracked := b\<rparr>)"
    "dev_channel d = 0 \<Longrightarrow> device_ok n (d\<lparr>dev_reopen_required := b\<rparr>)"
    "dev_channel d = 0 \<Longrightarrow> p = CAN \<or> p = ISO15765 \<Longrightarrow> device_ok n (d\<lparr>dev_protocol := p\<rparr>)"
  using assms by (auto simp: device_ok_def session_ok_def table_ids_def)

abbreviation resting :: "nat \<Rightarrow> 'a api \<Rightarrow> bool" where
  "resting k m \<equiv> keeping (no_channel k) m"

lemma resting_updates:
  "resting k (update_device k (\<lambda>d. d\<lparr>dev_wire_open := b\<rparr>))"
  "resting k (update_device k (\<lambda>d. d\<lparr>dev_reopen_required := b\<rparr>))"
  "resting k (update_device k (\<lambda>d. d\<lparr>dev_periodics := [], dev_untracked := b\<rparr>))"
  by (rule keeping_update; auto simp: no_channel_def intro: device_ok_flags world_okD(1))+

lemma resting_commands:
  "resting k (plain_command k opcode payload)" "resting k (board_command k opcode payload)"
  "resting k (accept_response (plain_command k opcode payload) allowed)"
  "resting k (accept_response (board_command k opcode payload) allowed)"
  by (rule keeping_calm [OF _ steady_no_channel]; rule calm_rules; (rule calm_rules)?)+

lemma resting_clear: "resting k (clear_periodic_table k)"
  unfolding clear_periodic_table_def by (intro keeping_andthen resting_commands resting_updates)

lemma resting_close_wire: "resting k (close_wire_channel k)"
  unfolding close_wire_channel_def by (intro keeping_andthen resting_commands resting_updates)

lemma resting_close_session: "resting k (close_session k es transport_stop)"
proof (rule tripleI)
  fix w assume w: "world_ok w \<and> no_channel k w"
  let ?d = "w_store w k"
  obtain r s where c: "ses_close (dev_session ?d) es transport_stop = (r, s)" by fastforce
  have d: "device_ok (w_next_handle w) ?d" "dev_channel ?d = 0" using w world_okD(1) by (auto simp: no_channel_def)
  have "ses_inv s" "ses_quiet s" using ses_close_keeps [of "dev_session ?d" es transport_stop] d c
    by (simp_all add: device_ok_def session_ok_def)
  moreover have "ses_can s = None"
    using ses_close_can [of "dev_session ?d" es transport_stop] c d by (simp add: device_ok_def session_ok_def)
  ultimately have "device_ok (w_next_handle w) (?d\<lparr>dev_session := s\<rparr>)"
    using d by (simp add: device_ok_def session_ok_def table_ids_def)
  with w have "world_ok (w\<lparr>w_store := (w_store w)(k := ?d\<lparr>dev_session := s\<rparr>)\<rparr>)"
    by (intro world_ok_update) simp_all
  with d show "case close_session k es transport_stop w of (Inl e, w') \<Rightarrow> world_ok w' \<and> no_channel k w'
      | (Inr x, w') \<Rightarrow> world_ok w' \<and> no_channel k w'"
    by (simp add: close_session_def c no_channel_def Let_def split: sum.splits)
qed

lemma retire_rule:
  assumes "\<And>b. resting k (f b)"
  shows "triple world_ok (andthen (retire_channel k) f) (\<lambda>_. world_ok) (\<lambda>_. world_ok)"
proof (rule triple_andthen)
  show "triple world_ok (retire_channel k) (\<lambda>_ w. world_ok w \<and> no_channel k w) (\<lambda>_. world_ok)"
  proof (rule tripleI)
    fix w assume w: "world_ok w"
    obtain r w' where m: "retire_channel k w = (Inr r, w')" by (simp add: retire_channel_apply)
    from idle_retired [OF w m] show "case retire_channel k w of (Inl e, w') \<Rightarrow> world_ok w'
        | (Inr x, w') \<Rightarrow> world_ok w' \<and> no_channel k w'"
      by (simp add: m idle_def no_channel_def)
  qed
qed (use assms in \<open>auto intro: keeping_safe\<close>)

lemma world_ok_Disconnect: "world_ok w \<Longrightarrow> world_ok (snd (snd (PassThruDisconnect channel_id w)))"
  unfolding PassThruDisconnect_def
  by (intro guarded_world_ok safe_lookup_channel safe_found retire_rule keeping_andthen keeping_attempt keeping_catch
      keeping_only_if resting_clear resting_close_wire resting_updates keeping_basic)
     (auto split: sum.splits intro!: keeping_andthen keeping_basic resting_updates)

lemma close_rule:
  assumes "\<And>b. resting k (f b)"
  shows "triple (found_device i k)
    (andthen (update_device k (\<lambda>d. d\<lparr>dev_closed := True\<rparr>)) (\<lambda>_.
     andthen (modify (\<lambda>w. w\<lparr>w_devices := AList.delete i (w_devices w)\<rparr>)) (\<lambda>_.
     andthen (retire_channel k) f))) (\<lambda>_. world_ok) (\<lambda>_. world_ok)"
proof (rule tripleI)
  fix w assume w: "found_device i k w"
  let ?m = "andthen (update_device k (\<lambda>d. d\<lparr>dev_closed := True\<rparr>)) (\<lambda>_.
     andthen (modify (\<lambda>w. w\<lparr>w_devices := AList.delete i (w_devices w)\<rparr>)) (\<lambda>_. andthen (retire_channel k) f))"
  obtain r w' where m: "retire_channel k w = (Inr r, w')" by (simp add: retire_channel_apply)
  have "world_ok w" "(i, k) \<in> set (w_devices w)" using w by (simp_all add: found_device_def)
  moreover then have "idle k w'" using idle_retired m by blast
  moreover have "w_devices w' = w_devices w" using m by (auto simp: effect_simps)
  ultimately have "idle k (closed_at i k w')" by (simp add: idle_closed)
  then have start: "world_ok (closed_at i k w') \<and> no_channel k (closed_at i k w')" by (simp add: idle_def no_channel_def)
  have "?m w = andthen (retire_channel k) f (closed_at i k w)"
    by (simp add: update_device_def effect_simps closed_at_def)
  also have "\<dots> = f r (closed_at i k w')"
    using retire_closed [OF m, of i] by (simp add: andthen_def)
  finally have e: "?m w = f r (closed_at i k w')" .
  obtain x w'' where f: "f r (closed_at i k w') = (x, w'')" by fastforce
  with tripleD [OF keeping_safe [OF assms] start] have "world_ok w''" by (cases x) auto
  then show "case ?m w of (Inl e, w') \<Rightarrow> world_ok w' | (Inr x, w') \<Rightarrow> world_ok w'" by (simp add: e f split: sum.splits)
qed

lemma world_ok_Close: "world_ok w \<Longrightarrow> world_ok (snd (snd (PassThruClose es transport_stop device_id w)))"
  unfolding PassThruClose_def
  by (intro guarded_world_ok safe_lookup_device close_rule keeping_andthen keeping_attempt
      keeping_only_if resting_clear resting_close_wire resting_updates resting_commands resting_close_session keeping_basic)

end
