(* ===== verification/Api_Tables.thy ===== *)
theory Api_Tables
  imports Api_Invariant
begin

text \<open>
  \<open>world_ok\<close> through \<open>PassThruOpen\<close> and through the calls that add to, remove from or clear the tables of a
  channel: periodic messages, filters, \<open>PassThruIoctl\<close>.
\<close>

section \<open>Open\<close>

text \<open>A handle just given out: no registry and no table holds it.\<close>

definition new_id :: "u32 \<Rightarrow> world \<Rightarrow> bool" where
  "new_id i w \<longleftrightarrow>
     0 < unat i \<and> unat i < w_next_handle w \<and> i \<notin> fst ` set (w_devices w) \<and> i \<notin> fst ` set (w_channels w) \<and>
     (\<forall>k. i \<notin> table_ids (w_store w k))"

lemma steady_new_id: "steady k (new_id i)"
proof -
  have "table_ids (w_store w' j) = table_ids (w_store w j)" if "stable k w w'" for w w' j
    using stable_tables [OF that, of j] by (simp add: same_tables_def table_ids_def)
  moreover have "w_devices w' = w_devices w" "w_channels w' = w_channels w" "w_next_handle w' = w_next_handle w"
    if "stable k w w'" for w w' using that by (simp_all add: stable_def)
  ultimately show ?thesis by (simp add: steady_def new_id_def)
qed

lemma registered_mono: "registered n f m \<Longrightarrow> n \<le> n' \<Longrightarrow> f \<le> f' \<Longrightarrow> registered n' f' m"
  by (fastforce simp: registered_def)

lemma keeping_allocate:
  assumes "\<And>w n. G w \<Longrightarrow> G (w\<lparr>w_next_handle := n\<rparr>)"
  shows "triple (\<lambda>w. world_ok w \<and> G w) allocate_handle (\<lambda>i w. world_ok w \<and> G w \<and> new_id i w) (\<lambda>_ w. world_ok w \<and> G w)"
proof (rule tripleI)
  fix w assume w: "world_ok w \<and> G w"
  note ok = world_okD [OF conjunct1 [OF w]]
  let ?n = "w_next_handle w"
  let ?w = "w\<lparr>w_next_handle := ?n + 1\<rparr>"
  show "case allocate_handle w of (Inl e, w') \<Rightarrow> world_ok w' \<and> G w' | (Inr i, w') \<Rightarrow> world_ok w' \<and> G w' \<and> new_id i w'"
  proof (cases "?n > 4294967295")
    case True
    then show ?thesis using w by (simp add: allocate_handle_def effect_simps)
  next
    case False
    then have u: "unat (of_nat ?n :: u32) = ?n" by (simp add: unat_of_nat)
    have "world_ok ?w"
    proof (rule world_okI)
      show "device_ok (w_next_handle ?w) (w_store ?w k)" for k using device_ok_mono [OF ok(1)] by simp
      show "\<not> dev_closed (w_store ?w k)" if "(i, k) \<in> set (w_devices ?w)" for i k using ok(6) that by simp
      show "(i, k) \<in> set (w_channels ?w) \<longleftrightarrow> i \<noteq> 0 \<and> dev_channel (w_store ?w k) = i" for i k using ok(7) by simp
      show "(i, j) \<notin> set (w_channels ?w)" if "(i, k) \<in> set (w_devices ?w)" for i k j using ok(8) that by simp
    qed (use ok False registered_mono [OF ok(4)] registered_mono [OF ok(5)] in simp_all)
    moreover have "new_id (of_nat ?n) ?w"
    proof -
      have "of_nat ?n \<notin> fst ` set (w_devices w)" using registeredD(1) [OF ok(4)] u by fastforce
      moreover have "of_nat ?n \<notin> fst ` set (w_channels w)" using registeredD(1) [OF ok(5)] u by fastforce
      moreover have "of_nat ?n \<notin> table_ids (w_store w k)" for k using ok(1) [of k] u by (fastforce simp: device_ok_def)
      ultimately show ?thesis using u ok(2) by (simp add: new_id_def)
    qed
    ultimately show ?thesis using False assms w by (simp add: allocate_handle_def effect_simps)
  qed
qed

text \<open>A device object no registry knows.\<close>

definition unregistered :: "nat \<Rightarrow> world \<Rightarrow> bool" where
  "unregistered k w \<longleftrightarrow>
     k < w_fresh w \<and> \<not> dev_closed (w_store w k) \<and> (\<forall>i. (i, k) \<notin> set (w_devices w))"

lemma steady_unregistered: "steady k (unregistered k)"
  by (simp add: steady_def unregistered_def stable_def same_tables_def)

lemma device_ok_new: "device_ok n (device_new session_new)"
  using ses_inv_new by (simp add: device_ok_def device_new_def session_ok_def table_ids_def session_new_def)

lemma create_device_rule: "triple world_ok create_device (\<lambda>k w. world_ok w \<and> unregistered k w) E"
proof (rule tripleI)
  fix w assume w: "world_ok w"
  note ok = world_okD [OF w]
  let ?k = "w_fresh w"
  let ?w = "w\<lparr>w_fresh := ?k + 1, w_store := (w_store w)(?k := device_new session_new)\<rparr>"
  have free: "(i, ?k) \<notin> set (w_devices w)" "(i, ?k) \<notin> set (w_channels w)" for i
    using registeredD(1) [OF ok(4), of i ?k] registeredD(1) [OF ok(5), of i ?k] by auto
  have "world_ok ?w"
  proof (rule world_okI)
    show "device_ok (w_next_handle ?w) (w_store ?w k)" for k using ok(1) device_ok_new by simp
    show "\<not> dev_closed (w_store ?w k)" if "(i, k) \<in> set (w_devices ?w)" for i k
      using ok(6) that by (simp add: device_new_def)
    show "(i, k) \<in> set (w_channels ?w) \<longleftrightarrow> i \<noteq> 0 \<and> dev_channel (w_store ?w k) = i" for i k
      using ok(7) [of i k] free by (auto simp: device_new_def)
    show "(i, j) \<notin> set (w_channels ?w)" if "(i, k) \<in> set (w_devices ?w)" for i k j using ok(8) that by simp
  qed (use ok registered_mono [OF ok(4)] registered_mono [OF ok(5)] in simp_all)
  then show "case create_device w of (Inl e, w') \<Rightarrow> E e w' | (Inr k, w') \<Rightarrow> world_ok w' \<and> unregistered k w'"
    using free by (simp add: create_device_def unregistered_def device_new_def)
qed

lemma map_emplace_new: "i \<notin> fst ` set m \<Longrightarrow> map_emplace i v m = m @ [(i, v)]"
  by (simp add: map_emplace_def map_of_eq_None_iff [symmetric])

lemma register_device_rule:
  "triple (\<lambda>w. world_ok w \<and> unregistered k w \<and> new_id i w)
     (modify (\<lambda>w. w\<lparr>w_devices := map_emplace i k (w_devices w)\<rparr>)) (\<lambda>_. world_ok) E"
proof (rule triple_modify)
  fix w assume w: "world_ok w \<and> unregistered k w \<and> new_id i w"
  note ok = world_okD [OF conjunct1 [OF w]]
  let ?w = "w\<lparr>w_devices := map_emplace i k (w_devices w)\<rparr>"
  have d: "w_devices ?w = w_devices w @ [(i, k)]" using w by (simp add: new_id_def map_emplace_new)
  show "world_ok ?w"
  proof (rule world_okI)
    show "device_ok (w_next_handle ?w) (w_store ?w j)" for j using ok(1) by simp
    show "\<not> dev_closed (w_store ?w j)" if "(i', j) \<in> set (w_devices ?w)" for i' j
      using ok(6) that w unfolding d by (auto simp: unregistered_def)
    show "(i', j) \<in> set (w_channels ?w) \<longleftrightarrow> i' \<noteq> 0 \<and> dev_channel (w_store ?w j) = i'" for i' j using ok(7) by simp
    show "(i', j) \<notin> set (w_channels ?w)" if "(i', j') \<in> set (w_devices ?w)" for i' j j'
      using ok(8) that w unfolding d by (force simp: new_id_def)
    show "registered (w_next_handle ?w) (w_fresh ?w) (w_devices ?w)"
      using ok(4) w unfolding d by (force simp: registered_def unregistered_def new_id_def)
  qed (use ok in simp_all)
qed

lemma keeping_board: "steady k G \<Longrightarrow> keeping G (board_command k opcode payload)"
  by (rule keeping_calm [OF calm_board_command])

lemma keeping_accept: "keeping G m \<Longrightarrow> keeping G (accept_response m allowed)"
  unfolding accept_response_def by (intro keeping_andthen keeping_basic)

lemma weaken_error: "triple P m Q (\<lambda>_ w. world_ok w \<and> G w) \<Longrightarrow> triple P m Q (\<lambda>_. world_ok)"
  by (erule triple_weaken) auto

lemma world_ok_Open: "world_ok w \<Longrightarrow> world_ok (snd (snd (PassThruOpen memory open_transport name id_given w)))"
proof -
  have reg: "triple (\<lambda>w. world_ok w \<and> unregistered k w)
      (andthen (accept_response (board_command k 0x109 []) Allow_none) (\<lambda>_.
       andthen allocate_handle (\<lambda>allocated.
       andthen (lift memory) (\<lambda>_.
       andthen (modify (\<lambda>w. w\<lparr>w_devices := map_emplace allocated k (w_devices w)\<rparr>)) (\<lambda>_.
       returns allocated))))) (\<lambda>_. world_ok) (\<lambda>_ w. world_ok w)" for k
    by (rule triple_andthen [OF weaken_error [OF keeping_accept [OF keeping_board [OF steady_unregistered]]]],
        rule triple_andthen [OF weaken_error [OF keeping_allocate]], simp add: unregistered_def,
        rule triple_andthen [OF weaken_error [OF keeping_basic(3)]],
        rule triple_andthen, rule register_device_rule, rule safe_basic)
  have undo: "safe (andthen (attempt (board_command k 5 [])) (\<lambda>_. raise e :: 'a api))" for k e
    by (intro safe_andthen safe_basic triple_attempt safe_calm [where k = k]) (rule calm_board_command)
  show "world_ok w \<Longrightarrow> world_ok (snd (snd (PassThruOpen memory open_transport name id_given w)))"
    unfolding PassThruOpen_def
    apply (intro guarded_world_ok safe_andthen [OF safe_basic(7)] safe_andthen [OF safe_basic(3)])
     apply (rule triple_andthen [OF create_device_rule])
     apply (rule triple_andthen [OF weaken_error [OF keeping_accept [OF keeping_board [OF steady_unregistered]]]])+
     apply (rule triple_catch [OF reg undo])
    by assumption
qed

section \<open>Tables\<close>

text \<open>The device as the handler read it, while its channel is open.\<close>

definition seen :: "nat \<Rightarrow> device \<Rightarrow> world \<Rightarrow> bool" where
  "seen k d w \<longleftrightarrow>
     dev_channel d \<noteq> 0 \<and> dev_channel (w_store w k) = dev_channel d \<and> dev_protocol (w_store w k) = dev_protocol d \<and>
     dev_receiver (w_store w k) = dev_receiver d \<and> dev_filters (w_store w k) = dev_filters d \<and>
     dev_periodics (w_store w k) = dev_periodics d"

lemma steady_seen: "steady k (seen k d)"
  by (simp add: steady_def seen_def stable_def same_tables_def)

lemma seen_rule:
  "triple (found_channel i k) (the_device k) (\<lambda>d w. world_ok w \<and> seen k d w) (\<lambda>_. world_ok)"
  unfolding the_device_def by (rule triple_asks) (auto simp: found_channel_def seen_def)

lemma found_session_rule: "triple (found_channel i k) (use_session k) (\<lambda>_. found_channel i k) (\<lambda>_. world_ok)"
  unfolding use_session_def the_device_def
  by (intro triple_andthen [where R = "\<lambda>_. found_channel i k"] triple_asks triple_throw_if) (auto simp: found_channel_def)

lemma keeping_plain: "steady k G \<Longrightarrow> keeping G (plain_command k opcode payload)"
  by (rule keeping_calm [OF calm_plain_command])

lemma keeping_table_handle: "steady k G \<Longrightarrow> keeping G (table_handle k response reason)"
proof -
  assume s: "steady k G"
  have "keeping G (uncertain_channel k)" by (rule keeping_calm [OF calm_uncertain s])
  then show ?thesis unfolding table_handle_def by (auto intro!: keeping_andthen keeping_basic triple_if)
qed

lemma device_ok_shrink:
  assumes "device_ok n d"
  shows "device_ok n (d\<lparr>dev_filters := filter P (dev_filters d)\<rparr>)"
    and "device_ok n (d\<lparr>dev_periodics := filter Q (dev_periodics d)\<rparr>)"
proof -
  let ?f = "\<lambda>e. fl_table (snd e) = table_flow_control"
  have c: "\<And>i. i \<in> table_ids d \<Longrightarrow> 0 < unat i \<and> unat i < n" using assms by (simp add: device_ok_def)
  have "table_ids (d\<lparr>dev_filters := filter P (dev_filters d)\<rparr>) \<subseteq> table_ids d"
    and "table_ids (d\<lparr>dev_periodics := filter Q (dev_periodics d)\<rparr>) \<subseteq> table_ids d" by (auto simp: table_ids_def)
  then have t: "\<forall>i \<in> table_ids (d\<lparr>dev_filters := filter P (dev_filters d)\<rparr>). 0 < unat i \<and> unat i < n"
    "\<forall>i \<in> table_ids (d\<lparr>dev_periodics := filter Q (dev_periodics d)\<rparr>). 0 < unat i \<and> unat i < n" using c by blast+
  have "filter ?f (filter P (dev_filters d)) = filter P (filter ?f (dev_filters d))" by (simp add: filter_filter conj_commute)
  then have l: "length (filter ?f (filter P (dev_filters d))) \<le> length (filter ?f (dev_filters d))"
    "length (filter Q (dev_periodics d)) \<le> length (dev_periodics d)" by (simp_all only: length_filter_le)
  have "length (filter ?f (dev_filters d)) \<le> 64" "length (dev_periodics d) \<le> 10" using assms by (simp_all add: device_ok_def)
  with l have l: "length (filter ?f (filter P (dev_filters d))) \<le> 64" "length (filter Q (dev_periodics d)) \<le> 10" by linarith+
  show "device_ok n (d\<lparr>dev_filters := filter P (dev_filters d)\<rparr>)"
    using assms t(1) l(1) by (simp add: device_ok_def session_ok_def distinct_map_filter del: filter_filter)
  show "device_ok n (d\<lparr>dev_periodics := filter Q (dev_periodics d)\<rparr>)"
    using assms t(2) l(2) by (simp add: device_ok_def session_ok_def distinct_map_filter)
qed

lemma shrink_rule:
  "safe (update_device k (\<lambda>d. d\<lparr>dev_filters := filter P (dev_filters d)\<rparr>))"
  "safe (update_device k (\<lambda>d. d\<lparr>dev_periodics := filter Q (dev_periodics d)\<rparr>))"
  "safe (update_device k (\<lambda>d. d\<lparr>dev_filters := AList.delete i (dev_filters d)\<rparr>))"
  "safe (update_device k (\<lambda>d. d\<lparr>dev_periodics := AList.delete i (dev_periodics d)\<rparr>))"
  unfolding update_device_def AList.delete_eq
  by (rule triple_modify, rule world_ok_update; simp add: device_ok_shrink world_okD(1))+

lemma safe_commands:
  "safe (plain_command k opcode payload)" "safe (board_command k opcode payload)" "safe (get_value k selector)"
  "safe (accept_response (plain_command k opcode payload) allowed)" "safe (uncertain_channel k)"
  by (rule safe_calm, rule calm_rules; (rule calm_rules)?)+

lemma safe_option: "(\<And>x. safe (f x)) \<Longrightarrow> safe m \<Longrightarrow> safe (case v of None \<Rightarrow> m | Some x \<Rightarrow> f x)"
  by (cases v) simp_all

lemma safe_if: "safe m \<Longrightarrow> safe n \<Longrightarrow> safe (if b then m else n)"
  by simp

lemma safe_only_if: "safe m \<Longrightarrow> safe (only_if b m)"
  by (rule triple_only_if)

lemma world_ok_StopPeriodic: "world_ok w \<Longrightarrow> world_ok (snd (snd (PassThruStopPeriodicMsg channel_id msg_id w)))"
  unfolding PassThruStopPeriodicMsg_def
  by (intro guarded_world_ok safe_lookup_channel safe_found safe_andthen safe_basic safe_option safe_commands shrink_rule)

lemma world_ok_StopFilter: "world_ok w \<Longrightarrow> world_ok (snd (snd (PassThruStopMsgFilter channel_id msg_id w)))"
  unfolding PassThruStopMsgFilter_def
  by (intro guarded_world_ok safe_lookup_channel safe_found safe_andthen safe_basic safe_option safe_commands shrink_rule)

lemma world_ok_Voltage: "world_ok w \<Longrightarrow> world_ok (snd (snd (PassThruSetProgrammingVoltage device_id w)))"
  unfolding PassThruSetProgrammingVoltage_def by (intro guarded_world_ok safe_lookup_device safe_found safe_basic)

lemma world_ok_ReadVersion: "world_ok w \<Longrightarrow> world_ok (snd (snd (PassThruReadVersion device_id f d a w)))"
  unfolding PassThruReadVersion_def
  by (intro guarded_world_ok safe_lookup_device safe_found safe_andthen safe_basic safe_commands)

lemma world_ok_GetLastError: "world_ok w \<Longrightarrow> world_ok (snd (snd (PassThruGetLastError given w)))"
  by (simp add: PassThruGetLastError_def)

lemma device_ok_add_periodic:
  assumes "device_ok n d" and "length (dev_periodics d) < 10" and "dev_channel d \<noteq> 0"
    and "0 < unat i" "unat i < n" "i \<notin> table_ids d"
  shows "device_ok n (d\<lparr>dev_periodics := map_emplace i h (dev_periodics d)\<rparr>)"
proof -
  have e: "map_emplace i h (dev_periodics d) = dev_periodics d @ [(i, h)]"
    using assms(6) by (intro map_emplace_new) (simp add: table_ids_def)
  have "table_ids (d\<lparr>dev_periodics := dev_periodics d @ [(i, h)]\<rparr>) = insert i (table_ids d)"
    by (auto simp: table_ids_def)
  then show ?thesis unfolding e using assms by (simp add: device_ok_def session_ok_def table_ids_def)
qed

lemma device_ok_add_filter:
  assumes "device_ok n d" and "dev_channel d \<noteq> 0" and "0 < unat i" "unat i < n" "i \<notin> table_ids d"
    and "fl_table f = table_flow_control \<Longrightarrow> length (filter (\<lambda>e. fl_table (snd e) = table_flow_control) (dev_filters d)) < 64"
  shows "device_ok n (d\<lparr>dev_filters := map_emplace i f (dev_filters d)\<rparr>)"
proof -
  have e: "map_emplace i f (dev_filters d) = dev_filters d @ [(i, f)]"
    using assms(5) by (intro map_emplace_new) (simp add: table_ids_def)
  have "table_ids (d\<lparr>dev_filters := dev_filters d @ [(i, f)]\<rparr>) = insert i (table_ids d)"
    by (auto simp: table_ids_def)
  then show ?thesis unfolding e using assms by (auto simp: device_ok_def session_ok_def table_ids_def)
qed

lemma unsupported_rule: "triple (\<lambda>w. world_ok w \<and> G w) (unsupported u) Q (\<lambda>_. world_ok)"
  unfolding unsupported_def by (rule triple_raise) simp

lemma lift_rule:
  "(\<And>x. r = Inr x \<Longrightarrow> triple (\<lambda>w. world_ok w \<and> G w) (f x) Q (\<lambda>_. world_ok)) \<Longrightarrow>
   triple (\<lambda>w. world_ok w \<and> G w) (andthen (lift r) f) Q (\<lambda>_. world_ok)"
  by (cases r) (auto simp: triple_def effect_simps)

lemma throw_rule:
  "(\<not> b \<Longrightarrow> triple (\<lambda>w. world_ok w \<and> G w) (f ()) Q (\<lambda>_. world_ok)) \<Longrightarrow>
   triple (\<lambda>w. world_ok w \<and> G w) (andthen (throw_if b e) f) Q (\<lambda>_. world_ok)"
  by (cases b) (auto simp: triple_def effect_simps)

lemma only_if_unsupported_rule:
  "(\<not> b \<Longrightarrow> triple (\<lambda>w. world_ok w \<and> G w) (f ()) Q (\<lambda>_. world_ok)) \<Longrightarrow>
   triple (\<lambda>w. world_ok w \<and> G w) (andthen (only_if b (unsupported u)) f) Q (\<lambda>_. world_ok)"
  by (cases b) (auto simp: triple_def effect_simps only_if_def unsupported_def andthen_def)

lemma keeping_rule:
  "keeping G m \<Longrightarrow> (\<And>x. triple (\<lambda>w. world_ok w \<and> G w) (f x) Q (\<lambda>_. world_ok)) \<Longrightarrow>
   triple (\<lambda>w. world_ok w \<and> G w) (andthen m f) Q (\<lambda>_. world_ok)"
  by (rule triple_andthen [OF weaken_error])

lemma allocate_rule:
  "(\<And>w n. G w \<Longrightarrow> G (w\<lparr>w_next_handle := n\<rparr>)) \<Longrightarrow>
   (\<And>i. triple (\<lambda>w. world_ok w \<and> G w \<and> new_id i w) (f i) Q (\<lambda>_. world_ok)) \<Longrightarrow>
   triple (\<lambda>w. world_ok w \<and> G w) (andthen allocate_handle f) Q (\<lambda>_. world_ok)"
  by (rule triple_andthen [OF weaken_error [OF keeping_allocate]])

lemmas steady_table = steady_conj [OF steady_seen steady_new_id]

lemma seen_next [simp]: "seen k d (w\<lparr>w_next_handle := n\<rparr>) = seen k d w"
  by (simp add: seen_def)

lemma keeping_untracked:
  "keeping (\<lambda>w. seen k d w \<and> new_id i w) (update_device k (\<lambda>d. d\<lparr>dev_untracked := b\<rparr>))"
proof -
  have "new_id i w \<Longrightarrow> new_id i (w\<lparr>w_store := (w_store w)(k := (w_store w k)\<lparr>dev_untracked := b\<rparr>)\<rparr>)" for w
    by (auto simp: new_id_def table_ids_def)
  then show ?thesis
    by (intro keeping_update) (simp_all add: world_okD(1) device_ok_flags seen_def)
qed

lemma add_periodic_rule:
  assumes "length (dev_periodics state) < 10"
  shows "triple (\<lambda>w. world_ok w \<and> seen k state w \<and> new_id i w)
    (update_device k (\<lambda>d. d\<lparr>dev_periodics := map_emplace i h (dev_periodics d)\<rparr>)) (\<lambda>_. world_ok) E"
  unfolding update_device_def
proof (rule triple_modify)
  fix w assume w: "world_ok w \<and> seen k state w \<and> new_id i w"
  have "device_ok (w_next_handle w) (let d = w_store w k in d\<lparr>dev_periodics := map_emplace i h (dev_periodics d)\<rparr>)"
    unfolding Let_def by (rule device_ok_add_periodic) (use w assms in \<open>auto simp: seen_def new_id_def intro: world_okD(1)\<close>)
  then show "world_ok (w\<lparr>w_store := (w_store w)(k := (w_store w k)\<lparr>dev_periodics := map_emplace i h (dev_periodics (w_store w k))\<rparr>)\<rparr>)"
    using w by (intro world_ok_update) (simp_all add: Let_def)
qed

lemma add_filter_rule:
  assumes "fl_table f = table_flow_control \<Longrightarrow> length (filter (\<lambda>e. fl_table (snd e) = table_flow_control) (dev_filters state)) < 64"
  shows "triple (\<lambda>w. world_ok w \<and> seen k state w \<and> new_id i w)
    (update_device k (\<lambda>d. d\<lparr>dev_filters := map_emplace i f (dev_filters d)\<rparr>)) (\<lambda>_. world_ok) E"
  unfolding update_device_def
proof (rule triple_modify)
  fix w assume w: "world_ok w \<and> seen k state w \<and> new_id i w"
  have "device_ok (w_next_handle w) (let d = w_store w k in d\<lparr>dev_filters := map_emplace i f (dev_filters d)\<rparr>)"
    unfolding Let_def by (rule device_ok_add_filter) (use w assms in \<open>auto simp: seen_def new_id_def intro: world_okD(1)\<close>)
  then show "world_ok (w\<lparr>w_store := (w_store w)(k := (w_store w k)\<lparr>dev_filters := map_emplace i f (dev_filters (w_store w k))\<rparr>)\<rparr>)"
    using w by (intro world_ok_update) (simp_all add: Let_def)
qed

lemma safe_untracked: "safe (update_device k (\<lambda>d. d\<lparr>dev_untracked := b\<rparr>))"
  unfolding update_device_def by (rule triple_modify, rule world_ok_update) (simp_all add: device_ok_flags world_okD(1))

lemma remember_rule:
  assumes "triple (\<lambda>w. world_ok w \<and> G w) (update_device k f) (\<lambda>_. world_ok) (\<lambda>_. world_ok)" and "safe removed"
  shows "triple (\<lambda>w. world_ok w \<and> G w) (remember_entry memory k table handle f removed) (\<lambda>_. world_ok) (\<lambda>_. world_ok)"
  unfolding remember_entry_def
proof (rule triple_catch [where R = "\<lambda>_. world_ok"])
  show "triple (\<lambda>w. world_ok w \<and> G w) (andthen (lift memory) (\<lambda>_. update_device k f)) (\<lambda>_. world_ok) (\<lambda>_. world_ok)"
    by (rule lift_rule) (rule assms(1))
  fix e
  have "safe (case r of Inl _ \<Rightarrow> uncertain_channel k | Inr _ \<Rightarrow> ret ())" for r :: "exn + unit"
    by (cases r) (simp_all add: safe_commands safe_basic)
  then show "safe (andthen (attempt (andthen (lift (remove_entry table handle)) (\<lambda>payload.
          andthen (accept_response (plain_command k 0x0e payload) Allow_none) (\<lambda>_. removed)))) (\<lambda>r.
       andthen (case r of Inl _ \<Rightarrow> uncertain_channel k | Inr _ \<Rightarrow> ret ()) (\<lambda>_. raise e)))"
    by (intro safe_andthen triple_attempt safe_basic safe_commands assms(2))
qed

lemma world_ok_StartPeriodic:
  "world_ok w \<Longrightarrow> world_ok (snd (snd (PassThruStartPeriodicMsg memory channel_id message id_given interval w)))"
  unfolding PassThruStartPeriodicMsg_def
  apply (intro guarded_world_ok safe_andthen [OF safe_basic(7)] safe_lookup_channel triple_andthen [OF found_session_rule]
      triple_andthen [OF seen_rule] only_if_unsupported_rule lift_rule throw_rule allocate_rule)
   apply simp
  apply (intro keeping_rule [OF keeping_untracked] keeping_rule [OF keeping_plain [OF steady_table]]
      keeping_rule [OF keeping_catch] keeping_rule [OF keeping_table_handle [OF steady_table]] keeping_basic
      keeping_andthen keeping_untracked triple_andthen [OF remember_rule] add_periodic_rule safe_andthen safe_untracked safe_basic)
  by simp

lemma filter_payload_limit:
  assumes "filter_payload state type msk pattern flow = Inr payload"
  shows "filter_table state type = table_flow_control \<longrightarrow>
    length (filter (\<lambda>e. fl_table (snd e) = table_flow_control) (dev_filters state)) < 64"
  using assms by (auto simp: filter_payload_def filter_table_def split: if_splits option.splits)

lemma world_ok_StartFilter:
  "world_ok w \<Longrightarrow> world_ok (snd (snd (PassThruStartMsgFilter memory channel_id type msk pattern flow id_given w)))"
  unfolding PassThruStartMsgFilter_def
  apply (intro guarded_world_ok safe_andthen [OF safe_basic(7)] safe_lookup_channel triple_andthen [OF found_session_rule]
      triple_andthen [OF seen_rule] lift_rule allocate_rule)
   apply simp
  apply (intro keeping_rule [OF keeping_plain [OF steady_table]] keeping_rule [OF keeping_basic(3)]
      keeping_rule [OF keeping_table_handle [OF steady_table]] triple_andthen [OF remember_rule] add_filter_rule safe_basic)
  using filter_payload_limit by simp

lemma safe_on_receiver:
  assumes "\<And>r. rx_inv r \<Longrightarrow> rx_inv (f r)" and "\<And>r. rx_halted r \<Longrightarrow> rx_halted (f r)"
    and "\<And>r. rx_protocol (f r) = rx_protocol r"
  shows "safe (on_receiver k h f)"
  by (rule safe_calm, rule inside_on_receiver) (use assms in auto)

lemma receiver_updates:
  "safe (on_receiver k h forget_transmits)" "safe (on_receiver k h flush_receive)" "safe (on_receiver k h (\<lambda>r. set_loopback r b))"
proof -
  show "safe (on_receiver k h forget_transmits)"
    by (rule safe_on_receiver) (erule rx_inv_forget_transmits, simp_all add: rx_halted_def forget_transmits_def)
  show "safe (on_receiver k h flush_receive)"
    by (rule safe_on_receiver) (erule rx_inv_flush, simp_all add: rx_halted_def flush_receive_def)
  show "safe (on_receiver k h (\<lambda>r. set_loopback r b))"
    by (rule safe_on_receiver) (simp add: rx_inv_def set_loopback_def, simp_all add: rx_halted_def set_loopback_def)
qed

lemma safe_with_receiver: "(\<And>h. safe (on_receiver k h f)) \<Longrightarrow> safe (with_receiver k receiver f)"
  by (simp add: with_receiver_def safe_basic split: option.splits)

lemma safe_clear_periodics: "safe (clear_periodic_table k)"
  unfolding clear_periodic_table_def
proof (intro safe_andthen safe_commands)
  show "safe (update_device k (\<lambda>d. d\<lparr>dev_periodics := [], dev_untracked := False\<rparr>))"
    unfolding update_device_def by (rule triple_modify, rule world_ok_update) (simp_all add: device_ok_flags world_okD(1))
qed

lemma safe_clear_filters: "safe (clear_filter_table k table)"
  unfolding clear_filter_table_def by (intro safe_andthen safe_basic safe_only_if safe_commands shrink_rule)

lemma safe_channel_ioctl: "safe (channel_ioctl channel_id ioctl_id)"
  unfolding channel_ioctl_def
  by (intro safe_lookup_channel safe_found safe_andthen safe_basic safe_if safe_commands safe_with_receiver receiver_updates
      safe_clear_filters safe_only_if safe_clear_periodics)

lemma safe_config_one: "safe (config_one k set_values parameter value)"
  unfolding config_one_def
  by (intro safe_andthen safe_basic safe_if safe_option safe_commands receiver_updates)

lemma safe_config_all: "safe (config_all k set_values items)"
proof (induction items)
  case Nil
  show ?case by (simp add: safe_basic)
next
  case (Cons item items)
  obtain p v where [simp]: "item = (p, v)" by fastforce
  show ?case
    by (auto intro!: safe_andthen triple_attempt safe_config_one safe_basic Cons.IH split: sum.split prod.split)
qed

lemma safe_config_ioctl: "safe (config_ioctl channel_id ioctl_id input output_given)"
  unfolding config_ioctl_def Let_def
  by (intro safe_lookup_channel safe_found safe_andthen safe_basic safe_only_if safe_config_all)

lemma world_ok_Ioctl: "world_ok w \<Longrightarrow> world_ok (snd (snd (PassThruIoctl handle ioctl_id input output_given w)))"
  unfolding PassThruIoctl_def
  by (intro guarded_world_ok safe_lookup_device safe_found safe_andthen safe_basic safe_if safe_commands
      safe_channel_ioctl safe_config_ioctl) (auto intro: safe_basic)

end
