(* ===== verification/Api_Connect.thy ===== *)
theory Api_Connect
  imports Api_Tables
begin

text \<open>
  \<open>world_ok\<close> through \<open>PassThruConnect\<close>, which attaches the new receiver to the session before the device has it,
  and takes it off again when the second command fails.
\<close>

section \<open>Connect\<close>

lemma session_command_effect:
  assumes "callback_ok known" and "callback_receivers known"
    and "ses_inv (dev_session (w_store w k))" and "ses_quiet (dev_session (w_store w k))"
    and "session_command k opcode payload timeout destination chan known w = (r, w')"
  shows "\<exists>s. w' = w\<lparr>w_store := (w_store w)(k := (w_store w k)\<lparr>dev_session := s\<rparr>), w_env := tl (w_env w)\<rparr> \<and>
    ses_inv s \<and> ses_quiet s \<and> keeps_receivers (dev_session (w_store w k)) s"
proof -
  let ?d = "w_store w k"
  obtain x s where c: "ses_command (next_env w) opcode payload timeout destination chan known (dev_session ?d) = (x, s)"
    by fastforce
  have "keeps_receivers (dev_session ?d) s" using keeps_receivers_command [OF assms(3,4,1,2), of "next_env w"] c by (metis snd_conv)
  moreover have "ses_inv s" "ses_quiet s" using ses_command_keeps [OF assms(3,4,1) c] by simp_all
  ultimately show ?thesis using assms(5) by (auto simp: session_command_def c Let_def)
qed

text \<open>
  Between the two commands of \<open>PassThruConnect\<close> the receiver is attached to the session and not yet to the device.
  \<open>ready k h c\<close>: without the session's receiver \<open>c\<close> the state would be as between calls. \<open>connecting\<close>: and no step
  has failed.
\<close>

definition detach :: "nat \<Rightarrow> world \<Rightarrow> world" where
  "detach k w = (let d = w_store w k in
     w\<lparr>w_store := (w_store w)(k := d\<lparr>dev_session := (dev_session d)\<lparr>ses_can := None\<rparr>\<rparr>)\<rparr>)"

definition ready :: "nat \<Rightarrow> nat \<Rightarrow> nat option \<Rightarrow> world \<Rightarrow> bool" where
  "ready k h c w \<longleftrightarrow>
     world_ok (detach k w) \<and> dev_channel (w_store w k) = 0 \<and> ses_inv (dev_session (w_store w k)) \<and>
     ses_can (dev_session (w_store w k)) = c \<and>
     rx_protocol (ses_receivers (dev_session (w_store w k)) h) = dev_protocol (w_store w k)"

definition connecting :: "nat \<Rightarrow> nat \<Rightarrow> u32 \<Rightarrow> nat option \<Rightarrow> world \<Rightarrow> bool" where
  "connecting k h i c w \<longleftrightarrow>
     ready k h c w \<and> \<not> dev_reopen_required (w_store w k) \<and> \<not> dev_closed (w_store w k) \<and> k < w_fresh w \<and> new_id i w"

lemma detach_same: "ses_can (dev_session (w_store w k)) = None \<Longrightarrow> detach k w = w"
  by (simp add: detach_def Let_def fun_upd_idem)

lemma ready_none: "ready k h None w \<Longrightarrow> world_ok w \<and> no_channel k w"
proof -
  assume r: "ready k h None w"
  then have "detach k w = w" by (simp add: ready_def detach_same)
  with r show ?thesis by (simp add: ready_def no_channel_def)
qed

lemma ready_parts:
  assumes "ready k h c w"
  shows "dev_receiver (w_store w k) = None" and "ses_quiet (dev_session (w_store w k))"
    and "device_ok (w_next_handle w) ((w_store w k)\<lparr>dev_session := (dev_session (w_store w k))\<lparr>ses_can := None\<rparr>\<rparr>)"
proof -
  have "world_ok (detach k w)" using assms by (simp add: ready_def)
  from world_okD(1) [OF this, of k]
  show d: "device_ok (w_next_handle w) ((w_store w k)\<lparr>dev_session := (dev_session (w_store w k))\<lparr>ses_can := None\<rparr>\<rparr>)"
    by (simp add: detach_def Let_def)
  then show "dev_receiver (w_store w k) = None" "ses_quiet (dev_session (w_store w k))"
    using assms by (simp_all add: device_ok_def session_ok_def ready_def ses_quiet_def ses_usable_def)
qed

lemma ready_update:
  assumes "ready k h c w" and "ses_inv s" and "ses_quiet s" and "ses_can s = c'"
    and "dev_closed d = dev_closed (w_store w k)" and "dev_channel d = 0" and "dev_receiver d = None"
    and "dev_filters d = dev_filters (w_store w k)" and "dev_periodics d = dev_periodics (w_store w k)"
    and "dev_session d = s" and "dev_protocol d = dev_protocol (w_store w k)" and "rx_protocol (ses_receivers s h) = dev_protocol d"
  shows "ready k h c' (w\<lparr>w_store := (w_store w)(k := d)\<rparr>)"
proof -
  have ok: "world_ok (detach k w)" using assms(1) by (simp add: ready_def)
  have "device_ok (w_next_handle w) (d\<lparr>dev_session := s\<lparr>ses_can := None\<rparr>\<rparr>)"
    using ready_parts(3) [OF assms(1)] assms ses_inv_base
    by (simp add: device_ok_def session_ok_def table_ids_def ready_def ses_quiet_def ses_usable_def ses_inv_def)
  with ok have "world_ok ((detach k w)\<lparr>w_store := (w_store (detach k w))(k := d\<lparr>dev_session := s\<lparr>ses_can := None\<rparr>\<rparr>)\<rparr>)"
    using assms(1,5,6) by (intro world_ok_update) (simp_all add: detach_def Let_def ready_def)
  then have "world_ok (detach k (w\<lparr>w_store := (w_store w)(k := d)\<rparr>))"
    using assms(10) by (simp add: detach_def Let_def)
  then show ?thesis using assms by (simp add: ready_def)
qed

lemma detach_env: "detach k (w\<lparr>w_env := e\<rparr>) = (detach k w)\<lparr>w_env := e\<rparr>"
  by (simp add: detach_def Let_def)

lemma world_ok_env [simp]: "world_ok (w\<lparr>w_env := e\<rparr>) = world_ok w"
  by (simp add: world_ok_def)

lemma ready_env [simp]: "ready k h c (w\<lparr>w_env := e\<rparr>) = ready k h c w"
  by (simp add: ready_def detach_env)

lemma new_id_session:
  assumes "new_id i w" and "dev_filters d = dev_filters (w_store w k)" and "dev_periodics d = dev_periodics (w_store w k)"
  shows "new_id i (w\<lparr>w_store := (w_store w)(k := d)\<rparr>)"
  using assms by (auto simp: new_id_def table_ids_def)

lemma connecting_command:
  "triple (connecting k h i c) (plain_command k opcode payload) (\<lambda>_. connecting k h i c) (\<lambda>_. ready k h c)"
proof (rule tripleI)
  fix w assume w: "connecting k h i c w"
  let ?d = "w_store w k"
  have r: "ready k h c w" using w by (simp add: connecting_def)
  have si: "ses_inv (dev_session ?d)" using r by (simp add: ready_def)
  obtain x w1 where c: "session_command k opcode payload 10000 (channel_node (dev_protocol ?d) board_node) 0 None w = (x, w1)"
    by fastforce
  from session_command_effect [OF callback_none si ready_parts(2) [OF r] c] obtain s where
    w1: "w1 = w\<lparr>w_store := (w_store w)(k := ?d\<lparr>dev_session := s\<rparr>), w_env := tl (w_env w)\<rparr>"
    and s: "ses_inv s" "ses_quiet s" "keeps_receivers (dev_session ?d) s" by blast
  have c': "ses_can s = c" "rx_protocol (ses_receivers s h) = dev_protocol ?d"
    using s(3) r by (simp_all add: keeps_receivers_def ready_def)
  have d0: "dev_channel ?d = 0" "dev_receiver ?d = None" using r ready_parts(1) by (auto simp: ready_def)
  have "ready k h c (w\<lparr>w_store := (w_store w)(k := ?d\<lparr>dev_session := s\<rparr>)\<rparr>)"
    by (rule ready_update [OF r s(1,2)]) (use c' d0 in simp_all)
  then have r1: "ready k h c w1" unfolding w1 using ready_env by simp
  have o1: "connecting k h i c w1"
    using w r1 new_id_session [of i w "?d\<lparr>dev_session := s\<rparr>" k] by (simp add: connecting_def w1) (simp add: new_id_def)
  have "ready k h c (w1\<lparr>w_store := (w_store w1)(k := (w_store w1 k)\<lparr>dev_reopen_required := True\<rparr>)\<rparr>)"
    by (rule ready_update [OF r1 s(1,2)]) (use c' d0 in \<open>simp_all add: w1\<close>)
  then have "case uncertain_channel k w1 of (Inl e, w') \<Rightarrow> ready k h c w' | (Inr x, w') \<Rightarrow> ready k h c w'"
    using d0 by (simp add: uncertain_channel_def update_device_def the_device_def effect_simps w1)
  then show "case plain_command k opcode payload w of (Inl e, w') \<Rightarrow> ready k h c w' | (Inr x, w') \<Rightarrow> connecting k h i c w'"
    using o1 r1 c
    by (cases x) (auto simp: plain_command_def channel_command_def the_device_def effect_simps catch_def andthen_def only_if_def
        split: prod.splits sum.splits)
qed

lemma connect_checks_ok:
  assumes "connect_checks d protocol flags baud = Inr x"
  shows "(ucast protocol = CAN \<or> ucast protocol = ISO15765) \<and> dev_channel d = 0 \<and> \<not> dev_reopen_required d"
  using assms by (auto simp: connect_checks_def split: if_splits)

definition unconnected :: "nat \<Rightarrow> world \<Rightarrow> bool" where
  "unconnected k w \<longleftrightarrow>
     dev_channel (w_store w k) = 0 \<and> \<not> dev_reopen_required (w_store w k) \<and> \<not> dev_closed (w_store w k) \<and> k < w_fresh w"

text \<open>The receiver is created, and the protocol set.\<close>

lemma create_receiver_rule:
  assumes "protocol = CAN \<or> protocol = ISO15765"
    and "\<And>h. triple (connecting k h i None) (f h) Q (\<lambda>_. world_ok)"
  shows "triple (\<lambda>w. world_ok w \<and> unconnected k w \<and> new_id i w)
    (andthen (create_receiver k protocol) (\<lambda>h. andthen (update_device k (\<lambda>d. d\<lparr>dev_protocol := protocol\<rparr>)) (\<lambda>_. f h)))
    Q (\<lambda>_. world_ok)"
proof (rule tripleI)
  fix w assume w: "world_ok w \<and> unconnected k w \<and> new_id i w"
  let ?d = "w_store w k" and ?h = "w_objects w"
  let ?s = "(dev_session ?d)\<lparr>ses_receivers := (ses_receivers (dev_session ?d))(?h := rx_new protocol)\<rparr>"
  let ?w = "w\<lparr>w_objects := ?h + 1, w_store := (w_store w)(k := ?d\<lparr>dev_session := ?s, dev_protocol := protocol\<rparr>)\<rparr>"
  let ?m = "andthen (create_receiver k protocol) (\<lambda>h. andthen (update_device k (\<lambda>d. d\<lparr>dev_protocol := protocol\<rparr>)) (\<lambda>_. f h))"
  have e: "?m w = f ?h ?w"
    by (simp add: create_receiver_def on_receiver_def update_device_def andthen_def effect_simps Let_def)
  have d: "device_ok (w_next_handle w) ?d" and c0: "dev_channel ?d = 0"
    using w world_okD(1) by (auto simp: unconnected_def)
  have can: "ses_can (dev_session ?d) = None" and inv: "ses_inv (dev_session ?d)" and q: "ses_quiet (dev_session ?d)"
    using d c0 by (auto simp: device_ok_def session_ok_def)
  have si: "ses_inv ?s"
    using can ses_inv_base [OF inv] rx_inv_new by (simp add: ses_inv_def ses_base_def minimum_ok_def)
  have "device_ok (w_next_handle w) (?d\<lparr>dev_session := ?s, dev_protocol := protocol\<rparr>)"
    using d c0 si can q assms(1)
    by (simp add: device_ok_def session_ok_def table_ids_def ses_quiet_def ses_usable_def)
  then have "world_ok (w\<lparr>w_store := (w_store w)(k := ?d\<lparr>dev_session := ?s, dev_protocol := protocol\<rparr>)\<rparr>)"
    using w by (intro world_ok_update) simp_all
  then have ok: "world_ok ?w" by (simp add: world_ok_def)
  have "detach k ?w = ?w" using can by (intro detach_same) simp
  then have "ready k ?h None ?w" using ok c0 can si by (simp add: ready_def rx_new_def)
  moreover have "new_id i ?w" using w by (auto simp: new_id_def table_ids_def)
  ultimately have o: "connecting k ?h i None ?w" using w by (simp add: connecting_def unconnected_def)
  obtain x w' where m: "f ?h ?w = (x, w')" by fastforce
  from tripleD [OF assms(2) o] m
  show "case ?m w of (Inl e, w') \<Rightarrow> world_ok w' | (Inr x, w') \<Rightarrow> Q x w'" unfolding e by (cases x) auto
qed

lemma connecting_flag:
  "triple (connecting k h i c) (update_device k (\<lambda>d. d\<lparr>dev_wire_open := b\<rparr>)) (\<lambda>_. connecting k h i c) E"
  unfolding update_device_def
proof (rule triple_modify)
  fix w assume w: "connecting k h i c w"
  then have r: "ready k h c w" by (simp add: connecting_def)
  have "ready k h c (w\<lparr>w_store := (w_store w)(k := (w_store w k)\<lparr>dev_wire_open := b\<rparr>)\<rparr>)"
    by (rule ready_update [OF r _ ready_parts(2) [OF r]]) (use r ready_parts(1) [OF r] in \<open>simp_all add: ready_def\<close>)
  then show "connecting k h i c (w\<lparr>w_store := (w_store w)(k := (w_store w k)\<lparr>dev_wire_open := b\<rparr>)\<rparr>)"
    using w new_id_session by (simp add: connecting_def)
qed

lemma connecting_lift: "triple (connecting k h i c) (lift r) (\<lambda>_. connecting k h i c) (\<lambda>_. ready k h c)"
  by (rule triple_lift) (simp_all add: connecting_def)

lemma ses_quiet_install: "ses_quiet s \<Longrightarrow> ses_quiet (set_can_receiver s receiver)"
  by (simp add: ses_quiet_def)

lemma set_can_receiver_protocol [simp]:
  "rx_protocol (ses_receivers (set_can_receiver s receiver) h) = rx_protocol (ses_receivers s h)"
  by (simp add: set_can_receiver_def Let_def)

lemma ready_install:
  assumes "ready k h c w"
  shows "ready k h c' (w\<lparr>w_store := (w_store w)(k := (w_store w k)\<lparr>dev_session := set_can_receiver (dev_session (w_store w k)) c'\<rparr>)\<rparr>)"
  by (rule ready_update [OF assms ses_inv_install ses_quiet_install [OF ready_parts(2) [OF assms]]])
     (use assms ready_parts(1) [OF assms] in \<open>simp_all add: ready_def\<close>)

lemma connecting_install:
  "triple (connecting k h i c) (install_receiver k c') (\<lambda>_. connecting k h i c') E"
  unfolding install_receiver_def update_device_def
proof (rule triple_modify)
  fix w assume w: "connecting k h i c w"
  then have "ready k h c w" by (simp add: connecting_def)
  from ready_install [OF this, of c'] show "connecting k h i c'
      (w\<lparr>w_store := (w_store w)(k := (w_store w k)\<lparr>dev_session := set_can_receiver (dev_session (w_store w k)) c'\<rparr>)\<rparr>)"
    using w new_id_session by (simp add: connecting_def)
qed

lemma ready_uninstall:
  "triple (ready k h c) (install_receiver k None) (\<lambda>_ w. world_ok w \<and> no_channel k w) E"
  unfolding install_receiver_def update_device_def
  by (rule triple_modify) (rule ready_none, erule ready_install)

lemma register_channel_rule:
  "triple (connecting k h i (Some h)) (register_channel k i flags h) (\<lambda>_. world_ok) E"
proof (rule tripleI)
  fix w assume w: "connecting k h i (Some h) w"
  let ?d = "w_store w k"
  let ?d' = "?d\<lparr>dev_channel := i, dev_channel_flags := flags, dev_receiver := Some h\<rparr>"
  have r: "ready k h (Some h) w" and new: "new_id i w" and st: "\<not> dev_reopen_required ?d" "\<not> dev_closed ?d" "k < w_fresh w"
    using w by (simp_all add: connecting_def)
  have ok0: "world_ok (detach k w)" using r by (simp add: ready_def)
  note ok = world_okD [OF ok0]
  have i0: "i \<noteq> 0" using new by (auto simp: new_id_def)
  have ch: "w_channels w = w_channels (detach k w)" "w_devices w = w_devices (detach k w)" "w_fresh w = w_fresh (detach k w)"
    "w_next_handle w = w_next_handle (detach k w)" by (simp_all add: detach_def Let_def)
  have st': "dev_channel (w_store (detach k w) j) = dev_channel (w_store w j)" "dev_closed (w_store (detach k w) j) = dev_closed (w_store w j)"
    "j \<noteq> k \<Longrightarrow> w_store (detach k w) j = w_store w j" for j
    by (simp_all add: detach_def Let_def)
  let ?w = "w\<lparr>w_channels := w_channels w @ [(i, k)], w_store := (w_store w)(k := ?d')\<rparr>"
  have "i \<notin> fst ` set (w_channels w)" using new by (simp add: new_id_def)
  then have e: "register_channel k i flags h w = (Inr (), ?w)"
    by (simp add: register_channel_def update_device_def effect_simps map_emplace_new)
  have notin: "(i', k) \<notin> set (w_channels w)" for i' using ok(7) [of i' k] r by (simp add: ch st' ready_def)
  have dk: "device_ok (w_next_handle w) ?d'"
    using ready_parts [OF r] r st i0 by (auto simp: device_ok_def session_ok_def table_ids_def ready_def)
  have "world_ok ?w"
  proof (rule world_okI)
    show "device_ok (w_next_handle ?w) (w_store ?w j)" for j using ok(1) [of j] dk st'(3) [of j] ch by (cases "j = k") auto
    show "\<not> dev_closed (w_store ?w j)" if "(i', j) \<in> set (w_devices ?w)" for i' j using ok(6) [of i' j] that st' ch by auto
    show "(i', j) \<in> set (w_channels ?w) \<longleftrightarrow> i' \<noteq> 0 \<and> dev_channel (w_store ?w j) = i'" for i' j
      using ok(7) [of i' j] notin [of i'] i0 st' ch by auto
    show "(i', l) \<notin> set (w_channels ?w)" if "(i', j) \<in> set (w_devices ?w)" for i' j l
      using ok(8) [of i' j l] that new ch by (force simp: new_id_def)
    show "registered (w_next_handle ?w) (w_fresh ?w) (w_channels ?w)"
      using ok(5) new st(3) notin ch by (force simp: registered_def new_id_def)
  qed (use ok ch in simp_all)
  then show "case register_channel k i flags h w of (Inl e, w') \<Rightarrow> E e w' | (Inr x, w') \<Rightarrow> world_ok w'" by (simp add: e)
qed

lemma world_ok_Connect:
  "world_ok w \<Longrightarrow> world_ok (snd (snd (PassThruConnect memory device_id protocol flags baud channel_given w)))"
proof -
  have open_rule: "triple (connecting k h i None)
      (andthen (accept_response (plain_command k 6 p) Allow_none) (\<lambda>_.
       andthen (update_device k (\<lambda>d. d\<lparr>dev_wire_open := True\<rparr>)) (\<lambda>_.
       catch
         (andthen (install_receiver k (Some h)) (\<lambda>_.
          andthen (accept_response (plain_command k 0x12 q) Allow_none) (\<lambda>_.
          andthen (lift memory) (\<lambda>_.
          andthen (register_channel k i flags h) (\<lambda>_.
          returns i)))))
         (\<lambda>e.
          andthen (install_receiver k None) (\<lambda>_.
          andthen (the_device k) (\<lambda>d.
          andthen (only_if (\<not> dev_reopen_required d)
            (catch (close_wire_channel k) (\<lambda>_. update_device k (\<lambda>d. d\<lparr>dev_reopen_required := True\<rparr>)))) (\<lambda>_.
          raise e))))))) (\<lambda>_. world_ok) (\<lambda>_. world_ok)" for k h i p q
  proof -
    have accept: "triple (connecting k h i c) (accept_response (plain_command k op pl) Allow_none) (\<lambda>_. connecting k h i c) (\<lambda>_. ready k h c)" for c op pl
      unfolding accept_response_def
      by (rule triple_andthen [OF connecting_command], rule triple_lift) (simp_all add: connecting_def)
    have undo: "triple (ready k h c) (andthen (install_receiver k None) (\<lambda>_.
          andthen (the_device k) (\<lambda>d.
          andthen (only_if (\<not> dev_reopen_required d)
            (catch (close_wire_channel k) (\<lambda>_. update_device k (\<lambda>d. d\<lparr>dev_reopen_required := True\<rparr>)))) (\<lambda>_.
          raise e :: ((exn + unit) \<times> u32) api)))) (\<lambda>_. world_ok) (\<lambda>_. world_ok)" for c e
      by (rule triple_andthen [OF ready_uninstall], rule keeping_safe)
         (intro keeping_andthen keeping_basic keeping_only_if keeping_catch resting_close_wire resting_updates)
    have reg: "triple (connecting k h i None)
       (andthen (install_receiver k (Some h)) (\<lambda>_.
          andthen (accept_response (plain_command k 0x12 q) Allow_none) (\<lambda>_.
          andthen (lift memory) (\<lambda>_.
          andthen (register_channel k i flags h) (\<lambda>_.
          returns i))))) (\<lambda>_. world_ok) (\<lambda>_. ready k h (Some h))"
      by (rule triple_andthen [OF connecting_install], rule triple_andthen [OF accept],
          rule triple_andthen [OF connecting_lift], rule triple_andthen [OF register_channel_rule])
         (auto simp: returns_def intro: triple_ret)
    have weak: "triple P m R (\<lambda>_. ready k h None) \<Longrightarrow> triple P m R (\<lambda>_. world_ok)" for P R and m :: "unit api"
      by (erule triple_weaken) (auto dest: ready_none)
    show ?thesis
      by (rule triple_andthen [OF weak [OF accept]], rule triple_andthen [OF connecting_flag], rule triple_catch [OF reg undo])
  qed
  have device_state: "triple (found_device i k) (the_device k) (\<lambda>d w. world_ok w \<and> (i, k) \<in> set (w_devices w) \<and> d = w_store w k)
      (\<lambda>_. world_ok)" for i k
    unfolding the_device_def by (rule triple_asks) (simp add: found_device_def)
  have checked: "triple (\<lambda>w. world_ok w \<and> (i, k) \<in> set (w_devices w) \<and> d = w_store w k)
      (andthen (lift (connect_checks d protocol flags baud)) f) Q (\<lambda>_. world_ok)"
    if "ucast protocol = CAN \<or> ucast protocol = ISO15765 \<Longrightarrow>
      triple (\<lambda>w. world_ok w \<and> unconnected k w) (f ()) Q (\<lambda>_. world_ok)" for i k d f Q
  proof (rule lift_rule)
    fix x assume c: "connect_checks d protocol flags baud = Inr x"
    from that connect_checks_ok [OF c] have t: "triple (\<lambda>w. world_ok w \<and> unconnected k w) (f ()) Q (\<lambda>_. world_ok)" by blast
    show "triple (\<lambda>w. world_ok w \<and> (i, k) \<in> set (w_devices w) \<and> d = w_store w k) (f x) Q (\<lambda>_. world_ok)"
    proof (rule triple_weaken)
      show "triple (\<lambda>w. world_ok w \<and> unconnected k w) (f x) Q (\<lambda>_. world_ok)" using t by simp
      show "world_ok s \<and> unconnected k s" if "world_ok s \<and> (i, k) \<in> set (w_devices s) \<and> d = w_store s k" for s
        using that connect_checks_ok [OF c] world_okD(6) [of s i k] registeredD(1) [OF world_okD(4), of s i k]
        unfolding unconnected_def by blast
    qed simp_all
  qed
  show "world_ok w \<Longrightarrow> world_ok (snd (snd (PassThruConnect memory device_id protocol flags baud channel_given w)))"
    unfolding PassThruConnect_def
    apply (intro guarded_world_ok safe_andthen [OF safe_basic(7)] safe_lookup_device)
    apply (rule triple_andthen [OF device_state], rule checked)
    apply (rule allocate_rule, simp add: unconnected_def)
    apply (rule create_receiver_rule, assumption)
    apply (rule open_rule)
    by assumption
qed

end
