(* ===== verification/Api_Calls.thy ===== *)
theory Api_Calls
  imports Api_Connect
begin

text \<open>
  Sequences of API calls: the invariant holds after every one of them, the IDs they issue, and what becomes of a
  handle that has been closed.
\<close>

section \<open>Sequences of calls\<close>

text \<open>
  A call of the library with its arguments, and \<open>Meanwhile\<close>: what the reader thread of a device does between two
  calls. \<open>perform\<close> gives the status and, for the four calls that issue one, the ID issued; their out parameter is
  set to 0 first and stays 0 when the call fails.
\<close>

datatype api_call =
  Open "exn + unit" "selector \<Rightarrow> exn + unit" "string option" bool
| Close "ses_event list" "exn + unit" u32
| Connect "exn + unit" u32 u32 u32 u32 bool
| Disconnect u32
| Read_msgs "rx_event list list" u32 bool "u32 option" u32
| Write_msgs int "nat \<Rightarrow> int" "rx_event list" u32 "passthru_msg list option" "u32 option" u32
| Start_periodic "exn + unit" u32 "passthru_msg option" bool u32
| Stop_periodic u32 u32
| Start_filter "exn + unit" u32 u32 "passthru_msg option" "passthru_msg option" "passthru_msg option" bool
| Stop_filter u32 u32
| Programming_voltage u32
| Read_version u32 bool bool bool
| Get_last_error bool
| Io_ctl u32 u32 "(u32 \<times> (u32 \<times> u32) list option) option" bool
| Meanwhile nat "ses_event list"

definition meanwhile :: "nat \<Rightarrow> ses_event list \<Rightarrow> world \<Rightarrow> world" where
  "meanwhile k es w =
     w\<lparr>w_store := (w_store w)(k := (w_store w k)\<lparr>dev_session := ses_run (dev_session (w_store w k)) es\<rparr>)\<rparr>"

definition issues :: "status \<times> u32 \<times> world \<Rightarrow> status \<times> u32 option \<times> world" where
  "issues r = (case r of (st, i, w) \<Rightarrow> (st, if i = 0 then None else Some i, w))"

definition plain :: "status \<times> 'a \<times> world \<Rightarrow> status \<times> u32 option \<times> world" where
  "plain r = (case r of (st, out, w) \<Rightarrow> (st, None, w))"

fun perform :: "api_call \<Rightarrow> world \<Rightarrow> status \<times> u32 option \<times> world" where
  "perform (Open memory transport name given) w = issues (PassThruOpen memory transport name given w)"
| "perform (Close es stop i) w = plain (PassThruClose es stop i w)"
| "perform (Connect memory i protocol flags baud given) w = issues (PassThruConnect memory i protocol flags baud given w)"
| "perform (Disconnect i) w = plain (PassThruDisconnect i w)"
| "perform (Read_msgs waits i given count timeout) w = plain (PassThruReadMsgs waits i given count timeout w)"
| "perform (Write_msgs now clock evs i messages count timeout) w =
     plain (PassThruWriteMsgs now clock evs i messages count timeout w)"
| "perform (Start_periodic memory i message given interval) w = issues (PassThruStartPeriodicMsg memory i message given interval w)"
| "perform (Stop_periodic i m) w = plain (PassThruStopPeriodicMsg i m w)"
| "perform (Start_filter memory i type msk pattern flow given) w = issues (PassThruStartMsgFilter memory i type msk pattern flow given w)"
| "perform (Stop_filter i f) w = plain (PassThruStopMsgFilter i f w)"
| "perform (Programming_voltage i) w = plain (PassThruSetProgrammingVoltage i w)"
| "perform (Read_version i f d a) w = plain (PassThruReadVersion i f d a w)"
| "perform (Get_last_error given) w = plain (PassThruGetLastError given w)"
| "perform (Io_ctl i ioctl input given) w = plain (PassThruIoctl i ioctl input given w)"
| "perform (Meanwhile k es) w = (STATUS_NOERROR, None, meanwhile k es w)"

fun run_calls :: "api_call list \<Rightarrow> world \<Rightarrow> world" where
  "run_calls [] w = w"
| "run_calls (c # cs) w = run_calls cs (snd (snd (perform c w)))"

text \<open>The IDs issued, in order.\<close>

fun issued :: "api_call list \<Rightarrow> world \<Rightarrow> u32 list" where
  "issued [] w = []"
| "issued (c # cs) w =
     (case perform c w of (st, i, w') \<Rightarrow> (case i of None \<Rightarrow> [] | Some i \<Rightarrow> [i]) @ issued cs w')"

lemma world_ok_meanwhile: "world_ok w \<Longrightarrow> world_ok (meanwhile k es w)"
proof -
  assume w: "world_ok w"
  have s: "session_ok (w_store w k)" using w by (rule world_ok_session)
  let ?s = "dev_session (w_store w k)"
  have inv: "ses_inv ?s" "ses_quiet ?s" using s by (simp_all add: session_ok_def)
  have "ses_inv (ses_run ?s es)" "ses_quiet (ses_run ?s es)" "keeps_receivers ?s (ses_run ?s es)"
    using ses_run_keeps [OF inv(1), of es] ses_quiet_same [OF inv(2)] keeps_receivers_run ses_inv_minimum [OF inv(1)] by blast+
  then have "inside k w (meanwhile k es w)"
    using s by (auto simp: inside_def stable_def same_tables_def meanwhile_def session_ok_def keeps_receivers_def)
  then show ?thesis using world_ok_inside w by blast
qed

lemma after_call [simp]: "snd (snd (issues r)) = snd (snd r)" "snd (snd (plain q)) = snd (snd q)"
  by (simp_all add: issues_def plain_def case_prod_unfold)

lemmas world_ok_calls = world_ok_Open world_ok_Close world_ok_Connect world_ok_Disconnect world_ok_ReadMsgs world_ok_WriteMsgs
  world_ok_StartPeriodic world_ok_StopPeriodic world_ok_StartFilter world_ok_StopFilter world_ok_Voltage
  world_ok_ReadVersion world_ok_GetLastError world_ok_Ioctl world_ok_meanwhile

lemma world_ok_perform: "world_ok w \<Longrightarrow> world_ok (snd (snd (perform c w)))"
  by (cases c) (simp_all add: world_ok_calls)

lemma world_ok_run: "world_ok w \<Longrightarrow> world_ok (run_calls cs w)"
  by (induction cs arbitrary: w) (simp_all add: world_ok_perform)

section \<open>The IDs\<close>

text \<open>\<open>grows n\<close>: nothing below \<open>n\<close> has been registered that was not in the lists \<open>ds\<close> and \<open>cs\<close> before.\<close>

definition grows :: "world \<Rightarrow> world \<Rightarrow> bool" where
  "grows w0 w \<longleftrightarrow>
     w_next_handle w0 \<le> w_next_handle w \<and> w_next_handle w \<le> 4294967296 \<and>
     (\<forall>(i, k) \<in> set (w_devices w). (i, k) \<in> set (w_devices w0) \<or> w_next_handle w0 \<le> unat i) \<and>
     (\<forall>(i, k) \<in> set (w_channels w). (i, k) \<in> set (w_channels w0) \<or> w_next_handle w0 \<le> unat i)"

abbreviation growing :: "world \<Rightarrow> 'a api \<Rightarrow> bool" where
  "growing w0 m \<equiv> triple (grows w0) m (\<lambda>_. grows w0) (\<lambda>_. grows w0)"

lemma grows_same:
  "w_devices w' = w_devices w \<Longrightarrow> w_channels w' = w_channels w \<Longrightarrow> w_next_handle w' = w_next_handle w \<Longrightarrow>
   grows w0 w' = grows w0 w"
  by (simp add: grows_def)

lemma growing_andthen: "growing w0 m \<Longrightarrow> (\<And>x. growing w0 (f x)) \<Longrightarrow> growing w0 (andthen m f)"
  by (rule triple_andthen)

lemma growing_catch: "growing w0 m \<Longrightarrow> (\<And>e. growing w0 (h e)) \<Longrightarrow> growing w0 (catch m h)"
  by (rule triple_catch)

lemma growing_attempt: "growing w0 m \<Longrightarrow> growing w0 (attempt m)"
  by (rule triple_attempt)

lemma growing_only_if: "growing w0 m \<Longrightarrow> growing w0 (only_if b m)"
  by (rule triple_only_if)

lemma growing_if: "growing w0 m \<Longrightarrow> growing w0 n \<Longrightarrow> growing w0 (if b then m else n)"
  by simp

lemma growing_option: "(\<And>x. growing w0 (f x)) \<Longrightarrow> growing w0 m \<Longrightarrow> growing w0 (case v of None \<Rightarrow> m | Some x \<Rightarrow> f x)"
  by (cases v) simp_all

lemma growing_sum: "(\<And>x. growing w0 (f x)) \<Longrightarrow> (\<And>x. growing w0 (g x)) \<Longrightarrow> growing w0 (case v of Inl x \<Rightarrow> f x | Inr x \<Rightarrow> g x)"
  by (cases v) simp_all

lemma growing_prod: "(\<And>x y. growing w0 (f x y)) \<Longrightarrow> growing w0 (case v of (x, y) \<Rightarrow> f x y)"
  by (cases v) simp

lemma growing_basic:
  "growing w0 (ret x)" "growing w0 (raise e)" "growing w0 (lift r)" "growing w0 (asks g)" "growing w0 (throw_if b e)"
  by (auto intro: keeps_intros)

lemma growing_same:
  assumes "\<And>w. w_devices (snd (m w)) = w_devices w \<and> w_channels (snd (m w)) = w_channels w \<and> w_next_handle (snd (m w)) = w_next_handle w"
  shows "growing w0 m"
proof (rule tripleI)
  fix w assume w: "grows w0 w"
  obtain r w' where m: "m w = (r, w')" by fastforce
  then have "grows w0 w'" using grows_same [of w' w w0] assms [of w] w by simp
  then show "case m w of (Inl e, w') \<Rightarrow> grows w0 w' | (Inr x, w') \<Rightarrow> grows w0 w'" by (simp add: m split: sum.splits)
qed

lemma growing_state:
  "growing w0 (update_device k f)" "growing w0 (session_command k opcode payload timeout destination chan known)"
  "growing w0 create_device" "growing w0 (close_session k es ts)" "growing w0 (read_messages k h n timed waits)"
  "growing w0 create_call" "growing w0 (await_confirmed k h call n evs)"
  by (rule growing_same; simp add: update_device_def effect_simps session_command_def create_device_def close_session_def
      read_messages_def create_call_def await_confirmed_def case_prod_unfold Let_def)+

lemmas growing_rules = growing_andthen growing_catch growing_attempt growing_only_if growing_if growing_option growing_sum
  growing_prod growing_basic growing_state

lemma growing_removal:
  "growing w0 (modify (\<lambda>w. w\<lparr>w_devices := AList.delete i (w_devices w)\<rparr>))"
  "growing w0 (modify (\<lambda>w. w\<lparr>w_channels := AList.delete (g w) (w_channels w)\<rparr>))"
  by (rule triple_modify; auto simp: grows_def AList_delete_set)+

lemma growing_helpers:
  "growing w0 (the_device k)" "growing w0 (required b)" "growing w0 (returns y)" "growing w0 (lookup i c)"
  "growing w0 (use_session k)" "growing w0 (unsupported u)" "growing w0 (rethrow err)" "growing w0 (uncertain_channel k)"
  "growing w0 (install_receiver k c')" "growing w0 (on_receiver k h g)" "growing w0 (board_command k opcode payload)"
  by (auto simp: the_device_def required_def returns_def lookup_def locked_device_def use_session_def unsupported_def
      rethrow_def uncertain_channel_def install_receiver_def on_receiver_def board_command_def Let_def
      intro!: growing_rules)

lemma growing_commands:
  "growing w0 (channel_command k opcode payload timeout chan known)" "growing w0 (plain_command k opcode payload)"
  "growing w0 (accept_response (plain_command k opcode payload) allowed)"
  "growing w0 (accept_response (board_command k opcode payload) allowed)"
  "growing w0 (table_handle k response reason)" "growing w0 (with_receiver k r g)" "growing w0 (create_receiver k protocol)"
  "growing w0 (get_value k s)"
  by (auto simp: channel_command_def plain_command_def accept_response_def table_handle_def with_receiver_def
      create_receiver_def get_value_def intro!: growing_rules growing_helpers growing_same [of "modify f" for f] split: option.split)
     (auto simp: effect_simps)

lemma growing_wire:
  "growing w0 (clear_periodic_table k)" "growing w0 (close_wire_channel k)" "growing w0 (clear_filter_table k table)"
  "growing w0 (retire_channel k)"
  unfolding clear_periodic_table_def close_wire_channel_def clear_filter_table_def retire_channel_def
  by (intro growing_rules growing_helpers growing_commands growing_removal)+

lemma growing_remember: "growing w0 removed \<Longrightarrow> growing w0 (remember_entry memory k table handle f removed)"
  unfolding remember_entry_def by (intro growing_rules growing_helpers growing_commands)

lemma growing_write_all: "growing w0 (write_all k h call timeout deadline clock index batch)"
proof (induction batch arbitrary: index)
  case (Cons x batch)
  obtain m p where [simp]: "x = (m, p)" by fastforce
  have "growing w0 (write_one k h call timeout deadline c m p)" for c
    unfolding write_one_def Let_def by (intro growing_rules growing_helpers growing_commands)
  then show ?case by (auto intro!: growing_rules Cons.IH split: sum.split)
qed (simp add: growing_rules)

lemma growing_config_all: "growing w0 (config_all k set_values items)"
proof (induction items)
  case (Cons x items)
  obtain p v where [simp]: "x = (p, v)" by fastforce
  have "growing w0 (config_one k set_values p v)"
    unfolding config_one_def by (intro growing_rules growing_helpers growing_commands)
  then show ?case by (auto intro!: growing_rules Cons.IH split: sum.split prod.split)
qed (simp add: growing_rules)

lemmas growing_api = growing_rules growing_helpers growing_commands growing_wire growing_removal growing_write_all
  growing_config_all growing_remember

lemma growing_issue:
  "triple (grows w0) allocate_handle
     (\<lambda>i w. grows w0 w \<and> w_next_handle w0 \<le> unat i \<and> unat i < w_next_handle w) (\<lambda>_. grows w0)"
proof (rule tripleI)
  fix w assume w: "grows w0 w"
  have "unat (of_nat (w_next_handle w) :: u32) = w_next_handle w" if "w_next_handle w \<le> 4294967295"
    using that by (simp add: unat_of_nat)
  then show "case allocate_handle w of (Inl e, w') \<Rightarrow> grows w0 w'
      | (Inr i, w') \<Rightarrow> grows w0 w' \<and> w_next_handle w0 \<le> unat i \<and> unat i < w_next_handle w'"
    using w by (auto simp: allocate_handle_def effect_simps grows_def)
qed

definition holds :: "world \<Rightarrow> u32 \<Rightarrow> world \<Rightarrow> bool" where
  "holds w0 i w \<longleftrightarrow> grows w0 w \<and> w_next_handle w0 \<le> unat i \<and> unat i < w_next_handle w"

lemma grows_trans: "grows u v \<Longrightarrow> grows v w \<Longrightarrow> grows u w"
  by (fastforce simp: grows_def)

lemma grows_refl: "w_next_handle w \<le> 4294967296 \<Longrightarrow> grows w w"
  by (auto simp: grows_def)

lemma grows_bounds: "grows w0 w \<Longrightarrow> w_next_handle w0 \<le> w_next_handle w \<and> w_next_handle w \<le> 4294967296"
  by (simp add: grows_def)

lemma holding:
  assumes "\<And>w1. growing w1 m" shows "triple (holds w0 i) m (\<lambda>_. holds w0 i) (\<lambda>_. grows w0)"
proof (rule tripleI)
  fix w assume w: "holds w0 i w"
  have r: "grows w w" using w grows_bounds by (auto simp: holds_def intro: grows_refl)
  obtain x w' where m: "m w = (x, w')" by fastforce
  then have "grows w w'" using tripleD [OF assms r] by (cases x) auto
  with grows_bounds [OF this] w have "holds w0 i w'" unfolding holds_def using grows_trans order_less_le_trans by blast
  then show "case m w of (Inl e, w') \<Rightarrow> grows w0 w' | (Inr x, w') \<Rightarrow> holds w0 i w'" using m by (auto simp: holds_def split: sum.splits)
qed

lemma holding_rule:
  "(\<And>w1. growing w1 m) \<Longrightarrow> (\<And>x. triple (holds w0 i) (f x) Q (\<lambda>_. grows w0)) \<Longrightarrow>
   triple (holds w0 i) (andthen m f) Q (\<lambda>_. grows w0)"
  by (rule triple_andthen [OF holding])

lemma growing_rule:
  "growing w0 m \<Longrightarrow> (\<And>x. triple (grows w0) (f x) Q (\<lambda>_. grows w0)) \<Longrightarrow>
   triple (grows w0) (andthen m f) Q (\<lambda>_. grows w0)"
  by (rule triple_andthen)

lemma issue_rule:
  "(\<And>i. triple (holds w0 i) (f i) Q (\<lambda>_. grows w0)) \<Longrightarrow> triple (grows w0) (andthen allocate_handle f) Q (\<lambda>_. grows w0)"
  by (rule triple_andthen [OF growing_issue [folded holds_def]])

lemma holding_register:
  "triple (holds w0 i) (modify (\<lambda>w. w\<lparr>w_devices := map_emplace i k (w_devices w)\<rparr>)) (\<lambda>_. holds w0 i) E"
  "triple (holds w0 i) (modify (\<lambda>w. w\<lparr>w_channels := map_emplace i k (w_channels w)\<rparr>)) (\<lambda>_. holds w0 i) E"
  by (rule triple_modify; auto simp: holds_def grows_def map_emplace_def split: option.splits)+

lemma holding_returns: "triple (holds w0 i) (returns i) (\<lambda>(r, out). holds w0 out) E"
  unfolding returns_def by (rule triple_ret) simp

abbreviation issuing :: "((exn + unit) \<times> u32) api \<Rightarrow> bool" where
  "issuing m \<equiv> (\<forall>w0. triple (grows w0) m (\<lambda>(r, out). holds w0 out) (\<lambda>_. grows w0))"

lemma guarded_issuing:
  assumes "issuing m" and "world_ok w" and "guarded 0 m w = (st, i, w')"
  shows "grows w w' \<and> (i \<noteq> 0 \<longrightarrow> holds w i w')"
proof -
  let ?w = "w\<lparr>w_last_error := []\<rparr>"
  have g: "grows ?w ?w" using world_okD(3) [OF assms(2)] by (intro grows_refl) simp
  obtain x w1 where m: "m ?w = (x, w1)" by fastforce
  have same: "grows ?w v = grows w v" "holds ?w j v = holds w j v" "grows w (v\<lparr>w_last_error := e\<rparr>) = grows w v"
    "holds w j (v\<lparr>w_last_error := e\<rparr>) = holds w j v" for v j e
    by (simp_all add: grows_def holds_def)
  from tripleD [OF spec [OF assms(1), of ?w] g] m have
    "case x of Inl e \<Rightarrow> grows w w1 | Inr (r, out) \<Rightarrow> holds w out w1" by (auto simp: same split: sum.splits)
  then show ?thesis using assms(3) by (auto simp: guarded_def m same holds_def split: sum.splits)
qed

lemma guarded_growing:
  assumes "\<And>w0. growing w0 m" and "world_ok w"
  shows "grows w (snd (snd (guarded out m w)))"
proof -
  let ?w = "w\<lparr>w_last_error := []\<rparr>"
  have g: "grows ?w ?w" using world_okD(3) [OF assms(2)] by (intro grows_refl) simp
  obtain x w1 where m: "m ?w = (x, w1)" by fastforce
  then have "grows ?w w1" using tripleD [OF assms(1) g] by (cases x) auto
  then have "grows w w1" "\<And>e. grows w (w1\<lparr>w_last_error := e\<rparr>)" by (simp_all add: grows_def)
  then show ?thesis by (auto simp: guarded_def m split: sum.splits)
qed

lemma issue_catch:
  "triple (grows w0) m Q (\<lambda>_. grows w0) \<Longrightarrow> (\<And>e. triple (grows w0) (h e) Q (\<lambda>_. grows w0)) \<Longrightarrow>
   triple (grows w0) (catch m h) Q (\<lambda>_. grows w0)"
  by (rule triple_catch)

lemma issue_raise: "triple (grows w0) (raise e) Q (\<lambda>_. grows w0)"
  by (rule triple_raise)

lemma holding_end: "triple (holds w0 i) m Q (\<lambda>_. holds w0 i) \<Longrightarrow> triple (holds w0 i) m Q (\<lambda>_. grows w0)"
  by (erule triple_weaken) (auto simp: holds_def)

lemma holding_catch:
  "triple (holds w0 i) m Q (\<lambda>_. grows w0) \<Longrightarrow> (\<And>e. triple (grows w0) (h e) Q (\<lambda>_. grows w0)) \<Longrightarrow>
   triple (holds w0 i) (catch m h) Q (\<lambda>_. grows w0)"
  by (rule triple_catch)

lemma grows_Open:
  assumes "world_ok w" and "PassThruOpen memory open_transport name id_given w = (st, i, w')"
  shows "grows w w' \<and> (i \<noteq> 0 \<longrightarrow> holds w i w')"
  using assms unfolding PassThruOpen_def
  by (rule guarded_issuing [rotated])
     (intro allI growing_rule growing_api issue_catch issue_rule issue_raise holding_rule
      triple_andthen [OF holding_register(1)] holding_returns)

lemma grows_Connect:
  assumes "world_ok w" and "PassThruConnect memory device_id protocol flags baud channel_given w = (st, i, w')"
  shows "grows w w' \<and> (i \<noteq> 0 \<longrightarrow> holds w i w')"
proof -
  have reg: "triple (holds w0 i) (register_channel k i flags r) (\<lambda>_. holds w0 i) (\<lambda>_. grows w0)" for w0 k i r
    unfolding register_channel_def by (rule triple_andthen [OF holding_register(2)], rule holding, rule growing_state)
  show ?thesis
    using assms unfolding PassThruConnect_def
    by (rule guarded_issuing [rotated])
       (intro allI growing_rule growing_api issue_rule holding_rule holding_catch issue_raise
        triple_andthen [OF reg] holding_returns)
qed

lemma grows_StartPeriodic:
  assumes "world_ok w" and "PassThruStartPeriodicMsg memory channel_id message id_given interval w = (st, i, w')"
  shows "grows w w' \<and> (i \<noteq> 0 \<longrightarrow> holds w i w')"
  using assms unfolding PassThruStartPeriodicMsg_def
  by (rule guarded_issuing [rotated]) (intro allI growing_rule growing_api issue_rule holding_rule holding_returns)

lemma grows_StartFilter:
  assumes "world_ok w" and "PassThruStartMsgFilter memory channel_id type msk pattern flow id_given w = (st, i, w')"
  shows "grows w w' \<and> (i \<noteq> 0 \<longrightarrow> holds w i w')"
  using assms unfolding PassThruStartMsgFilter_def
  by (rule guarded_issuing [rotated]) (intro allI growing_rule growing_api issue_rule holding_rule holding_returns)

lemma grows_others:
  assumes "world_ok w"
  shows "grows w (snd (snd (PassThruClose es stop i w)))" "grows w (snd (snd (PassThruDisconnect i w)))"
    "grows w (snd (snd (PassThruReadMsgs waits i given count timeout w)))"
    "grows w (snd (snd (PassThruWriteMsgs now clock evs i messages count timeout w)))"
    "grows w (snd (snd (PassThruStopPeriodicMsg i m w)))" "grows w (snd (snd (PassThruStopMsgFilter i f w)))"
    "grows w (snd (snd (PassThruSetProgrammingVoltage i w)))" "grows w (snd (snd (PassThruReadVersion i b d a w)))"
    "grows w (snd (snd (PassThruIoctl i ioctl input given w)))"
  unfolding PassThruClose_def PassThruDisconnect_def PassThruReadMsgs_def PassThruWriteMsgs_def write_messages_def
    confirmed_count_def PassThruStopPeriodicMsg_def PassThruStopMsgFilter_def PassThruSetProgrammingVoltage_def
    PassThruReadVersion_def PassThruIoctl_def config_ioctl_def channel_ioctl_def Let_def
  by (rule guarded_growing [OF _ assms], intro growing_api)+

lemma grows_perform:
  assumes "world_ok w" and "perform c w = (st, i, w')"
  shows "grows w w' \<and> (\<forall>j. i = Some j \<longrightarrow> holds w j w')"
proof -
  have g: "grows w w" using world_okD(3) [OF assms(1)] by (rule grows_refl)
  have iss: "grows w w' \<and> (\<forall>j. i = Some j \<longrightarrow> holds w j w')"
    if "issues r = (st, i, w')" and "\<And>st i w'. r = (st, i, w') \<Longrightarrow> grows w w' \<and> (i \<noteq> 0 \<longrightarrow> holds w i w')" for r
    using that by (cases r) (auto simp: issues_def split: if_splits)
  show ?thesis
  proof (cases c)
    case (Open r t n g)
    show ?thesis by (rule iss [OF _ grows_Open [OF assms(1)]]) (use assms(2) Open in simp)
  next
    case (Connect r a b c d e)
    show ?thesis by (rule iss [OF _ grows_Connect [OF assms(1)]]) (use assms(2) Connect in simp)
  next
    case (Start_periodic r a b c d)
    show ?thesis by (rule iss [OF _ grows_StartPeriodic [OF assms(1)]]) (use assms(2) Start_periodic in simp)
  next
    case (Start_filter r a b c d e f)
    show ?thesis by (rule iss [OF _ grows_StartFilter [OF assms(1)]]) (use assms(2) Start_filter in simp)
  next
    case (Get_last_error b)
    then show ?thesis using assms(2) g by (auto simp: PassThruGetLastError_def plain_def split: if_splits)
  next
    case (Meanwhile k es)
    then have "w' = meanwhile k es w" "i = None" using assms(2) by simp_all
    then show ?thesis using grows_same [of w' w w] g by (simp add: meanwhile_def)
  qed (use assms(2) grows_others [OF assms(1)] in \<open>auto simp: plain_def case_prod_unfold\<close>)
qed

lemma issued_bounds:
  assumes "world_ok w" and "i \<in> set (issued cs w)"
  shows "w_next_handle w \<le> unat i"
  using assms
proof (induction cs arbitrary: w)
  case (Cons c cs)
  obtain st j w' where p: "perform c w = (st, j, w')" by (cases "perform c w")
  have ok: "world_ok w'" using world_ok_perform [OF Cons.prems(1), of c] p by simp
  have g: "grows w w'" "\<And>k. j = Some k \<Longrightarrow> holds w k w'" using grows_perform [OF Cons.prems(1) p] by auto
  show ?case
  proof (cases "j = Some i")
    case True
    then show ?thesis using g(2) by (simp add: holds_def)
  next
    case False
    then have "i \<in> set (issued cs w')" using Cons.prems(2) p by (auto split: option.splits)
    then have "w_next_handle w' \<le> unat i" using Cons.IH ok by blast
    then show ?thesis using grows_bounds [OF g(1)] by linarith
  qed
qed simp

lemma issued_increasing:
  assumes "world_ok w" shows "sorted_wrt (<) (issued cs w)"
  using assms
proof (induction cs arbitrary: w)
  case (Cons c cs)
  obtain st j w' where p: "perform c w = (st, j, w')" by (cases "perform c w")
  have ok: "world_ok w'" using world_ok_perform [OF Cons.prems, of c] p by simp
  have "k < i" if "j = Some k" "i \<in> set (issued cs w')" for k i
    using grows_perform [OF Cons.prems p] issued_bounds [OF ok that(2)] that(1) by (simp add: holds_def word_less_nat_alt)
  then show ?case using Cons.IH [OF ok] by (auto simp: p sorted_wrt_append split: option.split)
qed simp

section \<open>Handles that have gone\<close>

text \<open>An ID below the next handle that no registry holds stays unregistered.\<close>

definition gone :: "u32 \<Rightarrow> world \<Rightarrow> bool" where
  "gone i w \<longleftrightarrow> unat i < w_next_handle w \<and> i \<notin> fst ` set (w_devices w) \<and> i \<notin> fst ` set (w_channels w)"

lemma gone_grows: "gone i w \<Longrightarrow> grows w w' \<Longrightarrow> gone i w'"
  by (force simp: gone_def grows_def)

lemma gone_run:
  assumes "world_ok w" and "gone i w" shows "gone i (run_calls cs w)"
  using assms
proof (induction cs arbitrary: w)
  case (Cons c cs)
  obtain st j w' where p: "perform c w = (st, j, w')" by (cases "perform c w")
  have "world_ok w'" "gone i w'"
    using world_ok_perform [OF Cons.prems(1), of c] grows_perform [OF Cons.prems(1) p] gone_grows Cons.prems(2) p by auto
  then show ?case using Cons.IH p by simp
qed simp

lemma gone_lookup:
  assumes "gone i w"
  shows "lookup i False w = (Inl (Error ERR_INVALID_DEVICE_ID ''invalid device ID''), w)"
    and "lookup i True w = (Inl (Error ERR_INVALID_CHANNEL_ID ''invalid channel ID''), w)"
proof -
  have "map_of (w_devices w) i = None" "map_of (w_channels w) i = None"
    using assms by (simp_all add: gone_def map_of_eq_None_iff)
  then show "lookup i False w = (Inl (Error ERR_INVALID_DEVICE_ID ''invalid device ID''), w)"
    "lookup i True w = (Inl (Error ERR_INVALID_CHANNEL_ID ''invalid channel ID''), w)"
    by (simp_all add: lookup_def effect_simps)
qed

end
