(* ===== verification/Api_Properties.thy ===== *)
theory Api_Properties
  imports Api_Calls
begin

text \<open>
  What the API promises: closing is final and always completes, configuration is checked before anything is written,
  what a write reports, what an uncertain channel refuses, the last error, and the invariant over sequences of calls.
\<close>

section \<open>Closing\<close>

lemma lookup_registered:
  assumes "world_ok w" and "(i, k) \<in> set (w_devices w)"
  shows "lookup i False w = (Inr k, w)"
proof -
  have "map_of (w_devices w) i = Some k"
    using world_okD(4) [OF assms(1)] assms(2) by (simp add: registered_def map_of_eq_Some_iff)
  then show ?thesis
    using world_okD(6) [OF assms] by (simp add: lookup_def locked_device_def the_device_def effect_simps)
qed

lemma close_prefix:
  assumes "retire_channel k w = (Inr b, w1)"
  shows "andthen (update_device k (\<lambda>d. d\<lparr>dev_closed := True\<rparr>)) (\<lambda>_.
     andthen (modify (\<lambda>w. w\<lparr>w_devices := AList.delete i (w_devices w)\<rparr>)) (\<lambda>_.
     andthen (retire_channel k) f)) w = f b (closed_at i k w1)"
proof -
  have "andthen (update_device k (\<lambda>d. d\<lparr>dev_closed := True\<rparr>)) (\<lambda>_.
     andthen (modify (\<lambda>w. w\<lparr>w_devices := AList.delete i (w_devices w)\<rparr>)) (\<lambda>_.
     andthen (retire_channel k) f)) w = andthen (retire_channel k) f (closed_at i k w)"
    by (simp add: update_device_def effect_simps closed_at_def)
  also have "\<dots> = f b (closed_at i k w1)" using retire_closed [OF assms, of i] by (simp add: andthen_def)
  finally show ?thesis .
qed

text \<open>After the channel and the device are taken out of the registries nothing can throw before the session is closed.\<close>

definition close_rest :: "nat \<Rightarrow> ses_event list \<Rightarrow> exn + unit \<Rightarrow> bool \<Rightarrow> ((exn + unit) \<times> unit) api" where
  "close_rest k es transport_stop periodic =
     andthen (the_device k) (\<lambda>state.
     andthen (attempt (only_if (dev_wire_open state \<and> periodic) (clear_periodic_table k))) (\<lambda>r1.
     andthen (attempt (only_if (dev_wire_open state) (close_wire_channel k))) (\<lambda>r2.
     andthen (attempt (accept_response (board_command k 5 []) Allow_none)) (\<lambda>r3.
     andthen (attempt (close_session k es transport_stop)) (\<lambda>r4.
     andthen (rethrow (keep_error (keep_error (last_failure (last_failure None r1) r2) r3) r4)) (\<lambda>_.
     returns ()))))))"

lemma close_rest_stops:
  "triple (\<lambda>_. True) (close_rest k es stop b) (\<lambda>_ w. ses_stopped (dev_session (w_store w k)))
     (\<lambda>_ w. ses_stopped (dev_session (w_store w k)))"
proof -
  have run: "triple (\<lambda>_. True) m (\<lambda>_ _. True) (\<lambda>_ _. True)" for m :: "'x api"
    by (simp add: triple_def split: sum.splits)
  have any: "triple (\<lambda>_. True) (attempt m) (\<lambda>_ _. True) E" for m :: "'x api" and E
    by (rule triple_attempt) (rule run)
  have state: "triple (\<lambda>_. True) (the_device k) (\<lambda>_ _. True) E" for E
    unfolding the_device_def by (rule triple_asks) simp
  have stop: "triple (\<lambda>_. True) (close_session k es stop) (\<lambda>_ w. ses_stopped (dev_session (w_store w k)))
      (\<lambda>_ w. ses_stopped (dev_session (w_store w k)))"
    by (rule tripleI) (simp add: close_session_def ses_close_def Let_def split: sum.splits prod.splits)
  have again: "triple (\<lambda>w. ses_stopped (dev_session (w_store w k))) (rethrow err) (\<lambda>_ w. ses_stopped (dev_session (w_store w k)))
      (\<lambda>_ w. ses_stopped (dev_session (w_store w k)))" for err
    unfolding rethrow_def by (cases err) (auto intro: keeps_intros)
  show ?thesis unfolding close_rest_def
    by (rule triple_andthen [OF state] triple_andthen [OF any] triple_andthen [OF triple_attempt [OF stop]]
        triple_andthen [OF again])+ (simp add: returns_def triple_ret)
qed

lemma growing_close_rest: "growing w0 (close_rest k es stop b)"
  unfolding close_rest_def by (intro growing_api)

lemma last_error_same [simp]:
  "gone i (w\<lparr>w_last_error := e\<rparr>) = gone i w" "grows w0 (w\<lparr>w_last_error := e\<rparr>) = grows w0 w"
  by (simp_all add: gone_def grows_def)

lemma close_effect:
  assumes "world_ok w" and "(i, k) \<in> set (w_devices w)"
    and "PassThruClose es stop i w = (st, u, w')"
  shows "gone i w' \<and> (dev_channel (w_store w k) \<noteq> 0 \<longrightarrow> gone (dev_channel (w_store w k)) w') \<and>
    ses_stopped (dev_session (w_store w' k))"
proof -
  let ?w = "w\<lparr>w_last_error := []\<rparr>"
  let ?c = "dev_channel (w_store w k)"
  have ok: "world_ok ?w" and d: "(i, k) \<in> set (w_devices ?w)" using assms by simp_all
  obtain b w1 where r: "retire_channel k ?w = (Inr b, w1)" by (simp add: retire_channel_apply)
  obtain x w2 where x: "close_rest k es stop b (closed_at i k w1) = (x, w2)" by fastforce
  have e: "guarded () (andthen (lookup i False) (\<lambda>k.
     andthen (update_device k (\<lambda>d. d\<lparr>dev_closed := True\<rparr>)) (\<lambda>_.
     andthen (modify (\<lambda>w. w\<lparr>w_devices := AList.delete i (w_devices w)\<rparr>)) (\<lambda>_.
     andthen (retire_channel k) (close_rest k es stop))))) w = (st, u, w')"
    using assms(3) unfolding PassThruClose_def close_rest_def [abs_def] .
  moreover have "andthen (lookup i False) (\<lambda>k.
     andthen (update_device k (\<lambda>d. d\<lparr>dev_closed := True\<rparr>)) (\<lambda>_.
     andthen (modify (\<lambda>w. w\<lparr>w_devices := AList.delete i (w_devices w)\<rparr>)) (\<lambda>_.
     andthen (retire_channel k) (close_rest k es stop)))) ?w = (x, w2)"
    by (rule trans [OF andthen_apply(2) [where m = "lookup i False" and s = ?w, OF lookup_registered [OF ok d]]])
       (simp only: close_prefix [OF r, of i "close_rest k es stop"] x)
  ultimately have w': "w' = w2 \<or> (\<exists>e. w' = w2\<lparr>w_last_error := e\<rparr>)"
    by (auto simp: guarded_def split: sum.splits)
  have w1: "w1 = ?w\<lparr>w_store := (w_store w)(k := retired (w_store w k)), w_channels := AList.delete ?c (w_channels w)\<rparr>"
    using r by (simp add: retire_channel_apply)
  note ok' = world_okD [OF assms(1)]
  have "gone i (closed_at i k w1)"
    using registeredD(1) [OF ok'(4) assms(2)] ok'(8) [OF assms(2)]
    by (auto simp: gone_def closed_at_def w1 AList_delete_set)
  moreover have "gone ?c (closed_at i k w1)" if "?c \<noteq> 0"
  proof -
    have c: "(?c, k) \<in> set (w_channels w)" using ok'(7) that by simp
    have "unat ?c < w_next_handle w" using registeredD(1) [OF ok'(5) c] by simp
    moreover have "?c \<notin> fst ` set (w_devices w)" using ok'(8) [of ?c _ k] c by force
    ultimately show ?thesis by (auto simp: gone_def closed_at_def w1 AList_delete_set)
  qed
  moreover have "grows (closed_at i k w1) w2"
  proof -
    have g: "grows (closed_at i k w1) (closed_at i k w1)"
      using ok'(3) by (intro grows_refl) (simp add: closed_at_def w1)
    show ?thesis using tripleD [OF growing_close_rest g] x by (cases x) auto
  qed
  moreover have "ses_stopped (dev_session (w_store w2 k))"
    using tripleD [OF close_rest_stops TrueI] x by (cases x) auto
  ultimately show ?thesis using w' gone_grows by auto
qed

text \<open>What a handle that is gone gets.\<close>

lemma gone_calls:
  assumes "gone i w"
  shows "fst (PassThruClose es stop i w) = ERR_INVALID_DEVICE_ID"
    and "fst (PassThruConnect memory i protocol flags baud True w) = ERR_INVALID_DEVICE_ID"
    and "fst (PassThruReadVersion i True True True w) = ERR_INVALID_DEVICE_ID"
    and "fst (PassThruDisconnect i w) = ERR_INVALID_CHANNEL_ID"
    and "fst (PassThruReadMsgs waits i True (Some n) timeout w) = ERR_INVALID_CHANNEL_ID"
    and "fst (PassThruWriteMsgs now clock evs i (Some ms) (Some n) timeout w) = ERR_INVALID_CHANNEL_ID"
    and "fst (PassThruStartMsgFilter memory i type (Some msk) (Some pattern) flow True w) = ERR_INVALID_CHANNEL_ID"
    and "fst (PassThruStartPeriodicMsg memory i (Some m) True interval w) = ERR_INVALID_CHANNEL_ID"
proof -
  have g: "gone i (w\<lparr>w_last_error := []\<rparr>)" using assms by simp
  let ?w = "w\<lparr>w_last_error := []\<rparr>"
  note l = andthen_apply(1) [where m = "lookup i False" and s = ?w, OF gone_lookup(1) [OF g]]
    andthen_apply(1) [where m = "lookup i True" and s = ?w, OF gone_lookup(2) [OF g]]
  show "fst (PassThruClose es stop i w) = ERR_INVALID_DEVICE_ID"
    "fst (PassThruConnect memory i protocol flags baud True w) = ERR_INVALID_DEVICE_ID"
    "fst (PassThruReadVersion i True True True w) = ERR_INVALID_DEVICE_ID"
    "fst (PassThruDisconnect i w) = ERR_INVALID_CHANNEL_ID"
    "fst (PassThruReadMsgs waits i True (Some n) timeout w) = ERR_INVALID_CHANNEL_ID"
    "fst (PassThruWriteMsgs now clock evs i (Some ms) (Some n) timeout w) = ERR_INVALID_CHANNEL_ID"
    "fst (PassThruStartMsgFilter memory i type (Some msk) (Some pattern) flow True w) = ERR_INVALID_CHANNEL_ID"
    "fst (PassThruStartPeriodicMsg memory i (Some m) True interval w) = ERR_INVALID_CHANNEL_ID"
    unfolding PassThruClose_def PassThruConnect_def PassThruReadVersion_def PassThruDisconnect_def PassThruReadMsgs_def
      PassThruWriteMsgs_def PassThruStartMsgFilter_def PassThruStartPeriodicMsg_def
    by (simp_all add: guarded_def required_def effect_simps l)
qed

section \<open>Configuration\<close>

lemma validate_all_error:
  assumes "(p, v) \<in> set items" and "config_validate_set protocol p v = Inl e"
  shows "\<exists>e'. validate_all protocol items = Inl e' \<and> exn_status e' \<noteq> STATUS_NOERROR"
proof -
  have nz: "exn_status e' \<noteq> STATUS_NOERROR" if "config_validate_set protocol q u = Inl e'" for q u e'
    using that by (auto simp: config_validate_set_def config_route_def ebind_def split: sum.splits if_splits option.splits)
  show ?thesis using assms
  proof (induction items)
    case (Cons x items)
    obtain q u where x: "x = (q, u)" by fastforce
    show ?case
    proof (cases "config_validate_set protocol q u")
      case (Inl e')
      then show ?thesis using nz by (simp add: x ebind_def)
    next
      case (Inr y)
      then have "(p, v) \<in> set items" using Cons.prems x by auto
      then show ?thesis using Cons.IH Cons.prems(2) Inr by (simp add: x ebind_def)
    qed
  qed simp
qed

lemma config_rejected:
  assumes "validate_all (dev_protocol (w_store w k)) (take (unat n) items) = Inl e" and "exn_status e \<noteq> STATUS_NOERROR"
    and "map_of (w_channels w) c = Some k"
  shows "\<exists>e'. config_ioctl c SET_CONFIG (Some (n, Some items)) given w = (Inl e', w) \<and> exn_status e' \<noteq> STATUS_NOERROR"
proof -
  obtain r where l: "lookup c True w = (r, w)" using lookup_cases by (metis surj_pair)
  have r: "case r of Inl e' \<Rightarrow> exn_status e' \<noteq> STATUS_NOERROR | Inr k' \<Rightarrow> k' = k"
    using lookup_cases [OF l] assms(3) by (auto split: sum.splits)
  show ?thesis
  proof (cases r)
    case (Inl e')
    then show ?thesis using l r by (simp add: config_ioctl_def andthen_def)
  next
    case (Inr k')
    then have "lookup c True w = (Inr k, w)" using l r by simp
    note l = andthen_apply(2) [where m = "lookup c True" and s = w, OF this]
    show ?thesis using assms
      by (simp add: config_ioctl_def l use_session_def the_device_def required_def effect_simps only_if_def andthen_assoc Let_def)
  qed
qed

text \<open>
  A SET_CONFIG list with an item that is not valid on the channel is refused before anything is done: no command is
  sent, no parameter changes, and the call fails.
\<close>

lemma set_config_checked_first:
  assumes "map_of (w_channels w) c = Some k" and "(p, v) \<in> set (take (unat n) items)"
    and "config_validate_set (dev_protocol (w_store w k)) p v = Inl e"
    and "PassThruIoctl c SET_CONFIG (Some (n, Some items)) given w = (st, out, w')"
  shows "st \<noteq> STATUS_NOERROR \<and> out = Untouched \<and> w' = w\<lparr>w_last_error := w_last_error w'\<rparr>"
proof -
  let ?w = "w\<lparr>w_last_error := []\<rparr>"
  obtain e' where v: "validate_all (dev_protocol (w_store ?w k)) (take (unat n) items) = Inl e'" "exn_status e' \<noteq> STATUS_NOERROR"
    using validate_all_error [OF assms(2,3)] by auto
  have "map_of (w_channels ?w) c = Some k" using assms(1) by simp
  from config_rejected [OF v this, of given] obtain x where
    x: "config_ioctl c SET_CONFIG (Some (n, Some items)) given ?w = (Inl x, ?w)" "exn_status x \<noteq> STATUS_NOERROR" by blast
  show ?thesis
    using assms(4) x by (auto simp: PassThruIoctl_def guarded_def andthen_def)
qed

lemma set_config_checked_first_witness:
  "let d = (device_new session_new)\<lparr>dev_channel := 1, dev_receiver := Some 0\<rparr>;
       w = (world_init [])\<lparr>w_channels := [(1, 0)], w_store := (\<lambda>_. d), w_fresh := 1, w_next_handle := 2\<rparr>;
       r = PassThruIoctl 1 SET_CONFIG (Some (2, Some [(cfg_loopback, 1), (cfg_data_rate, 7)])) False w
   in fst r \<noteq> STATUS_NOERROR \<and> fst (snd r) = Untouched"
proof -
  define d where "d = (device_new session_new)\<lparr>dev_channel := 1, dev_receiver := Some 0\<rparr>"
  define w where "w = (world_init [])\<lparr>w_channels := [(1, 0)], w_store := (\<lambda>_. d), w_fresh := 1, w_next_handle := 2\<rparr>"
  let ?r = "PassThruIoctl 1 SET_CONFIG (Some (2, Some [(cfg_loopback, 1), (cfg_data_rate, 7)])) False w"
  obtain st out w' where r: "?r = (st, out, w')" by (cases ?r)
  have m: "map_of (w_channels w) 1 = Some 0" by (simp add: w_def)
  have i: "(cfg_data_rate, 7) \<in> set (take (unat (2 :: u32)) [(cfg_loopback, 1), (cfg_data_rate, 7)])" by simp
  have "config_validate_set (dev_protocol (w_store w 0)) cfg_data_rate 7 = Inl (Error ERR_INVALID_IOCTL_VALUE ''unsupported CAN bit rate'')"
    by (simp add: w_def d_def device_new_def) code_simp
  from set_config_checked_first [OF m i this r] r show ?thesis by (simp add: w_def d_def Let_def)
qed

section \<open>Writes\<close>

lemma encode_batch_length: "encode_write_batch protocol ms timeout = Inr ps \<Longrightarrow> length ps = length ms"
  by (induction ms arbitrary: ps) (auto simp: ebind_eq_Inr_iff)

lemma write_all_count:
  assumes "write_all k h call timeout deadline clock index batch w = (x, w')"
  shows "\<exists>r n. x = Inr (r, n) \<and> index \<le> n \<and> n \<le> index + length batch \<and> (r = Inr () \<longrightarrow> n = index + length batch)"
  using assms
proof (induction batch arbitrary: index w)
  case Nil
  then show ?case by (auto simp: effect_simps)
next
  case (Cons b batch)
  obtain m p where b: "b = (m, p)" by fastforce
  obtain y w1 where o: "write_one k h call timeout deadline (clock index) m p w = (y, w1)" by fastforce
  show ?case
  proof (cases y)
    case (Inl e)
    then show ?thesis using Cons.prems o by (auto simp: b andthen_def attempt_def effect_simps)
  next
    case (Inr u)
    then have "write_all k h call timeout deadline clock (index + 1) batch w1 = (x, w')"
      using Cons.prems o by (simp add: b andthen_def attempt_def)
    from Cons.IH [OF this] show ?thesis by auto
  qed
qed

lemma write_messages_now:
  assumes "write_messages now clock evs k ms 0 w = (Inr (res, count), w')"
  shows "count \<le> length ms" and "res = Inr () \<Longrightarrow> count = length ms"
proof -
  let ?d = "w_store w k"
  let ?deadline = "deadline_after now 0"
  obtain ps where ps: "encode_write_batch (dev_protocol ?d) ms 0 = Inr ps"
    using assms by (cases "encode_write_batch (dev_protocol ?d) ms 0")
      (auto simp: write_messages_def the_device_def effect_simps split: if_splits)
  obtain h where h: "dev_receiver ?d = Some h"
    using assms ps by (cases "dev_receiver ?d")
      (auto simp: write_messages_def the_device_def effect_simps split: if_splits)
  let ?c = "w_calls w" and ?w = "w\<lparr>w_calls := w_calls w + 1\<rparr>"
  obtain x w1 where wa: "write_all k h ?c 0 ?deadline clock 0 (zip ms ps) ?w = (x, w1)" by fastforce
  obtain r n where x: "x = Inr (r, n)" and n: "n \<le> length ms" "r = Inr () \<Longrightarrow> n = length ms"
    using write_all_count [OF wa] encode_batch_length [OF ps] by auto
  have "res = r \<and> count = n"
    using assms ps h wa x
    by (auto simp: write_messages_def the_device_def create_call_def effect_simps andthen_def split: if_splits)
  then show "count \<le> length ms" and "res = Inr () \<Longrightarrow> count = length ms" using n by auto
qed

text \<open>
  One message after another until the adapter refuses one: \<open>pushes send n ms w c r w'\<close> holds when, from the state \<open>w\<close> with
  \<open>n\<close> messages taken, sending \<open>ms\<close> ends with \<open>c\<close> taken, the outcome \<open>r\<close> and the state \<open>w'\<close>.
\<close>

inductive pushes ::
    "(nat \<Rightarrow> 'm \<Rightarrow> unit api) \<Rightarrow> nat \<Rightarrow> 'm list \<Rightarrow> world \<Rightarrow> nat \<Rightarrow> exn + unit \<Rightarrow> world \<Rightarrow> bool"
  for send :: "nat \<Rightarrow> 'm \<Rightarrow> unit api" where
  all_taken: "pushes send n [] w n (Inr ()) w"
| refused_one: "send n m w = (Inl e, w') \<Longrightarrow> pushes send n (m # ms) w n (Inl e) w'"
| taken_one: "send n m w = (Inr (), w1) \<Longrightarrow> pushes send (n + 1) ms w1 c r w' \<Longrightarrow> pushes send n (m # ms) w c r w'"

lemma write_all_pushes:
  assumes "write_all k h call timeout deadline clock i batch w = (x, w')"
  shows "\<exists>r n. x = Inr (r, n) \<and> pushes (\<lambda>i (m, p). write_one k h call timeout deadline (clock i) m p) i batch w n r w'"
  using assms
proof (induction batch arbitrary: i w)
  case Nil
  then show ?case by (auto simp: effect_simps intro: pushes.intros)
next
  case (Cons b batch)
  obtain m p where b: "b = (m, p)" by fastforce
  obtain y w1 where o: "write_one k h call timeout deadline (clock i) m p w = (y, w1)" by fastforce
  show ?case
  proof (cases y)
    case (Inl e)
    then show ?thesis using Cons.prems o by (auto simp: b andthen_def attempt_def effect_simps intro!: refused_one)
  next
    case (Inr u)
    then have "write_all k h call timeout deadline clock (i + 1) batch w1 = (x, w')"
      using Cons.prems o by (simp add: b andthen_def attempt_def)
    from Cons.IH [OF this] o Inr show ?thesis by (auto simp: b intro!: taken_one)
  qed
qed

lemma pushes_bounds:
  assumes "pushes send n ms w c r w'"
  shows "n \<le> c \<and> c \<le> n + length ms \<and> (r = Inr () \<longleftrightarrow> c = n + length ms)"
  using assms by induction auto


text \<open>For the witness: a CAN channel, an adapter that takes one message and leaves the second without an answer.\<close>

definition sample_message :: passthru_msg where
  "sample_message = \<lparr>ProtocolID = 5, RxStatus = 0, TxFlags = 0, Timestamp = 0, DataSize = 6, ExtraDataIndex = 0,
     Data = [0, 0, 7, 0xdf, 1, 2] @ replicate 4122 0\<rparr>"

definition taken_answer :: bytes where
  "taken_answer = [0, 0, 1, 5, 8, 0x80, 1, 0] @ replicate 12 0"

definition taken_wire :: bytes where
  "taken_wire = [20, 0, 0xf2, 0x51] @ taken_answer"

definition sample_world :: world where
  "sample_world = (world_init [sample_env [Arrived taken_wire]])
     \<lparr>w_store := (\<lambda>_. (device_new session_new)\<lparr>dev_protocol := CAN, dev_channel := 1, dev_receiver := Some 0\<rparr>)\<rparr>"

lemma taken_feed: "decoder_feed decoder_init taken_wire = Inr ([taken_answer], decoder_init)"
proof -
  have "encode taken_answer = Inr taken_wire" by code_simp
  then show ?thesis by (rule wire.feed_enc [rotated]) (simp add: decoder_between_def decoder_init_def)
qed

definition sample_payload :: "u8 \<Rightarrow> u8 \<Rightarrow> bytes" where
  "sample_payload lo hi = [0, 0, 0, 0, lo, hi, 0, 0, 6, 0, 0, 0, 0, 0, 7, 0xdf, 1, 2]"

lemma sample_transmit:
  "can_transmit sample_message 0 = Inr (sample_payload 0 0)" "can_transmit sample_message 1000 = Inr (sample_payload 0xe8 3)"
  by code_simp+

lemma sample_node: "channel_node 5 board_node = 0x501"
  by code_simp

lemma taken_status: "session_status taken_answer = Inr 0" "accepted taken_answer Queued = Inr ()"
proof -
  show "session_status taken_answer = Inr 0" by code_simp
  then show "accepted taken_answer Queued = Inr ()" by (simp add: accepted_def)
qed

lemma taken_command:
  assumes "ebind (request 8 1 p 0x501 1) encode = Inr wire"
  shows "\<exists>s. ses_command (sample_env [Arrived taken_wire]) 8 p 1000 0x501 1 (Some (note_callback 0 sample_message 0)) session_new =
      (Inr taken_answer, s) \<and> ses_usable s \<and> ses_receivers s 0 = note_transmit (rx_new CAN) sample_message 1 (Some 0)"
proof -
  have "allocate 255 (\<lambda>_. 0) 5 0 = (True, 1)" using allocate_free [of "\<lambda>_. 0" 254 5 0] by simp
  with assms have "cmd_begin session_new 5 8 p 0x501 1 = (Inr wire, session_new\<lparr>ses_sequence := 1,
      ses_pending_source := 0x501, ses_pending := 1, ses_minimum := 20, ses_response := None, ses_used := (\<lambda>_. 0)(1 := 5)\<rparr>)"
    by (simp add: cmd_begin_def session_new_def)
  then obtain s where s: "cmd_begin session_new 5 8 p 0x501 1 = (Inr wire, s)" "ses_pending s = 1" "ses_sequence s = 1"
    "ses_pending_source s = 0x501" "ses_minimum s = 20" "ses_response s = None" "ses_decoder s = decoder_init"
    "ses_closing s = False" "ses_failure s = []" "ses_can s = None" "ses_receivers s 0 = rx_new CAN"
    by (simp add: session_new_def)
  let ?t = "s\<lparr>ses_receivers := (ses_receivers s)(0 := note_transmit (rx_new CAN) sample_message 1 (Some 0))\<rparr>"
  have told: "cmd_told (sample_env [Arrived taken_wire]) (Some (note_callback 0 sample_message 0)) s = (Inr (), ?t)"
    by (simp add: cmd_told_def sample_env_def note_callback_def s(3,11))
  have ans: "is_answer 0x501 1 20 taken_answer"
    by (simp add: is_answer_def taken_answer_def le16_def response_opcode_def)
  have "minimum_ok ?t" by (simp add: minimum_ok_def s)
  from ses_receive_effect [OF this, of taken_wire "[taken_answer]" decoder_init] taken_feed ans s
  have r: "ses_receive ?t taken_wire = Inr (?t\<lparr>ses_decoder := decoder_init,
      ses_receivers := attach ?t [taken_answer], ses_response := Some taken_answer\<rparr>)"
    by simp
  show ?thesis
    using told s r
    by (simp add: ses_command_cases sample_env_def cmd_left_def cmd_exchange_def ses_apply_def cmd_finish_def
        ses_usable_def attach_def)
qed

lemma sample_taken:
  assumes "acknowledgement_budget timeout deadline = 1000" and "timeout = 0 \<or> 0 < deadline"
    and "case ebind (request 8 1 p 0x501 1) encode of Inl _ \<Rightarrow> False | Inr _ \<Rightarrow> True"
  shows "\<exists>w. write_one 0 0 0 timeout deadline 0 sample_message p (sample_world\<lparr>w_calls := 1\<rparr>) = (Inr (), w) \<and> w_env w = [] \<and>
    ses_usable (dev_session (w_store w 0)) \<and> 
    ses_receivers (dev_session (w_store w 0)) 0 = note_transmit (rx_new CAN) sample_message 1 (Some 0)"
proof -
  obtain wire where "ebind (request 8 1 p 0x501 1) encode = Inr wire" using assms(3) by (auto split: sum.splits)
  from taken_command [OF this] obtain s where s: "ses_command (sample_env [Arrived taken_wire]) 8 p 1000 0x501 1
      (Some (note_callback 0 sample_message 0)) session_new = (Inr taken_answer, s)" "ses_usable s"
      "ses_receivers s 0 = note_transmit (rx_new CAN) sample_message 1 (Some 0)"
    by blast
  with assms(1,2) taken_status show ?thesis
    by (auto simp: write_one_def channel_command_def session_command_def next_env_def sample_world_def world_init_def
      the_device_def effect_simps andthen_def catch_def sample_node device_new_def)
qed

lemma sample_write:
  "\<exists>w'. write_messages 0 (\<lambda>_. 0) [] 0 [sample_message, sample_message] 0 sample_world =
    (Inr (Inl (Error ERR_TIMEOUT ''waiting for command slot timed out''), 1), w')"
proof -
  let ?p = "sample_payload 0 0"
  have "case ebind (request 8 1 ?p 0x501 1) encode of Inl _ \<Rightarrow> False | Inr _ \<Rightarrow> True" by code_simp
  from sample_taken [OF _ _ this, of 0 "deadline_after 0 0"] obtain w1 where w1:
    "write_one 0 0 0 0 (deadline_after 0 0) 0 sample_message ?p (sample_world\<lparr>w_calls := 1\<rparr>) = (Inr (), w1)" "w_env w1 = []"
    "ses_usable (dev_session (w_store w1 0))"
    by (auto simp: acknowledgement_budget_def)
  obtain w2 where w2: "write_one 0 0 0 0 (deadline_after 0 0) 0 sample_message ?p w1 =
      (Inl (Error ERR_TIMEOUT ''waiting for command slot timed out''), w2)"
    using w1(2,3)
    by (simp add: write_one_def channel_command_def session_command_def next_env_def env_blocked_def raise_def
      the_device_def effect_simps andthen_def catch_def acknowledgement_budget_def ses_command_cases reaches_callback_def)
  show ?thesis
    using w1 w2 sample_transmit
    by (simp add: write_messages_def the_device_def create_call_def effect_simps andthen_def attempt_def sample_world_def
      world_init_def device_new_def)
qed

lemma sample_timed_write:
  "\<exists>w'. write_messages 0 (\<lambda>_. 0) [Deliver (indication_body CAN 1 0x106 0)] 0 [sample_message] 1000 sample_world = (Inr (Inr (), 1), w')"
proof -
  let ?p = "sample_payload 0xe8 3"
  have "case ebind (request 8 1 ?p 0x501 1) encode of Inl _ \<Rightarrow> False | Inr _ \<Rightarrow> True" by code_simp
  moreover have "0 < deadline_after 0 1000" "acknowledgement_budget 1000 (deadline_after 0 1000) = 1000"
    by (simp_all add: acknowledgement_budget_def deadline_after_def time_max_def)
  ultimately obtain w1 where w1:
    "write_one 0 0 0 1000 (deadline_after 0 1000) 0 sample_message ?p (sample_world\<lparr>w_calls := 1\<rparr>) = (Inr (), w1)"
    "ses_receivers (dev_session (w_store w1 0)) 0 = note_transmit (rx_new CAN) sample_message 1 (Some 0)"
    using sample_taken [of 1000 "deadline_after 0 1000" ?p] by auto
  have c: "rx_confirmed (rx_run (note_transmit (rx_new CAN) sample_message 1 (Some 0)) [Deliver (indication_body CAN 1 0x106 0)]) 0 = 1"
    "rx_stopped (rx_run (note_transmit (rx_new CAN) sample_message 1 (Some 0)) [Deliver (indication_body CAN 1 0x106 0)]) = STATUS_NOERROR"
    "await_ready (note_transmit (rx_new CAN) sample_message 1 (Some 0)) 0 1 = False"
    by code_simp+
  show ?thesis
    using w1 c sample_transmit
    by (simp add: write_messages_def the_device_def create_call_def effect_simps andthen_def attempt_def sample_world_def
      world_init_def device_new_def await_confirmed_def await_transmitted_def confirmed_count_def Let_def)
qed

lemma update_device_calls: "keeps (\<lambda>w. w_calls w = c) (update_device k f)"
  unfolding update_device_def by (rule keeps_modify) simp

lemma keeps_catch: "keeps P m \<Longrightarrow> (\<And>e. keeps P (f e)) \<Longrightarrow> keeps P (catch m f)"
  by (rule triple_catch)

lemma keeps_option: "keeps P m \<Longrightarrow> (\<And>x. keeps P (f x)) \<Longrightarrow> keeps P (case y of None \<Rightarrow> m | Some x \<Rightarrow> f x)"
  by (cases y) simp_all

lemma write_one_calls: "keeps (\<lambda>w. w_calls w = c) (write_one k h call timeout deadline t m p)"
proof -
  have cmd: "keeps (\<lambda>w. w_calls w = c) (session_command k op payload budget node chan known)" for op payload budget node chan known
    by (rule triple_change) (auto simp: session_command_def Let_def split: prod.splits sum.split)
  show ?thesis
    unfolding write_one_def channel_command_def uncertain_channel_def the_device_def on_receiver_def Let_def install_receiver_def
    by (intro keeps_andthen keeps_catch keeps_option keeps_basic keeps_only_if cmd update_device_calls)
qed

lemma pushes_calls:
  assumes "pushes send n ms w c r w'" and "\<And>i m q. keeps (\<lambda>w. w_calls w = q) (send i m)"
  shows "w_calls w' = w_calls w"
  using assms(1)
proof induction
  case (refused_one n m w e w' ms)
  from tripleD(2) [OF assms(2) refl refused_one] show ?case .
next
  case (taken_one n m w w1 ms c r w')
  from tripleD(1) [OF assms(2) refl taken_one(1)] taken_one.IH show ?case by simp
qed simp

text \<open>A timed write after its messages were sent: it waits only if all were taken.\<close>

lemma timed_outcome:
  assumes "write_messages now clock evs k ms timeout w = (Inr (res, count), w')" and "timeout \<noteq> 0"
    and "dev_receiver (w_store w k) = Some h" and "encode_write_batch (dev_protocol (w_store w k)) ms timeout = Inr ps"
    and "write_all k h (w_calls w) timeout (deadline_after now timeout) clock 0 (zip ms ps) (w\<lparr>w_calls := w_calls w + 1\<rparr>) =
      (Inr (r, taken), w1)"
    and "taken \<le> length ms" and "(r = Inr ()) = (taken = length ms)" and "w_calls w1 = w_calls w + 1"
    and rx: "rx = (\<lambda>w. ses_receivers (dev_session (w_store w k)) h)"
  shows "w_calls w' = w_calls w + 1 \<and> count = rx_confirmed (rx w') (w_calls w) \<and>
    rx w' = (if taken < length ms \<or> await_ready (rx w1) (w_calls w) (length ms) then rx w1 else rx_run (rx w1) evs) \<and>
    res = (if taken < length ms then r
           else if rx_stopped (rx w') \<noteq> STATUS_NOERROR then Inl (Error (rx_stopped (rx w')) (rx_reason (rx w')))
           else if count < length ms then Inl (Error ERR_TIMEOUT ''adapter did not confirm transmission of every message'')
           else Inr ())"
proof (cases r)
  case (Inl e)
  then have "taken < length ms" using assms(6,7) by (cases "taken = length ms") auto
  moreover have "res = r \<and> w' = w1 \<and> count = rx_confirmed (rx w') (w_calls w)"
    using assms(1-5) Inl
    by (auto simp: rx write_messages_def the_device_def create_call_def confirmed_count_def effect_simps andthen_def split: if_splits)
  ultimately show ?thesis using assms(8) by simp
next
  case (Inr u)
  then have "\<not> taken < length ms" using assms(7) by simp
  moreover have "attempt (await_confirmed k h (w_calls w) (length ms) evs) w1 = (Inr res, w') \<and>
      count = rx_confirmed (rx w') (w_calls w)"
    using assms(1-5) Inr
    by (auto simp: rx write_messages_def the_device_def create_call_def confirmed_count_def effect_simps andthen_def
        split: if_splits prod.splits sum.splits)
  ultimately show ?thesis using assms(8)
    by (auto simp: rx attempt_def await_confirmed_def await_transmitted_def await_ready_def Let_def split: if_splits)
qed



section \<open>A channel in an uncertain state\<close>

lemma use_session_uncertain:
  assumes "dev_reopen_required (w_store w k)"
  shows "use_session k w = (Inl (Error ERR_DEVICE_NOT_CONNECTED ''channel state uncertain; close and reopen device''), w)"
  using assms by (simp add: use_session_def the_device_def effect_simps)

text \<open>\<open>uncertain c k w\<close>: the handle names the channel of device \<open>k\<close>, and that channel's state is uncertain.\<close>

definition uncertain :: "u32 \<Rightarrow> nat \<Rightarrow> world \<Rightarrow> bool" where
  "uncertain c k w \<longleftrightarrow>
     map_of (w_channels w) c = Some k \<and> dev_channel (w_store w k) = c \<and> \<not> dev_closed (w_store w k) \<and>
     dev_reopen_required (w_store w k)"

lemma uncertain_lookup:
  assumes "uncertain c k w"
  shows "andthen (lookup c True) f w = f k w"
    and "andthen (use_session k) g w = (Inl (Error ERR_DEVICE_NOT_CONNECTED ''channel state uncertain; close and reopen device''), w)"
proof -
  have "lookup c True w = (Inr k, w)"
    using assms by (simp add: uncertain_def lookup_def locked_device_def the_device_def effect_simps)
  then show "andthen (lookup c True) f w = f k w" by (simp add: andthen_def)
  show "andthen (use_session k) g w = (Inl (Error ERR_DEVICE_NOT_CONNECTED ''channel state uncertain; close and reopen device''), w)"
    using use_session_uncertain [of w k] assms by (simp add: andthen_def uncertain_def)
qed

lemma uncertain_ioctl:
  assumes "uncertain c k w"
  shows "andthen (channel_ioctl c x) f w = (Inl (Error ERR_DEVICE_NOT_CONNECTED ''channel state uncertain; close and reopen device''), w)"
    and "andthen (config_ioctl c x input given) g w =
      (Inl (Error ERR_DEVICE_NOT_CONNECTED ''channel state uncertain; close and reopen device''), w)"
proof -
  note l = uncertain_lookup [OF assms]
  show "andthen (channel_ioctl c x) f w = (Inl (Error ERR_DEVICE_NOT_CONNECTED ''channel state uncertain; close and reopen device''), w)"
    by (simp add: channel_ioctl_def andthen_assoc l)
  show "andthen (config_ioctl c x input given) g w =
      (Inl (Error ERR_DEVICE_NOT_CONNECTED ''channel state uncertain; close and reopen device''), w)"
    by (simp add: config_ioctl_def andthen_assoc l)
qed

text \<open>Disconnecting takes the channel out of the registry whatever the adapter answers.\<close>

lemma disconnect_effect:
  assumes "world_ok w" and "map_of (w_channels w) c = Some k" and "dev_channel (w_store w k) = c"
    and "\<not> dev_closed (w_store w k)"
  shows "gone c (snd (snd (PassThruDisconnect c w)))"
proof -
  let ?w = "w\<lparr>w_last_error := []\<rparr>"
  define rest where "rest = (\<lambda>periodic.
     andthen (attempt (only_if periodic (clear_periodic_table k))) (\<lambda>r1.
     andthen (catch (close_wire_channel k) (\<lambda>e.
       andthen (update_device k (\<lambda>d. d\<lparr>dev_reopen_required := True\<rparr>)) (\<lambda>_. raise e))) (\<lambda>_.
     case r1 of
       Inr _ \<Rightarrow> returns ()
     | Inl e \<Rightarrow> andthen (update_device k (\<lambda>d. d\<lparr>dev_reopen_required := True\<rparr>)) (\<lambda>_. raise e))))"
  obtain b w1 where r: "retire_channel k ?w = (Inr b, w1)" by (simp add: retire_channel_apply)
  obtain x w2 where x: "rest b w1 = (x, w2)" by fastforce
  have w1: "w1 = ?w\<lparr>w_store := (w_store w)(k := retired (w_store w k)), w_channels := AList.delete c (w_channels w)\<rparr>"
    using r assms(3) by (simp add: retire_channel_apply)
  have l: "lookup c True ?w = (Inr k, ?w)"
    using assms(2-4) by (simp add: lookup_def locked_device_def the_device_def effect_simps)
  then have d: "PassThruDisconnect c w = guarded () (andthen (lookup c True) (\<lambda>k. andthen (retire_channel k) rest)) w"
    by (simp add: PassThruDisconnect_def guarded_def andthen_def rest_def)
  have "andthen (lookup c True) (\<lambda>k. andthen (retire_channel k) rest) ?w = (x, w2)"
    using l r x by (simp add: andthen_def)
  with d have w': "snd (snd (PassThruDisconnect c w)) = w2 \<or> (\<exists>e. snd (snd (PassThruDisconnect c w)) = w2\<lparr>w_last_error := e\<rparr>)"
    by (auto simp: guarded_def split: sum.splits)
  note ok = world_okD [OF assms(1)]
  have c: "(c, k) \<in> set (w_channels w)" using assms(2) by (rule map_of_SomeD)
  have "gone c w1"
    using registeredD(1) [OF ok(5) c] ok(8) [of c _ k] c by (force simp: gone_def w1 AList_delete_set)
  moreover have "grows w1 w2"
  proof -
    have g: "grows w1 w1" using ok(3) by (intro grows_refl) (simp add: w1)
    have "growing w1 (rest b)" unfolding rest_def by (intro growing_api)
    from triple_snd [OF this g] x show ?thesis by simp
  qed
  ultimately show ?thesis using w' gone_grows by auto
qed

text \<open>
  C23. While a channel is uncertain every read, write, filter, periodic message and configuration call on it is refused with
  \<open>ERR_DEVICE_NOT_CONNECTED\<close> (a read of an impossible number of messages with \<open>ERR_FAILED\<close>); nothing is sent to the
  adapter and only the error text changes. Disconnecting is not refused: it may still send, and whatever the adapter
  answers the channel's ID is invalid from then on, whatever calls follow.
\<close>

theorem uncertain_channel_refuses:
  assumes "world_ok w" and "uncertain c k w"
  shows "let refused = w\<lparr>w_last_error := ''channel state uncertain; close and reopen device''\<rparr> in
     PassThruReadMsgs waits c True (Some n) timeout w =
       (if n = 0 \<or> 10000 < n
        then (ERR_FAILED, [], w\<lparr>w_last_error := ''requested message count must be 1..10000''\<rparr>)
        else (ERR_DEVICE_NOT_CONNECTED, [], refused)) \<and>
     PassThruWriteMsgs now clock evs c (Some ms) (Some n) timeout w = (ERR_DEVICE_NOT_CONNECTED, 0, refused) \<and>
     PassThruStartPeriodicMsg memory c (Some m) True interval w = (ERR_DEVICE_NOT_CONNECTED, 0, refused) \<and>
     PassThruStopPeriodicMsg c i w = (ERR_DEVICE_NOT_CONNECTED, (), refused) \<and>
     PassThruStartMsgFilter memory c type (Some m) (Some m') flow True w = (ERR_DEVICE_NOT_CONNECTED, 0, refused) \<and>
     PassThruStopMsgFilter c i w = (ERR_DEVICE_NOT_CONNECTED, (), refused) \<and>
     (ioctl \<in> {GET_CONFIG, SET_CONFIG, CLEAR_TX_BUFFER, CLEAR_RX_BUFFER, CLEAR_MSG_FILTERS, CLEAR_PERIODIC_MSGS} \<longrightarrow>
        PassThruIoctl c ioctl input given w = (ERR_DEVICE_NOT_CONNECTED, Untouched, refused)) \<and>
     gone c (run_calls cs (snd (snd (PassThruDisconnect c w))))"
proof -
  let ?w = "w\<lparr>w_last_error := []\<rparr>"
  have u: "uncertain c k ?w" using assms(2) by (simp add: uncertain_def)
  note l = uncertain_lookup [OF u] uncertain_ioctl [OF u] throw_if_then
  have "gone c (snd (snd (PassThruDisconnect c w)))"
    using disconnect_effect [OF assms(1)] assms(2) by (simp add: uncertain_def)
  then have "gone c (run_calls cs (snd (snd (PassThruDisconnect c w))))"
    by (rule gone_run [OF world_ok_Disconnect [OF assms(1)]])
  then show ?thesis
    unfolding Let_def PassThruReadMsgs_def PassThruWriteMsgs_def PassThruStartPeriodicMsg_def PassThruStopPeriodicMsg_def
      PassThruStartMsgFilter_def PassThruStopMsgFilter_def PassThruIoctl_def
    by (auto simp: guarded_def required_def l not_less)
qed

definition uncertain_world :: world where
  "uncertain_world = (world_init [])
     \<lparr>w_channels := [(2, 0)], w_fresh := 1, w_next_handle := 3,
      w_store := (\<lambda>_. device_new session_new)(0 := (device_new (ses_apply (set_can_receiver session_new (Some 0))
        (On_receiver 0 (Stop ERR_DEVICE_NOT_CONNECTED ''channel state uncertain; reopen device''))))
          \<lparr>dev_channel := 2, dev_receiver := Some 0, dev_reopen_required := True\<rparr>)\<rparr>"

lemma world_ok_uncertain_world: "world_ok uncertain_world"
proof -
  let ?s = "ses_apply (set_can_receiver session_new (Some 0))
      (On_receiver 0 (Stop ERR_DEVICE_NOT_CONNECTED ''channel state uncertain; reopen device''))"
  have "session_reachable ?s" by (intro session_reachable.intros)
  then have s: "ses_inv ?s" "ses_quiet ?s" using session_reachable_inv by blast+
  have f: "ses_can ?s = Some 0" "rx_protocol (ses_receivers ?s 0) = CAN" "rx_halted (ses_receivers ?s 0)"
    by (simp_all add: ses_apply_def set_can_receiver_def halt_receiver_def session_new_def rx_apply_def rx_stop_def
        rx_new_def rx_halted_def)
  have "device_ok 3 ((device_new ?s)\<lparr>dev_channel := 2, dev_receiver := Some 0, dev_reopen_required := True\<rparr>)"
    using s f by (simp add: device_ok_def device_new_def session_ok_def table_ids_def)
  moreover have "device_ok 3 (device_new session_new)"
    using ses_inv_new by (simp add: device_ok_def device_new_def session_ok_def table_ids_def session_new_def)
  ultimately have "\<forall>k. device_ok 3 (w_store uncertain_world k)" by (simp add: uncertain_world_def)
  moreover have "dev_channel (w_store uncertain_world k) = (if k = 0 then 2 else 0)" for k
    by (simp add: uncertain_world_def device_new_def)
  ultimately show ?thesis
    by (auto simp: world_ok_def registered_def uncertain_world_def world_init_def)
qed

theorem uncertain_channel_refuses_witness:
  "fst (PassThruIoctl 2 CLEAR_TX_BUFFER None False uncertain_world) = ERR_DEVICE_NOT_CONNECTED \<and>
   fst (PassThruReadMsgs [] 2 True (Some 1) 0 uncertain_world) = ERR_DEVICE_NOT_CONNECTED \<and>
   gone 2 (run_calls [Get_last_error True] (snd (snd (PassThruDisconnect 2 uncertain_world))))"
proof -
  have "uncertain 2 0 uncertain_world" by (simp add: uncertain_def uncertain_world_def device_new_def)
  from uncertain_channel_refuses [OF world_ok_uncertain_world this, where n = 1 and ioctl = CLEAR_TX_BUFFER and waits = "[]"
      and timeout = 0 and input = None and given = False and cs = "[Get_last_error True]"]
  show ?thesis unfolding Let_def by simp
qed

section \<open>Errors\<close>

text \<open>
  PassThruGetLastError returns the text of the error the last call ended with, cut to 79 characters, whether the
  handler threw it or rethrew it after cleaning up.
\<close>

theorem last_error_reported:
  "fst (snd (PassThruGetLastError True (snd (snd (guarded out m w))))) =
     (case m (w\<lparr>w_last_error := []\<rparr>) of
        (Inl e, _) \<Rightarrow> take 79 (exn_what e)
      | (Inr (Inl e, _), _) \<Rightarrow> take 79 (exn_what e)
      | (Inr (Inr _, _), w') \<Rightarrow> take 79 (w_last_error w'))"
  by (auto simp: PassThruGetLastError_def guarded_def split: prod.splits sum.splits)

section \<open>Properties of the API\<close>

text \<open>
  C19. After any sequence of calls, with any answers of the adapter and any steps of the reader threads in between, the
  state is well formed: registries, tables, receivers and sessions.
\<close>

theorem api_invariant: "world_ok (run_calls cs (world_init env))"
  by (rule world_ok_run [OF world_ok_init])

text \<open>
  C20. The IDs the library issues, for devices, channels, filters and periodic messages alike, increase strictly: none is
  ever issued twice.
\<close>

theorem ids_never_reused: "sorted_wrt (<) (issued cs (world_init env))"
  by (rule issued_increasing [OF world_ok_init])

text \<open>
  C21. Closing a device completes whatever the adapter answers: its session is stopped, and its handle and that of its
  channel are refused by every later call, whatever calls come in between.
\<close>

theorem close_is_final:
  assumes "world_ok w" and "(i, k) \<in> set (w_devices w)" and "c = dev_channel (w_store w k)"
    and "PassThruClose es stop i w = (st, u, w')" and "v = run_calls cs w'"
  shows "ses_stopped (dev_session (w_store w' k)) \<and>
    fst (PassThruClose es' stop' i v) = ERR_INVALID_DEVICE_ID \<and>
    fst (PassThruConnect memory i protocol flags baud True v) = ERR_INVALID_DEVICE_ID \<and>
    fst (PassThruReadVersion i True True True v) = ERR_INVALID_DEVICE_ID \<and>
    (c \<noteq> 0 \<longrightarrow>
       fst (PassThruDisconnect c v) = ERR_INVALID_CHANNEL_ID \<and>
       fst (PassThruReadMsgs waits c True (Some n) timeout v) = ERR_INVALID_CHANNEL_ID \<and>
       fst (PassThruWriteMsgs now clock evs c (Some ms) (Some n) timeout v) = ERR_INVALID_CHANNEL_ID \<and>
       fst (PassThruStartMsgFilter memory c type (Some msk) (Some pattern) flow True v) = ERR_INVALID_CHANNEL_ID)"
proof -
  have ok: "world_ok w'" using world_ok_Close [OF assms(1), of es stop i] assms(4) by simp
  have g: "gone i w'" "c \<noteq> 0 \<longrightarrow> gone c w'" "ses_stopped (dev_session (w_store w' k))"
    using close_effect [OF assms(1,2,4)] assms(3) by simp_all
  have "gone i v" "c \<noteq> 0 \<longrightarrow> gone c v" using gone_run [OF ok] g(1,2) assms(5) by auto
  then show ?thesis using g(3) by (auto simp: gone_calls)
qed

definition open_world :: world where
  "open_world = (world_init [])\<lparr>w_devices := [(1, 0)], w_fresh := 1, w_next_handle := 2\<rparr>"

lemma world_ok_open_world: "world_ok open_world"
  using ses_inv_new
  by (simp add: world_ok_def registered_def world_init_def device_ok_def device_new_def session_ok_def table_ids_def
      session_new_def open_world_def)

theorem close_is_final_witness:
  "let w' = snd (snd (PassThruClose [] (Inr ()) 1 open_world))
   in ses_stopped (dev_session (w_store w' 0)) \<and>
      fst (PassThruClose [] (Inr ()) 1 (run_calls [Get_last_error True] w')) = ERR_INVALID_DEVICE_ID"
proof -
  obtain st u w' where c: "PassThruClose [] (Inr ()) 1 open_world = (st, u, w')" by (cases "PassThruClose [] (Inr ()) 1 open_world")
  have "(1, 0) \<in> set (w_devices open_world)" by (simp add: open_world_def)
  from close_is_final [OF world_ok_open_world this refl c refl, where cs = "[Get_last_error True]" and es' = "[]" and stop' = "Inr ()"]
  show ?thesis by (simp add: c Let_def)
qed

text \<open>
  A voltage is reported as the nearest multiple of 100 mV, ties upward, or the call fails because that multiple does
  not fit 32 bits.
\<close>

theorem rounded_voltage_nearest:
  "(case rounded_voltage raw of
      Inr v \<Rightarrow> unat v mod 100 = 0 \<and> unat v \<le> unat raw + 50 \<and> unat raw < unat v + 50
    | Inl e \<Rightarrow> unat raw \<ge> 4294967250)"
proof -
  let ?r = "((ucast raw + 50) div 100) * 100 :: 64 word"
  have lt: "unat raw < 4294967296" using unsigned_less [of raw, where ?'a = nat] by simp
  have u: "unat (ucast raw :: 64 word) = unat raw"
    using lt by (simp add: unsigned_ucast_eq take_bit_nat_eq_self)
  have s: "unat (ucast raw + 50 :: 64 word) = unat raw + 50"
    using lt u by (simp only: unat_word_ariths(1)) simp
  define q where "q = (unat raw + 50) div 100"
  define m where "m = (unat raw + 50) mod 100"
  have qm: "unat raw + 50 = q * 100 + m" "m < 100" by (simp_all add: q_def m_def)
  have d: "unat ((ucast raw + 50) div 100 :: 64 word) = q"
    by (simp add: unat_div s q_def)
  have "q * 100 < 2 ^ 64" using qm lt by simp
  then have r: "unat ?r = q * 100"
    by (simp only: unat_word_ariths(2) d) simp
  show ?thesis
  proof (cases "?r > 0xffffffff")
    case True
    then have "unat ?r > 4294967295" by (simp only: word_less_nat_alt) simp
    then have "q \<ge> 42949673" unfolding r by simp
    then have "unat raw \<ge> 4294967250" using qm by linarith
    then show ?thesis using True by (simp add: rounded_voltage_def Let_def)
  next
    case False
    then have "unat ?r \<le> 4294967295" by (simp only: word_less_nat_alt not_less) simp
    then have "unat (ucast ?r :: u32) = q * 100"
      unfolding r [symmetric] by (simp only: unsigned_ucast_eq) (simp add: take_bit_nat_eq_self)
    moreover have "q * 100 \<le> unat raw + 50" "unat raw < q * 100 + 50" using qm by linarith+
    ultimately show ?thesis using False by (simp add: rounded_voltage_def Let_def)
  qed
qed

end
