(* ===== verification/Replay.thy ===== *)
theory Replay
  imports Interfaces Codec Effects
begin

text \<open>
  The offline transport of src/replay.cpp: a recorded conversation, read from a text of \<open>OUT\<close> and \<open>IN\<close> lines. A
  send must be the next recorded \<open>OUT\<close>; its \<open>IN\<close> chunks then go to the receiver. The receiver is an argument, a
  function on the state \<open>'s\<close> of whoever listens.
\<close>

section \<open>Definitions\<close>

record exchange =
  ex_out :: bytes
  ex_in :: "bytes list"

record replay =
  rp_exchanges :: "exchange list"
  rp_started :: bool
  rp_stopped :: bool

definition replay_new :: "exchange list \<Rightarrow> replay" where
  "replay_new exchanges = \<lparr>rp_exchanges = exchanges, rp_started = False, rp_stopped = False\<rparr>"

text \<open>\<open>std::getline\<close> on the whole file, and \<open>row >> direction\<close> on a line.\<close>

fun getlines :: "string \<Rightarrow> string list" where
  "getlines [] = []"
| "getlines text =
     (let line = takeWhile (\<lambda>c. c \<noteq> CHR 0x0A) text in
      line # getlines (drop (Suc (length line)) text))"

definition is_space :: "char \<Rightarrow> bool" where
  "is_space c = c_isspace (of_char c)"

definition next_token :: "string \<Rightarrow> string \<times> string" where
  "next_token line =
     (let rest = dropWhile is_space line
      in (takeWhile (\<lambda>c. \<not> is_space c) rest, dropWhile (\<lambda>c. \<not> is_space c) rest))"

fun replay_lines :: "exchange list \<Rightarrow> string list \<Rightarrow> exn + exchange list" where
  "replay_lines exchanges [] = Inr exchanges"
| "replay_lines exchanges (line # rest) =
     (if line = [] \<or> hd line = CHR ''#'' then replay_lines exchanges rest
      else let (direction, data) = next_token line in
        if direction = ''OUT''
        then ebind (unhex data) (\<lambda>d. replay_lines (exchanges @ [\<lparr>ex_out = d, ex_in = []\<rparr>]) rest)
        else if direction = ''IN'' \<and> exchanges \<noteq> []
        then ebind (unhex data) (\<lambda>d.
          replay_lines (butlast exchanges @ [(last exchanges)\<lparr>ex_in := ex_in (last exchanges) @ [d]\<rparr>]) rest)
        else Inl (Invalid_argument ''replay requires OUT hex followed by IN hex chunks''))"

text \<open>\<open>bad\<close>: reading the file failed part-way.\<close>

definition replay_read :: "string \<Rightarrow> bool \<Rightarrow> exn + replay" where
  "replay_read text bad =
     ebind (replay_lines [] (getlines text)) (\<lambda>exchanges.
       if bad then Inl (Runtime_error ''failed to read replay'') else Inr (replay_new exchanges))"

definition replay_start :: "replay \<Rightarrow> (exn + unit) \<times> replay" where
  "replay_start r =
     (if rp_started r \<or> rp_stopped r then (Inl (Logic_error ''replay cannot restart''), r)
      else (Inr (), r\<lparr>rp_started := True\<rparr>))"

fun deliver_chunks :: "(bytes \<Rightarrow> ('s, unit) eff) \<Rightarrow> bytes list \<Rightarrow> ('s, unit) eff" where
  "deliver_chunks receive [] = ret ()"
| "deliver_chunks receive (chunk # chunks) = andthen (receive chunk) (\<lambda>_. deliver_chunks receive chunks)"

definition replay_send ::
    "(bytes \<Rightarrow> ('s, unit) eff) \<Rightarrow> bytes \<Rightarrow> replay \<times> 's \<Rightarrow> (exn + unit) \<times> (replay \<times> 's)" where
  "replay_send receive data st =
     (let (r, s) = st in
      if \<not> rp_started r \<or> rp_stopped r then (Inl (Error ERR_DEVICE_NOT_CONNECTED ''replay stopped''), st)
      else case rp_exchanges r of
        [] \<Rightarrow> (Inl (Error ERR_FAILED ''replay OUT differs from expected frame''), st)
      | x # xs \<Rightarrow>
          if data \<noteq> ex_out x then (Inl (Error ERR_FAILED ''replay OUT differs from expected frame''), st)
          else let (res, s') = deliver_chunks receive (ex_in x) s in (res, r\<lparr>rp_exchanges := xs\<rparr>, s'))"

definition replay_stop :: "replay \<Rightarrow> replay" where
  "replay_stop r = r\<lparr>rp_stopped := True\<rparr>"

definition assert_finished :: "replay \<Rightarrow> exn + unit" where
  "assert_finished r =
     (if rp_exchanges r \<noteq> [] then Inl (Error ERR_FAILED ''replay has unconsumed exchanges'') else Inr ())"

section \<open>The transport contract\<close>

lemma replay_transport:
  "byte_transport (\<lambda>_ (r, s). (fst (replay_start r), snd (replay_start r), s)) (\<lambda>receive data _. replay_send receive data)
     (\<lambda>_ (r, s). (Inr (), replay_stop r, s)) (\<lambda>(r, s). rp_stopped r) (\<lambda>_. True)"
  by unfold_locales
     (auto simp: replay_start_def replay_stop_def replay_send_def split: prod.splits if_splits)

interpretation replayed: byte_transport "\<lambda>_ (r, s). (fst (replay_start r), snd (replay_start r), s)"
    "\<lambda>receive data _. replay_send receive data" "\<lambda>_ (r, s). (Inr (), replay_stop r, s)" "\<lambda>(r, s). rp_stopped r" "\<lambda>_. True"
  by (rule replay_transport)

section \<open>Reading\<close>

text \<open>A recording as text.\<close>

definition replay_text :: "exchange list \<Rightarrow> string list" where
  "replay_text exchanges =
     concat (map (\<lambda>x. (''OUT '' @ hex (ex_out x)) # map (\<lambda>d. ''IN '' @ hex d) (ex_in x)) exchanges)"

definition unlines :: "string list \<Rightarrow> string" where
  "unlines ls = concat (map (\<lambda>l. l @ [CHR 0x0A]) ls)"

lemma getlines_line:
  assumes "CHR 0x0A \<notin> set l" shows "getlines (l @ CHR 0x0A # text) = l # getlines text"
proof -
  have t: "takeWhile (\<lambda>c. c \<noteq> CHR 0x0A) (l @ CHR 0x0A # text) = l"
    using assms by (subst takeWhile_append2) auto
  obtain c cs where e: "l @ CHR 0x0A # text = c # cs" by (cases l) auto
  have "getlines (c # cs) = l # getlines (drop (Suc (length l)) (c # cs))"
    using t unfolding e by (simp add: Let_def)
  then show ?thesis by (simp add: e [symmetric])
qed

lemma getlines_unlines: "\<forall>l \<in> set ls. CHR 0x0A \<notin> set l \<Longrightarrow> getlines (unlines ls) = ls"
  by (induction ls) (simp_all add: unlines_def getlines_line)

lemma hex_chars: "c \<in> set (hex d) \<Longrightarrow> c \<in> set hex_digits"
proof -
  have "hex_digits ! unat (drop_bit 4 b) \<in> set hex_digits" "hex_digits ! unat (b AND 15) \<in> set hex_digits" for b :: u8
    using nibble_bounds [of b] by (intro nth_mem, simp add: hex_digits_def)+
  then show "c \<in> set (hex d) \<Longrightarrow> c \<in> set hex_digits" by (auto simp: hex_def)
qed

lemma unhex_spaced: "unhex (CHR '' '' # hex d) = Inr d"
  using unhex_from_hex [of "[]" d] by (simp add: unhex_def c_isspace_def)

lemma next_token_keyword:
  "next_token (''OUT '' @ rest) = (''OUT'', CHR '' '' # rest)" "next_token (''IN '' @ rest) = (''IN'', CHR '' '' # rest)"
  by (simp_all add: next_token_def is_space_def c_isspace_def)

lemma replay_lines_out:
  "replay_lines xs ((''OUT '' @ hex d) # ls) = replay_lines (xs @ [\<lparr>ex_out = d, ex_in = []\<rparr>]) ls"
  using next_token_keyword(1) [of "hex d"] unhex_spaced [of d] by simp

lemma replay_lines_in:
  "replay_lines (xs @ [x]) (map (\<lambda>d. ''IN '' @ hex d) ds @ ls) = replay_lines (xs @ [x\<lparr>ex_in := ex_in x @ ds\<rparr>]) ls"
proof (induction ds arbitrary: x)
  case (Cons d ds)
  have "replay_lines (xs @ [x]) ((''IN '' @ hex d) # map (\<lambda>d. ''IN '' @ hex d) ds @ ls) =
      replay_lines (xs @ [x\<lparr>ex_in := ex_in x @ [d]\<rparr>]) (map (\<lambda>d. ''IN '' @ hex d) ds @ ls)"
    using next_token_keyword(2) [of "hex d"] unhex_spaced [of d] by simp
  also have "\<dots> = replay_lines (xs @ [x\<lparr>ex_in := ex_in x @ [d]\<rparr>\<lparr>ex_in := ex_in (x\<lparr>ex_in := ex_in x @ [d]\<rparr>) @ ds\<rparr>]) ls"
    by (rule Cons.IH)
  finally show ?case by simp
qed simp

lemma replay_lines_text: "replay_lines acc (replay_text xs) = Inr (acc @ xs)"
proof (induction xs arbitrary: acc)
  case (Cons x xs)
  have "replay_lines acc (replay_text (x # xs)) =
      replay_lines (acc @ [\<lparr>ex_out = ex_out x, ex_in = []\<rparr>]) (map (\<lambda>d. ''IN '' @ hex d) (ex_in x) @ replay_text xs)"
    using replay_lines_out [of acc "ex_out x" "map (\<lambda>d. ''IN '' @ hex d) (ex_in x) @ replay_text xs"]
    by (simp only: replay_text_def list.map concat.simps append_Cons)
  also have "\<dots> = replay_lines (acc @ [x]) (replay_text xs)"
    using replay_lines_in [of acc "\<lparr>ex_out = ex_out x, ex_in = []\<rparr>" "ex_in x" "replay_text xs"] by (cases x) simp
  finally show ?case using Cons.IH [of "acc @ [x]"] by simp
qed (simp add: replay_text_def)

text \<open>
  Reading back a recording: the text of any list of exchanges, one \<open>OUT\<close> line each followed by its \<open>IN\<close> lines,
  reads as exactly those exchanges with the chunk boundaries kept.
\<close>

theorem replay_roundtrip: "replay_read (unlines (replay_text exchanges)) False = Inr (replay_new exchanges)"
proof -
  have "CHR 0x0A \<notin> set (hex d)" for d using hex_chars [of "CHR 0x0A" d] by (auto simp: hex_digits_def)
  then have "\<forall>l \<in> set (replay_text exchanges). CHR 0x0A \<notin> set l" by (auto simp: replay_text_def)
  then show ?thesis by (simp add: replay_read_def getlines_unlines replay_lines_text)
qed

section \<open>A conversation\<close>

fun replay_sends ::
    "(bytes \<Rightarrow> ('s, unit) eff) \<Rightarrow> bytes list \<Rightarrow> replay \<times> 's \<Rightarrow> (exn + unit) \<times> (replay \<times> 's)" where
  "replay_sends receive [] st = (Inr (), st)"
| "replay_sends receive (d # ds) st =
     (case replay_send receive d st of (Inl e, st') \<Rightarrow> (Inl e, st') | (Inr _, st') \<Rightarrow> replay_sends receive ds st')"

lemma deliver_chunks_append:
  "deliver_chunks receive (cs @ ds) = andthen (deliver_chunks receive cs) (\<lambda>_. deliver_chunks receive ds)"
  by (induction cs) (simp_all add: andthen_assoc, simp add: andthen_def ret_def)

text \<open>
  A replay accepts a conversation exactly if what is sent is, frame by frame, the beginning of the recording.
  Then the listener has received every recorded chunk of those exchanges in order, the rest of the recording is
  what remains, and \<open>assert_finished\<close> holds exactly if all of it was used.
\<close>

theorem replay_conversation:
  assumes "\<And>chunk s. \<exists>s'. receive chunk s = (Inr (), s')" and "rp_started r" and "\<not> rp_stopped r"
    and "replay_sends receive ds (r, s) = (res, r', s')"
  shows "(res = Inr () \<longleftrightarrow> (\<exists>later. map ex_out (rp_exchanges r) = ds @ later)) \<and>
    (res = Inr () \<longrightarrow>
       r' = r\<lparr>rp_exchanges := drop (length ds) (rp_exchanges r)\<rparr> \<and>
       deliver_chunks receive (concat (map ex_in (take (length ds) (rp_exchanges r)))) s = (Inr (), s') \<and>
       (assert_finished r' = Inr () \<longleftrightarrow> length ds = length (rp_exchanges r)))"
  using assms(2-)
proof (induction ds arbitrary: r s)
  case Nil
  then show ?case by (auto simp: ret_def assert_finished_def)
next
  case (Cons d ds)
  have total: "\<exists>s1. deliver_chunks receive cs s = (Inr (), s1)" for cs s
  proof (induction cs arbitrary: s)
    case (Cons c cs)
    obtain s1 where "receive c s = (Inr (), s1)" using assms(1) by blast
    with Cons.IH [of s1] show ?case by (simp add: andthen_def)
  qed (simp add: ret_def)
  show ?case
  proof (cases "rp_exchanges r")
    case Nil
    then show ?thesis using Cons.prems by (auto simp: replay_send_def)
  next
    case (Cons x xs)
    show ?thesis
    proof (cases "d = ex_out x")
      case False
      then show ?thesis using Cons.prems Cons by (auto simp: replay_send_def)
    next
      case True
      let ?r = "r\<lparr>rp_exchanges := xs\<rparr>"
      obtain s1 where s1: "deliver_chunks receive (ex_in x) s = (Inr (), s1)" using total by blast
      have "replay_sends receive ds (?r, s1) = (res, r', s')"
        using Cons.prems Cons True s1 by (simp add: replay_send_def)
      from Cons.IH [OF _ _ this] Cons.prems(1,2) show ?thesis
        using Cons True s1 by (auto simp: deliver_chunks_append andthen_def)
    qed
  qed
qed

theorem replay_conversation_witness:
  "let listen = (\<lambda>chunk log. (Inr (), log @ [chunk]));
       r = (replay_new [\<lparr>ex_out = [1], ex_in = [[2], [3, 4]]\<rparr>, \<lparr>ex_out = [5], ex_in = []\<rparr>])\<lparr>rp_started := True\<rparr>
   in replay_sends listen [[1]] (r, []) = (Inr (), r\<lparr>rp_exchanges := [\<lparr>ex_out = [5], ex_in = []\<rparr>]\<rparr>, [[2], [3, 4]])"
proof -
  define listen :: "bytes \<Rightarrow> (bytes list, unit) eff" where "listen = (\<lambda>chunk log. (Inr (), log @ [chunk]))"
  define r where "r = (replay_new [\<lparr>ex_out = [1], ex_in = [[2], [3, 4]]\<rparr>, \<lparr>ex_out = [5], ex_in = []\<rparr>])\<lparr>rp_started := True\<rparr>"
  obtain res r' s' where run: "replay_sends listen [[1]] (r, []) = (res, r', s')" by (metis surj_pair)
  have l: "\<exists>s'. listen chunk s = (Inr (), s')" for chunk s by (simp add: listen_def)
  from replay_conversation [OF l _ _ run] have "res = Inr () \<and> r' = r\<lparr>rp_exchanges := [\<lparr>ex_out = [5], ex_in = []\<rparr>]\<rparr> \<and>
      deliver_chunks listen [[2], [3, 4]] [] = (Inr (), s')" by (simp add: r_def replay_new_def)
  with run show ?thesis unfolding listen_def [symmetric] r_def [symmetric] Let_def
    by (simp add: listen_def andthen_def ret_def)
qed

end
