(* ===== verification/Replay_Session.thy ===== *)
theory Replay_Session
  imports Replay Session
begin

text \<open>
  A session over the replay transport: what the replay delivers during a write is what the reader thread would have
  received, and a recorded exchange answers a command.
\<close>

definition session_listener :: "bytes \<Rightarrow> (session, unit) eff" where
  "session_listener chunk s = (Inr (), ses_apply s (Arrived chunk))"

lemma deliver_to_session: "deliver_chunks session_listener chunks s = (Inr (), ses_run s (map Arrived chunks))"
  by (induction chunks arbitrary: s) (simp_all add: session_listener_def andthen_def ret_def)

text \<open>The session's view of one write to the replay: its outcome and the events it causes.\<close>

definition replay_write :: "replay \<Rightarrow> bytes \<Rightarrow> (exn + unit) \<times> ses_event list" where
  "replay_write r data =
     (if \<not> rp_started r \<or> rp_stopped r then (Inl (Error ERR_DEVICE_NOT_CONNECTED ''replay stopped''), [])
      else case rp_exchanges r of
        [] \<Rightarrow> (Inl (Error ERR_FAILED ''replay OUT differs from expected frame''), [])
      | x # _ \<Rightarrow>
          if data \<noteq> ex_out x then (Inl (Error ERR_FAILED ''replay OUT differs from expected frame''), [])
          else (Inr (), map Arrived (ex_in x)))"

lemma replay_write_send:
  "replay_write r data = (res, es) \<Longrightarrow> fst (replay_send session_listener data (r, s)) = res \<and>
     snd (snd (replay_send session_listener data (r, s))) = ses_run s es"
  by (auto simp: replay_write_def replay_send_def deliver_to_session split: list.splits if_splits)

definition replay_env :: "replay \<Rightarrow> cmd_env" where
  "replay_env r =
     \<lparr>env_start = 0, env_slot = True, env_queued = [], env_now = 1, env_known = [], env_unsent = [], env_left = 0,
      env_send = (\<lambda>data ms. replay_write r data), env_wait = []\<rparr>"

lemma arrived_chunks: "arrived (map Arrived chunks) = concat chunks"
  by (induction chunks) simp_all

lemma arrived_keeps:
  "minimum_ok s \<Longrightarrow> ses_failure (ses_run s (map Arrived chunks)) = ses_failure s \<and>
     ses_closing (ses_run s (map Arrived chunks)) = ses_closing s"
proof (induction chunks arbitrary: s)
  case (Cons c chunks)
  obtain frames d where "decoder_feed (ses_decoder s) c = Inr (frames, d)" using decoder_feed_total by blast
  from ses_receive_effect [OF Cons.prems this]
  have "ses_failure (ses_apply s (Arrived c)) = ses_failure s" "ses_closing (ses_apply s (Arrived c)) = ses_closing s"
    by (simp_all add: ses_apply_def)
  moreover have "minimum_ok (ses_apply s (Arrived c))"
    using minimum_ok_same [OF same_command_apply [OF Cons.prems]] Cons.prems by blast
  ultimately show ?case using Cons.IH by simp
qed simp

text \<open>
  A recorded exchange plays: if the next \<open>OUT\<close> of the recording is the framed request the session is about to
  make and its \<open>IN\<close> chunks are, however cut, the frame of an answer to it, the command returns that answer and the
  session is usable again.
\<close>

theorem replayed_command:
  assumes "session_reachable s" and "ses_usable s" and "decoder_between (ses_decoder s)"
    and "rp_started r" and "\<not> rp_stopped r" and "rp_exchanges r = x # xs"
    and "request opcode (next_sequence s) payload destination chan = Inr request_body" and "encode request_body = Inr (ex_out x)"
    and "encode body = Inr (concat (ex_in x))" and "is_answer destination (next_sequence s) (if opcode = 0x100 then 12 else 20) body"
    and "0 < timeout" and "timeout \<le> 60000"
  shows "\<exists>t. ses_command (replay_env r) opcode payload timeout destination chan None s = (Inr body, t) \<and> ses_usable t"
proof -
  let ?sq = "next_sequence s" and ?min = "if opcode = 0x100 then 12 else (20 :: nat)"
  let ?u = "s\<lparr>ses_sequence := ?sq, ses_pending_source := destination, ses_pending := ?sq, ses_minimum := ?min,
      ses_response := None, ses_used := (ses_used s)(?sq := 1)\<rparr>"
  have inv: "ses_inv s" "ses_quiet s" using session_reachable_inv [OF assms(1)] by blast+
  have used: "\<And>q. ses_used s q = 0" using inv(2) assms(2) by (simp add: ses_quiet_def)
  have "allocate 255 (ses_used s) 1 (ses_sequence s) = (True, ?sq)"
    using allocate_free [of "ses_used s" 254] used by (simp add: next_sequence_def)
  then have b: "cmd_begin s 1 opcode payload destination chan = (Inr (ex_out x), ?u)"
    using assms(2,7,8) by (simp add: cmd_begin_def ses_usable_def Let_def)
  have m: "minimum_ok ?u" by (simp add: minimum_ok_def)
  have w: "replay_write r (ex_out x) = (Inr (), map Arrived (ex_in x))" using assms(4-6) by (simp add: replay_write_def)
  have f: "decoder_feed (ses_decoder ?u) (concat (ex_in x)) = Inr ([body], ses_decoder s)"
    using wire.feed_enc [OF _ assms(9)] assms(3) by simp
  let ?v = "ses_run ?u (map Arrived (ex_in x))"
  have v: "ses_response ?v = Some body"
    using ses_run_find [OF m, of "map Arrived (ex_in x)" "[body]" "ses_decoder s"] f assms(10) next_sequence_range(3)
    by (simp add: arrived_chunks)
  have keep: "ses_failure ?v = []" "\<not> ses_closing ?v"
    using arrived_keeps [OF m, of "ex_in x"] assms(2) by (simp_all add: ses_usable_def)
  then have fin: "\<exists>t. cmd_finish ?v q = (Inr body, t) \<and> ses_usable t" for q
    using v by (simp add: cmd_finish_def ses_usable_def)
  have "timeout * 1000000 > 0" using assms(11) by simp
  then have "ses_command (replay_env r) opcode payload timeout destination chan None s =
      cmd_exchange (replay_env r) ?u (ex_out x) ?sq (timeout * 1000000)"
    using assms(11,12) b by (simp add: ses_command_cases replay_env_def cmd_told_def cmd_left_def)
  also have "\<dots> = cmd_finish ?v ?sq" using w by (simp add: cmd_exchange_def replay_env_def)
  finally show ?thesis using fin by simp
qed

theorem replayed_command_witness:
  "let x = \<lparr>ex_out = [12, 0, 0xea, 0x51, 1, 0, 0, 0, 0, 1, 1, 0, 0, 0, 0, 0], ex_in = [take 5 sample_wire, drop 5 sample_wire]\<rparr>;
       r = (replay_new [x])\<lparr>rp_started := True\<rparr>
   in fst (ses_command (replay_env r) 0x100 [] 10000 1 0 None session_new) = Inr sample_answer"
proof -
  define x where "x = \<lparr>ex_out = [12, 0, 0xea, 0x51, 1, 0, 0, 0, 0, 1, 1, 0, 0, 0, 0, 0], ex_in = [take 5 sample_wire, drop 5 sample_wire]\<rparr>"
  define r where "r = (replay_new [x])\<lparr>rp_started := True\<rparr>"
  have sq: "next_sequence session_new = 1" by (simp add: next_sequence_def session_new_def)
  obtain rb where rb: "request 0x100 1 [] 1 0 = Inr rb" "encode rb = Inr (ex_out x)"
  proof -
    have "ebind (request 0x100 1 [] 1 0) encode = Inr (ex_out x)" unfolding x_def by code_simp
    then show thesis using that by (auto simp: ebind_eq_Inr_iff)
  qed
  have enc: "encode sample_answer = Inr (concat (ex_in x))"
    by (simp add: x_def) code_simp
  have ans: "is_answer 1 1 12 sample_answer" by (simp add: is_answer_def sample_answer_def le16_def response_opcode_def)
  have u: "ses_usable session_new" "decoder_between (ses_decoder session_new)"
    by (simp_all add: session_new_def ses_usable_def decoder_between_def decoder_init_def)
  have r: "rp_started r" "\<not> rp_stopped r" "rp_exchanges r = x # []" by (simp_all add: r_def replay_new_def)
  from replayed_command [OF opened u r, where opcode = "0x100" and payload = "[]" and destination = 1 and chan = 0 and
      request_body = rb and body = sample_answer and timeout = 10000] rb enc ans sq
  show ?thesis unfolding x_def [symmetric] r_def [symmetric] Let_def by auto
qed

end
