(* ===== verification/Posix.thy ===== *)
theory Posix
  imports Mongoose_Base
begin

text \<open>
  What the two device transports share: the error numbers of the system calls the source tells apart, and the entry of a
  device list, \<open>DeviceInfo\<close> of src/transport.hpp.
\<close>

datatype errno =
  ENODEV | ENXIO | ENOENT | EIO | EPIPE | EBUSY | ETIMEDOUT | EACCES | EPERM | EINTR | EAGAIN | EWOULDBLOCK | Errno nat

record device_info =
  di_serial :: string
  di_location :: string
  di_error :: string

end
