(* ===== verification/Tty_Transport.thy ===== *)
theory Tty_Transport
  imports Posix Interfaces Selector Effects Replay_Session "HOL-Library.List_Lexorder" "HOL-Library.Char_ord"
begin

text \<open>
  The tty transport of src/tty.cpp: finding the adapter in sysfs, opening and configuring the tty, the write loop, the
  reader thread and what is given back on the way out. The operating system is an argument: what sysfs holds, what
  each system call returns, the clock, and what \<open>strerror\<close> prints. \<open>tty_log\<close> records the calls that take or release
  something, \<open>tty_written\<close> the bytes the kernel has accepted.
\<close>

section \<open>Errors\<close>

definition errno_status :: "errno \<Rightarrow> status" where
  "errno_status code =
     (if code = ENODEV \<or> code = ENXIO \<or> code = ENOENT \<or> code = EIO \<or> code = EPIPE then ERR_DEVICE_NOT_CONNECTED
      else if code = EBUSY then ERR_DEVICE_IN_USE
      else if code = ETIMEDOUT then ERR_TIMEOUT
      else ERR_FAILED)"

definition describe :: "(errno \<Rightarrow> string) \<Rightarrow> errno \<Rightarrow> string" where
  "describe strerror code =
     (if code = EACCES \<or> code = EPERM then strerror code @ ''; join group dialout'' else strerror code)"

definition os_error :: "(errno \<Rightarrow> string) \<Rightarrow> string \<Rightarrow> errno \<Rightarrow> exn" where
  "os_error strerror action code = Error (errno_status code) (action @ describe strerror code)"

text \<open>Nanoseconds to the milliseconds of \<open>poll\<close>, rounded up, in 1..60000.\<close>

definition poll_budget :: "int \<Rightarrow> int" where
  "poll_budget left = max 1 (min 60000 ((left + 999999) div 1000000))"

section \<open>Finding the adapter\<close>

text \<open>Canonical paths are lists of names, from the root; \<open>sys_text\<close> is the content of a file, empty if unreadable.\<close>

record sysfs =
  sys_canonical :: "string \<Rightarrow> string list option"
  sys_exists :: "string list \<Rightarrow> bool"
  sys_text :: "string list \<Rightarrow> string"
  sys_ttys :: "string list option"

definition vendor_id :: string where "vendor_id = ''18e1''"
definition product_id :: string where "product_id = ''0104''"

definition attribute :: "sysfs \<Rightarrow> string list \<Rightarrow> string" where
  "attribute sys file = takeWhile (\<lambda>c. c \<noteq> CHR 0x0A) (sys_text sys file)"

fun climb :: "sysfs \<Rightarrow> nat \<Rightarrow> string list \<Rightarrow> string list option" where
  "climb sys 0 path = None"
| "climb sys (Suc n) path =
     (let path = butlast path
      in if sys_exists sys (path @ [''idVendor'']) then Some path else climb sys n path)"

definition usb_directory :: "sysfs \<Rightarrow> string \<Rightarrow> string list option" where
  "usb_directory sys node =
     (case sys_canonical sys (''/sys/class/tty/'' @ node @ ''/device'') of
        None \<Rightarrow> None
      | Some path \<Rightarrow> climb sys 4 path)"

text \<open>The serial number, if the node is a Mongoose adapter.\<close>

definition is_adapter :: "sysfs \<Rightarrow> string \<Rightarrow> string option" where
  "is_adapter sys node =
     (case usb_directory sys node of
        None \<Rightarrow> None
      | Some dir \<Rightarrow>
          if attribute sys (dir @ [''idVendor'']) \<noteq> vendor_id then None
          else if attribute sys (dir @ [''idProduct'']) \<noteq> product_id then None
          else Some (attribute sys (dir @ [''serial''])))"

record candidate =
  cd_location :: string
  cd_serial :: string

definition tty_prefix :: string where "tty_prefix = ''ttyACM''"

definition candidates :: "sysfs \<Rightarrow> candidate list" where
  "candidates sys =
     (case sys_ttys sys of
        None \<Rightarrow> []
      | Some nodes \<Rightarrow>
          sort_key cd_location
            (concat (map (\<lambda>node.
               if take (length tty_prefix) node \<noteq> tty_prefix then []
               else case is_adapter sys node of
                 None \<Rightarrow> []
               | Some serial \<Rightarrow> [\<lparr>cd_location = ''/dev/'' @ node, cd_serial = serial\<rparr>]) nodes)))"

definition tty_devices :: "sysfs \<Rightarrow> (string \<Rightarrow> errno option) \<Rightarrow> (errno \<Rightarrow> string) \<Rightarrow> device_info list" where
  "tty_devices sys access strerror =
     map (\<lambda>e. \<lparr>di_serial = cd_serial e, di_location = cd_location e,
              di_error = (case access (cd_location e) of None \<Rightarrow> [] | Some code \<Rightarrow> strerror code)\<rparr>) (candidates sys)"

definition filename :: "string \<Rightarrow> string" where
  "filename path = rev (takeWhile (\<lambda>c. c \<noteq> CHR ''/'') (rev path))"

text \<open>The path to open for a selector.\<close>

definition choose_path :: "sysfs \<Rightarrow> selector \<Rightarrow> exn + string" where
  "choose_path sys selector =
     (if sel_path selector = [] then
        (case filter (\<lambda>e. sel_serial selector = [] \<or> cd_serial e = sel_serial selector) (candidates sys) of
           [] \<Rightarrow> Inl (Error ERR_DEVICE_NOT_CONNECTED ''no matching MongoosePro JLR tty device'')
         | [e] \<Rightarrow> Inr (cd_location e)
         | _ \<Rightarrow> Inl (Error ERR_NOT_UNIQUE ''multiple adapters match; specify a unique serial''))
      else
        let node = (case sys_canonical sys (sel_path selector) of
                      None \<Rightarrow> filename (sel_path selector)
                    | Some names \<Rightarrow> (if names = [] then [] else last names))
        in case is_adapter sys node of
             None \<Rightarrow> Inl (Error ERR_NOT_SUPPORTED (sel_path selector @ '' is not a MongoosePro JLR adapter''))
           | Some _ \<Rightarrow> Inr (sel_path selector))"

section \<open>Opening\<close>

datatype tty_call =
  Call_open string | Call_close | Call_exclusive | Call_not_exclusive | Call_eventfd | Call_close_wake

record tty =
  tty_fd :: "int option"
  tty_exclusive :: bool
  tty_wake :: bool
  tty_started :: bool
  tty_closed :: bool
  tty_stopping :: bool
  tty_trace :: "(string \<times> bytes) list"
  tty_log :: "tty_call list"
  tty_written :: bytes

definition tty_new :: tty where
  "tty_new = \<lparr>tty_fd = None, tty_exclusive = False, tty_wake = False, tty_started = False, tty_closed = False,
              tty_stopping = False, tty_trace = [], tty_log = [], tty_written = []\<rparr>"

record termios =
  c_iflag :: u32
  c_oflag :: u32
  c_lflag :: u32
  c_cflag :: u32

text \<open>The Linux values of the control flags \<open>CS8\<close> and \<open>CLOCAL\<close>.\<close>

definition flag_CS8 :: u32 where "flag_CS8 = 0x30"
definition flag_CLOCAL :: u32 where "flag_CLOCAL = 0x800"

record tty_os =
  os_open :: "string \<Rightarrow> errno + int"
  os_lock :: bool
  os_exclusive :: bool
  os_speed :: bool
  os_set :: "errno option"
  os_applied :: "errno + termios"
  os_strerror :: "errno \<Rightarrow> string"

definition log_call :: "tty_call \<Rightarrow> tty \<Rightarrow> tty" where
  "log_call c t = t\<lparr>tty_log := tty_log t @ [c]\<rparr>"

definition emit :: "string \<Rightarrow> bytes \<Rightarrow> tty \<Rightarrow> tty" where
  "emit kind data t = t\<lparr>tty_trace := tty_trace t @ [(kind, data)]\<rparr>"

definition configure :: "tty_os \<Rightarrow> string \<Rightarrow> exn + unit" where
  "configure os label =
     (if \<not> os_speed os then Inl (Error ERR_FAILED (''cannot set tty line speed on '' @ label))
      else case os_set os of
        Some code \<Rightarrow> Inl (os_error (os_strerror os) (''cannot configure '' @ label @ '': '') code)
      | None \<Rightarrow>
          (case os_applied os of
             Inl code \<Rightarrow> Inl (os_error (os_strerror os) ''cannot read back tty settings: '' code)
           | Inr applied \<Rightarrow>
               let needed = flag_CS8 OR flag_CLOCAL in
               if c_iflag applied \<noteq> 0 \<or> c_oflag applied \<noteq> 0 \<or> c_lflag applied \<noteq> 0 \<or> c_cflag applied AND needed \<noteq> needed
               then Inl (Error ERR_FAILED (''tty did not accept raw mode on '' @ label))
               else Inr ()))"

definition acquire :: "tty_os \<Rightarrow> sysfs \<Rightarrow> selector \<Rightarrow> (tty, unit) eff" where
  "acquire os sys selector =
     andthen (lift (choose_path sys selector)) (\<lambda>location.
     case os_open os location of
       Inl code \<Rightarrow> raise (os_error (os_strerror os) (''cannot open '' @ location @ '': '') code)
     | Inr fd \<Rightarrow>
         andthen (modify (\<lambda>t. log_call (Call_open location) (t\<lparr>tty_fd := Some fd\<rparr>))) (\<lambda>_.
         andthen (throw_if (\<not> os_lock os) (Error ERR_DEVICE_IN_USE ''adapter is locked by another driver instance'')) (\<lambda>_.
         andthen (modify (\<lambda>t. if os_exclusive os then log_call Call_exclusive (t\<lparr>tty_exclusive := True\<rparr>)
                              else emit ''TIOCEXCL_FAILED'' [] t)) (\<lambda>_.
         lift (configure os location)))))"

definition cleanup :: "tty \<Rightarrow> tty" where
  "cleanup t =
     (let t = (case tty_fd t of
                 None \<Rightarrow> t
               | Some _ \<Rightarrow>
                   (log_call Call_close (if tty_exclusive t then log_call Call_not_exclusive t else t))
                     \<lparr>tty_fd := None, tty_exclusive := False\<rparr>)
      in if tty_wake t then (log_call Call_close_wake t)\<lparr>tty_wake := False\<rparr> else t)"

text \<open>The two constructors; an exception leaves nothing behind but the log.\<close>

definition clean_on_error :: "(tty, unit) eff \<Rightarrow> (tty, unit) eff" where
  "clean_on_error m = catch m (\<lambda>e. andthen (modify cleanup) (\<lambda>_. raise e))"

definition tty_create :: "tty_os \<Rightarrow> sysfs \<Rightarrow> selector \<Rightarrow> (exn + unit) \<times> tty" where
  "tty_create os sys selector = clean_on_error (acquire os sys selector) tty_new"

definition tty_adopt :: "tty_os \<Rightarrow> int \<Rightarrow> string \<Rightarrow> (exn + unit) \<times> tty" where
  "tty_adopt os fd label = clean_on_error (lift (configure os label)) (tty_new\<lparr>tty_fd := Some fd\<rparr>)"

section \<open>Starting and stopping\<close>

definition tty_stop :: "tty \<Rightarrow> (exn + unit) \<times> tty" where
  "tty_stop t =
     (if tty_closed t then (Inr (), t) else (Inr (), (cleanup (t\<lparr>tty_stopping := True\<rparr>))\<lparr>tty_closed := True\<rparr>))"

text \<open>The outcomes of \<open>eventfd\<close> and of creating the thread.\<close>

definition tty_start :: "(errno \<Rightarrow> string) \<Rightarrow> errno option \<times> exn option \<Rightarrow> tty \<Rightarrow> (exn + unit) \<times> tty" where
  "tty_start strerror outcome t =
     (if tty_started t \<or> tty_closed t then (Inl (Error ERR_FAILED ''transport cannot be restarted''), t)
      else
        let t = t\<lparr>tty_started := True\<rparr> in
        case fst outcome of
          Some code \<Rightarrow> (Inl (os_error strerror ''eventfd: '' code), snd (tty_stop t))
        | None \<Rightarrow>
            let t = log_call Call_eventfd (t\<lparr>tty_wake := True\<rparr>) in
            (case snd outcome of
               Some e \<Rightarrow> (Inl e, snd (tty_stop t))
             | None \<Rightarrow> (Inr (), t)))"

section \<open>Writing\<close>

datatype poll_result = Poll_failed errno | Poll_expired | Poll_ready bool

text \<open>
  One turn of the write loop: the clock at its head (read once a byte is out), what \<open>write\<close> returns, the clock after it
  and what \<open>poll\<close> returns, with whether it reported an error or a hang-up. \<open>write\<close> never accepts more than it is given.
\<close>

record write_turn =
  wt_now :: int
  wt_write :: "errno + nat"
  wt_later :: int
  wt_poll :: poll_result

text \<open>How the loop ends and how many bytes went out; \<open>None\<close> when it is still running after these turns.\<close>

fun write_loop ::
    "(errno \<Rightarrow> string) \<Rightarrow> int \<Rightarrow> nat \<Rightarrow> nat \<Rightarrow> write_turn list \<Rightarrow> ((exn + unit) \<times> nat) option" where
  "write_loop strerror deadline len sent turns =
     (if sent \<ge> len then Some (Inr (), sent)
      else case turns of
        [] \<Rightarrow> None
      | w # turns \<Rightarrow>
          if sent > 0 \<and> wt_now w \<ge> deadline then Some (Inr (), sent)
          else
            let wait = (if wt_later w \<ge> deadline then Some (Inr (), sent)
                        else case wt_poll w of
                          Poll_failed code \<Rightarrow>
                            if code = EINTR then write_loop strerror deadline len sent turns
                            else Some (Inl (os_error strerror ''tty write poll: '' code), sent)
                        | Poll_expired \<Rightarrow> Some (Inr (), sent)
                        | Poll_ready hangup \<Rightarrow>
                            if hangup
                            then Some (Inl (Error ERR_DEVICE_NOT_CONNECTED ''adapter disconnected during write''), sent)
                            else write_loop strerror deadline len sent turns)
            in case wt_write w of
                 Inr n \<Rightarrow>
                   if n > 0 then write_loop strerror deadline len (sent + min n (len - sent)) turns else wait
               | Inl code \<Rightarrow>
                   if code = EINTR then write_loop strerror deadline len sent turns
                   else if code \<noteq> EAGAIN \<and> code \<noteq> EWOULDBLOCK
                   then Some (Inl (os_error strerror ''tty write: '' code), sent)
                   else wait)"

declare write_loop.simps [simp del]

definition tty_send ::
    "(errno \<Rightarrow> string) \<Rightarrow> int \<Rightarrow> write_turn list \<Rightarrow> bytes \<Rightarrow> nat \<Rightarrow> tty \<Rightarrow> ((exn + unit) \<times> tty) option" where
  "tty_send strerror now turns data timeout t =
     (if length data > 65536 \<or> data = [] \<or> timeout = 0
      then Some (Inl (Invalid_argument ''invalid tty write size or timeout''), t)
      else if tty_stopping t \<or> \<not> tty_started t \<or> tty_fd t = None
      then Some (Inl (Error ERR_DEVICE_NOT_CONNECTED ''tty transport stopped''), t)
      else
        let t = emit ''OUT'' data t in
        case write_loop strerror (now + int timeout * 1000000) (length data) 0 turns of
          None \<Rightarrow> None
        | Some (res, sent) \<Rightarrow>
            let t = t\<lparr>tty_written := tty_written t @ take sent data\<rparr> in
            Some (ebind res (\<lambda>_.
              if sent = 0 then Inl (Error ERR_TIMEOUT ''tty write timed out; no byte reached the adapter'')
              else if sent \<noteq> length data
              then Inl (Error ERR_FAILED ''partial tty write; command delivery is ambiguous'')
              else Inr ()), t))"

section \<open>The reader thread\<close>

text \<open>
  One turn of the reader loop: whether \<open>stopping_\<close> is set, what \<open>poll\<close> returns, whether the eventfd rang, the
  events of the tty and what \<open>read\<close> returns.
\<close>

record read_turn =
  rt_stopping :: bool
  rt_poll :: "errno + nat"
  rt_bell :: bool
  rt_hangup :: bool
  rt_readable :: bool
  rt_read :: "errno + bytes"

text \<open>
  The reader acts on the state \<open>'s\<close> of its listener. \<open>fault\<close> reports, and drops what the report throws; the result is
  whether the thread set \<open>stopping_\<close>, \<open>None\<close> while it still runs.
\<close>

definition fault :: "(string \<Rightarrow> ('s, unit) eff) \<Rightarrow> string \<Rightarrow> 's \<Rightarrow> bool option \<times> 's" where
  "fault failure reason s = (Some True, snd (failure reason s))"

fun pump ::
    "(errno \<Rightarrow> string) \<Rightarrow> (bytes \<Rightarrow> ('s, unit) eff) \<Rightarrow> (string \<Rightarrow> ('s, unit) eff) \<Rightarrow> read_turn list \<Rightarrow> 's \<Rightarrow>
     bool option \<times> 's" where
  "pump strerror receive failure [] s = (None, s)"
| "pump strerror receive failure (r # turns) s =
     (if rt_stopping r then (Some False, s)
      else case rt_poll r of
        Inl code \<Rightarrow>
          if code = EINTR then pump strerror receive failure turns s
          else fault failure (''tty poll: '' @ describe strerror code) s
      | Inr ready \<Rightarrow>
          if ready = 0 then pump strerror receive failure turns s
          else if rt_bell r then (Some False, s)
          else if rt_hangup r then fault failure ''adapter disconnected'' s
          else if \<not> rt_readable r then pump strerror receive failure turns s
          else case rt_read r of
            Inl code \<Rightarrow>
              if code = EINTR \<or> code = EAGAIN \<or> code = EWOULDBLOCK then pump strerror receive failure turns s
              else fault failure (''tty read: '' @ describe strerror code) s
          | Inr data \<Rightarrow>
              if data = [] then pump strerror receive failure turns s
              else (case receive data s of
                      (Inl e, s) \<Rightarrow> fault failure (exn_what e) s
                    | (Inr _, s) \<Rightarrow> pump strerror receive failure turns s))"

text \<open>What the reader thread leaves in the transport.\<close>

definition reader_ended :: "bool option \<Rightarrow> tty \<Rightarrow> tty" where
  "reader_ended ended t = (if ended = Some True then t\<lparr>tty_stopping := True\<rparr> else t)"

section \<open>Finding the adapter\<close>

text \<open>
  Opening without a path picks the adapter by its serial number: a path is chosen exactly if one adapter node, and
  only one, matches the serial asked for (any, if none is), and it is that node's. Zero matches and several are told
  apart.
\<close>

theorem choose_path_unique:
  assumes "sel_path selector = []"
  shows "case filter (\<lambda>e. sel_serial selector = [] \<or> cd_serial e = sel_serial selector) (candidates sys) of
      [] \<Rightarrow> choose_path sys selector = Inl (Error ERR_DEVICE_NOT_CONNECTED ''no matching MongoosePro JLR tty device'')
    | [e] \<Rightarrow> choose_path sys selector = Inr (cd_location e) \<and>
        (\<exists>node nodes. sys_ttys sys = Some nodes \<and> node \<in> set nodes \<and> take (length tty_prefix) node = tty_prefix \<and>
           cd_location e = ''/dev/'' @ node \<and> is_adapter sys node = Some (cd_serial e))
    | _ \<Rightarrow> choose_path sys selector = Inl (Error ERR_NOT_UNIQUE ''multiple adapters match; specify a unique serial'')"
proof -
  have adapter: "\<exists>node nodes. sys_ttys sys = Some nodes \<and> node \<in> set nodes \<and> take (length tty_prefix) node = tty_prefix \<and>
      cd_location e = ''/dev/'' @ node \<and> is_adapter sys node = Some (cd_serial e)" if "e \<in> set (candidates sys)" for e
  proof (cases "sys_ttys sys")
    case (Some nodes)
    with that obtain node where "node \<in> set nodes" "take (length tty_prefix) node = tty_prefix"
      "e \<in> set (case is_adapter sys node of None \<Rightarrow> [] | Some serial \<Rightarrow> [\<lparr>cd_location = ''/dev/'' @ node, cd_serial = serial\<rparr>])"
      by (auto simp: candidates_def split: if_splits)
    then show ?thesis using Some by (cases "is_adapter sys node") auto
  qed (use that in \<open>simp add: candidates_def\<close>)
  have "e \<in> set (candidates sys)" if "filter P (candidates sys) = [e]" for P e
    using that by (metis filter_is_subset list.set_intros(1) subsetD)
  note chosen = this
  let ?matched = "filter (\<lambda>e. sel_serial selector = [] \<or> cd_serial e = sel_serial selector) (candidates sys)"
  have "choose_path sys selector =
      (case ?matched of [] \<Rightarrow> Inl (Error ERR_DEVICE_NOT_CONNECTED ''no matching MongoosePro JLR tty device'')
       | [e] \<Rightarrow> Inr (cd_location e)
       | _ \<Rightarrow> Inl (Error ERR_NOT_UNIQUE ''multiple adapters match; specify a unique serial''))"
    using assms by (simp only: choose_path_def simp_thms if_True)
  note path = this
  consider (none) "?matched = []" | (one) e where "?matched = [e]" | (many) a b rest where "?matched = a # b # rest"
    by (cases ?matched rule: remdups_adj.cases) auto
  then show ?thesis
  proof cases
    case none
    with path show ?thesis by (simp only: list.case)
  next
    case one
    with path adapter [OF chosen [OF one]] show ?thesis by (simp only: list.case simp_thms)
  next
    case many
    with path show ?thesis by (simp only: list.case)
  qed
qed

section \<open>What is taken is given back\<close>

text \<open>
  \<open>tty_sound\<close>: the log agrees with what the transport holds, and a closed transport holds nothing. \<open>released\<close>:
  everything taken was given back.
\<close>

definition released :: "tty_call list \<Rightarrow> bool" where
  "released log \<longleftrightarrow>
     length (filter (\<lambda>c. \<exists>p. c = Call_open p) log) = count_list log Call_close \<and>
     count_list log Call_exclusive = count_list log Call_not_exclusive \<and>
     count_list log Call_eventfd = count_list log Call_close_wake"

definition tty_sound :: "tty \<Rightarrow> bool" where
  "tty_sound t \<longleftrightarrow>
     length (filter (\<lambda>c. \<exists>p. c = Call_open p) (tty_log t)) = count_list (tty_log t) Call_close + (if tty_fd t = None then 0 else 1) \<and>
     count_list (tty_log t) Call_exclusive = count_list (tty_log t) Call_not_exclusive + (if tty_exclusive t then 1 else 0) \<and>
     count_list (tty_log t) Call_eventfd = count_list (tty_log t) Call_close_wake + (if tty_wake t then 1 else 0) \<and>
     (tty_exclusive t \<longrightarrow> tty_fd t \<noteq> None) \<and> (tty_wake t \<longrightarrow> tty_started t) \<and>
     (tty_closed t \<longrightarrow> tty_fd t = None \<and> \<not> tty_wake t \<and> tty_stopping t)"

lemma tty_sound_new: "tty_sound tty_new"
  by (simp add: tty_sound_def tty_new_def)

lemma tty_sound_released: "tty_sound t \<Longrightarrow> tty_fd t = None \<Longrightarrow> \<not> tty_wake t \<Longrightarrow> released (tty_log t)"
  by (auto simp: tty_sound_def released_def)

lemma tty_sound_cleanup:
  assumes "tty_sound t"
  shows "tty_sound (cleanup t)" "tty_fd (cleanup t) = None" "\<not> tty_wake (cleanup t)" "\<not> tty_exclusive (cleanup t)"
  using assms by (auto simp: cleanup_def tty_sound_def log_call_def Let_def split: option.splits)

lemma tty_sound_stop: "tty_sound t \<Longrightarrow> tty_sound (snd (tty_stop t))"
proof -
  assume t: "tty_sound t"
  then have "tty_sound (t\<lparr>tty_stopping := True\<rparr>)" by (simp add: tty_sound_def)
  from tty_sound_cleanup [OF this] show ?thesis using t
    by (simp add: tty_stop_def) (auto simp: tty_sound_def cleanup_def log_call_def Let_def split: option.splits)
qed

lemma tty_sound_start: "tty_sound t \<Longrightarrow> tty_sound (snd (tty_start strerror outcome t))"
proof -
  assume t: "tty_sound t"
  have a: "tty_sound (t\<lparr>tty_started := True\<rparr>)" using t by (simp add: tty_sound_def)
  show ?thesis
  proof (cases "tty_started t \<or> tty_closed t")
    case False
    then have "tty_sound (log_call Call_eventfd (t\<lparr>tty_started := True, tty_wake := True\<rparr>))"
      using t by (auto simp: tty_sound_def log_call_def)
    with a False show ?thesis by (auto simp: tty_start_def Let_def tty_sound_stop split: option.splits)
  qed (use t in \<open>simp add: tty_start_def\<close>)
qed

lemma tty_send_cases:
  assumes "tty_send strerror now turns data timeout t = Some (res, t')"
  obtains (refused) "res = Inl (Invalid_argument ''invalid tty write size or timeout'') \<or>
      res = Inl (Error ERR_DEVICE_NOT_CONNECTED ''tty transport stopped'')" "t' = t"
  | (written) out sent where
      "write_loop strerror (now + int timeout * 1000000) (length data) 0 turns = Some (out, sent)"
      "data \<noteq> []" "t' = (emit ''OUT'' data t)\<lparr>tty_written := tty_written t @ take sent data\<rparr>"
      "res = ebind out (\<lambda>_.
         if sent = 0 then Inl (Error ERR_TIMEOUT ''tty write timed out; no byte reached the adapter'')
         else if sent \<noteq> length data
         then Inl (Error ERR_FAILED ''partial tty write; command delivery is ambiguous'')
         else Inr ())"
proof -
  consider "length data > 65536 \<or> data = [] \<or> timeout = 0"
    | "\<not> (length data > 65536 \<or> data = [] \<or> timeout = 0)" "tty_stopping t \<or> \<not> tty_started t \<or> tty_fd t = None"
    | "\<not> (length data > 65536 \<or> data = [] \<or> timeout = 0)" "\<not> (tty_stopping t \<or> \<not> tty_started t \<or> tty_fd t = None)"
    by argo
  then show thesis
  proof cases
    case 1
    with assms refused show thesis by (simp only: tty_send_def if_True option.inject prod.inject) blast
  next
    case 2
    with assms refused show thesis by (simp only: tty_send_def if_True if_False option.inject prod.inject) blast
  next
    case 3
    with assms have run: "Some (res, t') =
        (case write_loop strerror (now + int timeout * 1000000) (length data) 0 turns of None \<Rightarrow> None
         | Some (res, sent) \<Rightarrow>
            Some (ebind res (\<lambda>_.
              if sent = 0 then Inl (Error ERR_TIMEOUT ''tty write timed out; no byte reached the adapter'')
              else if sent \<noteq> length data
              then Inl (Error ERR_FAILED ''partial tty write; command delivery is ambiguous'')
              else Inr ()), (emit ''OUT'' data t)\<lparr>tty_written := tty_written (emit ''OUT'' data t) @ take sent data\<rparr>))"
      by (simp only: tty_send_def if_False Let_def)
    have "tty_written (emit ''OUT'' data t) = tty_written t" by (simp add: emit_def)
    with run 3 written show thesis
      by (cases "write_loop strerror (now + int timeout * 1000000) (length data) 0 turns") auto
  qed
qed

lemma tty_sound_send: "tty_sound t \<Longrightarrow> tty_send strerror now turns data timeout t = Some (res, t') \<Longrightarrow> tty_sound t'"
  by (erule tty_send_cases) (simp_all add: tty_sound_def emit_def)

text \<open>The contract; a send that is still in its loop is not a result.\<close>

definition tty_send_total ::
    "(errno \<Rightarrow> string) \<times> int \<times> write_turn list \<Rightarrow> bytes \<Rightarrow> nat \<Rightarrow> tty \<Rightarrow> (exn + unit) \<times> tty" where
  "tty_send_total env data timeout t =
     (case env of (strerror, now, turns) \<Rightarrow>
        (case tty_send strerror now turns data timeout t of
           None \<Rightarrow> (Inl (Runtime_error ''still writing''), t)
         | Some r \<Rightarrow> r))"

interpretation tty_port: byte_transport "\<lambda>(strerror, outcome). tty_start strerror outcome" tty_send_total "\<lambda>_ :: unit. tty_stop"
    tty_closed tty_sound
proof unfold_locales
  fix t :: tty and g g' :: "(errno \<Rightarrow> string) \<times> errno option \<times> exn option" and f :: unit and data n t'
    and e :: "(errno \<Rightarrow> string) \<times> int \<times> write_turn list"
  assume t: "tty_sound t"
  show "tty_sound (snd ((case g of (strerror, outcome) \<Rightarrow> tty_start strerror outcome) t))"
    using tty_sound_start [OF t] by (simp add: case_prod_unfold)
  show "tty_sound (snd (tty_send_total e data n t))"
    using tty_sound_send [OF t] t by (auto simp: tty_send_total_def split: prod.split option.split)
  show "tty_sound (snd (tty_stop t))" using t by (rule tty_sound_stop)
  show "tty_closed (snd (tty_stop t))" by (simp add: tty_stop_def)
  show "tty_stop t = (Inr (), t)" if "tty_closed t" using that by (simp add: tty_stop_def)
  show "\<exists>x. (case g of (strerror, outcome) \<Rightarrow> tty_start strerror outcome) t = (Inl x, t)" if "tty_closed t"
    using that by (auto simp: tty_start_def split: prod.split)
  show "\<exists>x. tty_send_total e data n t = (Inl x, t)" if "tty_closed t"
  proof -
    have "tty_fd t = None" using that t by (simp add: tty_sound_def)
    then show ?thesis by (cases e) (simp add: tty_send_total_def tty_send_def)
  qed
  show "\<exists>x. (case g' of (strerror, outcome) \<Rightarrow> tty_start strerror outcome) t' = (Inl x, t')"
    if "(case g of (strerror, outcome) \<Rightarrow> tty_start strerror outcome) t = (Inr (), t')"
    using that by (auto simp: tty_start_def Let_def log_call_def split: prod.splits if_splits option.splits)
qed

lemma acquire_state:
  assumes "acquire os sys selector t = (r, t')"
  shows "t' = t \<or> (\<exists>location fd. t' = log_call (Call_open location) (t\<lparr>tty_fd := Some fd\<rparr>)) \<or>
    (\<exists>location fd. t' = log_call Call_exclusive ((log_call (Call_open location) (t\<lparr>tty_fd := Some fd\<rparr>))\<lparr>tty_exclusive := True\<rparr>)) \<or>
    (\<exists>location fd. t' = emit ''TIOCEXCL_FAILED'' [] (log_call (Call_open location) (t\<lparr>tty_fd := Some fd\<rparr>)))"
proof (cases "choose_path sys selector")
  case (Inl e)
  then show ?thesis using assms by (simp add: acquire_def effect_simps del: andthen_apply)
next
  case path: (Inr location)
  show ?thesis
  proof (cases "os_open os location")
    case (Inl code)
    then show ?thesis using assms path by (simp add: acquire_def effect_simps del: andthen_apply)
  next
    case (Inr fd)
    then show ?thesis using assms path
      by (simp add: acquire_def effect_simps del: andthen_apply split: if_splits; blast)
  qed
qed

lemma acquire_sound:
  assumes t: "tty_sound t" "tty_fd t = None" "\<not> tty_closed t" and "acquire os sys selector t = (r, t')"
  shows "tty_sound t'"
proof -
  have ex: "tty_exclusive t = False" using t by (simp add: tty_sound_def)
  have "tty_sound (log_call (Call_open location) (t\<lparr>tty_fd := Some fd\<rparr>))" for location and fd :: int
    using t ex by (simp add: tty_sound_def log_call_def)
  moreover have "tty_sound (log_call Call_exclusive ((log_call (Call_open location) (t\<lparr>tty_fd := Some fd\<rparr>))\<lparr>tty_exclusive := True\<rparr>))" for location and fd :: int
    using t ex by (simp add: tty_sound_def log_call_def)
  moreover have "tty_sound (emit ''TIOCEXCL_FAILED'' [] (log_call (Call_open location) (t\<lparr>tty_fd := Some fd\<rparr>)))" for location and fd :: int
    using t ex by (simp add: tty_sound_def log_call_def emit_def)
  ultimately show ?thesis using acquire_state [OF assms(4)] t(1) by auto
qed

lemma clean_on_error_apply:
  "clean_on_error m t = (case m t of (Inl e, u) \<Rightarrow> (Inl e, cleanup u) | (Inr x, u) \<Rightarrow> (Inr x, u))"
  by (simp add: clean_on_error_def catch_def effect_simps split: prod.split sum.split)

lemma tty_create_sound:
  assumes "tty_create os sys selector = (r, t)"
  shows "tty_sound t" and "r = Inl e \<Longrightarrow> released (tty_log t)"
proof -
  obtain r' u where a: "acquire os sys selector tty_new = (r', u)" by fastforce
  have u: "tty_sound u" by (rule acquire_sound [OF tty_sound_new _ _ a]) (simp_all add: tty_new_def)
  have t: "t = (case r' of Inl _ \<Rightarrow> cleanup u | Inr _ \<Rightarrow> u) \<and> r = r'"
    using assms by (cases r') (auto simp: tty_create_def clean_on_error_apply a)
  then show "tty_sound t" using u tty_sound_cleanup(1) [OF u] by (cases r') simp_all
  show "r = Inl e \<Longrightarrow> released (tty_log t)"
    using t tty_sound_released [OF tty_sound_cleanup(1-3) [OF u]] by simp
qed

text \<open>
  C24. The tty gives back what it takes: the descriptor, the exclusive mode and the eventfd. A failed open releases
  everything; after a successful one, whatever is started and sent, stopping releases everything, and whatever is asked
  of the transport after that changes nothing any more.
\<close>

theorem tty_releases_all:
  "case tty_create os sys selector of
     (Inl e, t) \<Rightarrow> released (tty_log t)
   | (Inr _, t) \<Rightarrow>
       (let stopped = snd (tty_stop (tty_port.run_ops ops t))
        in released (tty_log stopped) \<and> tty_port.run_ops later stopped = stopped)"
proof -
  obtain r t where c: "tty_create os sys selector = (r, t)" by fastforce
  note t = tty_create_sound [OF c]
  let ?u = "tty_port.run_ops ops t" and ?s = "snd (tty_stop (tty_port.run_ops ops t))"
  have u: "tty_sound ?u" by (rule tty_port.run_sound [OF t(1)])
  have s: "tty_sound ?s" by (rule tty_sound_stop [OF u])
  have "tty_closed ?s" by (simp add: tty_stop_def)
  then have "tty_fd ?s = None" "\<not> tty_wake ?s" using s by (simp_all add: tty_sound_def)
  from tty_sound_released [OF s this] tty_port.nothing_after_stop [OF u, where ops = later] c t(2)
  show ?thesis by (cases r) (simp_all add: Let_def)
qed

section \<open>The write loop\<close>

text \<open>One turn either goes on, with at least as much sent, or ends the loop.\<close>

lemma write_turn_cases:
  assumes "sent < len"
  obtains (again) sent' where "sent \<le> sent'" "sent' \<le> len"
      "write_loop strerror deadline len sent (w # turns) = write_loop strerror deadline len sent' turns"
      "sent' = sent \<Longrightarrow> wt_write w = Inl EINTR \<or> wt_later w < deadline" "sent > 0 \<Longrightarrow> wt_now w < deadline"
  | (over) res where "write_loop strerror deadline len sent (w # turns) = Some (res, sent)"
      "res = Inr () \<or> (\<exists>code. res = Inl (os_error strerror ''tty write: '' code)) \<or>
       (\<exists>code. res = Inl (os_error strerror ''tty write poll: '' code)) \<or>
       res = Inl (Error ERR_DEVICE_NOT_CONNECTED ''adapter disconnected during write'')"
proof -
  show thesis
  proof (cases "sent > 0 \<and> wt_now w \<ge> deadline")
    case True
    then show thesis using assms over by (simp add: write_loop.simps)
  next
    case False
    then have now: "sent > 0 \<Longrightarrow> wt_now w < deadline" by simp
    let ?go = "write_loop strerror deadline len sent (w # turns)"
    let ?wait = "if wt_later w \<ge> deadline then Some (Inr (), sent)
                        else case wt_poll w of
                          Poll_failed code \<Rightarrow>
                            if code = EINTR then write_loop strerror deadline len sent turns
                            else Some (Inl (os_error strerror ''tty write poll: '' code), sent)
                        | Poll_expired \<Rightarrow> Some (Inr (), sent)
                        | Poll_ready hangup \<Rightarrow>
                            if hangup
                            then Some (Inl (Error ERR_DEVICE_NOT_CONNECTED ''adapter disconnected during write''), sent)
                            else write_loop strerror deadline len sent turns"
    have go: "?go = (case wt_write w of
        Inr n \<Rightarrow> if n > 0 then write_loop strerror deadline len (sent + min n (len - sent)) turns else ?wait
      | Inl code \<Rightarrow>
          if code = EINTR then write_loop strerror deadline len sent turns
          else if code \<noteq> EAGAIN \<and> code \<noteq> EWOULDBLOCK then Some (Inl (os_error strerror ''tty write: '' code), sent)
          else ?wait)"
    proof -
      have "(sent \<ge> len) = False" "(sent > 0 \<and> wt_now w \<ge> deadline) = False" using assms False by simp_all
      then show ?thesis by (simp only: write_loop.simps [of _ _ _ _ "w # turns"] if_False list.case Let_def)
    qed
    have wait: thesis if w: "?go = ?wait"
    proof (cases "wt_later w \<ge> deadline")
      case True
      with w over show thesis by simp
    next
      case late: False
      show thesis
      proof (cases "wt_poll w")
        case (Poll_failed code)
        with w late over again [of sent] assms now show thesis by (cases "code = EINTR") auto
      next
        case Poll_expired
        with w late over show thesis by simp
      next
        case (Poll_ready hangup)
        with w late over again [of sent] assms now show thesis by (cases hangup) auto
      qed
    qed
    show thesis
    proof (cases "wt_write w")
      case (Inl code)
      with go wait over again [of sent] assms now show thesis
        by (cases "code = EINTR"; cases "code \<noteq> EAGAIN \<and> code \<noteq> EWOULDBLOCK") auto
    next
      case (Inr n)
      with go wait again [of "sent + min n (len - sent)"] assms now show thesis by (cases "n > 0") auto
    qed
  qed
qed

lemma write_loop_result:
  assumes "write_loop strerror deadline len sent turns = Some (res, n)" and "sent \<le> len"
  shows "sent \<le> n \<and> n \<le> len \<and> (n = len \<longrightarrow> res = Inr ()) \<and>
    (res = Inr () \<or> (\<exists>code. res = Inl (os_error strerror ''tty write: '' code)) \<or>
       (\<exists>code. res = Inl (os_error strerror ''tty write poll: '' code)) \<or>
       res = Inl (Error ERR_DEVICE_NOT_CONNECTED ''adapter disconnected during write''))"
  using assms
proof (induction turns arbitrary: sent)
  case Nil
  then show ?case by (auto simp: write_loop.simps split: if_splits)
next
  case (Cons w turns)
  show ?case
  proof (cases "sent < len")
    case False
    then show ?thesis using Cons.prems by (auto simp: write_loop.simps)
  next
    case True
    then show ?thesis
    proof (cases rule: write_turn_cases [of sent len strerror deadline w turns])
      case (again sent')
      with Cons.IH [of sent'] Cons.prems show ?thesis by auto
    next
      case (over r)
      with Cons.prems True show ?thesis by auto
    qed
  qed
qed

text \<open>
  What a send says is what the kernel took. The bytes that went out are a prefix of the data; the send succeeds
  exactly if it is all of it; \<open>no byte reached the adapter\<close> is only said when none did, and
  \<open>command delivery is ambiguous\<close> only when some but not all did.
\<close>

theorem tty_send_outcome:
  assumes "tty_send strerror now turns data timeout t = Some (res, t')"
  shows "\<exists>sent \<le> length data. tty_written t' = tty_written t @ take sent data \<and>
    (res = Inr () \<longleftrightarrow> data \<noteq> [] \<and> sent = length data) \<and>
    (res = Inl (Error ERR_TIMEOUT ''tty write timed out; no byte reached the adapter'') \<longrightarrow> sent = 0) \<and>
    (res = Inl (Error ERR_FAILED ''partial tty write; command delivery is ambiguous'') \<longrightarrow> 0 < sent \<and> sent < length data)"
  using assms
proof (cases rule: tty_send_cases)
  case refused
  then show ?thesis by (intro exI [of _ 0]) auto
next
  case (written out sent)
  from write_loop_result [OF written(1)] have n: "sent \<le> length data" "sent = length data \<Longrightarrow> out = Inr ()" and
    out: "out = Inr () \<or> (\<exists>code. out = Inl (os_error strerror ''tty write: '' code)) \<or>
       (\<exists>code. out = Inl (os_error strerror ''tty write poll: '' code)) \<or>
       out = Inl (Error ERR_DEVICE_NOT_CONNECTED ''adapter disconnected during write'')" by simp_all
  have "tty_written t' = tty_written t @ take sent data" using written(3) by simp
  moreover from out n written(2,4) have "(res = Inr () \<longleftrightarrow> data \<noteq> [] \<and> sent = length data)"
    "(res = Inl (Error ERR_TIMEOUT ''tty write timed out; no byte reached the adapter'') \<longrightarrow> sent = 0)"
    "(res = Inl (Error ERR_FAILED ''partial tty write; command delivery is ambiguous'') \<longrightarrow> 0 < sent \<and> sent < length data)"
    by (auto simp: os_error_def)
  ultimately show ?thesis using n(1) by blast
qed

text \<open>A turn that finds the deadline past and is not interrupted inside \<open>write\<close>.\<close>

definition late :: "int \<Rightarrow> write_turn \<Rightarrow> bool" where
  "late deadline w \<longleftrightarrow> wt_now w \<ge> deadline \<and> wt_later w \<ge> deadline \<and> wt_write w \<noteq> Inl EINTR"

lemma write_loop_one_late:
  "0 < sent \<Longrightarrow> sent \<le> len \<Longrightarrow> w \<in> set turns \<Longrightarrow> late deadline w \<Longrightarrow> write_loop strerror deadline len sent turns \<noteq> None"
proof (induction turns arbitrary: sent)
  case (Cons v turns)
  show ?case
  proof (cases "sent < len")
    case True
    then show ?thesis
    proof (cases rule: write_turn_cases [of sent len strerror deadline v turns])
      case (again sent')
      then have "v \<noteq> w" using Cons.prems by (auto simp: late_def)
      then show ?thesis using again Cons.IH [of sent'] Cons.prems by auto
    qed simp
  qed (simp add: write_loop.simps)
qed simp

lemma write_loop_two_late:
  "sent \<le> len \<Longrightarrow> 2 \<le> length (filter (late deadline) turns) \<Longrightarrow> write_loop strerror deadline len sent turns \<noteq> None"
proof (induction turns arbitrary: sent)
  case (Cons v turns)
  show ?case
  proof (cases "sent < len")
    case True
    then show ?thesis
    proof (cases rule: write_turn_cases [of sent len strerror deadline v turns])
      case (again sent')
      show ?thesis
      proof (cases "late deadline v")
        case True
        then have "sent < sent'" using again by (auto simp: late_def)
        moreover have "filter (late deadline) turns \<noteq> []" using Cons.prems True by auto
        then obtain w where "w \<in> set turns" "late deadline w" by (auto simp: filter_empty_conv)
        ultimately show ?thesis using again write_loop_one_late [of sent' len w turns] by auto
      next
        case False
        then show ?thesis using again Cons.IH [of sent'] Cons.prems by auto
      qed
    qed simp
  qed (simp add: write_loop.simps)
qed simp

text \<open>
  The write loop ends: two turns past the deadline that no signal interrupts inside \<open>write\<close> are enough, wherever
  they come and whatever the others do.
\<close>

theorem write_loop_terminates:
  assumes "2 \<le> length (filter (late (now + int timeout * 1000000)) turns)"
  shows "\<exists>res t'. tty_send strerror now turns data timeout t = Some (res, t')"
proof -
  obtain r n where "write_loop strerror (now + int timeout * 1000000) (length data) 0 turns = Some (r, n)"
    using write_loop_two_late [OF _ assms, of 0 "length data" strerror] by fastforce
  then have "tty_send strerror now turns data timeout t \<noteq> None"
    unfolding tty_send_def by (simp only: option.case prod.case Let_def split: if_split) simp
  then show ?thesis by (metis option.exhaust surj_pair)
qed

text \<open>
  Signals alone can keep the loop past the caller's timeout: as long as no byte is out, an interrupted \<open>write\<close> is
  repeated without a look at the clock.
\<close>

theorem interrupted_write_loops:
  "write_loop strerror deadline (Suc len) 0
     (replicate n \<lparr>wt_now = clock, wt_write = Inl EINTR, wt_later = clock, wt_poll = polled\<rparr>) = None"
  by (induction n) (simp_all add: write_loop.simps)

section \<open>The reader thread under a session\<close>

text \<open>What a session's \<open>fault\<close> callback does when the transport fails.\<close>

definition session_failure :: "string \<Rightarrow> (session, unit) eff" where
  "session_failure reason s = (Inr (), ses_apply s (Transport_failed reason))"

lemma fault_session: "fault session_failure reason s = (Some True, ses_run s [Transport_failed reason])"
  by (simp add: fault_def session_failure_def)

text \<open>
  What a turn of the reader comes to, from what the kernel answers in it: the order to stop, seen as the flag or as the
  eventfd; the end of the adapter, which is a hangup or an error that is not one of waiting; the bytes its \<open>read\<close> took, if
  it got as far as a \<open>read\<close>.
\<close>

definition polled :: "read_turn \<Rightarrow> bool" where
  "polled r = (case rt_poll r of Inl _ \<Rightarrow> False | Inr ready \<Rightarrow> ready \<noteq> 0)"

definition ordered_off :: "read_turn \<Rightarrow> bool" where
  "ordered_off r = (rt_stopping r \<or> polled r \<and> rt_bell r)"

definition reading_turn :: "read_turn \<Rightarrow> bool" where
  "reading_turn r = (polled r \<and> \<not> ordered_off r \<and> \<not> rt_hangup r \<and> rt_readable r)"

definition adapter_gone :: "read_turn \<Rightarrow> bool" where
  "adapter_gone r =
     (\<not> ordered_off r \<and>
      ((case rt_poll r of Inl code \<Rightarrow> code \<noteq> EINTR | Inr _ \<Rightarrow> False) \<or> polled r \<and> rt_hangup r \<or>
       reading_turn r \<and> (case rt_read r of Inl code \<Rightarrow> code \<notin> {EINTR, EAGAIN, EWOULDBLOCK} | Inr _ \<Rightarrow> False)))"

definition goes_on :: "read_turn \<Rightarrow> bool" where
  "goes_on r = (\<not> ordered_off r \<and> \<not> adapter_gone r)"

text \<open>Everything that was read before the turn that ends the thread.\<close>

definition taken :: "read_turn list \<Rightarrow> bytes list" where
  "taken turns =
     concat (map (\<lambda>r. case rt_read r of Inr data \<Rightarrow> if reading_turn r \<and> data \<noteq> [] then [data] else [] | Inl _ \<Rightarrow> [])
       (takeWhile goes_on turns))"

lemma taken_Cons: "goes_on r \<Longrightarrow> taken (r # turns) =
    (case rt_read r of Inr data \<Rightarrow> if reading_turn r \<and> data \<noteq> [] then [data] else [] | Inl _ \<Rightarrow> []) @ taken turns"
  "\<not> goes_on r \<Longrightarrow> taken (r # turns) = []"
  by (simp_all add: taken_def)

text \<open>One turn goes on, ends on the order to stop, faults, or hands over what it read.\<close>

lemma pump_turn_cases:
  obtains (again) "pump strerror receive failure (r # turns) s = pump strerror receive failure turns s"
      "goes_on r" "\<And>data. rt_read r = Inr data \<Longrightarrow> \<not> (reading_turn r \<and> data \<noteq> [])"
  | (ordered) "pump strerror receive failure (r # turns) s = (Some False, s)" "ordered_off r" "\<not> goes_on r"
  | (faulted) reason where "pump strerror receive failure (r # turns) s = fault failure reason s" "\<not> ordered_off r" "\<not> goes_on r"
  | (data) data where "rt_read r = Inr data" "data \<noteq> []" "reading_turn r" "goes_on r"
      "pump strerror receive failure (r # turns) s =
         (case receive data s of (Inl e, s) \<Rightarrow> fault failure (exn_what e) s | (Inr _, s) \<Rightarrow> pump strerror receive failure turns s)"
proof (cases "rt_stopping r")
  case True
  then show thesis by (intro ordered) (simp_all add: ordered_off_def goes_on_def)
next
  case going: False
  note defs = ordered_off_def goes_on_def adapter_gone_def reading_turn_def polled_def
  show thesis
  proof (cases "rt_poll r")
    case (Inl code)
    show thesis
    proof (cases "code = EINTR")
      case True
      then show thesis using going Inl by (intro again) (simp_all add: defs)
    next
      case False
      then show thesis using going Inl by (intro faulted [of "''tty poll: '' @ describe strerror code"]) (simp_all add: defs)
    qed
  next
    case (Inr ready)
    consider (idle) "ready = 0 \<or> \<not> rt_bell r \<and> \<not> rt_hangup r \<and> \<not> rt_readable r"
      | (bell) "ready \<noteq> 0" "rt_bell r" | (hangup) "ready \<noteq> 0" "\<not> rt_bell r" "rt_hangup r"
      | (read) "ready \<noteq> 0" "\<not> rt_bell r" "\<not> rt_hangup r" "rt_readable r" by blast
    then show thesis
    proof cases
      case idle
      then show thesis using going Inr by (intro again) (cases "ready = 0"; simp add: defs)+
    next
      case bell
      then show thesis using going Inr by (intro ordered) (simp_all add: defs)
    next
      case hangup
      then show thesis using going Inr by (intro faulted [of "''adapter disconnected''"]) (simp_all add: defs)
    next
      case read
      show thesis
      proof (cases "rt_read r")
        case (Inl code)
        show thesis
        proof (cases "code = EINTR \<or> code = EAGAIN \<or> code = EWOULDBLOCK")
          case True
          then show thesis using read going Inr Inl by (intro again) (simp_all add: defs)
        next
          case False
          then show thesis using read going Inr Inl
            by (intro faulted [of "''tty read: '' @ describe strerror code"]) (simp_all add: defs)
        qed
      next
        case got: (Inr bytes)
        show thesis
        proof (cases "bytes = []")
          case True
          then show thesis using read going Inr got by (intro again) (simp_all add: defs)
        next
          case False
          then show thesis using read going Inr got by (intro data) (simp_all add: defs)
        qed
      qed
    qed
  qed
qed

text \<open>
  C25. The reader thread hands the session everything it reads, chunk by chunk and in order, and nothing else. It runs until
  the first turn that brings the order to stop or the end of the adapter; the order ends it quietly, the end of the adapter
  is reported to the session as one failure, after all the chunks.
\<close>

theorem reader_feeds_session:
  "case dropWhile goes_on turns of
     [] \<Rightarrow> pump strerror session_listener session_failure turns s = (None, ses_run s (map Arrived (taken turns)))
   | r # _ \<Rightarrow>
       if ordered_off r
       then pump strerror session_listener session_failure turns s = (Some False, ses_run s (map Arrived (taken turns)))
       else \<exists>reason. pump strerror session_listener session_failure turns s =
         (Some True, ses_run s (map Arrived (taken turns) @ [Transport_failed reason]))"
proof (induction turns arbitrary: s)
  case Nil
  show ?case by (simp add: taken_def)
next
  case (Cons r turns)
  show ?case
  proof (cases rule: pump_turn_cases [of strerror session_listener session_failure r turns s])
    case again
    then have "taken (r # turns) = taken turns" by (auto simp: taken_Cons split: sum.split)
    with again(2) Cons.IH [of s] show ?thesis by (simp only: again(1) dropWhile.simps simp_thms if_True)
  next
    case ordered
    then show ?thesis by (simp add: taken_Cons)
  next
    case (faulted reason)
    then show ?thesis by (auto simp: taken_Cons fault_session)
  next
    case (data data)
    then have "taken (r # turns) = data # taken turns" by (simp add: taken_Cons)
    moreover have "pump strerror session_listener session_failure (r # turns) s =
        pump strerror session_listener session_failure turns (ses_apply s (Arrived data))"
      by (simp only: data(5) session_listener_def prod.case sum.case)
    ultimately show ?thesis using data(4) Cons.IH [of "ses_apply s (Arrived data)"]
      by (simp only: dropWhile.simps simp_thms if_True list.map append_Cons ses_run_simps)
  qed
qed

section \<open>Witnesses\<close>

definition sample_sysfs :: sysfs where
  "sample_sysfs =
     \<lparr>sys_canonical = (\<lambda>p. if p = ''/sys/class/tty/ttyACM0/device'' then Some [''d'', ''1-1'', ''1-1:1.0''] else None),
      sys_exists = (\<lambda>p. p = [''d'', ''1-1'', ''idVendor'']),
      sys_text = (\<lambda>p. if p = [''d'', ''1-1'', ''idVendor''] then ''18e1'' @ [CHR 0x0A]
                      else if p = [''d'', ''1-1'', ''idProduct''] then ''0104'' @ [CHR 0x0A]
                      else if p = [''d'', ''1-1'', ''serial''] then ''42'' @ [CHR 0x0A] else []),
      sys_ttys = Some [''tty0'', ''ttyACM0'', ''ttyACM1'']\<rparr>"

theorem choose_path_unique_witness:
  "choose_path sample_sysfs (selector_default\<lparr>sel_serial := ''42''\<rparr>) = Inr ''/dev/ttyACM0'' \<and>
   choose_path sample_sysfs (selector_default\<lparr>sel_serial := ''43''\<rparr>) =
     Inl (Error ERR_DEVICE_NOT_CONNECTED ''no matching MongoosePro JLR tty device'')"
proof -
  have c: "candidates sample_sysfs = [\<lparr>cd_location = ''/dev/ttyACM0'', cd_serial = ''42''\<rparr>]" by code_simp
  have p: "sel_path (selector_default\<lparr>sel_serial := x\<rparr>) = []" for x by (simp add: selector_default_def)
  show ?thesis
    using choose_path_unique [OF p, of sample_sysfs "''42''"] choose_path_unique [OF p, of sample_sysfs "''43''"]
    by (simp add: c selector_default_def)
qed

definition open_tty :: tty where "open_tty = tty_new\<lparr>tty_fd := Some 3, tty_started := True\<rparr>"

definition sample_turns :: "write_turn list" where
  "sample_turns =
     [\<lparr>wt_now = 0, wt_write = Inr 2, wt_later = 0, wt_poll = Poll_expired\<rparr>,
      \<lparr>wt_now = 1000000, wt_write = Inl EAGAIN, wt_later = 1000000, wt_poll = Poll_expired\<rparr>,
      \<lparr>wt_now = 2000000, wt_write = Inl EAGAIN, wt_later = 2000000, wt_poll = Poll_expired\<rparr>]"

theorem tty_send_outcome_witness:
  "\<exists>t'. tty_send (\<lambda>_. []) 0 sample_turns [1, 2, 3] 5 open_tty =
      Some (Inl (Error ERR_FAILED ''partial tty write; command delivery is ambiguous''), t') \<and> tty_written t' = [1, 2]"
proof -
  have w: "write_loop (\<lambda>_. []) (0 + int 5 * 1000000) (length [1 :: u8, 2, 3]) 0 sample_turns = Some (Inr (), 2)"
    by (simp add: sample_turns_def write_loop.simps)
  define t' where "t' = (emit ''OUT'' [1, 2, 3] open_tty)\<lparr>tty_written := [1, 2]\<rparr>"
  have "tty_send (\<lambda>_. []) 0 sample_turns [1, 2, 3] 5 open_tty =
      Some (Inl (Error ERR_FAILED ''partial tty write; command delivery is ambiguous''), t')"
    unfolding tty_send_def w t'_def by (simp add: open_tty_def tty_new_def emit_def)
  note r = this
  have "tty_written t' = [1, 2]" by (simp add: t'_def)
  with tty_send_outcome [OF r] r show ?thesis by blast
qed

theorem write_loop_terminates_witness:
  "\<exists>res t'. tty_send (\<lambda>_. []) 0 sample_turns [1, 2, 3] 1 open_tty = Some (res, t')"
  by (rule write_loop_terminates) (simp add: late_def sample_turns_def)

end
