(* ===== verification/Usb_Transport.thy ===== *)
theory Usb_Transport
  imports Posix Interfaces Effects
begin

text \<open>
  The libusb transport of src/usb.cpp: choosing and opening the adapter, the two input transfers with their callback,
  the event thread, writing, stopping and what is given back. libusb and the operating system are arguments: the
  devices on the bus, the result of every call, and which transfers complete while libusb handles events.
  \<open>us_log\<close> records the calls that take, use or release something. The state is paired with that of the listener, which
  the callback acts on.
\<close>

section \<open>Errors\<close>

definition LIBUSB_ERROR_NO_DEVICE :: int where "LIBUSB_ERROR_NO_DEVICE = - 4"
definition LIBUSB_ERROR_BUSY :: int where "LIBUSB_ERROR_BUSY = - 6"
definition LIBUSB_ERROR_TIMEOUT :: int where "LIBUSB_ERROR_TIMEOUT = - 7"
definition LIBUSB_ERROR_INTERRUPTED :: int where "LIBUSB_ERROR_INTERRUPTED = - 10"

definition api_error :: "int \<Rightarrow> status" where
  "api_error code =
     (if code = LIBUSB_ERROR_NO_DEVICE then ERR_DEVICE_NOT_CONNECTED
      else if code = LIBUSB_ERROR_BUSY then ERR_DEVICE_IN_USE
      else if code = LIBUSB_ERROR_TIMEOUT then ERR_TIMEOUT
      else ERR_FAILED)"

definition usb_check :: "(int \<Rightarrow> string) \<Rightarrow> int \<Rightarrow> string \<Rightarrow> exn + unit" where
  "usb_check error_name code action =
     (if code < 0 then Inl (Error (api_error code) (action @ '': '' @ error_name code)) else Inr ())"

section \<open>Devices\<close>

text \<open>
  The descriptors, as libusb reports them; a device whose ports cannot be read has none. An \<open>Inl\<close> in place of a
  list is the negative code with which libusb refused it.
\<close>

record endpoint =
  ep_address :: u8
  ep_attributes :: u8

record alt_setting =
  al_alternate :: u8
  al_interface :: nat
  al_endpoints :: "endpoint list"

record usb_device =
  ud_bus :: nat
  ud_address :: nat
  ud_ports :: "nat list"
  ud_ids :: "(u16 \<times> u16) option"
  ud_config :: "int + alt_setting list list"

definition pad3 :: "nat \<Rightarrow> string" where
  "pad3 n = replicate (3 - length (decimal n)) CHR ''0'' @ decimal n"

definition location :: "usb_device \<Rightarrow> string" where
  "location d = take 63 (''/dev/bus/usb/'' @ pad3 (ud_bus d) @ ''/'' @ pad3 (ud_address d))"

fun dotted :: "nat list \<Rightarrow> string" where
  "dotted [] = []"
| "dotted [p] = decimal p"
| "dotted (p # ports) = decimal p @ ''.'' @ dotted ports"

text \<open>\<open>text\<close> is the content of a file, empty if it cannot be read.\<close>

definition serial_number :: "(string \<Rightarrow> string) \<Rightarrow> usb_device \<Rightarrow> string" where
  "serial_number text d =
     (if ud_ports d = [] then []
      else takeWhile (\<lambda>c. c \<noteq> CHR 0x0A)
        (text (''/sys/bus/usb/devices/'' @ decimal (ud_bus d) @ ''-'' @ dotted (ud_ports d) @ ''/serial'')))"

definition matches :: "usb_device \<Rightarrow> bool" where
  "matches d = (ud_ids d = Some (0x18e1, 0x0104))"

definition usb_devices ::
    "(int \<Rightarrow> string) \<Rightarrow> (errno \<Rightarrow> string) \<Rightarrow> (string \<Rightarrow> string) \<Rightarrow> (string \<Rightarrow> errno option) \<Rightarrow> int \<Rightarrow>
     int + usb_device list \<Rightarrow> exn + device_info list" where
  "usb_devices error_name strerror text access init enumerated =
     ebind (usb_check error_name init ''libusb initialization'') (\<lambda>_.
     case enumerated of
       Inl code \<Rightarrow> Inl (Error (api_error code) (''enumerating USB devices: '' @ error_name code))
     | Inr devices \<Rightarrow>
         Inr (map (\<lambda>d. \<lparr>di_serial = serial_number text d, di_location = location d,
                         di_error = (case access (location d) of None \<Rightarrow> [] | Some code \<Rightarrow> strerror code)\<rparr>)
                  (filter matches devices)))"

section \<open>The state\<close>

datatype usb_input = Bulk_in | Interrupt_in

datatype usb_call =
    Open_lock | Close_lock | Open_handle | Close_handle
  | Detach nat | Attach nat | Claim nat | Release nat
  | Alloc usb_input | Submit usb_input | Completed usb_input | Cancel usb_input | Free usb_input
  | Control u8 | Write bytes

datatype phase = Absent | Pumping | Draining | Ended

record usb =
  us_handle :: bool
  us_lock :: bool
  us_claimed :: "nat list"
  us_detached :: "nat list"
  us_transfer :: "usb_input \<Rightarrow> bool"
  us_pending :: "usb_input \<Rightarrow> bool"
  us_phase :: phase
  us_stopping :: bool
  us_started :: bool
  us_closed :: bool
  us_create_attempted :: bool
  us_drain_failed :: bool
  us_trace :: "(string \<times> bytes) list"
  us_log :: "usb_call list"

definition usb_new :: usb where
  "usb_new = \<lparr>us_handle = False, us_lock = False, us_claimed = [], us_detached = [], us_transfer = (\<lambda>_. False),
     us_pending = (\<lambda>_. False), us_phase = Absent, us_stopping = False, us_started = False, us_closed = False,
     us_create_attempted = False, us_drain_failed = False, us_trace = [], us_log = []\<rparr>"

definition usb_log :: "usb_call \<Rightarrow> usb \<Rightarrow> usb" where
  "usb_log c u = u\<lparr>us_log := us_log u @ [c]\<rparr>"

definition usb_emit :: "string \<Rightarrow> bytes \<Rightarrow> usb \<Rightarrow> usb" where
  "usb_emit kind data u = u\<lparr>us_trace := us_trace u @ [(kind, data)]\<rparr>"

section \<open>Opening\<close>

record found =
  fd_interfaces :: "nat list"
  fd_in :: bool
  fd_out :: bool
  fd_intr :: bool

text \<open>\<open>std::set\<close> keeps its elements sorted and once.\<close>

definition note_endpoint :: "alt_setting \<Rightarrow> found \<Rightarrow> endpoint \<Rightarrow> found" where
  "note_endpoint alt f ep =
     (let type = ep_attributes ep AND 3;
          is_in = (ep_address ep = 0x82 \<and> type = 2);
          is_out = (ep_address ep = 0x01 \<and> type = 2);
          is_intr = (ep_address ep = 0x83 \<and> type = 3)
      in \<lparr>fd_interfaces = (if is_in \<or> is_out \<or> is_intr then insort_insert (al_interface alt) (fd_interfaces f)
                           else fd_interfaces f),
          fd_in = (fd_in f \<or> is_in), fd_out = (fd_out f \<or> is_out), fd_intr = (fd_intr f \<or> is_intr)\<rparr>)"

definition note_alt :: "found \<Rightarrow> alt_setting \<Rightarrow> found" where
  "note_alt f alt = (if al_alternate alt \<noteq> 0 then f else foldl (note_endpoint alt) f (al_endpoints alt))"

definition find_endpoints :: "alt_setting list list \<Rightarrow> found" where
  "find_endpoints config =
     foldl (foldl note_alt) \<lparr>fd_interfaces = [], fd_in = False, fd_out = False, fd_intr = False\<rparr> config"

record usb_env =
  ue_error_name :: "int \<Rightarrow> string"
  ue_strerror :: "errno \<Rightarrow> string"
  ue_text :: "string \<Rightarrow> string"
  ue_init :: int
  ue_devices :: "int + usb_device list"
  ue_open :: "string \<Rightarrow> errno option"
  ue_flock :: bool
  ue_handle :: int
  ue_active :: "nat \<Rightarrow> int"
  ue_detach :: "nat \<Rightarrow> int"
  ue_claim :: "nat \<Rightarrow> int"

definition select_device :: "usb_env \<Rightarrow> string \<Rightarrow> exn + usb_device" where
  "select_device env serial =
     (case ue_devices env of
        Inl code \<Rightarrow> Inl (Error (api_error code) (''enumerating USB devices: '' @ ue_error_name env code))
      | Inr devices \<Rightarrow>
          (case filter (\<lambda>d. \<not> (\<not> matches d \<or> serial \<noteq> [] \<and> serial_number (ue_text env) d \<noteq> serial)) devices of
             [] \<Rightarrow> Inl (Error ERR_DEVICE_NOT_CONNECTED ''no matching MongoosePro JLR USB device'')
           | [d] \<Rightarrow> Inr d
           | _ \<Rightarrow> Inl (Error ERR_NOT_UNIQUE ''multiple adapters match; specify a unique serial'')))"

definition guard_call :: "usb_env \<Rightarrow> int \<Rightarrow> string \<Rightarrow> (usb, unit) eff" where
  "guard_call env code action = lift (usb_check (ue_error_name env) code action)"

fun detach_all :: "usb_env \<Rightarrow> nat list \<Rightarrow> (usb, unit) eff" where
  "detach_all env [] = ret ()"
| "detach_all env (i # is) =
     andthen (guard_call env (ue_active env i) ''checking kernel interface owner'') (\<lambda>_.
     andthen (only_if (ue_active env i \<noteq> 0)
       (andthen (guard_call env (ue_detach env i) ''detaching CDC interface'') (\<lambda>_.
        modify (\<lambda>u. usb_log (Detach i) (u\<lparr>us_detached := us_detached u @ [i]\<rparr>))))) (\<lambda>_.
     detach_all env is))"

fun claim_all :: "usb_env \<Rightarrow> nat list \<Rightarrow> (usb, unit) eff" where
  "claim_all env [] = ret ()"
| "claim_all env (i # is) =
     andthen (guard_call env (ue_claim env i) ''claiming USB interface'') (\<lambda>_.
     andthen (modify (\<lambda>u. usb_log (Claim i) (u\<lparr>us_claimed := us_claimed u @ [i]\<rparr>))) (\<lambda>_.
     claim_all env is))"

definition usb_acquire :: "usb_env \<Rightarrow> string \<Rightarrow> (usb, unit) eff" where
  "usb_acquire env serial =
     andthen (lift (select_device env serial)) (\<lambda>device.
     case ue_open env (location device) of
       Some code \<Rightarrow>
         raise (Error ERR_FAILED (''cannot open '' @ location device @ '': '' @ ue_strerror env code @ ''; install the narrow udev rule''))
     | None \<Rightarrow>
         andthen (modify (\<lambda>u. usb_log Open_lock (u\<lparr>us_lock := True\<rparr>))) (\<lambda>_.
         andthen (throw_if (\<not> ue_flock env) (Error ERR_DEVICE_IN_USE ''adapter is locked by another native driver instance'')) (\<lambda>_.
         andthen (guard_call env (ue_handle env) ''opening adapter'') (\<lambda>_.
         andthen (modify (\<lambda>u. usb_log Open_handle (u\<lparr>us_handle := True\<rparr>))) (\<lambda>_.
         case ud_config device of
           Inl code \<Rightarrow> raise (Error (api_error code) (''reading active USB configuration: '' @ ue_error_name env code))
         | Inr config \<Rightarrow>
             let f = find_endpoints config in
             andthen (throw_if (\<not> fd_in f \<or> \<not> fd_out f \<or> \<not> fd_intr f)
               (Error ERR_NOT_SUPPORTED ''USB endpoints differ from researched adapter'')) (\<lambda>_.
             andthen (detach_all env (fd_interfaces f)) (\<lambda>_.
             claim_all env (fd_interfaces f))))))))"

section \<open>Cleaning up\<close>

definition free_input :: "usb \<Rightarrow> usb_input \<Rightarrow> usb" where
  "free_input u k =
     (if us_transfer u k \<and> \<not> (us_drain_failed u \<and> us_pending u k)
      then usb_log (Free k) (u\<lparr>us_transfer := (us_transfer u)(k := False)\<rparr>) else u)"

definition given_back :: "int \<Rightarrow> bool" where
  "given_back result = (\<not> (result < 0 \<and> result \<noteq> LIBUSB_ERROR_NO_DEVICE))"

text \<open>The results of releasing and of reattaching an interface are arguments; the last failure is the one reported.\<close>

definition usb_cleanup :: "(nat \<Rightarrow> int) \<Rightarrow> (nat \<Rightarrow> int) \<Rightarrow> usb \<Rightarrow> string \<times> usb" where
  "usb_cleanup release attach u =
     (let u = foldl free_input u [Bulk_in, Interrupt_in];
          (failure, u) =
            (if us_handle u then
               (let failure = (if list_all (\<lambda>i. given_back (release i)) (us_claimed u) then [] else ''USB interface release failed'');
                    failure = (if list_all (\<lambda>i. given_back (attach i)) (us_detached u) then failure
                               else ''CDC kernel driver reattachment failed'')
                in (failure,
                    u\<lparr>us_log := us_log u @ map Release (rev (us_claimed u)) @ map Attach (rev (us_detached u)) @ [Close_handle],
                      us_handle := False\<rparr>))
             else ([], u));
          u = u\<lparr>us_claimed := [], us_detached := []\<rparr>
      in (failure, if us_lock u then usb_log Close_lock (u\<lparr>us_lock := False\<rparr>) else u))"

definition usb_create :: "usb_env \<Rightarrow> (nat \<Rightarrow> int) \<Rightarrow> (nat \<Rightarrow> int) \<Rightarrow> string \<Rightarrow> (exn + unit) \<times> usb" where
  "usb_create env release attach serial =
     andthen (guard_call env (ue_init env) ''libusb initialization'') (\<lambda>_.
     catch (usb_acquire env serial) (\<lambda>e. andthen (modify (\<lambda>u. snd (usb_cleanup release attach u))) (\<lambda>_. raise e))) usb_new"

section \<open>Input transfers\<close>

text \<open>The listener, with its own state \<open>'s\<close>, and the names libusb gives its errors.\<close>

record 's usb_host =
  uh_error_name :: "int \<Rightarrow> string"
  uh_receive :: "bytes \<Rightarrow> ('s, unit) eff"
  uh_failure :: "string \<Rightarrow> ('s, unit) eff"

definition on_usb :: "(usb \<Rightarrow> usb) \<Rightarrow> usb \<times> 's \<Rightarrow> usb \<times> 's" where
  "on_usb f st = (f (fst st), snd st)"

definition submitted :: "usb_input \<Rightarrow> usb \<Rightarrow> usb" where
  "submitted k u = usb_log (Submit k) (u\<lparr>us_pending := (us_pending u)(k := True)\<rparr>)"

definition completed :: "usb_input \<Rightarrow> usb \<Rightarrow> usb" where
  "completed k u = usb_log (Completed k) (u\<lparr>us_pending := (us_pending u)(k := False)\<rparr>)"

definition usb_fault :: "'s usb_host \<Rightarrow> string \<Rightarrow> usb \<times> 's \<Rightarrow> usb \<times> 's" where
  "usb_fault h reason st = ((fst st)\<lparr>us_stopping := True\<rparr>, snd (uh_failure h reason (snd st)))"

definition hand_over :: "'s usb_host \<Rightarrow> bytes \<Rightarrow> (usb \<times> 's, unit) eff" where
  "hand_over h data st = (case uh_receive h data (snd st) of (r, s) \<Rightarrow> (r, (fst st, s)))"

text \<open>
  One completed transfer: which, \<open>transfer->status\<close> (0 is \<open>LIBUSB_TRANSFER_COMPLETED\<close>, 3 is
  \<open>LIBUSB_TRANSFER_CANCELLED\<close>), its data, and the result of submitting it again.
\<close>

record completion =
  co_input :: usb_input
  co_status :: nat
  co_data :: bytes
  co_resubmit :: int

definition take_input :: "'s usb_host \<Rightarrow> completion \<Rightarrow> (usb \<times> 's, unit) eff" where
  "take_input h c =
     (if co_status c = 0 then
        andthen (modify (on_usb (usb_emit (if co_input c = Interrupt_in then ''INTERRUPT'' else ''IN'') (co_data c)))) (\<lambda>_.
        only_if (co_input c \<noteq> Interrupt_in \<and> co_data c \<noteq> []) (hand_over h (co_data c)))
      else throw_if (co_status c \<noteq> 3)
        (Error ERR_DEVICE_NOT_CONNECTED (''USB input transfer status '' @ decimal (co_status c))))"

definition resubmit :: "'s usb_host \<Rightarrow> completion \<Rightarrow> (usb \<times> 's, unit) eff" where
  "resubmit h c =
     andthen (asks (\<lambda>st. us_stopping (fst st))) (\<lambda>stopping.
     only_if (\<not> stopping)
       (andthen (lift (usb_check (uh_error_name h) (co_resubmit c) ''resubmitting USB input'')) (\<lambda>_.
        modify (on_usb (submitted (co_input c))))))"

definition usb_callback :: "'s usb_host \<Rightarrow> completion \<Rightarrow> (usb \<times> 's, unit) eff" where
  "usb_callback h c =
     andthen (modify (on_usb (completed (co_input c)))) (\<lambda>_.
     catch (andthen (take_input h c) (\<lambda>_. resubmit h c)) (\<lambda>e. modify (usb_fault h (exn_what e))))"

text \<open>
  What libusb does while it handles events: callbacks for transfers it holds (it calls back only for those), then a
  result. \<open>happen\<close> runs the callbacks.
\<close>

record event_turn =
  et_done :: "completion list"
  et_result :: int

definition complete_one :: "'s usb_host \<Rightarrow> usb \<times> 's \<Rightarrow> completion \<Rightarrow> usb \<times> 's" where
  "complete_one h st c = (if us_pending (fst st) (co_input c) then snd (usb_callback h c st) else st)"

definition happen :: "'s usb_host \<Rightarrow> completion list \<Rightarrow> usb \<times> 's \<Rightarrow> usb \<times> 's" where
  "happen h cs st = foldl (complete_one h) st cs"

definition events_failed :: "int \<Rightarrow> bool" where
  "events_failed result = (result < 0 \<and> result \<noteq> LIBUSB_ERROR_INTERRUPTED)"

section \<open>The event thread\<close>

definition cancel_one :: "usb \<Rightarrow> usb_input \<Rightarrow> usb" where
  "cancel_one u k = (if us_pending u k then usb_log (Cancel k) u else u)"

definition usb_cancel :: "usb \<Rightarrow> usb" where
  "usb_cancel u = foldl cancel_one u [Bulk_in, Interrupt_in]"

definition transfers_in_flight :: "usb \<Rightarrow> bool" where
  "transfers_in_flight u = (us_pending u Bulk_in \<or> us_pending u Interrupt_in)"

text \<open>The test of the drain loop.\<close>

definition drained :: "usb \<Rightarrow> usb" where
  "drained u = (if us_phase u = Draining \<and> \<not> transfers_in_flight u then u\<lparr>us_phase := Ended\<rparr> else u)"

definition drain_begin :: "usb \<Rightarrow> usb" where
  "drain_begin u = drained ((usb_cancel u)\<lparr>us_phase := Draining\<rparr>)"

definition drain_turn :: "'s usb_host \<Rightarrow> event_turn \<Rightarrow> usb \<times> 's \<Rightarrow> usb \<times> 's" where
  "drain_turn h t st =
     (let st = happen h (et_done t) st
      in if events_failed (et_result t)
         then on_usb (\<lambda>u. u\<lparr>us_drain_failed := True, us_phase := Ended\<rparr>)
                (usb_fault h ''USB event failure while draining'' st)
         else on_usb drained st)"

definition pump_turn :: "'s usb_host \<Rightarrow> event_turn \<Rightarrow> usb \<times> 's \<Rightarrow> usb \<times> 's" where
  "pump_turn h t st =
     (if us_stopping (fst st) then on_usb drain_begin st
      else
        let st = happen h (et_done t) st
        in if events_failed (et_result t) then usb_fault h ''USB event loop failed'' st else st)"

text \<open>One turn of whoever handles the events: the thread, in its loop or draining, or a stop without a thread.\<close>

definition worker_turn :: "'s usb_host \<Rightarrow> usb \<times> 's \<Rightarrow> event_turn \<Rightarrow> usb \<times> 's" where
  "worker_turn h st t =
     (case us_phase (fst st) of
        Pumping \<Rightarrow> pump_turn h t st
      | Draining \<Rightarrow> drain_turn h t st
      | Absent \<Rightarrow> st
      | Ended \<Rightarrow> st)"

definition worker :: "'s usb_host \<Rightarrow> event_turn list \<Rightarrow> usb \<times> 's \<Rightarrow> usb \<times> 's" where
  "worker h turns st = foldl (worker_turn h) st turns"

section \<open>Operations\<close>

definition usb_control :: "'s usb_host \<Rightarrow> event_turn \<Rightarrow> u8 \<Rightarrow> (usb \<times> 's, unit) eff" where
  "usb_control h t value =
     andthen (modify (on_usb (usb_emit ''CONTROL'' [0x40, 0xdb, value, 0, 0, 0, 0, 0]))) (\<lambda>_.
     andthen (modify (\<lambda>st. happen h (et_done t) (on_usb (usb_log (Control value)) st))) (\<lambda>_.
     andthen (modify (on_usb (usb_emit (''CONTROL_RESULT_'' @ decimal_int (et_result t)) []))) (\<lambda>_.
     lift (usb_check (uh_error_name h) (et_result t) ''vendor 0xdb control request''))))"

text \<open>
  What a stop meets: the events until the input transfers are drained, the outcome of the control request, and the
  results of giving back the interfaces. \<open>None\<close> is a stop that is still draining after these events.
\<close>

record stop_env =
  se_turns :: "event_turn list"
  se_control :: event_turn
  se_release :: "nat \<Rightarrow> int"
  se_attach :: "nat \<Rightarrow> int"

definition joined :: "string \<Rightarrow> string \<Rightarrow> string" where
  "joined failure release_failure =
     (if release_failure = [] then failure
      else (if failure = [] then [] else failure @ ''; '') @ release_failure)"

definition usb_stop :: "'s usb_host \<Rightarrow> stop_env \<Rightarrow> usb \<times> 's \<Rightarrow> ((exn + unit) \<times> usb \<times> 's) option" where
  "usb_stop h e st =
     (if us_closed (fst st) then Some (Inr (), st)
      else
        let st = on_usb (\<lambda>u. u\<lparr>us_stopping := True\<rparr>) st;
            st = (if us_phase (fst st) = Absent then on_usb drain_begin st else st);
            st = worker h (se_turns e) st
        in if us_phase (fst st) \<noteq> Ended then None
           else
             let (asked, st) =
                   (if us_create_attempted (fst st) \<and> us_handle (fst st) then usb_control h (se_control e) 0 st
                    else (Inr (), st));
                 failure = (case asked of Inl x \<Rightarrow> exn_what x | Inr _ \<Rightarrow> []);
                 (release_failure, u) = usb_cleanup (se_release e) (se_attach e) (fst st);
                 failure = joined failure release_failure
             in Some (if failure = [] then Inr () else Inl (Error ERR_FAILED (''cleanup: '' @ failure)),
                      u\<lparr>us_closed := True\<rparr>, snd st))"

text \<open>What a start meets, and the stop that follows if it fails.\<close>

record start_env =
  st_control :: event_turn
  st_alloc :: "usb_input \<Rightarrow> bool"
  st_submit :: "usb_input \<Rightarrow> int"
  st_thread :: "exn option"
  st_stop :: stop_env

definition open_input :: "'s usb_host \<Rightarrow> start_env \<Rightarrow> usb_input \<Rightarrow> (usb \<times> 's, unit) eff" where
  "open_input h e k =
     andthen (throw_if (\<not> st_alloc e k) (Runtime_error ''std::bad_alloc'')) (\<lambda>_.
     andthen (modify (on_usb (\<lambda>u. usb_log (Alloc k) (u\<lparr>us_transfer := (us_transfer u)(k := True)\<rparr>)))) (\<lambda>_.
     andthen (lift (usb_check (uh_error_name h) (st_submit e k) ''submitting USB input'')) (\<lambda>_.
     modify (on_usb (submitted k)))))"

definition start_body :: "'s usb_host \<Rightarrow> start_env \<Rightarrow> (usb \<times> 's, unit) eff" where
  "start_body h e =
     andthen (modify (on_usb (\<lambda>u. u\<lparr>us_create_attempted := True\<rparr>))) (\<lambda>_.
     andthen (usb_control h (st_control e) 1) (\<lambda>_.
     andthen (open_input h e Bulk_in) (\<lambda>_.
     andthen (open_input h e Interrupt_in) (\<lambda>_.
     case st_thread e of
       Some x \<Rightarrow> raise x
     | None \<Rightarrow> modify (on_usb (\<lambda>u. u\<lparr>us_phase := Pumping\<rparr>))))))"

definition usb_start :: "'s usb_host \<Rightarrow> start_env \<Rightarrow> usb \<times> 's \<Rightarrow> ((exn + unit) \<times> usb \<times> 's) option" where
  "usb_start h e st =
     (if us_started (fst st) \<or> us_closed (fst st) then Some (Inl (Error ERR_FAILED ''transport cannot be restarted''), st)
      else
        case start_body h e (on_usb (\<lambda>u. u\<lparr>us_started := True\<rparr>) st) of
          (Inr _, st) \<Rightarrow> Some (Inr (), st)
        | (Inl x, st) \<Rightarrow> map_option (\<lambda>r. (Inl x, snd r)) (usb_stop h (st_stop e) st))"

text \<open>\<open>libusb_bulk_transfer\<close> waits; transfers can complete meanwhile. \<open>transferred\<close> is the count it reports.\<close>

definition usb_send :: "'s usb_host \<Rightarrow> event_turn \<Rightarrow> nat \<Rightarrow> bytes \<Rightarrow> nat \<Rightarrow> (usb \<times> 's, unit) eff" where
  "usb_send h t transferred data timeout =
     andthen (asks fst) (\<lambda>u.
     andthen (throw_if (us_stopping u \<or> \<not> us_started u) (Error ERR_DEVICE_NOT_CONNECTED ''USB transport stopped'')) (\<lambda>_.
     andthen (throw_if (length data > 65536 \<or> data = [] \<or> timeout = 0)
       (Invalid_argument ''invalid USB write size or timeout'')) (\<lambda>_.
     andthen (modify (on_usb (usb_emit ''OUT'' data))) (\<lambda>_.
     andthen (modify (\<lambda>st. happen h (et_done t) (on_usb (usb_log (Write data)) st))) (\<lambda>_.
     andthen (lift (usb_check (uh_error_name h) (et_result t) ''bulk OUT (write not retried)'')) (\<lambda>_.
     throw_if (transferred \<noteq> length data)
       (Error ERR_FAILED ''short USB write; command delivery is ambiguous'')))))))"

end
