(* ===== verification/Usb_Safety.thy ===== *)
theory Usb_Safety
  imports Usb_Transport
begin

text \<open>
  What the libusb transport keeps at every moment: each transfer is used as libusb asks (\<open>life\<close>), the log and the
  state agree on what is held (\<open>book_ok\<close>), and a stopped transport holds nothing but a transfer libusb would not
  give back.
\<close>

section \<open>The life of a transfer\<close>

text \<open>
  What libusb asks of its caller, as an automaton over the calls on one transfer: allocated or not, in flight or not. A
  call out of turn, such as freeing or submitting what is in flight, has no successor.
\<close>

definition life_step :: "usb_input \<Rightarrow> (bool \<times> bool) option \<Rightarrow> usb_call \<Rightarrow> (bool \<times> bool) option" where
  "life_step k state c =
     (case state of
        None \<Rightarrow> None
      | Some (allocated, flying) \<Rightarrow>
          if c = Alloc k then (if allocated then None else Some (True, False))
          else if c = Submit k then (if allocated \<and> \<not> flying then Some (True, True) else None)
          else if c = Cancel k then (if flying then Some (allocated, True) else None)
          else if c = Completed k then (if flying then Some (allocated, False) else None)
          else if c = Free k then (if allocated \<and> \<not> flying then Some (False, False) else None)
          else Some (allocated, flying))"

definition life :: "usb_input \<Rightarrow> usb_call list \<Rightarrow> (bool \<times> bool) option" where
  "life k log = foldl (life_step k) (Some (False, False)) log"

lemma life_Nil [simp]: "life k [] = Some (False, False)"
  by (simp add: life_def)

lemma life_snoc: "life k (log @ [c]) = life_step k (life k log) c"
  by (simp add: life_def)

lemma life_flying: "life k log = Some (a, f) \<Longrightarrow> f \<Longrightarrow> a"
proof (induction log arbitrary: a f rule: rev_induct)
  case (snoc c log)
  then show ?case by (auto simp: life_snoc life_step_def split: option.splits if_splits)
qed simp

text \<open>Calls that no transfer notices.\<close>

fun about_input :: "usb_call \<Rightarrow> bool" where
  "about_input (Alloc _) = True"
| "about_input (Submit _) = True"
| "about_input (Completed _) = True"
| "about_input (Cancel _) = True"
| "about_input (Free _) = True"
| "about_input _ = False"

lemma life_other: "list_all (\<lambda>c. \<not> about_input c) cs \<Longrightarrow> life k (log @ cs) = life k log"
proof (induction cs rule: rev_induct)
  case (snoc c cs)
  then have "life k (log @ cs) = life k log" and c: "\<not> about_input c" by simp_all
  then show ?case using life_snoc [of k "log @ cs" c] by (auto simp: life_step_def split: option.splits prod.splits)
qed simp

section \<open>What is taken is given back\<close>

text \<open>
  What is held, the last taken first: a stack over the calls. Interfaces are only detached and claimed on an open handle,
  and only what was taken last may be given back, so nothing is used after what it rests on is gone.
\<close>

definition held_step :: "usb_call list option \<Rightarrow> usb_call \<Rightarrow> usb_call list option" where
  "held_step state c =
     (case state of
        None \<Rightarrow> None
      | Some taken \<Rightarrow>
          let gives_back = (\<lambda>t. case taken of x # rest \<Rightarrow> if x = t then Some rest else None | [] \<Rightarrow> None) in
          case c of
            Open_lock \<Rightarrow> Some (c # taken)
          | Open_handle \<Rightarrow> Some (c # taken)
          | Detach i \<Rightarrow> if Open_handle \<in> set taken then Some (c # taken) else None
          | Claim i \<Rightarrow> if Open_handle \<in> set taken then Some (c # taken) else None
          | Release i \<Rightarrow> gives_back (Claim i)
          | Attach i \<Rightarrow> gives_back (Detach i)
          | Close_handle \<Rightarrow> gives_back Open_handle
          | Close_lock \<Rightarrow> gives_back Open_lock
          | _ \<Rightarrow> Some taken)"

definition held_after :: "usb_call list \<Rightarrow> usb_call list option" where
  "held_after log = foldl held_step (Some []) log"

lemma held_Nil [simp]: "held_after [] = Some []"
  by (simp add: held_after_def)

lemma held_snoc [simp]: "held_after (log @ [c]) = held_step (held_after log) c"
  by (simp add: held_after_def)

lemma held_append: "held_after (log @ cs) = foldl held_step (held_after log) cs"
  by (simp add: held_after_def)

lemma held_step_simps [simp]:
  "held_step (Some t) Open_lock = Some (Open_lock # t)" "held_step (Some t) Open_handle = Some (Open_handle # t)"
  "held_step (Some (Open_lock # t)) Close_lock = Some t" "held_step (Some (Open_handle # t)) Close_handle = Some t"
  "held_step (Some (Claim i # t)) (Release i) = Some t" "held_step (Some (Detach i # t)) (Attach i) = Some t"
  "held_step (Some t) (Alloc k) = Some t" "held_step (Some t) (Submit k) = Some t" "held_step (Some t) (Completed k) = Some t"
  "held_step (Some t) (Cancel k) = Some t" "held_step (Some t) (Free k) = Some t" "held_step (Some t) (Control v) = Some t"
  "held_step (Some t) (Write d) = Some t"
  by (simp_all add: held_step_def)

lemma held_taken:
  assumes "Open_handle \<in> set t"
  shows "foldl held_step (Some t) (map Detach is) = Some (rev (map Detach is) @ t)"
    and "foldl held_step (Some t) (map Claim is) = Some (rev (map Claim is) @ t)"
proof -
  show "foldl held_step (Some t) (map Detach is) = Some (rev (map Detach is) @ t)"
    using assms by (induction "is" arbitrary: t) (auto simp: held_step_def)
  show "foldl held_step (Some t) (map Claim is) = Some (rev (map Claim is) @ t)"
    using assms by (induction "is" arbitrary: t) (auto simp: held_step_def)
qed

lemma held_given:
  "foldl held_step (Some (map Claim is @ t)) (map Release is) = Some t"
  "foldl held_step (Some (map Detach is @ t)) (map Attach is) = Some t"
  by (induction "is" arbitrary: t) simp_all

definition all_returned :: "usb_call list \<Rightarrow> bool" where
  "all_returned log \<longleftrightarrow> held_after log = Some []"

text \<open>What a transport holds.\<close>

definition holding :: "usb \<Rightarrow> usb_call list" where
  "holding u = map Claim (rev (us_claimed u)) @ map Detach (rev (us_detached u)) @
     (if us_handle u then [Open_handle] else []) @ (if us_lock u then [Open_lock] else [])"

definition book_ok :: "usb \<Rightarrow> bool" where
  "book_ok u \<longleftrightarrow> held_after (us_log u) = Some (holding u) \<and> (us_handle u \<or> us_claimed u = [] \<and> us_detached u = [])"

lemma book_returned: "book_ok u \<Longrightarrow> \<not> us_handle u \<Longrightarrow> \<not> us_lock u \<Longrightarrow> all_returned (us_log u)"
  by (auto simp: book_ok_def holding_def all_returned_def)

definition life_ok :: "usb \<Rightarrow> bool" where
  "life_ok u \<longleftrightarrow> (\<forall>k. life k (us_log u) = Some (us_transfer u k, us_pending u k))"

definition usb_base :: "usb \<Rightarrow> bool" where
  "usb_base u \<longleftrightarrow> life_ok u \<and> book_ok u \<and>
     (us_phase u = Draining \<or> us_phase u = Ended \<longrightarrow> us_stopping u) \<and>
     (us_phase u = Ended \<longrightarrow> us_drain_failed u \<or> \<not> transfers_in_flight u) \<and>
     (us_started u \<or> (\<forall>k. \<not> us_transfer u k))"

definition usb_sound :: "usb \<Rightarrow> bool" where
  "usb_sound u \<longleftrightarrow> usb_base u \<and> (\<not> us_started u \<and> \<not> us_closed u \<longrightarrow> us_phase u = Absent \<and> \<not> us_stopping u) \<and>
     (us_closed u \<longrightarrow> \<not> us_handle u \<and> \<not> us_lock u \<and> us_stopping u \<and> us_phase u = Ended \<and>
        (\<forall>k. us_transfer u k \<longrightarrow> us_drain_failed u \<and> us_pending u k))"

section \<open>Elementary steps\<close>

lemmas usb_step_defs = usb_base_def life_ok_def book_ok_def holding_def usb_log_def transfers_in_flight_def

lemma usb_baseD:
  assumes "usb_base u"
  shows "life k (us_log u) = Some (us_transfer u k, us_pending u k)" and "book_ok u"
    and "us_phase u = Draining \<or> us_phase u = Ended \<Longrightarrow> us_stopping u"
    and "us_phase u = Ended \<Longrightarrow> us_drain_failed u \<or> \<not> us_pending u k"
    and "us_started u \<or> \<not> us_transfer u k" and "us_pending u k \<Longrightarrow> us_transfer u k"
  using assms life_flying [of k "us_log u" "us_transfer u k" "us_pending u k"]
  by (cases k; auto simp: usb_base_def life_ok_def transfers_in_flight_def)+

text \<open>\<open>unchanged\<close>: what events leave alone. Stopping is only ever set.\<close>

definition unchanged :: "usb \<Rightarrow> usb \<Rightarrow> bool" where
  "unchanged u v \<longleftrightarrow>
     us_handle v = us_handle u \<and> us_lock v = us_lock u \<and> us_transfer v = us_transfer u \<and> us_phase v = us_phase u \<and>
     us_started v = us_started u \<and> us_closed v = us_closed u \<and> us_create_attempted v = us_create_attempted u \<and>
     us_drain_failed v = us_drain_failed u \<and> us_claimed v = us_claimed u \<and> us_detached v = us_detached u \<and>
     (us_stopping u \<longrightarrow> us_stopping v \<and> (\<forall>k. us_pending v k \<longrightarrow> us_pending u k))"

lemma unchanged_refl [simp]: "unchanged u u"
  by (simp add: unchanged_def)

lemma unchanged_trans: "unchanged u v \<Longrightarrow> unchanged v w \<Longrightarrow> unchanged u w"
  by (simp add: unchanged_def)

definition quiet_call :: "usb_call \<Rightarrow> bool" where
  "quiet_call c \<longleftrightarrow> (\<exists>v. c = Control v) \<or> (\<exists>d. c = Write d)"

lemma base_quiet_call: "usb_base u \<Longrightarrow> quiet_call c \<Longrightarrow> usb_base (usb_log c u)"
  by (auto simp: usb_step_defs quiet_call_def life_snoc life_step_def)

lemma base_emit: "usb_base u \<Longrightarrow> usb_base (usb_emit kind data u)"
  by (simp add: usb_step_defs usb_emit_def)

lemma base_stopping: "usb_base u \<Longrightarrow> usb_base (u\<lparr>us_stopping := True\<rparr>)"
  by (simp add: usb_step_defs)

lemma base_completed: "usb_base u \<Longrightarrow> us_pending u k \<Longrightarrow> usb_base (completed k u)"
  by (auto simp: usb_step_defs completed_def life_snoc life_step_def)

lemma base_submitted:
  "usb_base u \<Longrightarrow> us_transfer u k \<Longrightarrow> \<not> us_pending u k \<Longrightarrow> \<not> us_stopping u \<Longrightarrow> usb_base (submitted k u)"
  by (auto simp: usb_step_defs submitted_def life_snoc life_step_def)

lemma base_cancel_one: "usb_base u \<Longrightarrow> usb_base (cancel_one u k)"
  by (auto simp: usb_step_defs cancel_one_def life_snoc life_step_def)

lemma base_free_input:
  "usb_base u \<Longrightarrow> us_drain_failed u \<or> \<not> us_pending u k \<Longrightarrow> usb_base (free_input u k)"
  by (auto simp: usb_step_defs free_input_def life_snoc life_step_def)

lemma base_cancel: "usb_base u \<Longrightarrow> usb_base (usb_cancel u)"
  by (simp add: usb_cancel_def base_cancel_one)

lemma cancel_fields [simp]:
  "us_pending (usb_cancel u) = us_pending u" "us_stopping (usb_cancel u) = us_stopping u"
  "us_transfer (usb_cancel u) = us_transfer u" "us_started (usb_cancel u) = us_started u"
  "us_closed (usb_cancel u) = us_closed u" "us_create_attempted (usb_cancel u) = us_create_attempted u"
  by (simp_all add: usb_cancel_def cancel_one_def usb_log_def)

lemma base_drained: "usb_base u \<Longrightarrow> usb_base (drained u)"
  by (auto simp: usb_step_defs drained_def)

lemma base_draining: "usb_base u \<Longrightarrow> us_stopping u \<Longrightarrow> usb_base (u\<lparr>us_phase := Draining\<rparr>)"
  by (simp add: usb_step_defs)

lemma base_drain_begin: "usb_base u \<Longrightarrow> us_stopping u \<Longrightarrow> usb_base (drain_begin u)"
  unfolding drain_begin_def by (intro base_drained base_draining base_cancel) simp_all

section \<open>Events\<close>

definition kept :: "usb \<Rightarrow> usb \<times> 's \<Rightarrow> bool" where
  "kept u0 st \<longleftrightarrow> usb_base (fst st) \<and> unchanged u0 (fst st)"

definition going :: "usb \<Rightarrow> usb_input \<Rightarrow> usb \<times> 's \<Rightarrow> bool" where
  "going u0 k st \<longleftrightarrow> kept u0 st \<and> us_transfer (fst st) k \<and> \<not> us_pending (fst st) k"

lemma going_completed: "kept u0 st \<and> us_pending (fst st) k \<Longrightarrow> going u0 k (on_usb (completed k) st)"
  using base_completed [of "fst st" k] usb_baseD(6) [of "fst st" k]
  by (auto simp: going_def kept_def on_usb_def unchanged_def completed_def usb_log_def)

lemma going_emit: "going u0 k st \<Longrightarrow> going u0 k (on_usb (usb_emit kind data) st)"
  using base_emit [of "fst st"] by (auto simp: going_def kept_def on_usb_def unchanged_def usb_emit_def)

lemma going_submitted: "going u0 k st \<and> \<not> us_stopping (fst st) \<Longrightarrow> kept u0 (on_usb (submitted k) st)"
  using base_submitted [of "fst st" k]
  by (auto simp: going_def kept_def on_usb_def unchanged_def submitted_def usb_log_def)

lemma kept_fault: "kept u0 st \<Longrightarrow> kept u0 (usb_fault h reason st)"
  using base_stopping [of "fst st"] by (auto simp: kept_def usb_fault_def unchanged_def)

lemma going_kept: "going u0 k st \<Longrightarrow> kept u0 st"
  by (simp add: going_def)

lemma take_input_keeps: "triple (going u0 k) (take_input h c) (\<lambda>_. going u0 k) (\<lambda>_. going u0 k)"
proof -
  have "triple (going u0 k) (hand_over h data) (\<lambda>_. going u0 k) (\<lambda>_. going u0 k)" for data
    by (rule tripleI) (auto simp: hand_over_def going_def kept_def split: prod.split sum.split)
  then show ?thesis
    unfolding take_input_def
    by (intro triple_if triple_andthen [where R = "\<lambda>_. going u0 k"] triple_modify going_emit triple_only_if triple_throw_if)
qed

lemma resubmit_keeps: "triple (going u0 (co_input c)) (resubmit h c) (\<lambda>_. kept u0) (\<lambda>_. kept u0)"
  unfolding resubmit_def
proof (rule triple_andthen [where R = "\<lambda>b st. going u0 (co_input c) st \<and> b = us_stopping (fst st)"])
  show "triple (\<lambda>st. going u0 (co_input c) st \<and> b = us_stopping (fst st))
     (only_if (\<not> b) (andthen (lift (usb_check (uh_error_name h) (co_resubmit c) ''resubmitting USB input'')) (\<lambda>_.
        modify (on_usb (submitted (co_input c)))))) (\<lambda>_. kept u0) (\<lambda>_. kept u0)" for b
    by (intro triple_only_if triple_andthen [where R = "\<lambda>_ st. going u0 (co_input c) st \<and> \<not> us_stopping (fst st)"]
        triple_lift triple_modify going_submitted) (auto dest: going_kept)
qed (rule triple_asks, simp)

lemma callback_rest_keeps:
  "triple (going u0 (co_input c)) (catch (andthen (take_input h c) (\<lambda>_. resubmit h c)) (\<lambda>e. modify (usb_fault h (exn_what e))))
     (\<lambda>_. kept u0) (\<lambda>_. kept u0)"
  by (rule triple_catch [where R = "\<lambda>_. kept u0"],
      rule triple_andthen [OF triple_weaken [OF take_input_keeps] resubmit_keeps])
    (auto intro: triple_modify kept_fault dest: going_kept)

lemma callback_keeps:
  "triple (\<lambda>st. kept u0 st \<and> us_pending (fst st) (co_input c)) (usb_callback h c) (\<lambda>_. kept u0) (\<lambda>_. kept u0)"
  unfolding usb_callback_def
  by (rule triple_andthen [where R = "\<lambda>_. going u0 (co_input c)"], rule triple_modify, erule going_completed,
      rule callback_rest_keeps)

lemma complete_one_keeps: "kept u0 st \<Longrightarrow> kept u0 (complete_one h st c)"
  by (auto simp: complete_one_def intro: triple_snd [OF callback_keeps])

lemma happen_kept: "kept u0 st \<Longrightarrow> kept u0 (happen h cs st)"
  by (induction cs arbitrary: st) (simp_all add: happen_def complete_one_keeps)

lemma happen_keeps: "usb_base (fst st) \<Longrightarrow> usb_base (fst (happen h cs st)) \<and> unchanged (fst st) (fst (happen h cs st))"
  using happen_kept [of "fst st" st h cs] by (simp add: kept_def)

section \<open>The event thread\<close>

text \<open>What the thread may change besides: its phase, and whether draining failed.\<close>

definition held :: "usb \<Rightarrow> usb \<Rightarrow> bool" where
  "held u v \<longleftrightarrow>
     us_handle v = us_handle u \<and> us_transfer v = us_transfer u \<and> us_started v = us_started u \<and>
     us_closed v = us_closed u \<and> us_create_attempted v = us_create_attempted u \<and> (us_stopping u \<longrightarrow> us_stopping v)"

lemma held_refl [simp]: "held u u"
  by (simp add: held_def)

lemma held_trans: "held u v \<Longrightarrow> held v w \<Longrightarrow> held u w"
  by (simp add: held_def)

lemma unchanged_held: "unchanged u v \<Longrightarrow> held u v"
  by (simp add: unchanged_def held_def)

lemma fault_base: "usb_base (fst st) \<Longrightarrow> usb_base (fst (usb_fault h reason st))"
  by (simp add: usb_fault_def base_stopping)

lemma drained_fields [simp]:
  "us_handle (drained u) = us_handle u" "us_transfer (drained u) = us_transfer u" "us_pending (drained u) = us_pending u"
  "us_started (drained u) = us_started u" "us_closed (drained u) = us_closed u" "us_stopping (drained u) = us_stopping u"
  "us_create_attempted (drained u) = us_create_attempted u"
  by (simp_all add: drained_def)

lemma cancel_handle [simp]: "us_handle (usb_cancel u) = us_handle u"
  by (simp add: usb_cancel_def cancel_one_def usb_log_def)

lemma drain_begin_held: "held u (drain_begin u)"
  by (simp add: held_def drain_begin_def)

lemma drain_turn_keeps:
  assumes "usb_base (fst st)" and "us_phase (fst st) = Draining"
  shows "usb_base (fst (drain_turn h t st)) \<and> held (fst st) (fst (drain_turn h t st))"
proof -
  let ?st = "happen h (et_done t) st"
  have k: "usb_base (fst ?st)" "unchanged (fst st) (fst ?st)" using happen_keeps [OF assms(1)] by blast+
  then have d: "us_phase (fst ?st) = Draining" using assms(2) by (simp add: unchanged_def)
  have "usb_base ((fst ?st)\<lparr>us_stopping := True, us_drain_failed := True, us_phase := Ended\<rparr>)"
    using k(1) by (simp add: usb_step_defs)
  then show ?thesis using k unchanged_held [OF k(2)] base_drained [OF k(1)]
    by (auto simp: drain_turn_def Let_def on_usb_def usb_fault_def held_def)
qed

lemma pump_turn_keeps:
  assumes "usb_base (fst st)"
  shows "usb_base (fst (pump_turn h t st)) \<and> held (fst st) (fst (pump_turn h t st))"
proof (cases "us_stopping (fst st)")
  case True
  then show ?thesis using base_drain_begin [OF assms True] drain_begin_held [of "fst st"]
    by (simp add: pump_turn_def on_usb_def)
next
  case False
  let ?st = "happen h (et_done t) st"
  have k: "usb_base (fst ?st)" "unchanged (fst st) (fst ?st)" using happen_keeps [OF assms] by blast+
  then show ?thesis using False fault_base [OF k(1)] unchanged_held [OF k(2)]
    by (simp add: pump_turn_def Let_def usb_fault_def held_def)
qed

lemma worker_keeps:
  "usb_base (fst st) \<Longrightarrow> usb_base (fst (worker h turns st)) \<and> held (fst st) (fst (worker h turns st))"
proof (induction turns arbitrary: st)
  case (Cons t turns)
  let ?st = "worker_turn h st t"
  have k: "usb_base (fst ?st) \<and> held (fst st) (fst ?st)"
    using Cons.prems pump_turn_keeps [of st h t] drain_turn_keeps [of st h t]
    by (cases "us_phase (fst st)") (simp_all add: worker_turn_def)
  then show ?case using Cons.IH [of ?st] held_trans by (auto simp: worker_def)
qed (simp add: worker_def)

section \<open>Cleaning up\<close>

lemma free_input_fields [simp]:
  "us_handle (free_input u k) = us_handle u" "us_lock (free_input u k) = us_lock u"
  "us_pending (free_input u k) = us_pending u" "us_drain_failed (free_input u k) = us_drain_failed u"
  "us_stopping (free_input u k) = us_stopping u" "us_phase (free_input u k) = us_phase u"
  "us_started (free_input u k) = us_started u"
  by (simp_all add: free_input_def usb_log_def)

lemma free_input_transfer:
  "us_transfer (free_input u k) j \<longleftrightarrow> us_transfer u j \<and> (j = k \<longrightarrow> us_drain_failed u \<and> us_pending u k)"
  by (auto simp: free_input_def usb_log_def)

lemma cleanup_keeps:
  fixes u :: usb and release attach
  assumes u: "usb_base u" and d: "\<forall>k. us_drain_failed u \<or> \<not> us_pending u k"
  defines "v \<equiv> snd (usb_cleanup release attach u)"
  shows "usb_base v" and "\<not> us_handle v" and "\<not> us_lock v" and "us_stopping v = us_stopping u" and "us_phase v = us_phase u"
    and "us_transfer v k \<Longrightarrow> us_drain_failed v \<and> us_pending v k"
proof -
  let ?f = "free_input (free_input u Bulk_in) Interrupt_in"
  have f: "usb_base ?f" using u d by (intro base_free_input) auto
  define g where "g = (if us_handle ?f
      then ?f\<lparr>us_log := us_log ?f @ map Release (rev (us_claimed ?f)) @ map Attach (rev (us_detached ?f)) @ [Close_handle],
              us_handle := False, us_claimed := [], us_detached := []\<rparr>
      else ?f\<lparr>us_claimed := [], us_detached := []\<rparr>)"
  have v: "v = (if us_lock g then usb_log Close_lock (g\<lparr>us_lock := False\<rparr>) else g)"
    by (simp add: v_def usb_cleanup_def Let_def g_def)
  have life: "life j (xs @ map Release is @ map Attach js @ [Close_handle]) = life j xs" for j xs "is" js
    by (rule life_other) (auto simp: list_all_iff)
  have held: "held_after (us_log ?f @ map Release (rev (us_claimed ?f)) @ map Attach (rev (us_detached ?f)) @ [Close_handle]) =
      Some (if us_lock ?f then [Open_lock] else [])" if "us_handle ?f"
    using f that by (simp add: usb_base_def book_ok_def holding_def held_append held_given)
  have g: "usb_base g" "\<not> us_handle g" "us_stopping g = us_stopping u" "us_phase g = us_phase u"
    "us_transfer g = us_transfer ?f" "us_pending g = us_pending u" "us_drain_failed g = us_drain_failed u"
    using f held by (auto simp: g_def usb_base_def life_ok_def book_ok_def holding_def transfers_in_flight_def life)
  then have "usb_base v" by (auto simp: v usb_step_defs life_snoc life_step_def)
  then show "usb_base v" .
  show "\<not> us_handle v" "\<not> us_lock v" "us_stopping v = us_stopping u" "us_phase v = us_phase u"
    using g by (simp_all add: v usb_log_def)
  show "us_drain_failed v \<and> us_pending v k" if "us_transfer v k"
  proof -
    have "us_transfer ?f k" using that g(5) by (simp add: v usb_log_def split: if_splits)
    then have "us_drain_failed u \<and> us_pending u k" by (cases k) (simp_all add: free_input_transfer)
    then show ?thesis using g(6,7) by (simp add: v usb_log_def)
  qed
qed

lemma cleanup_held: "us_started (snd (usb_cleanup release attach u)) = us_started u"
  by (simp add: usb_cleanup_def Let_def usb_log_def)

section \<open>Operations\<close>

lemma quiet_step:
  assumes "usb_base u" and "quiet_call c"
  shows "usb_base (usb_log c (usb_emit kind data u))" and "unchanged u (usb_log c (usb_emit kind data u))"
  using base_quiet_call [OF base_emit [OF assms(1)] assms(2)] by simp (simp add: unchanged_def usb_emit_def usb_log_def)

lemma control_keeps:
  assumes "usb_base (fst st)"
  shows "usb_base (fst (snd (usb_control h t v st))) \<and> unchanged (fst st) (fst (snd (usb_control h t v st)))"
proof -
  let ?a = "on_usb (usb_emit ''CONTROL'' [0x40, 0xdb, v, 0, 0, 0, 0, 0]) st"
  let ?b = "on_usb (usb_log (Control v)) ?a"
  let ?c = "happen h (et_done t) ?b"
  have ab: "usb_base (fst ?b)" "unchanged (fst st) (fst ?b)"
    using quiet_step [OF assms] by (simp_all add: on_usb_def quiet_call_def)
  have c: "usb_base (fst ?c)" "unchanged (fst st) (fst ?c)"
    using happen_keeps [OF ab(1)] unchanged_trans [OF ab(2)] by blast+
  then have d: "usb_base (usb_emit kind [] (fst ?c))" "unchanged (fst st) (usb_emit kind [] (fst ?c))" for kind
    using base_emit [OF c(1)] by (auto simp: unchanged_def usb_emit_def)
  show ?thesis
    using d by (simp add: usb_control_def effect_simps del: andthen_apply) (simp add: on_usb_def)
qed

lemma send_keeps:
  assumes "usb_base (fst st)"
  shows "usb_base (fst (snd (usb_send h t n data timeout st))) \<and>
    unchanged (fst st) (fst (snd (usb_send h t n data timeout st)))"
proof -
  let ?a = "on_usb (usb_emit ''OUT'' data) st"
  let ?b = "on_usb (usb_log (Write data)) ?a"
  let ?c = "happen h (et_done t) ?b"
  have ab: "usb_base (fst ?b)" "unchanged (fst st) (fst ?b)"
    using quiet_step [OF assms] by (simp_all add: on_usb_def quiet_call_def)
  have c: "usb_base (fst ?c)" "unchanged (fst st) (fst ?c)"
    using happen_keeps [OF ab(1)] unchanged_trans [OF ab(2)] by blast+
  have "snd (usb_send h t n data timeout st) = st \<or> snd (usb_send h t n data timeout st) = ?c"
    by (simp add: usb_send_def effect_simps del: andthen_apply split: sum.split)
  then show ?thesis using c assms by (elim disjE) simp_all
qed

lemma stop_keeps:
  assumes "usb_sound (fst st)" and "usb_stop h e st = Some (r, st')"
  shows "usb_sound (fst st')" and "us_closed (fst st')"
proof -
  have "usb_sound (fst st') \<and> us_closed (fst st')"
  proof (cases "us_closed (fst st)")
    case True
    then show ?thesis using assms by (simp add: usb_stop_def)
  next
    case False
    define a where "a = on_usb (\<lambda>u. u\<lparr>us_stopping := True\<rparr>) st"
    define b where "b = (if us_phase (fst a) = Absent then on_usb drain_begin a else a)"
    define w where "w = worker h (se_turns e) b"
    define c where "c = (if us_create_attempted (fst w) \<and> us_handle (fst w) then snd (usb_control h (se_control e) 0 w) else w)"
    have a: "usb_base (fst a)" "us_stopping (fst a)"
      using assms(1) by (simp_all add: a_def on_usb_def usb_sound_def base_stopping)
    have b: "usb_base (fst b)" "us_stopping (fst b)"
      using a base_drain_begin [OF a] drain_begin_held [of "fst a"] by (simp_all add: b_def on_usb_def held_def)
    have w: "usb_base (fst w)" "us_stopping (fst w)"
      using worker_keeps [OF b(1), of h "se_turns e"] b(2) by (auto simp: w_def held_def)
    have phase: "us_phase (fst w) = Ended" and st': "st' = ((snd (usb_cleanup (se_release e) (se_attach e) (fst c)))\<lparr>us_closed := True\<rparr>, snd c)"
      using assms(2) False
      by (auto simp: usb_stop_def Let_def a_def [symmetric] b_def [symmetric] w_def [symmetric] c_def
          case_prod_unfold split: if_splits)
    have c: "usb_base (fst c)" "us_stopping (fst c)" "us_phase (fst c) = Ended"
      using control_keeps [OF w(1), of h "se_control e" 0] w phase by (auto simp: c_def unchanged_def)
    have d: "\<forall>k. us_drain_failed (fst c) \<or> \<not> us_pending (fst c) k" using usb_baseD(4) [OF c(1,3)] by blast
    note v = cleanup_keeps [OF c(1) d, of "se_release e" "se_attach e"]
    show ?thesis using v c(2,3) by (auto simp: st' usb_sound_def usb_step_defs)
  qed
  then show "usb_sound (fst st')" "us_closed (fst st')" by blast+
qed

lemma open_input_keeps:
  assumes b: "usb_base (fst st)" "us_started (fst st)" "\<not> us_stopping (fst st)" "us_phase (fst st) = Absent"
    and k: "\<not> us_transfer (fst st) k"
  shows "let st' = snd (open_input h e k st) in usb_base (fst st') \<and> us_started (fst st') \<and> \<not> us_stopping (fst st') \<and>
      us_phase (fst st') = Absent \<and> us_closed (fst st') = us_closed (fst st) \<and>
      (\<forall>j. j \<noteq> k \<longrightarrow> us_transfer (fst st') j = us_transfer (fst st) j)"
proof -
  let ?u = "usb_log (Alloc k) ((fst st)\<lparr>us_transfer := (us_transfer (fst st))(k := True)\<rparr>)"
  have p: "\<not> us_pending (fst st) k" using usb_baseD(6) [OF b(1)] k by blast
  have u: "usb_base ?u" using b k p usb_baseD(1) [OF b(1)] by (auto simp: usb_step_defs life_snoc life_step_def)
  have s: "usb_base (submitted k ?u)"
    by (rule base_submitted [OF u]) (use b(3) p in \<open>simp_all add: usb_log_def\<close>)
  show ?thesis using b u s
    by (simp add: open_input_def effect_simps on_usb_def Let_def del: andthen_apply split: sum.split)
      (simp add: submitted_def usb_log_def)
qed

text \<open>Without a transfer in flight nothing happens.\<close>

lemma happen_idle: "\<forall>k. \<not> us_pending (fst st) k \<Longrightarrow> happen h cs st = st"
  by (induction cs) (simp_all add: happen_def complete_one_def)

definition opening_inputs :: "(usb_input \<Rightarrow> bool) \<Rightarrow> usb \<times> 's \<Rightarrow> bool" where
  "opening_inputs left st \<longleftrightarrow> usb_base (fst st) \<and> us_started (fst st) \<and> \<not> us_closed (fst st) \<and>
     \<not> us_stopping (fst st) \<and> us_phase (fst st) = Absent \<and> (\<forall>k. left k \<longrightarrow> \<not> us_transfer (fst st) k)"

lemma opening_control:
  "triple (opening_inputs (\<lambda>_. True)) (usb_control h t v) (\<lambda>_. opening_inputs (\<lambda>_. True)) (\<lambda>_. opening_inputs (\<lambda>_. True))"
proof -
  have 1: "opening_inputs (\<lambda>_. True) (on_usb (usb_emit kind data) st)" if "opening_inputs (\<lambda>_. True) st"
    for kind data and st :: "usb \<times> 'a"
    using that base_emit [of "fst st"] by (auto simp: opening_inputs_def on_usb_def) (auto simp: usb_emit_def)
  have 2: "opening_inputs (\<lambda>_. True) (happen h (et_done t) (on_usb (usb_log (Control v)) st))" if "opening_inputs (\<lambda>_. True) st"
    for st :: "usb \<times> 'a"
  proof -
    have "\<not> us_pending (fst st) k" for k using that usb_baseD(6) [of "fst st" k] by (auto simp: opening_inputs_def)
    then have "happen h (et_done t) (on_usb (usb_log (Control v)) st) = on_usb (usb_log (Control v)) st"
      by (intro happen_idle) (simp add: on_usb_def usb_log_def)
    then show ?thesis using that base_quiet_call [of "fst st" "Control v"]
      by (auto simp: opening_inputs_def on_usb_def quiet_call_def) (auto simp: usb_log_def)
  qed
  show ?thesis
    unfolding usb_control_def
    by (intro triple_andthen [where R = "\<lambda>_. opening_inputs (\<lambda>_. True)"] triple_modify triple_lift) (use 1 2 in blast)+
qed

lemma opening_sound: "opening_inputs left st \<Longrightarrow> usb_sound (fst st)"
  by (simp add: opening_inputs_def usb_sound_def)

lemma opening_input:
  assumes "left k" and "\<And>j. right j \<Longrightarrow> left j \<and> j \<noteq> k"
  shows "triple (opening_inputs left) (open_input h e k) (\<lambda>_. opening_inputs right) (\<lambda>_ st. usb_sound (fst st))"
proof (rule tripleI)
  fix st :: "usb \<times> 'a" assume "opening_inputs left st"
  then have "opening_inputs right (snd (open_input h e k st))"
    using open_input_keeps [of st k h e] assms by (auto simp: opening_inputs_def Let_def)
  then show "case open_input h e k st of (Inl e, s') \<Rightarrow> usb_sound (fst s') | (Inr x, s') \<Rightarrow> opening_inputs right s'"
    using opening_sound [of right "snd (open_input h e k st)"] by (cases "open_input h e k st") (auto split: sum.split)
qed

lemma opening_thread:
  "triple (opening_inputs (\<lambda>_. False))
     (case thread of None \<Rightarrow> modify (on_usb (\<lambda>u. u\<lparr>us_phase := Pumping\<rparr>)) | Some x \<Rightarrow> raise x)
     (\<lambda>_ st. usb_sound (fst st) \<and> us_started (fst st)) (\<lambda>_ st. usb_sound (fst st))"
  by (cases thread)
    (auto intro!: triple_modify triple_raise simp: opening_inputs_def on_usb_def usb_sound_def usb_step_defs)

lemma start_body_keeps:
  "triple (opening_inputs (\<lambda>_. True)) (start_body h e)
     (\<lambda>_ st. usb_sound (fst st) \<and> us_started (fst st)) (\<lambda>_ st. usb_sound (fst st))"
proof -
  have attempted: "triple (opening_inputs (\<lambda>_. True)) (modify (on_usb (\<lambda>u. u\<lparr>us_create_attempted := True\<rparr>)))
      (\<lambda>_. opening_inputs (\<lambda>_. True)) (\<lambda>_ st. usb_sound (fst st))"
    by (rule triple_modify) (auto simp: opening_inputs_def on_usb_def usb_step_defs)
  have control: "triple (opening_inputs (\<lambda>_. True)) (usb_control h t v)
      (\<lambda>_. opening_inputs (\<lambda>_. True)) (\<lambda>_ st. usb_sound (fst st))" for t v
    by (rule triple_weaken [OF opening_control]) (auto dest: opening_sound)
  show ?thesis
    unfolding start_body_def
    by (rule triple_andthen [OF attempted], rule triple_andthen [OF control],
        rule triple_andthen [OF opening_input [where right = "\<lambda>k. k = Interrupt_in"]], simp, simp,
        rule triple_andthen [OF opening_input [where right = "\<lambda>_. False"]], simp, simp, rule opening_thread)
qed

lemma start_body_sound:
  assumes "usb_sound (fst st)" and "\<not> (us_started (fst st) \<or> us_closed (fst st))"
    and "start_body h e (on_usb (\<lambda>u. u\<lparr>us_started := True\<rparr>) st) = (r, st')"
  shows "usb_sound (fst st')" and "r = Inr () \<Longrightarrow> us_started (fst st')"
proof -
  have "opening_inputs (\<lambda>_. True) (on_usb (\<lambda>u. u\<lparr>us_started := True\<rparr>) st)"
    using assms(1,2) by (auto simp: usb_sound_def on_usb_def opening_inputs_def usb_step_defs)
  from tripleD [OF start_body_keeps this, of h e] assms(3)
  show "usb_sound (fst st')" "r = Inr () \<Longrightarrow> us_started (fst st')" by (cases r; blast)+
qed

lemma start_keeps:
  assumes "usb_sound (fst st)" and "usb_start h e st = Some (r, st')"
  shows "usb_sound (fst st')" and "r = Inr () \<Longrightarrow> us_started (fst st')"
proof -
  have "usb_sound (fst st') \<and> (r = Inr () \<longrightarrow> us_started (fst st'))"
  proof (cases "us_started (fst st) \<or> us_closed (fst st)")
    case True
    then show ?thesis using assms by (auto simp: usb_start_def)
  next
    case False
    let ?st = "on_usb (\<lambda>u. u\<lparr>us_started := True\<rparr>) st"
    obtain q u where q: "start_body h e ?st = (q, u)" by (cases "start_body h e ?st") auto
    note sound = start_body_sound [OF assms(1) False q]
    show ?thesis
    proof (cases q)
      case (Inr x)
      then show ?thesis using assms(2) False q sound by (simp add: usb_start_def)
    next
      case (Inl x)
      then obtain z where "usb_stop h (st_stop e) u = Some (z, st')" "r = Inl x"
        using assms(2) False q by (auto simp: usb_start_def)
      then show ?thesis using stop_keeps(1) [OF sound(1)] by simp
    qed
  qed
  then show "usb_sound (fst st')" "r = Inr () \<Longrightarrow> us_started (fst st')" by blast+
qed

lemma held_sound: "usb_base v \<Longrightarrow> held u v \<Longrightarrow> us_started u \<Longrightarrow> \<not> us_closed u \<Longrightarrow> usb_sound v"
  by (simp add: usb_sound_def held_def)

lemma worker_sound:
  assumes "usb_sound (fst st)"
  shows "usb_sound (fst (worker h ts st))"
proof (cases "us_started (fst st) \<and> \<not> us_closed (fst st)")
  case True
  then show ?thesis using worker_keeps [of st h ts] assms held_sound by (auto simp: usb_sound_def)
next
  case False
  then have "us_phase (fst st) = Absent \<or> us_phase (fst st) = Ended" using assms by (auto simp: usb_sound_def)
  then have "worker h ts st = st" by (induction ts) (auto simp: worker_def worker_turn_def)
  then show ?thesis using assms by simp
qed

lemma send_sound:
  assumes "usb_sound (fst st)"
  shows "usb_sound (fst (snd (usb_send h t n data timeout st)))"
proof (cases "us_stopping (fst st) \<or> \<not> us_started (fst st)")
  case True
  then show ?thesis using assms by (auto simp: usb_send_def effect_simps)
next
  case False
  then have "\<not> us_closed (fst st)" using assms by (auto simp: usb_sound_def)
  then show ?thesis using False send_keeps [of st h t n data timeout] assms held_sound unchanged_held
    by (auto simp: usb_sound_def)
qed

end
