(* ===== verification/Usb_Properties.thy ===== *)
theory Usb_Properties
  imports Usb_Safety
begin

text \<open>
  The contract of the libusb transport and its properties: what opening takes, that all of it is given back, that every
  transfer is used as libusb asks, and when a stop returns.
\<close>

section \<open>Opening\<close>

lemma detach_all_result:
  assumes "detach_all env is u = (r, v)"
  shows "\<exists>n. v = u\<lparr>us_detached := us_detached u @ filter (\<lambda>i. ue_active env i \<noteq> 0) (take n is),
       us_log := us_log u @ map Detach (filter (\<lambda>i. ue_active env i \<noteq> 0) (take n is))\<rparr> \<and> (r = Inr () \<longrightarrow> n = length is)"
  using assms
proof (induction "is" arbitrary: u)
  case Nil
  then show ?case by (auto simp: effect_simps)
next
  case (Cons i "is")
  let ?act = "ue_active env i" and ?v = "usb_log (Detach i) (u\<lparr>us_detached := us_detached u @ [i]\<rparr>)"
  have stop: ?case if "v = u" "r \<noteq> Inr ()"
    using that by (intro exI [of _ 0]) simp
  show ?case
  proof (cases "?act < 0 \<or> ?act \<noteq> 0 \<and> ue_detach env i < 0")
    case True
    then show ?thesis using Cons.prems
      by (intro stop) (auto simp: guard_call_def usb_check_def effect_simps andthen_def split: if_splits)
  next
    case False
    then have go: "detach_all env is (if ?act = 0 then u else ?v) = (r, v)"
      using Cons.prems by (auto simp: guard_call_def usb_check_def effect_simps andthen_def split: if_splits)
    from Cons.IH [OF this] obtain n where n: "v = (if ?act = 0 then u else ?v)
       \<lparr>us_detached := us_detached (if ?act = 0 then u else ?v) @ filter (\<lambda>i. ue_active env i \<noteq> 0) (take n is),
        us_log := us_log (if ?act = 0 then u else ?v) @ map Detach (filter (\<lambda>i. ue_active env i \<noteq> 0) (take n is))\<rparr>"
      "r = Inr () \<longrightarrow> n = length is" by blast
    then show ?thesis by (intro exI [of _ "Suc n"]) (auto simp: usb_log_def)
  qed
qed

lemma claim_all_result:
  assumes "claim_all env is u = (r, v)"
  shows "\<exists>n. v = u\<lparr>us_claimed := us_claimed u @ take n is, us_log := us_log u @ map Claim (take n is)\<rparr> \<and>
     (r = Inr () \<longrightarrow> n = length is)"
  using assms
proof (induction "is" arbitrary: u)
  case Nil
  then show ?case by (auto simp: effect_simps)
next
  case (Cons i "is")
  let ?v = "usb_log (Claim i) (u\<lparr>us_claimed := us_claimed u @ [i]\<rparr>)"
  show ?case
  proof (cases "ue_claim env i < 0")
    case True
    then show ?thesis using Cons.prems
      by (intro exI [of _ 0]) (auto simp: guard_call_def usb_check_def effect_simps andthen_def)
  next
    case False
    then have "claim_all env is ?v = (r, v)"
      using Cons.prems by (simp add: guard_call_def usb_check_def effect_simps andthen_def)
    from Cons.IH [OF this] obtain n where
      "v = ?v\<lparr>us_claimed := us_claimed ?v @ take n is, us_log := us_log ?v @ map Claim (take n is)\<rparr>"
      "r = Inr () \<longrightarrow> n = length is" by blast
    then show ?thesis by (intro exI [of _ "Suc n"]) (simp add: usb_log_def)
  qed
qed

text \<open>The states opening can leave.\<close>

definition opened :: "nat list \<Rightarrow> nat list \<Rightarrow> usb" where
  "opened ds cs = \<lparr>us_handle = True, us_lock = True, us_claimed = cs, us_detached = ds, us_transfer = (\<lambda>_. False),
     us_pending = (\<lambda>_. False), us_phase = Absent, us_stopping = False, us_started = False, us_closed = False,
     us_create_attempted = False, us_drain_failed = False, us_trace = [],
     us_log = [Open_lock, Open_handle] @ map Detach ds @ map Claim cs\<rparr>"

lemma acquire_result:
  assumes "usb_acquire env serial usb_new = (r, u)"
  shows "r \<noteq> Inr () \<and> (u = usb_new \<or> u = usb_new\<lparr>us_lock := True, us_log := [Open_lock]\<rparr> \<or> (\<exists>ds cs. u = opened ds cs)) \<or>
    r = Inr () \<and> (\<exists>d config is. select_device env serial = Inr d \<and> ud_config d = Inr config \<and>
      fd_in (find_endpoints config) \<and> fd_out (find_endpoints config) \<and> fd_intr (find_endpoints config) \<and>
      is = fd_interfaces (find_endpoints config) \<and> u = opened (filter (\<lambda>i. ue_active env i \<noteq> 0) is) is)"
proof (cases "select_device env serial")
  case (Inl e)
  then show ?thesis using assms by (auto simp: usb_acquire_def effect_simps)
next
  case d: (Inr d)
  let ?l = "usb_new\<lparr>us_lock := True, us_log := [Open_lock]\<rparr>"
  show ?thesis
  proof (cases "ue_open env (location d) = None \<and> ue_flock env \<and> \<not> ue_handle env < 0")
    case False
    then have "r \<noteq> Inr () \<and> (u = usb_new \<or> u = ?l)"
      using assms d
      by (auto simp: usb_acquire_def effect_simps guard_call_def usb_check_def usb_log_def usb_new_def split: option.splits if_splits simp del: andthen_apply)
    then show ?thesis by blast
  next
    case True
    have o: "opened [] [] = usb_log Open_handle ((usb_log Open_lock (usb_new\<lparr>us_lock := True\<rparr>))\<lparr>us_handle := True\<rparr>)"
      by (simp add: opened_def usb_log_def usb_new_def)
    show ?thesis
    proof (cases "ud_config d")
      case (Inl code)
      then have "r \<noteq> Inr () \<and> u = opened [] []"
        using assms d True
        by (auto simp: usb_acquire_def effect_simps guard_call_def usb_check_def o simp del: andthen_apply)
      then show ?thesis by blast
    next
      case config: (Inr config)
      let ?f = "find_endpoints config" and ?go = "\<lambda>_. claim_all env (fd_interfaces (find_endpoints config))"
      have run: "(r, u) = andthen (throw_if (\<not> fd_in ?f \<or> \<not> fd_out ?f \<or> \<not> fd_intr ?f)
               (Error ERR_NOT_SUPPORTED ''USB endpoints differ from researched adapter''))
             (\<lambda>_. andthen (detach_all env (fd_interfaces ?f)) ?go) (opened [] [])"
        using assms d True config
        by (simp add: usb_acquire_def effect_simps guard_call_def usb_check_def o Let_def del: andthen_apply throw_if_then)
          (simp add: andthen_def effect_simps)
      show ?thesis
      proof (cases "fd_in ?f \<and> fd_out ?f \<and> fd_intr ?f")
        case False
        then have "r \<noteq> Inr () \<and> u = opened [] []" using run by (auto simp: effect_simps)
        then show ?thesis by blast
      next
        case ok: True
        obtain q v where dt: "detach_all env (fd_interfaces ?f) (opened [] []) = (q, v)" by (cases "detach_all env (fd_interfaces ?f) (opened [] [])")
        then obtain n where v: "v = opened (filter (\<lambda>i. ue_active env i \<noteq> 0) (take n (fd_interfaces ?f))) []"
          "q = Inr () \<longrightarrow> n = length (fd_interfaces ?f)"
          using detach_all_result [OF dt] by (auto simp: opened_def)
        show ?thesis
        proof (cases q)
          case (Inl e)
          then have "r \<noteq> Inr () \<and> u = v" using run ok dt by (auto simp: effect_simps)
          then show ?thesis using v by blast
        next
          case (Inr z)
          then have "claim_all env (fd_interfaces ?f) v = (r, u)" using run ok dt by (simp add: effect_simps)
          from claim_all_result [OF this] obtain m where
            u: "u = opened (filter (\<lambda>i. ue_active env i \<noteq> 0) (fd_interfaces ?f)) (take m (fd_interfaces ?f))"
            and m: "r = Inr () \<longrightarrow> m = length (fd_interfaces ?f)"
            using v Inr by (auto simp: opened_def)
          show ?thesis
          proof (cases "r = Inr ()")
            case True
            then show ?thesis using u m d config ok by auto
          next
            case False
            then show ?thesis using u by blast
          qed
        qed
      qed
    qed
  qed
qed

lemma opened_sound: "usb_sound (opened ds cs)" "usb_sound usb_new" "usb_sound (usb_new\<lparr>us_lock := True, us_log := [Open_lock]\<rparr>)"
proof -
  have "life k ([] @ ([Open_lock, Open_handle] @ map Detach ds @ map Claim cs)) = life k []" for k
    by (rule life_other) (auto simp: list_all_iff)
  then have l: "life k (Open_lock # Open_handle # map Detach ds @ map Claim cs) = Some (False, False)" for k by simp
  have l1: "life k ([] @ [Open_lock]) = life k []" for k by (rule life_other) simp
  have h: "held_after (Open_lock # Open_handle # map Detach ds @ map Claim cs) =
      Some (rev (map Claim cs) @ rev (map Detach ds) @ [Open_handle, Open_lock])"
    using held_append [of "[Open_lock, Open_handle]" "map Detach ds @ map Claim cs"]
    by (simp add: held_taken held_append [of "[]" "[Open_lock, Open_handle]", simplified])
  show "usb_sound (opened ds cs)"
    by (auto simp: usb_sound_def opened_def usb_new_def usb_base_def life_ok_def book_ok_def holding_def transfers_in_flight_def l h rev_map)
  show "usb_sound usb_new" "usb_sound (usb_new\<lparr>us_lock := True, us_log := [Open_lock]\<rparr>)"
    using l1 held_snoc [of "[]" Open_lock]
    by (auto simp: usb_sound_def usb_new_def usb_base_def life_ok_def book_ok_def holding_def transfers_in_flight_def)
qed

lemma usb_acquire_sound:
  assumes "usb_acquire env serial usb_new = (r, u)"
  shows "usb_sound u \<and> (\<forall>k. \<not> us_pending u k)"
proof -
  consider "u = usb_new" | "u = usb_new\<lparr>us_lock := True, us_log := [Open_lock]\<rparr>" | ds cs where "u = opened ds cs"
    using acquire_result [OF assms] by blast
  then show ?thesis by cases (use opened_sound in \<open>simp_all add: opened_def usb_new_def\<close>)
qed

lemma create_result:
  assumes "usb_create env release attach serial = (r, u)"
  shows "usb_sound u" and "r = Inl e \<Longrightarrow> all_returned (us_log u)"
    and "r = Inr () \<Longrightarrow> usb_acquire env serial usb_new = (Inr (), u)"
proof -
  obtain q v where a: "usb_acquire env serial usb_new = (q, v)" by (cases "usb_acquire env serial usb_new")
  note v = usb_acquire_sound [OF a]
  have b: "usb_base v" using v by (simp add: usb_sound_def)
  have d: "\<forall>k. us_drain_failed v \<or> \<not> us_pending v k" using v by blast
  let ?w = "snd (usb_cleanup release attach v)"
  note w = cleanup_keeps [OF b d, of release attach]
  have fields: "us_started ?w = us_started v" "us_closed ?w = us_closed v"
    by (simp_all add: usb_cleanup_def Let_def usb_log_def free_input_def)
  have n: "us_started v = False" "us_closed v = False"
    using acquire_result [OF a] by (auto simp: opened_def usb_new_def)
  have ws: "usb_sound ?w" using w v fields n by (auto simp: usb_sound_def)
  have wr: "all_returned (us_log ?w)" using w(1-3) by (intro book_returned) (simp_all add: usb_base_def)
  have outcome: "r \<noteq> Inr () \<and> u = usb_new \<or> r \<noteq> Inr () \<and> u = ?w \<or> r = Inr () \<and> q = Inr () \<and> u = v"
  proof (cases "usb_check (ue_error_name env) (ue_init env) ''libusb initialization''")
    case (Inl x)
    then have "r = Inl x \<and> u = usb_new" using assms by (simp add: usb_create_def guard_call_def effect_simps)
    then show ?thesis by simp
  next
    case (Inr x)
    show ?thesis
    proof (cases q)
      case (Inl y)
      then have "r = Inl y \<and> u = ?w"
        using assms a Inr by (simp add: usb_create_def guard_call_def effect_simps catch_def)
      then show ?thesis by simp
    next
      case (Inr y)
      then have "r = Inr () \<and> u = v"
        using assms a \<open>usb_check _ _ _ = Inr x\<close> by (simp add: usb_create_def guard_call_def effect_simps catch_def)
      then show ?thesis using Inr by simp
    qed
  qed
  show "usb_sound u" using outcome opened_sound(2) ws v by (elim disjE) simp_all
  have "all_returned (us_log usb_new)" by (simp add: usb_new_def all_returned_def)
  then show "r = Inl e \<Longrightarrow> all_returned (us_log u)" using outcome wr by (elim disjE) simp_all
  show "r = Inr () \<Longrightarrow> usb_acquire env serial usb_new = (Inr (), u)" using outcome a by (elim disjE) simp_all
qed

section \<open>The endpoints\<close>

definition is_endpoint :: "u8 \<Rightarrow> u8 \<Rightarrow> endpoint \<Rightarrow> bool" where
  "is_endpoint address type ep \<longleftrightarrow> ep_address ep = address \<and> ep_attributes ep AND 3 = type"

definition relevant :: "endpoint \<Rightarrow> bool" where
  "relevant ep \<longleftrightarrow> is_endpoint 0x82 2 ep \<or> is_endpoint 0x01 2 ep \<or> is_endpoint 0x83 3 ep"

text \<open>The endpoints of the settings in use, each with its interface.\<close>

definition in_use :: "alt_setting list list \<Rightarrow> (nat \<times> endpoint) list" where
  "in_use config = concat (map (\<lambda>alt. map (\<lambda>ep. (al_interface alt, ep)) (al_endpoints alt))
     (filter (\<lambda>alt. al_alternate alt = 0) (concat config)))"

definition found_in :: "(nat \<times> endpoint) list \<Rightarrow> found \<Rightarrow> bool" where
  "found_in xs f \<longleftrightarrow>
     (fd_in f \<longleftrightarrow> list_ex (is_endpoint 0x82 2) (map snd xs)) \<and> (fd_out f \<longleftrightarrow> list_ex (is_endpoint 0x01 2) (map snd xs)) \<and>
     (fd_intr f \<longleftrightarrow> list_ex (is_endpoint 0x83 3) (map snd xs)) \<and> sorted (fd_interfaces f) \<and> distinct (fd_interfaces f) \<and>
     set (fd_interfaces f) = fst ` {x \<in> set xs. relevant (snd x)}"

lemma found_note:
  assumes "found_in xs f"
  shows "found_in (xs @ [(al_interface alt, ep)]) (note_endpoint alt f ep)"
proof -
  let ?n = "note_endpoint alt f ep"
  have flags: "fd_in ?n \<longleftrightarrow> fd_in f \<or> is_endpoint 0x82 2 ep" "fd_out ?n \<longleftrightarrow> fd_out f \<or> is_endpoint 0x01 2 ep"
    "fd_intr ?n \<longleftrightarrow> fd_intr f \<or> is_endpoint 0x83 3 ep"
    by (simp_all add: note_endpoint_def is_endpoint_def Let_def)
  have "fd_interfaces ?n = (if relevant ep then insort_insert (al_interface alt) (fd_interfaces f) else fd_interfaces f)"
    by (simp only: note_endpoint_def relevant_def is_endpoint_def Let_def found.simps)
  moreover have "fst ` {x \<in> set (xs @ [(al_interface alt, ep)]). relevant (snd x)} =
      (if relevant ep then insert (al_interface alt) (fst ` {x \<in> set xs. relevant (snd x)}) else fst ` {x \<in> set xs. relevant (snd x)})"
    by (auto simp: image_iff)
  ultimately show ?thesis using assms unfolding found_in_def flags
    by (simp add: set_insort_insert sorted_insort_insert distinct_insort_insert)
qed

lemma found_endpoints:
  "found_in xs f \<Longrightarrow> found_in (xs @ map (\<lambda>ep. (al_interface alt, ep)) eps) (foldl (note_endpoint alt) f eps)"
proof (induction eps arbitrary: xs f)
  case (Cons ep eps)
  from Cons.IH [OF found_note [OF Cons.prems]] show ?case by simp
qed simp

lemma found_alts:
  "found_in xs f \<Longrightarrow> found_in (xs @ in_use [alts]) (foldl note_alt f alts)"
proof (induction alts arbitrary: xs f)
  case (Cons alt alts)
  show ?case
  proof (cases "al_alternate alt = 0")
    case True
    from Cons.IH [OF found_endpoints [OF Cons.prems, of alt "al_endpoints alt"]] True
    show ?thesis by (simp add: in_use_def note_alt_def)
  next
    case False
    with Cons.IH [OF Cons.prems] show ?thesis by (simp add: in_use_def note_alt_def)
  qed
qed (simp add: in_use_def)

lemma found_config: "found_in xs f \<Longrightarrow> found_in (xs @ in_use config) (foldl (foldl note_alt) f config)"
proof (induction config arbitrary: xs f)
  case (Cons alts config)
  from Cons.IH [OF found_alts [OF Cons.prems, of alts]] show ?case by (simp add: in_use_def)
qed (simp add: in_use_def)

lemma find_endpoints_found: "found_in (in_use config) (find_endpoints config)"
  using found_config [of "[]" "\<lparr>fd_interfaces = [], fd_in = False, fd_out = False, fd_intr = False\<rparr>" config]
  by (simp add: find_endpoints_def found_in_def)

text \<open>
  What a successful open has taken. Exactly one adapter matched; its settings in use have the three endpoints; the
  interfaces that carry one of them, in ascending order, are detached from the kernel where it had them, and all of them
  are claimed after that; and these, the lock and the handle are all that was taken.
\<close>

theorem usb_open_takes:
  assumes "usb_create env release attach serial = (Inr (), u)"
  shows "\<exists>d config is. select_device env serial = Inr d \<and> ud_config d = Inr config \<and>
    list_ex (is_endpoint 0x82 2) (map snd (in_use config)) \<and> list_ex (is_endpoint 0x01 2) (map snd (in_use config)) \<and>
    list_ex (is_endpoint 0x83 3) (map snd (in_use config)) \<and>
    sorted is \<and> distinct is \<and> set is = fst ` {x \<in> set (in_use config). relevant (snd x)} \<and>
    us_log u = [Open_lock, Open_handle] @ map Detach (filter (\<lambda>i. ue_active env i \<noteq> 0) is) @ map Claim is"
proof -
  from acquire_result [OF create_result(3) [OF assms refl]] obtain d config "is" where
    d: "select_device env serial = Inr d" "ud_config d = Inr config"
      "fd_in (find_endpoints config)" "fd_out (find_endpoints config)" "fd_intr (find_endpoints config)"
      "is = fd_interfaces (find_endpoints config)" "u = opened (filter (\<lambda>i. ue_active env i \<noteq> 0) is) is" by blast
  then show ?thesis using find_endpoints_found [of config] by (auto simp: found_in_def opened_def)
qed

section \<open>The contract\<close>

text \<open>
  A drain that neither completes nor fails lets \<open>stop\<close> wait; in the contract such a wait is cut short by libusb
  failing, after which the stop goes on.
\<close>

definition gives_up :: event_turn where
  "gives_up = \<lparr>et_done = [], et_result = - 1\<rparr>"

definition usb_stop_total :: "'s usb_host \<Rightarrow> stop_env \<Rightarrow> usb \<times> 's \<Rightarrow> (exn + unit) \<times> usb \<times> 's" where
  "usb_stop_total h e st =
     (case usb_stop h e st of
        Some r \<Rightarrow> r
      | None \<Rightarrow> the (usb_stop h (e\<lparr>se_turns := se_turns e @ [gives_up, gives_up]\<rparr>) st))"

definition usb_start_total :: "'s usb_host \<Rightarrow> start_env \<Rightarrow> usb \<times> 's \<Rightarrow> (exn + unit) \<times> usb \<times> 's" where
  "usb_start_total h e st =
     (case usb_start h e st of
        Some r \<Rightarrow> r
      | None \<Rightarrow> the (usb_start h (e\<lparr>st_stop := (st_stop e)\<lparr>se_turns := se_turns (st_stop e) @ [gives_up, gives_up]\<rparr>\<rparr>) st))"

text \<open>Before a send the thread has gone on for some turns.\<close>

definition usb_send_after ::
    "'s usb_host \<Rightarrow> event_turn list \<times> event_turn \<times> nat \<Rightarrow> bytes \<Rightarrow> nat \<Rightarrow> usb \<times> 's \<Rightarrow> (exn + unit) \<times> usb \<times> 's" where
  "usb_send_after h e data timeout st =
     usb_send h (fst (snd e)) (snd (snd e)) data timeout (worker h (fst e) st)"

lemma worker_append: "worker h (ts @ us) st = worker h us (worker h ts st)"
  by (simp add: worker_def)

lemma worker_ended: "us_phase (fst st) = Ended \<Longrightarrow> worker h ts st = st"
  by (induction ts) (simp_all add: worker_def worker_turn_def)

lemma worker_gives_up:
  assumes "us_stopping (fst st)" and "us_phase (fst st) \<noteq> Absent"
  shows "us_phase (fst (worker h [gives_up, gives_up] st)) = Ended"
proof -
  have d: "us_phase (fst (worker_turn h st' gives_up)) = Ended" if "us_phase (fst st') = Draining" for st' :: "usb \<times> 'a"
    using that by (simp add: worker_turn_def drain_turn_def gives_up_def happen_def events_failed_def
        LIBUSB_ERROR_INTERRUPTED_def on_usb_def)
  have e: "worker_turn h st' gives_up = st'" if "us_phase (fst st') = Ended" for st' :: "usb \<times> 'a"
    using that by (simp add: worker_turn_def)
  show ?thesis
  proof (cases "us_phase (fst st)")
    case Pumping
    then have "worker_turn h st gives_up = on_usb drain_begin st" using assms by (simp add: worker_turn_def pump_turn_def)
    moreover have "us_phase (fst (on_usb drain_begin st)) = Draining \<or> us_phase (fst (on_usb drain_begin st)) = Ended"
      by (simp add: on_usb_def drain_begin_def drained_def)
    ultimately show ?thesis using d [of "on_usb drain_begin st"] e [of "on_usb drain_begin st"] by (auto simp: worker_def)
  qed (use assms d e in \<open>auto simp: worker_def\<close>)
qed

text \<open>The state in which the stop handles events.\<close>

definition stopping_state :: "usb \<times> 's \<Rightarrow> usb \<times> 's" where
  "stopping_state st =
     (let st = on_usb (\<lambda>u. u\<lparr>us_stopping := True\<rparr>) st
      in if us_phase (fst st) = Absent then on_usb drain_begin st else st)"

lemma stopping_state:
  shows "us_stopping (fst (stopping_state st))" and "us_phase (fst (stopping_state st)) \<noteq> Absent"
    and "us_phase (fst st) = Pumping \<Longrightarrow> us_phase (fst (stopping_state st)) = Pumping"
    and "us_phase (fst (stopping_state st)) = Pumping \<Longrightarrow> us_phase (fst st) = Pumping"
  by (auto simp: stopping_state_def Let_def on_usb_def drain_begin_def drained_def split: if_splits)

lemma stopping_state_base: "usb_base (fst st) \<Longrightarrow> usb_base (fst (stopping_state st))"
  using base_drain_begin [OF base_stopping [of "fst st"]] base_stopping [of "fst st"]
  by (simp add: stopping_state_def Let_def on_usb_def)

lemma stop_returns_iff:
  "\<not> us_closed (fst st) \<Longrightarrow>
   (\<exists>r st'. usb_stop h e st = Some (r, st')) \<longleftrightarrow> us_phase (fst (worker h (se_turns e) (stopping_state st))) = Ended"
  by (simp add: usb_stop_def stopping_state_def Let_def case_prod_unfold)

lemma worker_not_absent:
  "usb_base (fst st) \<Longrightarrow> us_phase (fst st) \<noteq> Absent \<Longrightarrow> us_phase (fst (worker h ts st)) \<noteq> Absent"
proof (induction ts arbitrary: st)
  case (Cons t ts)
  have k: "usb_base (fst (worker_turn h st t))" using worker_keeps [OF Cons.prems(1), of h "[t]"] by (simp add: worker_def)
  have "us_phase (fst (happen h (et_done t) st)) = us_phase (fst st)"
    using happen_keeps [OF Cons.prems(1)] by (simp add: unchanged_def)
  then have "us_phase (fst (worker_turn h st t)) \<noteq> Absent"
    using Cons.prems(2)
    by (cases "us_phase (fst st)")
      (simp_all add: worker_turn_def pump_turn_def drain_turn_def Let_def on_usb_def usb_fault_def drain_begin_def drained_def)
  then show ?case using Cons.IH [OF k] by (simp add: worker_def)
qed (simp add: worker_def)

lemma stop_gives_up:
  assumes "usb_base (fst st)"
  shows "\<exists>r st'. usb_stop h (e\<lparr>se_turns := se_turns e @ [gives_up, gives_up]\<rparr>) st = Some (r, st')"
proof (cases "us_closed (fst st)")
  case True
  then show ?thesis by (simp add: usb_stop_def)
next
  case False
  let ?w = "worker h (se_turns e) (stopping_state st)"
  have b: "usb_base (fst (stopping_state st))" using stopping_state_base [OF assms] .
  have "us_stopping (fst ?w)" using worker_keeps [OF b, of h "se_turns e"] stopping_state(1) [of st] by (simp add: held_def)
  moreover have "us_phase (fst ?w) \<noteq> Absent" by (rule worker_not_absent [OF b stopping_state(2)])
  ultimately have "us_phase (fst (worker h (se_turns e @ [gives_up, gives_up]) (stopping_state st))) = Ended"
    unfolding worker_append by (rule worker_gives_up)
  then show ?thesis using stop_returns_iff [OF False, of h "e\<lparr>se_turns := se_turns e @ [gives_up, gives_up]\<rparr>"] by simp
qed

lemma stop_total_is:
  assumes "usb_base (fst st)"
  shows "\<exists>e'. usb_stop h e' st = Some (usb_stop_total h e st)"
proof (cases "usb_stop h e st")
  case None
  then show ?thesis using stop_gives_up [OF assms, of h e] by (auto simp: usb_stop_total_def)
next
  case (Some r)
  then show ?thesis by (auto simp: usb_stop_total_def)
qed

text \<open>The stop of a failed start does not bear on what came before it.\<close>

lemma start_body_stop [simp]: "start_body h (e\<lparr>st_stop := x\<rparr>) = start_body h e"
  by (simp add: start_body_def open_input_def)

lemma start_total_is:
  assumes "usb_sound (fst st)"
  shows "\<exists>e'. usb_start h e' st = Some (usb_start_total h e st)"
proof (cases "usb_start h e st")
  case None
  then have new: "\<not> (us_started (fst st) \<or> us_closed (fst st))" by (auto simp: usb_start_def)
  obtain q u where q: "start_body h e (on_usb (\<lambda>u. u\<lparr>us_started := True\<rparr>) st) = (q, u)"
    by (cases "start_body h e (on_usb (\<lambda>u. u\<lparr>us_started := True\<rparr>) st)")
  have "usb_base (fst u)" using start_body_sound(1) [OF assms new q] by (simp add: usb_sound_def)
  from stop_gives_up [OF this, of h "st_stop e"] None new q
  have "usb_start h (e\<lparr>st_stop := (st_stop e)\<lparr>se_turns := se_turns (st_stop e) @ [gives_up, gives_up]\<rparr>\<rparr>) st =
      Some (usb_start_total h e st)"
    by (cases q) (auto simp: usb_start_total_def usb_start_def)
  then show ?thesis by blast
next
  case (Some r)
  then show ?thesis by (auto simp: usb_start_total_def)
qed

interpretation usb_port: byte_transport "usb_start_total h" "usb_send_after h" "usb_stop_total h"
    "\<lambda>st. us_closed (fst st)" "\<lambda>st. usb_sound (fst st)" for h :: "'s usb_host"
proof unfold_locales
  fix st st' :: "usb \<times> 's" and g g' :: start_env and f :: stop_env and data n
    and e :: "event_turn list \<times> event_turn \<times> nat"
  show "us_closed (fst st) \<Longrightarrow> usb_stop_total h f st = (Inr (), st)"
    by (simp add: usb_stop_total_def usb_stop_def)
  have refused: "\<exists>x. usb_start_total h g' st' = (Inl x, st')" if "us_started (fst st') \<or> us_closed (fst st')" for st' :: "usb \<times> 's" and g'
    using that by (simp add: usb_start_total_def usb_start_def)
  show "us_closed (fst st) \<Longrightarrow> \<exists>x. usb_start_total h g st = (Inl x, st)" using refused by blast
  assume sound: "usb_sound (fst st)"
  then have base: "usb_base (fst st)" by (simp add: usb_sound_def)
  obtain g1 where g1: "usb_start h g1 st = Some (usb_start_total h g st)" using start_total_is [OF sound] by blast
  obtain f1 where f1: "usb_stop h f1 st = Some (usb_stop_total h f st)" using stop_total_is [OF base] by blast
  show "usb_sound (fst (snd (usb_start_total h g st)))" using start_keeps [OF sound, of h g1] g1 by (metis surj_pair snd_conv)
  show "usb_sound (fst (snd (usb_stop_total h f st)))" "us_closed (fst (snd (usb_stop_total h f st)))"
    using stop_keeps [OF sound, of h f1] f1 by (metis surj_pair snd_conv)+
  show "\<exists>x. usb_send_after h e data n st = (Inl x, st)" if "us_closed (fst st)"
  proof -
    have "us_phase (fst st) = Ended" "us_stopping (fst st)" using sound that by (simp_all add: usb_sound_def)
    then show ?thesis by (simp add: usb_send_after_def worker_ended usb_send_def effect_simps)
  qed
  show "usb_sound (fst (snd (usb_send_after h e data n st)))"
    unfolding usb_send_after_def by (intro send_sound worker_sound sound)
  show "\<exists>x. usb_start_total h g' st' = (Inl x, st')" if "usb_start_total h g st = (Inr (), st')"
  proof -
    have "us_started (fst st')" using start_keeps(2) [OF sound] g1 that by metis
    then show ?thesis using refused by blast
  qed
qed

section \<open>Draining\<close>

lemma complete_one_done:
  assumes "usb_base (fst st)" and "us_stopping (fst st)"
  shows "\<not> us_pending (fst (complete_one h st c)) (co_input c)"
proof (cases "us_pending (fst st) (co_input c)")
  case True
  let ?st = "on_usb (completed (co_input c)) st"
  have "going (fst ?st) (co_input c) ?st"
    using base_completed [OF assms(1) True] usb_baseD(6) [OF assms(1) True]
    by (simp add: going_def kept_def on_usb_def completed_def usb_log_def)
  from triple_snd [OF callback_rest_keeps this, of h]
  have "unchanged (fst ?st) (fst (snd (usb_callback h c st)))"
    by (simp add: usb_callback_def effect_simps kept_def del: andthen_apply)
  then show ?thesis using True assms(2)
    by (auto simp: complete_one_def unchanged_def on_usb_def completed_def usb_log_def)
qed (simp add: complete_one_def)

lemma happen_done:
  assumes "usb_base (fst st)" and "us_stopping (fst st)"
  shows "list_ex (\<lambda>c. co_input c = k) cs \<Longrightarrow> \<not> us_pending (fst (happen h cs st)) k"
    and "us_pending (fst (happen h cs st)) k \<Longrightarrow> us_pending (fst st) k"
proof -
  show "us_pending (fst (happen h cs st)) k \<Longrightarrow> us_pending (fst st) k"
    using happen_keeps [OF assms(1), of h cs] assms(2) by (auto simp: unchanged_def)
  show "list_ex (\<lambda>c. co_input c = k) cs \<Longrightarrow> \<not> us_pending (fst (happen h cs st)) k"
    using assms
  proof (induction cs arbitrary: st)
    case (Cons c cs)
    let ?st = "complete_one h st c"
    have one: "usb_base (fst ?st)" "us_stopping (fst ?st)"
      using complete_one_keeps [of "fst st" st h c] Cons.prems(2,3) by (auto simp: kept_def unchanged_def)
    have happen: "happen h (c # cs) st = happen h cs ?st" by (simp add: happen_def)
    show ?case
    proof (cases "co_input c = k")
      case True
      then show ?thesis
        using complete_one_done [OF Cons.prems(2,3), of h c] happen_keeps [OF one(1), of h cs] one(2)
        by (auto simp: happen unchanged_def)
    next
      case False
      then show ?thesis using Cons.IH [of ?st] Cons.prems(1) one by (simp add: happen)
    qed
  qed simp
qed

text \<open>The events that end a drain: libusb fails, or both transfers complete.\<close>

definition completes :: "usb_input \<Rightarrow> event_turn list \<Rightarrow> bool" where
  "completes k turns \<longleftrightarrow> list_ex (\<lambda>t. list_ex (\<lambda>c. co_input c = k) (et_done t)) turns"

definition drains :: "event_turn list \<Rightarrow> bool" where
  "drains turns \<longleftrightarrow>
     list_ex (\<lambda>t. events_failed (et_result t)) turns \<or> completes Bulk_in turns \<and> completes Interrupt_in turns"

lemma drain_stuck:
  assumes "usb_base (fst st)" and "us_stopping (fst st)" and "us_phase (fst st) = Draining" and "transfers_in_flight (fst st)"
    and "us_phase (fst (worker h ts st)) \<noteq> Ended"
  shows "\<not> list_ex (\<lambda>t. events_failed (et_result t)) ts \<and> transfers_in_flight (fst (worker h ts st)) \<and>
    (\<forall>k. us_pending (fst (worker h ts st)) k \<longrightarrow> us_pending (fst st) k \<and> \<not> completes k ts)"
  using assms
proof (induction ts arbitrary: st)
  case Nil
  then show ?case by (simp add: worker_def completes_def)
next
  case (Cons t ts)
  let ?h = "happen h (et_done t) st" and ?st = "worker_turn h st t"
  have w: "worker h (t # ts) st = worker h ts ?st" by (simp add: worker_def)
  have "us_phase (fst ?st) \<noteq> Ended" using Cons.prems(5) worker_ended [of ?st h ts] w by auto
  moreover have turn: "?st = drain_turn h t st" using Cons.prems(3) by (simp add: worker_turn_def)
  ultimately have ok: "\<not> events_failed (et_result t)"
    by (auto simp: drain_turn_def Let_def on_usb_def)
  then have st: "?st = on_usb drained ?h" using turn by (simp add: drain_turn_def)
  have k: "usb_base (fst ?h)" "unchanged (fst st) (fst ?h)" using happen_keeps [OF Cons.prems(1)] by blast+
  then have h: "us_stopping (fst ?h)" "us_phase (fst ?h) = Draining" using Cons.prems(2,3) by (auto simp: unchanged_def)
  have fly: "transfers_in_flight (fst ?h)"
    using \<open>us_phase (fst ?st) \<noteq> Ended\<close> h(2) unfolding st by (auto simp: on_usb_def drained_def split: if_splits)
  then have same: "?st = ?h" unfolding st by (simp add: on_usb_def drained_def)
  from Cons.IH [OF k(1) h fly] Cons.prems(5) w same
  have ih: "\<not> list_ex (\<lambda>t. events_failed (et_result t)) ts \<and> transfers_in_flight (fst (worker h ts ?h)) \<and>
    (\<forall>k. us_pending (fst (worker h ts ?h)) k \<longrightarrow> us_pending (fst ?h) k \<and> \<not> completes k ts)" by simp
  show ?case unfolding w same
    using ih ok happen_done [OF Cons.prems(1,2), where h = h and cs = "et_done t"] by (auto simp: completes_def)
qed

lemma drain_ends:
  assumes "usb_base (fst st)" and "us_stopping (fst st)" and "us_phase (fst st) = Draining \<and> transfers_in_flight (fst st) \<or> us_phase (fst st) = Ended"
    and "drains ts"
  shows "us_phase (fst (worker h ts st)) = Ended"
proof (rule ccontr)
  assume not: "us_phase (fst (worker h ts st)) \<noteq> Ended"
  then have "us_phase (fst st) = Draining" "transfers_in_flight (fst st)" using assms(3) worker_ended [of st h ts] by auto
  from drain_stuck [OF assms(1,2) this not] assms(4) show False by (auto simp: drains_def transfers_in_flight_def)
qed

lemma drain_begin_ready: "us_phase (drain_begin u) = Draining \<and> transfers_in_flight (drain_begin u) \<or> us_phase (drain_begin u) = Ended"
  by (auto simp: drain_begin_def drained_def)

lemma draining_flying:
  "usb_base (fst st) \<Longrightarrow> us_stopping (fst st) \<Longrightarrow> us_phase (fst st) = Pumping \<Longrightarrow> ts \<noteq> [] \<Longrightarrow> drains (tl ts) \<Longrightarrow>
   us_phase (fst (worker h ts st)) = Ended"
proof (cases ts)
  case (Cons t rest)
  assume st: "usb_base (fst st)" "us_stopping (fst st)" "us_phase (fst st) = Pumping" and d: "drains (tl ts)"
  let ?b = "on_usb drain_begin st"
  have "worker h ts st = worker h rest ?b" using st Cons by (simp add: worker_def worker_turn_def pump_turn_def)
  moreover have "usb_base (fst ?b)" "us_stopping (fst ?b)"
    using base_drain_begin [OF st(1,2)] drain_begin_held [of "fst st"] st(2) by (simp_all add: on_usb_def held_def)
  ultimately show ?thesis
    using drain_ends [of ?b rest h] drain_begin_ready [of "fst st"] d Cons by (simp add: on_usb_def)
qed simp

lemma drains_tl: "drains (tl ts) \<Longrightarrow> drains ts \<and> ts \<noteq> []"
  by (cases ts) (auto simp: drains_def completes_def)

lemma draining_ends:
  assumes "usb_base (fst st)" and "us_stopping (fst st)" and "us_phase (fst st) = Draining" and "drains ts" and "ts \<noteq> []"
  shows "us_phase (fst (worker h ts st)) = Ended"
proof (cases "transfers_in_flight (fst st)")
  case True
  then show ?thesis using drain_ends [OF assms(1,2) _ assms(4)] assms(3) by simp
next
  case False
  obtain t rest where ts: "ts = t # rest" using assms(5) by (cases ts) auto
  let ?h = "happen h (et_done t) st"
  have "\<not> transfers_in_flight (fst ?h)" using False happen_done(2) [OF assms(1,2)] by (auto simp: transfers_in_flight_def)
  moreover have "us_phase (fst ?h) = Draining" using happen_keeps [OF assms(1), of h "et_done t"] assms(3) by (simp add: unchanged_def)
  ultimately have "us_phase (fst (worker_turn h st t)) = Ended"
    using assms(3) by (simp add: worker_turn_def drain_turn_def Let_def on_usb_def drained_def)
  then show ?thesis using worker_ended [of "worker_turn h st t" h rest] by (simp add: ts worker_def)
qed

lemma stop_returns:
  assumes "usb_base (fst st)" and "drains (tl turns)"
  shows "\<exists>r st'. usb_stop h (e\<lparr>se_turns := turns\<rparr>) st = Some (r, st')"
proof (cases "us_closed (fst st)")
  case True
  then show ?thesis by (simp add: usb_stop_def)
next
  case False
  note d = drains_tl [OF assms(2)]
  let ?s = "stopping_state st"
  have s: "usb_base (fst ?s)" "us_stopping (fst ?s)" using stopping_state_base [OF assms(1)] stopping_state(1) by blast+
  have "us_phase (fst (worker h turns ?s)) = Ended"
  proof (cases "us_phase (fst ?s)")
    case Absent
    then show ?thesis using stopping_state(2) [of st] by simp
  next
    case Pumping
    then show ?thesis using draining_flying [OF s] d assms(2) by blast
  next
    case Draining
    then show ?thesis using draining_ends [OF s] d by blast
  next
    case Ended
    then show ?thesis using worker_ended [of ?s h turns] by simp
  qed
  then show ?thesis using stop_returns_iff [OF False, of h "e\<lparr>se_turns := turns\<rparr>"] by simp
qed

section \<open>Properties\<close>

lemma reached_sound:
  assumes "usb_create env release attach serial = (r, u)"
  shows "usb_sound (fst (usb_port.run_ops h ops (u, s)))"
  by (rule usb_port.run_sound) (use create_result(1) [OF assms] in simp)

text \<open>
  C26. The libusb transport gives back everything it takes, strictly in reverse order across all kinds: first the claims, then
  the detached kernel drivers, then the handle, then the lock, so that nothing is used after what it rests on is closed. A failed open returns everything; after a successful one, whatever is started, sent and completed
  meanwhile, a stop returns everything even when it reports failures, and nothing changes any more after it.
\<close>

theorem usb_returns_all:
  "case usb_create env release attach serial of
     (Inl _, u) \<Rightarrow> all_returned (us_log u)
   | (Inr _, u) \<Rightarrow>
       (let stopped = snd (usb_stop_total h e (usb_port.run_ops h ops (u, s)))
        in all_returned (us_log (fst stopped)) \<and> usb_port.run_ops h later stopped = stopped)"
proof -
  obtain r u where c: "usb_create env release attach serial = (r, u)" by (cases "usb_create env release attach serial")
  show ?thesis
  proof (cases r)
    case (Inl x)
    then show ?thesis using c create_result(2) by fastforce
  next
    case (Inr x)
    let ?st = "usb_port.run_ops h ops (u, s)" and ?p = "snd (usb_stop_total h e (usb_port.run_ops h ops (u, s)))"
    have st: "usb_sound (fst ?st)" by (rule reached_sound [OF c])
    have "usb_sound (fst ?p)" "us_closed (fst ?p)" by (rule usb_port.stop_sound [OF st], rule usb_port.stop_stops [OF st])
    then have "all_returned (us_log (fst ?p))" by (intro book_returned) (simp_all add: usb_sound_def usb_base_def)
    then show ?thesis using c Inr usb_port.nothing_after_stop [OF st] by (simp add: Let_def)
  qed
qed

text \<open>
  C27. Every transfer is used as libusb asks, whatever completes when: nothing is submitted twice, cancelled while idle,
  or freed while libusb may still write into it. After a stop both transfers are freed, but for one that libusb still
  holds after failing to drain: that one is leaked.
\<close>

theorem usb_transfers_used_well:
  "case usb_create env release attach serial of (_, u) \<Rightarrow>
     (let st = usb_port.run_ops h ops (u, s); stopped = snd (usb_stop_total h e st)
      in life k (us_log (fst st)) \<noteq> None \<and>
         (life k (us_log (fst stopped)) = Some (False, False) \<or>
          us_drain_failed (fst stopped) \<and> life k (us_log (fst stopped)) = Some (True, True)))"
proof -
  obtain r u where c: "usb_create env release attach serial = (r, u)" by (cases "usb_create env release attach serial")
  let ?st = "usb_port.run_ops h ops (u, s)" and ?p = "snd (usb_stop_total h e (usb_port.run_ops h ops (u, s)))"
  have st: "usb_sound (fst ?st)" by (rule reached_sound [OF c])
  have p: "usb_sound (fst ?p)" "us_closed (fst ?p)" by (rule usb_port.stop_sound [OF st], rule usb_port.stop_stops [OF st])
  have b: "usb_base (fst ?st)" "usb_base (fst ?p)" using st p by (simp_all add: usb_sound_def)
  have "us_transfer (fst ?p) k \<longrightarrow> us_drain_failed (fst ?p) \<and> us_pending (fst ?p) k"
    using p by (simp add: usb_sound_def)
  then show ?thesis using usb_baseD(1) [OF b(1), of k] usb_baseD(1,6) [OF b(2), of k] c by (auto simp: Let_def)
qed

text \<open>
  C28. A stop returns: after at most one more turn of the event thread, it is enough that libusb fails once or completes
  both transfers.
\<close>

theorem usb_stop_terminates:
  assumes "usb_create env release attach serial = (Inr (), u)" and "drains (tl turns)"
  shows "\<exists>r st. usb_stop h (e\<lparr>se_turns := turns\<rparr>) (usb_port.run_ops h ops (u, s)) = Some (r, st)"
proof (rule stop_returns)
  have "usb_sound (fst (usb_port.run_ops h ops (u, s)))" by (rule reached_sound [OF assms(1)])
  then show "usb_base (fst (usb_port.run_ops h ops (u, s)))" by (simp add: usb_sound_def)
qed (rule assms(2))

section \<open>Witnesses\<close>

definition sample_config :: "alt_setting list list" where
  "sample_config =
     [[\<lparr>al_alternate = 0, al_interface = 0, al_endpoints = [\<lparr>ep_address = 0x83, ep_attributes = 3\<rparr>]\<rparr>],
      [\<lparr>al_alternate = 0, al_interface = 1, al_endpoints =
          [\<lparr>ep_address = 0x82, ep_attributes = 2\<rparr>, \<lparr>ep_address = 0x01, ep_attributes = 2\<rparr>]\<rparr>]]"

definition sample_device :: usb_device where
  "sample_device = \<lparr>ud_bus = 1, ud_address = 2, ud_ports = [1], ud_ids = Some (0x18e1, 0x0104), ud_config = Inr sample_config\<rparr>"

definition sample_usb :: usb_env where
  "sample_usb = \<lparr>ue_error_name = (\<lambda>_. []), ue_strerror = (\<lambda>_. []), ue_text = (\<lambda>_. []), ue_init = 0,
     ue_devices = Inr [sample_device], ue_open = (\<lambda>_. None), ue_flock = True, ue_handle = 0,
     ue_active = (\<lambda>i. if i = 0 then 1 else 0), ue_detach = (\<lambda>_. 0), ue_claim = (\<lambda>_. 0)\<rparr>"

lemma sample_opens: "usb_create sample_usb release attach [] = (Inr (), opened [0] [0, 1])"
proof -
  have s: "select_device sample_usb [] = Inr sample_device"
    by (simp add: select_device_def sample_usb_def matches_def sample_device_def)
  have f: "find_endpoints sample_config = \<lparr>fd_interfaces = [0, 1], fd_in = True, fd_out = True, fd_intr = True\<rparr>" by code_simp
  have c: "ud_config sample_device = Inr sample_config" by (simp add: sample_device_def)
  have e: "ue_open sample_usb x = None" "ue_flock sample_usb" "ue_handle sample_usb = 0" "ue_init sample_usb = 0"
    "ue_active sample_usb i = (if i = 0 then 1 else 0)" "ue_detach sample_usb i = 0" "ue_claim sample_usb i = 0" for x i
    by (simp_all add: sample_usb_def)
  show ?thesis
    by (simp add: usb_create_def usb_acquire_def guard_call_def usb_check_def catch_def effect_simps s c e f Let_def)
      (simp add: opened_def usb_new_def usb_log_def)
qed

theorem usb_open_takes_witness:
  "us_log (snd (usb_create sample_usb (\<lambda>_. 0) (\<lambda>_. 0) [])) = [Open_lock, Open_handle, Detach 0, Claim 0, Claim 1] \<and>
   (\<exists>d config. select_device sample_usb [] = Inr d \<and> ud_config d = Inr config \<and>
      list_ex (is_endpoint 0x83 3) (map snd (in_use config)))"
  using usb_open_takes [OF sample_opens [of "\<lambda>_. 0" "\<lambda>_. 0"]] by (auto simp: sample_opens opened_def)

theorem usb_stop_terminates_witness:
  "\<exists>r st. usb_stop \<lparr>uh_error_name = (\<lambda>_. []), uh_receive = (\<lambda>_ s. (Inr (), s)), uh_failure = (\<lambda>_ s. (Inr (), s))\<rparr>
     \<lparr>se_turns = [gives_up, gives_up], se_control = gives_up, se_release = (\<lambda>_. 0), se_attach = (\<lambda>_. 0)\<rparr>
     (opened [0] [0, 1], ()) = Some (r, st)"
proof -
  have "drains (tl [gives_up, gives_up])"
    by (simp add: drains_def gives_up_def events_failed_def LIBUSB_ERROR_INTERRUPTED_def)
  from usb_stop_terminates [OF sample_opens this, where ops = "[]" and
      e = "\<lparr>se_turns = [], se_control = gives_up, se_release = (\<lambda>_. 0), se_attach = (\<lambda>_. 0)\<rparr>" and s = "()"]
  show ?thesis by simp
qed

end
