(* ===== verification/Factory.thy ===== *)
theory Factory
  imports Tty_Transport Usb_Properties
begin

text \<open>
  src/factory.cpp: the back end of a selector. \<open>with_libusb\<close> is the build option \<open>MONGOOSE_WITH_LIBUSB\<close>; the other
  arguments are those of the two transports.
\<close>

datatype opened_transport = Tty_port tty | Usb_port usb

definition no_libusb :: exn where
  "no_libusb = Error ERR_NOT_SUPPORTED ''this build has no libusb backend; rebuild with MONGOOSE_LIBUSB=ON''"

definition list_devices :: "bool \<Rightarrow> device_info list \<Rightarrow> exn + device_info list \<Rightarrow> backend \<Rightarrow> exn + device_info list" where
  "list_devices with_libusb ttys usbs backend =
     (if backend = Tty then Inr ttys else if with_libusb then usbs else Inl no_libusb)"

definition open_transport ::
    "bool \<Rightarrow> tty_os \<Rightarrow> sysfs \<Rightarrow> usb_env \<Rightarrow> (nat \<Rightarrow> int) \<Rightarrow> (nat \<Rightarrow> int) \<Rightarrow> selector \<Rightarrow> exn + opened_transport" where
  "open_transport with_libusb os sys env release reattach selector =
     (if sel_backend selector = Tty then ebind (fst (tty_create os sys selector)) (\<lambda>_. Inr (Tty_port (snd (tty_create os sys selector))))
      else if with_libusb then
        ebind (fst (usb_create env release reattach (sel_serial selector)))
          (\<lambda>_. Inr (Usb_port (snd (usb_create env release reattach (sel_serial selector)))))
      else Inl no_libusb)"

text \<open>A name opens the back end it names, and only that one.\<close>

lemma open_transport_backend:
  "open_transport with_libusb os sys env release reattach selector = Inr t \<Longrightarrow>
   (case t of Tty_port _ \<Rightarrow> sel_backend selector = Tty | Usb_port _ \<Rightarrow> sel_backend selector = Usb \<and> with_libusb)"
  by (cases "sel_backend selector") (auto simp: open_transport_def ebind_def split: if_splits sum.splits)

end
