(* ===== verification/Script_Stats.thy ===== *)
theory Script_Stats
  imports Mongoose_Base
begin

unbundle bit_operations_syntax

text \<open>
  The accounting of the step \<open>readstats\<close> of tools/script_runner.c: message count, RxStatus values, distinct CAN
  identifiers in an open-addressing hash table, and gaps between timestamps. The theorem says what the numbers printed at
  the end mean in terms of the messages seen.
\<close>

section \<open>Definitions\<close>

record stats =
  ss_total :: nat
  ss_rounds :: nat
  ss_empty_rounds :: nat
  ss_statuses :: "(u32 \<times> u32) list"
  ss_table :: "nat \<Rightarrow> u32 option"
  ss_unique :: nat
  ss_first :: u32
  ss_last :: u32
  ss_max_gap :: u32
  ss_gaps :: nat
  ss_seen :: bool

definition stats_new :: stats where
  "stats_new = \<lparr>ss_total = 0, ss_rounds = 0, ss_empty_rounds = 0, ss_statuses = [], ss_table = (\<lambda>_. None), ss_unique = 0,
     ss_first = 0, ss_last = 0, ss_max_gap = 0, ss_gaps = 0, ss_seen = False\<rparr>"

definition STATUS_SLOTS :: nat where "STATUS_SLOTS = 32"

definition ID_SLOTS :: nat where "ID_SLOTS = 4096"

text \<open>The two arrays \<open>status_value\<close> and \<open>status_count\<close> are one list of pairs, in the order of the slots.\<close>

fun count_status :: "u32 \<Rightarrow> (u32 \<times> u32) list \<Rightarrow> (u32 \<times> u32) list option" where
  "count_status v [] = None"
| "count_status v ((w, n) # rest) =
     (if w = v then Some ((w, n + 1) # rest) else map_option (\<lambda>rest. (w, n) # rest) (count_status v rest))"

definition note_status :: "u32 \<Rightarrow> stats \<Rightarrow> stats" where
  "note_status v s =
     (case count_status v (ss_statuses s) of
        Some statuses \<Rightarrow> s\<lparr>ss_statuses := statuses\<rparr>
      | None \<Rightarrow>
          if length (ss_statuses s) < STATUS_SLOTS then s\<lparr>ss_statuses := ss_statuses s @ [(v, 1)]\<rparr> else s)"

text \<open>
  The probe of \<open>note_id\<close>: \<open>Some None\<close> if the identifier is in the table, \<open>Some (Some slot)\<close> for the free slot it ends
  at, \<open>None\<close> if it has gone around without an end.
\<close>

fun probe :: "nat \<Rightarrow> (nat \<Rightarrow> u32 option) \<Rightarrow> u32 \<Rightarrow> nat \<Rightarrow> nat option option" where
  "probe 0 table i slot = None"
| "probe (Suc n) table i slot =
     (case table slot of
        None \<Rightarrow> Some (Some slot)
      | Some j \<Rightarrow> if j = i then Some None else probe n table i ((slot + 1) mod ID_SLOTS))"

definition hash_id :: "u32 \<Rightarrow> nat" where
  "hash_id i = unat ((i * 2654435761) AND 4095)"

definition note_id :: "u32 \<Rightarrow> stats \<Rightarrow> stats option" where
  "note_id i s =
     (if ss_unique s \<ge> ID_SLOTS div 2 then Some s
      else case probe ID_SLOTS (ss_table s) i (hash_id i) of
        None \<Rightarrow> None
      | Some None \<Rightarrow> Some s
      | Some (Some slot) \<Rightarrow> Some (s\<lparr>ss_table := (ss_table s)(slot := Some i), ss_unique := ss_unique s + 1\<rparr>))"

definition big_endian :: "bytes \<Rightarrow> u32" where
  "big_endian d =
     push_bit 24 (ucast (d ! 0)) OR push_bit 16 (ucast (d ! 1)) OR push_bit 8 (ucast (d ! 2)) OR ucast (d ! 3)"

definition note_time :: "u32 \<Rightarrow> stats \<Rightarrow> stats" where
  "note_time t s =
     (let s = (if \<not> ss_seen s then s\<lparr>ss_first := t, ss_seen := True\<rparr>
               else
                 let gap = t - ss_last s;
                     s = (if gap > ss_max_gap s then s\<lparr>ss_max_gap := gap\<rparr> else s)
                 in if gap > 10000 then s\<lparr>ss_gaps := ss_gaps s + 1\<rparr> else s)
      in s\<lparr>ss_last := t\<rparr>)"

definition note_message :: "passthru_msg \<Rightarrow> stats \<Rightarrow> stats option" where
  "note_message m s =
     (let s = note_status (RxStatus m) (s\<lparr>ss_total := ss_total s + 1\<rparr>)
      in map_option (note_time (Timestamp m))
           (if DataSize m \<ge> 4 then note_id (big_endian (Data m)) s else Some s))"

fun note_messages :: "passthru_msg list \<Rightarrow> stats \<Rightarrow> stats option" where
  "note_messages [] s = Some s"
| "note_messages (m # ms) s = (case note_message m s of None \<Rightarrow> None | Some s \<Rightarrow> note_messages ms s)"

text \<open>The device time from the first to the last message, as \<open>print_stats\<close> prints it.\<close>

definition device_span :: "stats \<Rightarrow> u32" where
  "device_span s = (if ss_seen s then ss_last s - ss_first s else 0)"

section \<open>The hash table\<close>

definition along :: "nat \<Rightarrow> nat \<Rightarrow> nat" where
  "along slot d = (slot + d) mod ID_SLOTS"

lemma along_range: "along slot d < ID_SLOTS"
  by (simp add: along_def ID_SLOTS_def)

lemma along_step: "along (along slot (Suc 0)) d = along slot (Suc d)"
  by (simp add: along_def mod_simps)

lemma probe_stops:
  assumes "d < n" and "slot < ID_SLOTS" and "\<forall>e<d. table (along slot e) \<noteq> None \<and> table (along slot e) \<noteq> Some i"
    and "table (along slot d) = None \<or> table (along slot d) = Some i"
  shows "probe n table i slot = Some (if table (along slot d) = None then Some (along slot d) else None)"
  using assms
proof (induction n arbitrary: slot d)
  case (Suc n)
  have here: "along slot 0 = slot" using Suc.prems(2) by (simp add: along_def)
  show ?case
  proof (cases d)
    case 0
    then show ?thesis using Suc.prems(4) by (auto simp: here split: option.split)
  next
    case (Suc e)
    have "table slot \<noteq> None" "table slot \<noteq> Some i" using Suc.prems(3) Suc here by (metis zero_less_Suc)+
    then have "probe (Suc n) table i slot = probe n table i (along slot (Suc 0))"
      by (auto simp: along_def)
    also have "\<dots> = Some (if table (along (along slot (Suc 0)) e) = None then Some (along (along slot (Suc 0)) e) else None)"
    proof (rule Suc.IH)
      show "\<forall>a<e. table (along (along slot (Suc 0)) a) \<noteq> None \<and> table (along (along slot (Suc 0)) a) \<noteq> Some i"
        using Suc.prems(3) Suc by (simp add: along_step)
      show "e < n" using Suc.prems(1) Suc by simp
      show "along slot (Suc 0) < ID_SLOTS" by (rule along_range)
      show "table (along (along slot (Suc 0)) e) = None \<or> table (along (along slot (Suc 0)) e) = Some i"
        using Suc.prems(4) Suc by (simp only: along_step)
    qed
    finally show ?thesis using Suc by (simp add: along_step)
  qed
qed simp

text \<open>
  The table holds the identifiers \<open>I\<close>, each once, and each can be reached: from its hash on, no slot before it is free.
\<close>

definition table_ok :: "(nat \<Rightarrow> u32 option) \<Rightarrow> u32 set \<Rightarrow> bool" where
  "table_ok table I \<longleftrightarrow>
     dom table \<subseteq> {..<ID_SLOTS} \<and> ran table = I \<and> inj_on table (dom table) \<and>
     (\<forall>i\<in>I. \<exists>d<ID_SLOTS. table (along (hash_id i) d) = Some i \<and> (\<forall>e<d. table (along (hash_id i) e) \<noteq> None))"

lemma table_okD:
  assumes "table_ok table I"
  shows "dom table \<subseteq> {..<ID_SLOTS}" and "ran table = I" and "inj_on table (dom table)"
    and "i \<in> I \<Longrightarrow> \<exists>d<ID_SLOTS. table (along (hash_id i) d) = Some i \<and> (\<forall>e<d. table (along (hash_id i) e) \<noteq> None)"
  using assms by (simp_all add: table_ok_def)

lemma table_ok_card:
  assumes "table_ok table I"
  shows "card (dom table) = card I" and "finite (dom table)" and "finite I"
proof -
  show fin: "finite (dom table)" by (rule finite_subset [OF table_okD(1) [OF assms]]) simp
  have "table ` dom table = Some ` ran table" by (auto simp: ran_def dom_def image_def)
  then have "Some ` I = table ` dom table" using table_okD(2) [OF assms] by simp
  moreover have "card (table ` dom table) = card (dom table)" by (rule card_image [OF table_okD(3) [OF assms]])
  moreover have "card (Some ` I) = card I" by (rule card_image) simp
  ultimately show "card (dom table) = card I" by simp
  show "finite I" using finite_ran [OF fin] table_okD(2) [OF assms] by simp
qed

lemma hash_range: "hash_id i < ID_SLOTS"
proof -
  have "(i * 2654435761) AND 4095 \<le> (4095 :: u32)" by (rule word_and_le1)
  then show ?thesis by (simp add: hash_id_def ID_SLOTS_def word_le_nat_alt)
qed

lemma along_onto:
  assumes "slot < ID_SLOTS" and "j < ID_SLOTS"
  shows "\<exists>d<ID_SLOTS. along slot d = j"
proof (intro exI conjI)
  let ?d = "(j + ID_SLOTS - slot) mod ID_SLOTS"
  show "?d < ID_SLOTS" by (simp add: ID_SLOTS_def)
  have "along slot ?d = (slot + (j + ID_SLOTS - slot)) mod ID_SLOTS" unfolding along_def by (rule mod_add_right_eq)
  also have "\<dots> = j" using assms by simp
  finally show "along slot ?d = j" .
qed

lemma probe_table:
  assumes t: "table_ok table I" and few: "card I < ID_SLOTS"
  shows "i \<in> I \<Longrightarrow> probe ID_SLOTS table i (hash_id i) = Some None"
    and "i \<notin> I \<Longrightarrow> \<exists>slot. probe ID_SLOTS table i (hash_id i) = Some (Some slot) \<and>
      table_ok (table(slot := Some i)) (insert i I)"
proof -
  show "probe ID_SLOTS table i (hash_id i) = Some None" if i: "i \<in> I"
  proof -
    obtain d where d: "d < ID_SLOTS" "table (along (hash_id i) d) = Some i" "\<forall>e<d. table (along (hash_id i) e) \<noteq> None"
      using table_okD(4) [OF t i] by blast
    define f where "f = (LEAST e. table (along (hash_id i) e) = Some i)"
    have f: "table (along (hash_id i) f) = Some i" unfolding f_def using d(2) by (rule LeastI)
    have le: "f \<le> d" unfolding f_def using d(2) by (rule Least_le)
    have "\<forall>e<f. table (along (hash_id i) e) \<noteq> Some i" using not_less_Least f_def by blast
    moreover have "\<forall>e<f. table (along (hash_id i) e) \<noteq> None" using d(3) le by simp
    ultimately show ?thesis
      using probe_stops [OF le_less_trans [OF le d(1)] hash_range, of table i] f by simp
  qed
  show "\<exists>slot. probe ID_SLOTS table i (hash_id i) = Some (Some slot) \<and> table_ok (table(slot := Some i)) (insert i I)"
    if new: "i \<notin> I"
  proof -
    have "card (dom table) < ID_SLOTS" using table_ok_card(1) [OF t] few by simp
    then have "\<not> {..<ID_SLOTS} \<subseteq> dom table" using card_mono [OF table_ok_card(2) [OF t], of "{..<ID_SLOTS}"] by auto
    then obtain j where j: "j < ID_SLOTS" "table j = None" by auto
    obtain d0 where d0': "d0 < ID_SLOTS" "along (hash_id i) d0 = j"
      using along_onto [OF hash_range j(1)] by blast
    then have d0: "d0 < ID_SLOTS" "table (along (hash_id i) d0) = None" using j(2) by simp_all
    define d where "d = (LEAST e. table (along (hash_id i) e) = None)"
    have d: "table (along (hash_id i) d) = None" unfolding d_def using d0(2) by (rule LeastI)
    have le: "d < ID_SLOTS" using Least_le [of "\<lambda>e. table (along (hash_id i) e) = None", OF d0(2)] d0(1) by (simp add: d_def)
    have before: "\<forall>e<d. table (along (hash_id i) e) \<noteq> None" using not_less_Least d_def by blast
    have absent: "table s \<noteq> Some i" for s using table_okD(2) [OF t] new by (auto simp: ran_def)
    let ?slot = "along (hash_id i) d" and ?table = "table(along (hash_id i) d := Some i)"
    have "probe ID_SLOTS table i (hash_id i) = Some (Some ?slot)"
      using probe_stops [OF le hash_range, of table i] d before absent by simp
    moreover have "table_ok ?table (insert i I)"
      unfolding table_ok_def
    proof (intro conjI ballI)
      show "dom ?table \<subseteq> {..<ID_SLOTS}" using table_okD(1) [OF t] along_range by simp
      show "ran ?table = insert i I" using table_okD(2) [OF t] ran_map_upd [where m = table and a = "along (hash_id i) d", OF d] by simp
      show "inj_on ?table (dom ?table)"
      proof (rule inj_onI)
        fix a b assume ab: "a \<in> dom ?table" "b \<in> dom ?table" "?table a = ?table b"
        show "a = b"
        proof (cases "a = ?slot \<or> b = ?slot")
          case True
          then show ?thesis using ab(3) absent by (metis fun_upd_other fun_upd_same)
        next
          case False
          then show ?thesis using ab inj_onD [OF table_okD(3) [OF t]] by auto
        qed
      qed
      fix k assume k: "k \<in> insert i I"
      show "\<exists>e<ID_SLOTS. ?table (along (hash_id k) e) = Some k \<and> (\<forall>a<e. ?table (along (hash_id k) a) \<noteq> None)"
      proof (cases "k = i")
        case True
        then show ?thesis using le before by (intro exI [of _ d]) auto
      next
        case False
        then obtain e where e: "e < ID_SLOTS" "table (along (hash_id k) e) = Some k" "\<forall>a<e. table (along (hash_id k) a) \<noteq> None"
          using table_okD(4) [OF t, of k] k by blast
        then have "along (hash_id k) e \<noteq> ?slot" using d by auto
        then show ?thesis using e by (intro exI [of _ e]) auto
      qed
    qed
    ultimately show ?thesis by blast
  qed
qed

section \<open>What the numbers mean\<close>

definition message_ids :: "passthru_msg list \<Rightarrow> u32 list" where
  "message_ids ms = map (\<lambda>m. big_endian (Data m)) (filter (\<lambda>m. DataSize m \<ge> 4) ms)"

text \<open>The gaps between consecutive timestamps, modulo \<open>2 ^ 32\<close> as the clock wraps.\<close>

fun time_gaps :: "u32 list \<Rightarrow> u32 list" where
  "time_gaps (t # u # ts) = (u - t) # time_gaps (u # ts)"
| "time_gaps ts = []"

lemma time_gaps_snoc: "ts \<noteq> [] \<Longrightarrow> time_gaps (ts @ [u]) = time_gaps ts @ [u - last ts]"
  by (induction ts rule: time_gaps.induct) simp_all

lemma count_status_spec:
  "count_status v xs = None \<longleftrightarrow> v \<notin> fst ` set xs"
  "distinct (map fst xs) \<Longrightarrow> count_status v xs = Some ys \<Longrightarrow>
     map fst ys = map fst xs \<and> map_of ys = (map_of xs)(v := map_option (\<lambda>n. n + 1) (map_of xs v))"
proof -
  show "count_status v xs = None \<longleftrightarrow> v \<notin> fst ` set xs"
    by (induction v xs rule: count_status.induct) (auto split: if_splits)
  show "distinct (map fst xs) \<Longrightarrow> count_status v xs = Some ys \<Longrightarrow>
     map fst ys = map fst xs \<and> map_of ys = (map_of xs)(v := map_option (\<lambda>n. n + 1) (map_of xs v))"
    by (induction xs arbitrary: ys) (fastforce split: if_splits)+
qed

text \<open>What the accounting holds of the identifiers, the timestamps and the RxStatus values seen.\<close>

definition ids_ok :: "u32 list \<Rightarrow> stats \<Rightarrow> bool" where
  "ids_ok ids s \<longleftrightarrow>
     (\<exists>I. table_ok (ss_table s) I \<and> ss_unique s = card I \<and> I \<subseteq> set ids \<and> card I \<le> ID_SLOTS div 2 \<and>
        (card I < ID_SLOTS div 2 \<longrightarrow> I = set ids))"

definition times_ok :: "u32 list \<Rightarrow> stats \<Rightarrow> bool" where
  "times_ok ts s \<longleftrightarrow>
     ss_seen s = (ts \<noteq> []) \<and> (ts \<noteq> [] \<longrightarrow> ss_first s = hd ts \<and> ss_last s = last ts) \<and>
     ss_max_gap s = foldl max 0 (time_gaps ts) \<and> ss_gaps s = length (filter (\<lambda>g. g > 10000) (time_gaps ts))"

definition statuses_ok :: "u32 list \<Rightarrow> stats \<Rightarrow> bool" where
  "statuses_ok rs s \<longleftrightarrow>
     distinct (map fst (ss_statuses s)) \<and> length (ss_statuses s) \<le> STATUS_SLOTS \<and>
     fst ` set (ss_statuses s) \<subseteq> set rs \<and>
     (\<forall>v n. map_of (ss_statuses s) v = Some n \<longrightarrow> n = of_nat (count_list rs v)) \<and>
     (length (ss_statuses s) < STATUS_SLOTS \<longrightarrow> fst ` set (ss_statuses s) = set rs)"

definition accounts :: "passthru_msg list \<Rightarrow> stats \<Rightarrow> bool" where
  "accounts ms s \<longleftrightarrow>
     ss_total s = length ms \<and> ids_ok (message_ids ms) s \<and> times_ok (map Timestamp ms) s \<and> statuses_ok (map RxStatus ms) s"

lemma ids_ok_note:
  assumes "ids_ok ids s"
  shows "\<exists>s'. note_id i s = Some s' \<and> ids_ok (ids @ [i]) s' \<and> ss_total s' = ss_total s \<and>
    ss_statuses s' = ss_statuses s \<and> ss_seen s' = ss_seen s \<and> ss_first s' = ss_first s \<and> ss_last s' = ss_last s \<and>
    ss_max_gap s' = ss_max_gap s \<and> ss_gaps s' = ss_gaps s"
proof -
  obtain I where I: "table_ok (ss_table s) I" "ss_unique s = card I" "I \<subseteq> set ids" "card I \<le> ID_SLOTS div 2"
    "card I < ID_SLOTS div 2 \<longrightarrow> I = set ids" using assms by (auto simp: ids_ok_def)
  show ?thesis
  proof (cases "ss_unique s \<ge> ID_SLOTS div 2")
    case True
    then have "ids_ok (ids @ [i]) s" unfolding ids_ok_def using I by (intro exI [of _ I]) auto
    then show ?thesis using True by (simp add: note_id_def)
  next
    case False
    then have less: "card I < ID_SLOTS div 2" "card I < ID_SLOTS" and all: "I = set ids"
      using I by (simp_all add: ID_SLOTS_def)
    show ?thesis
    proof (cases "i \<in> I")
      case True
      then have "set (ids @ [i]) = I" using all by auto
      then have "ids_ok (ids @ [i]) s" unfolding ids_ok_def by (intro exI [of _ I]) (use I(1,2,4) in auto)
      then show ?thesis using False probe_table(1) [OF I(1) less(2) True] by (simp add: note_id_def)
    next
      case new: False
      obtain slot where slot: "probe ID_SLOTS (ss_table s) i (hash_id i) = Some (Some slot)"
        "table_ok ((ss_table s)(slot := Some i)) (insert i I)"
        using probe_table(2) [OF I(1) less(2) new] by blast
      let ?s = "s\<lparr>ss_table := (ss_table s)(slot := Some i), ss_unique := ss_unique s + 1\<rparr>"
      have card: "card (insert i I) = card I + 1" using new table_ok_card(3) [OF I(1)] by simp
      have "ids_ok (ids @ [i]) ?s" unfolding ids_ok_def
        by (intro exI [of _ "insert i I"]) (use slot(2) I(2) card less all in simp)
      then show ?thesis using False slot(1) by (simp add: note_id_def)
    qed
  qed
qed

lemma times_ok_note: "times_ok ts s \<Longrightarrow> times_ok (ts @ [t]) (note_time t s)"
proof (cases "ts = []")
  case True
  then show "times_ok ts s \<Longrightarrow> ?thesis" by (simp add: times_ok_def note_time_def Let_def)
next
  case False
  then have "time_gaps (ts @ [t]) = time_gaps ts @ [t - last ts]" by (rule time_gaps_snoc)
  then show "times_ok ts s \<Longrightarrow> ?thesis" using False
    by (auto simp: times_ok_def note_time_def Let_def max_def)
qed

lemma statuses_ok_note:
  assumes "statuses_ok rs s"
  shows "statuses_ok (rs @ [v]) (note_status v s)"
proof (cases "count_status v (ss_statuses s)")
  case None
  then have new: "v \<notin> fst ` set (ss_statuses s)" by (simp add: count_status_spec)
  show ?thesis
  proof (cases "length (ss_statuses s) < STATUS_SLOTS")
    case True
    then have all: "fst ` set (ss_statuses s) = set rs" using assms by (simp add: statuses_ok_def)
    then have "count_list rs v = 0" using new by (simp add: count_list_0_iff)
    moreover have "map_of (ss_statuses s @ [(v, 1)]) w = (if w = v then Some 1 else map_of (ss_statuses s) w)" for w
      using new map_of_eq_None_iff [of "ss_statuses s" v] by (auto simp: map_add_def split: option.split)
    ultimately show ?thesis using None True assms new all by (auto simp: statuses_ok_def note_status_def)
  next
    case False
    have "v \<noteq> w" if "map_of (ss_statuses s) w = Some n" for w n
      using map_of_SomeD [OF that] new by (force simp: image_iff)
    then show ?thesis using None False assms new by (auto simp: statuses_ok_def note_status_def)
  qed
next
  case (Some ys)
  then have old: "v \<in> fst ` set (ss_statuses s)" using count_status_spec(1) [of v "ss_statuses s"] by auto
  have ys: "map fst ys = map fst (ss_statuses s)"
    "map_of ys = (map_of (ss_statuses s))(v := map_option (\<lambda>n. n + 1) (map_of (ss_statuses s) v))"
    using count_status_spec(2) [OF _ Some] assms by (auto simp: statuses_ok_def)
  have len: "length ys = length (ss_statuses s)" using ys(1) by (metis length_map)
  have keys: "fst ` set ys = fst ` set (ss_statuses s)" using ys(1) by (metis set_map)
  have v: "v \<in> set rs" using old assms by (auto simp: statuses_ok_def)
  have "n = of_nat (count_list (rs @ [v]) w)" if "map_of ys w = Some n" for w n
    using that assms by (auto simp: ys(2) statuses_ok_def split: if_splits)
  then show ?thesis using Some assms v by (simp add: statuses_ok_def note_status_def ys(1) len keys insert_absorb subset_iff)
qed

lemma ids_ok_cong: "ss_table s' = ss_table s \<Longrightarrow> ss_unique s' = ss_unique s \<Longrightarrow> ids_ok ids s' = ids_ok ids s"
  by (simp add: ids_ok_def)

lemma accounts_note:
  assumes "accounts ms s"
  shows "\<exists>s'. note_message m s = Some s' \<and> accounts (ms @ [m]) s'"
proof -
  let ?s1 = "note_status (RxStatus m) (s\<lparr>ss_total := ss_total s + 1\<rparr>)"
  have f: "ss_table ?s1 = ss_table s" "ss_unique ?s1 = ss_unique s" "ss_total ?s1 = ss_total s + 1" "ss_seen ?s1 = ss_seen s"
    "ss_first ?s1 = ss_first s" "ss_last ?s1 = ss_last s" "ss_max_gap ?s1 = ss_max_gap s" "ss_gaps ?s1 = ss_gaps s"
    by (simp_all add: note_status_def split: option.split)
  have "statuses_ok (map RxStatus ms) (s\<lparr>ss_total := ss_total s + 1\<rparr>)"
    using assms by (simp add: accounts_def statuses_ok_def)
  from statuses_ok_note [OF this, of "RxStatus m"] have st: "statuses_ok (map RxStatus (ms @ [m])) ?s1" by simp
  have ids: "ids_ok (message_ids ms) ?s1" using assms ids_ok_cong [OF f(1,2)] by (simp add: accounts_def)
  obtain s2 where s2: "(if DataSize m \<ge> 4 then note_id (big_endian (Data m)) ?s1 else Some ?s1) = Some s2"
    "ids_ok (message_ids (ms @ [m])) s2" "ss_total s2 = ss_total ?s1" "ss_statuses s2 = ss_statuses ?s1"
    "ss_seen s2 = ss_seen ?s1" "ss_first s2 = ss_first ?s1" "ss_last s2 = ss_last ?s1"
    "ss_max_gap s2 = ss_max_gap ?s1" "ss_gaps s2 = ss_gaps ?s1"
    using ids_ok_note [OF ids, of "big_endian (Data m)"] ids
    by (cases "DataSize m \<ge> 4") (auto simp: message_ids_def)
  have "times_ok (map Timestamp ms) s2" using assms s2 f by (simp add: accounts_def times_ok_def)
  from times_ok_note [OF this, of "Timestamp m"] have t: "times_ok (map Timestamp (ms @ [m])) (note_time (Timestamp m) s2)" by simp
  have g: "ss_table (note_time x s2) = ss_table s2" "ss_unique (note_time x s2) = ss_unique s2"
    "ss_total (note_time x s2) = ss_total s2" "ss_statuses (note_time x s2) = ss_statuses s2" for x
    by (simp_all add: note_time_def Let_def)
  have "statuses_ok (map RxStatus (ms @ [m])) (note_time (Timestamp m) s2)"
    using st unfolding statuses_ok_def g s2(4) .
  then have "accounts (ms @ [m]) (note_time (Timestamp m) s2)"
    using t s2(2,3) ids_ok_cong [OF g(1,2)] f(3) assms by (simp add: accounts_def g)
  moreover have "note_message m s = map_option (note_time (Timestamp m)) (Some s2)"
    unfolding note_message_def Let_def s2(1) ..
  ultimately show ?thesis by simp
qed

lemma accounts_notes: "accounts ms s \<Longrightarrow> \<exists>s'. note_messages ns s = Some s' \<and> accounts (ms @ ns) s'"
proof (induction ns arbitrary: ms s)
  case (Cons n ns)
  obtain s1 where "note_message n s = Some s1" "accounts (ms @ [n]) s1" using accounts_note [OF Cons.prems] by blast
  with Cons.IH [of "ms @ [n]" s1] show ?case by simp
qed simp

lemma accounts_new: "accounts [] stats_new"
proof -
  have "table_ok (\<lambda>_. None) {}" by (simp add: table_ok_def)
  then show ?thesis
    by (simp add: accounts_def ids_ok_def times_ok_def statuses_ok_def stats_new_def message_ids_def)
qed

text \<open>
  C29. What \<open>readstats\<close> prints is true of the messages it read, however many: the total, the number of distinct
  identifiers up to 2048 and that number from there on, the largest and the number of the large gaps between consecutive
  timestamps, the device time from the first to the last, and, for every RxStatus value it lists, how often it came. The
  search of its hash table always ends.
\<close>

theorem readstats_summary:
  "\<exists>s. note_messages ms stats_new = Some s \<and> ss_total s = length ms \<and>
     ss_unique s = min 2048 (card (set (message_ids ms))) \<and>
     ss_max_gap s = foldl max 0 (time_gaps (map Timestamp ms)) \<and>
     ss_gaps s = length (filter (\<lambda>g. g > 10000) (time_gaps (map Timestamp ms))) \<and>
     device_span s = (if ms = [] then 0 else Timestamp (last ms) - Timestamp (hd ms)) \<and>
     distinct (map fst (ss_statuses s)) \<and>
     length (ss_statuses s) = min 32 (card (RxStatus ` set ms)) \<and>
     list_all (\<lambda>(v, n). n = of_nat (count_list (map RxStatus ms) v)) (ss_statuses s)"
proof -
  obtain s where s: "note_messages ms stats_new = Some s" "accounts ms s" using accounts_notes [OF accounts_new, of ms] by auto
  have unique: "ss_unique s = min 2048 (card (set (message_ids ms)))"
  proof -
    obtain I where I: "ss_unique s = card I" "I \<subseteq> set (message_ids ms)" "card I \<le> 2048"
      "card I < 2048 \<longrightarrow> I = set (message_ids ms)"
      using s(2) by (auto simp: accounts_def ids_ok_def ID_SLOTS_def)
    then have "card I \<le> card (set (message_ids ms))" by (simp add: card_mono)
    then show ?thesis using I by (cases "card I < 2048") auto
  qed
  have st: "statuses_ok (map RxStatus ms) s" using s(2) by (simp add: accounts_def)
  have "card (fst ` set (ss_statuses s)) = length (ss_statuses s)"
    using st distinct_card [of "map fst (ss_statuses s)"] by (simp add: statuses_ok_def)
  moreover have "card (fst ` set (ss_statuses s)) \<le> card (RxStatus ` set ms)"
    using st by (intro card_mono) (auto simp: statuses_ok_def)
  ultimately have len: "length (ss_statuses s) = min 32 (card (RxStatus ` set ms))"
    using st by (cases "length (ss_statuses s) < 32") (auto simp: statuses_ok_def STATUS_SLOTS_def)
  have "list_all (\<lambda>(v, n). n = of_nat (count_list (map RxStatus ms) v)) (ss_statuses s)"
    using st map_of_is_SomeI [of "ss_statuses s"] by (auto simp: statuses_ok_def list_all_iff)
  then show ?thesis
    using s(1) unique len s(2) st
    by (auto simp: accounts_def times_ok_def statuses_ok_def device_span_def hd_map last_map)
qed

end
