(* ===== verification/Script_Values.thy ===== *)
theory Script_Values
  imports Api Script_Stats
begin

text \<open>
  The words of a script step (tools/script_runner.c): numbers, names, flags, handles and message data. A word that does
  not parse ends the program (\<open>die\<close>); the error type says so, beside the steps that only fail.
\<close>

datatype script_stop = Exited string | Step_failed string

section \<open>Numbers\<close>

text \<open>\<open>strtoull\<close> with base 0: the value and what is left; all of the text is left if there is no digit.\<close>

definition digit_value :: "char \<Rightarrow> int" where
  "digit_value c = hex_value (of_char c)"

definition digits_in :: "int \<Rightarrow> string \<Rightarrow> string" where
  "digits_in base s = takeWhile (\<lambda>c. 0 \<le> digit_value c \<and> digit_value c < base) s"

definition digits_value :: "int \<Rightarrow> string \<Rightarrow> int" where
  "digits_value base s = foldl (\<lambda>n c. n * base + digit_value c) 0 s"

definition strtoull :: "string \<Rightarrow> int \<times> string" where
  "strtoull text =
     (let s = dropWhile (\<lambda>c. c_isspace (of_char c)) text;
          negative = (s \<noteq> [] \<and> hd s = CHR ''-'');
          s = (if s \<noteq> [] \<and> (hd s = CHR ''-'' \<or> hd s = CHR ''+'') then tl s else s);
          (base, s) =
            (if length s > 2 \<and> hd s = CHR ''0'' \<and> (s ! 1 = CHR ''x'' \<or> s ! 1 = CHR ''X'') \<and> 0 \<le> digit_value (s ! 2)
             then (16, drop 2 s)
             else if s \<noteq> [] \<and> hd s = CHR ''0'' then (8, s) else (10, s));
          digits = digits_in base s;
          n = digits_value base digits
      in if digits = [] then (0, text)
         else (if n \<ge> 2 ^ 64 then 2 ^ 64 - 1 else if negative then (- n) mod 2 ^ 64 else n, drop (length digits) s))"

text \<open>\<open>strtoul\<close> with base 10: the value, what is left (all of the text if there is no digit), and whether it set \<open>errno\<close>.\<close>

definition strtoul :: "string \<Rightarrow> int \<times> string \<times> bool" where
  "strtoul text =
     (let s = dropWhile (\<lambda>c. c_isspace (of_char c)) text;
          negative = (s \<noteq> [] \<and> hd s = CHR ''-'');
          s = (if s \<noteq> [] \<and> (hd s = CHR ''-'' \<or> hd s = CHR ''+'') then tl s else s);
          digits = digits_in 10 s;
          n = digits_value 10 digits
      in if digits = [] then (0, text, False)
         else (if n \<ge> 2 ^ 64 then 2 ^ 64 - 1 else if negative then (- n) mod 2 ^ 64 else n, drop (length digits) s, n \<ge> 2 ^ 64))"

definition number :: "string \<Rightarrow> script_stop + u32" where
  "number text =
     (let (value, rest) = strtoull text
      in if text = [] \<or> rest \<noteq> [] \<or> value > 4294967295 then Inl (Exited (''invalid number: '' @ text))
         else Inr (of_int value))"

section \<open>Names\<close>

definition lower :: "char \<Rightarrow> char" where
  "lower c = (if 65 \<le> (of_char c :: nat) \<and> (of_char c :: nat) \<le> 90 then char_of (of_char c + 32 :: nat) else c)"

fun eq_word :: "string \<Rightarrow> string \<Rightarrow> bool" where
  "eq_word (a # as) (b # bs) = (lower a = lower b \<and> eq_word as bs)"
| "eq_word [] [] = True"
| "eq_word [] (b # bs) = False"
| "eq_word (a # as) [] = False"

definition protocols :: "(string \<times> u32) list" where
  "protocols = [(''J1850VPW'', J1850VPW), (''J1850PWM'', 2), (''ISO9141'', 3), (''ISO14230'', 4), (''CAN'', CAN),
     (''ISO15765'', ISO15765), (''CAN_PS'', 0x8004), (''ISO15765_PS'', 0x8005)]"

definition filter_types :: "(string \<times> u32) list" where
  "filter_types = [(''PASS'', PASS_FILTER), (''BLOCK'', BLOCK_FILTER), (''FLOW'', FLOW_CONTROL_FILTER)]"

definition ioctls :: "(string \<times> u32) list" where
  "ioctls = [(''GET_CONFIG'', GET_CONFIG), (''SET_CONFIG'', SET_CONFIG), (''READ_VBATT'', READ_VBATT),
     (''CLEAR_TX_BUFFER'', CLEAR_TX_BUFFER), (''CLEAR_RX_BUFFER'', CLEAR_RX_BUFFER),
     (''CLEAR_PERIODIC_MSGS'', CLEAR_PERIODIC_MSGS), (''CLEAR_MSG_FILTERS'', CLEAR_MSG_FILTERS),
     (''READ_PROG_VOLTAGE'', READ_PROG_VOLTAGE)]"

definition tx_flags :: "(string \<times> u32) list" where
  "tx_flags = [(''NONE'', 0), (''CAN_29BIT_ID'', CAN_29BIT_ID), (''ISO15765_FRAME_PAD'', ISO15765_FRAME_PAD),
     (''ISO15765_ADDR_TYPE'', 0x80)]"

fun lookup_word :: "(string \<times> u32) list \<Rightarrow> string \<Rightarrow> script_stop + u32" where
  "lookup_word [] text = number text"
| "lookup_word ((name, value) # table) text = (if eq_word name text then Inr value else lookup_word table text)"

text \<open>The parts of a text between the separators.\<close>

fun split_on :: "char \<Rightarrow> string \<Rightarrow> string list" where
  "split_on c [] = [[]]"
| "split_on c (x # xs) = (if x = c then [] # split_on c xs else (x # hd (split_on c xs)) # tl (split_on c xs))"

fun or_words :: "(string \<times> u32) list \<Rightarrow> u32 \<Rightarrow> string list \<Rightarrow> script_stop + u32" where
  "or_words table value [] = Inr value"
| "or_words table value (part # parts) =
     (case lookup_word table part of Inl e \<Rightarrow> Inl e | Inr v \<Rightarrow> or_words table (value OR v) parts)"

definition lookup_flags :: "(string \<times> u32) list \<Rightarrow> string \<Rightarrow> script_stop + u32" where
  "lookup_flags table text =
     (if length text \<ge> 160 then Inl (Exited (''flags too long: '' @ text)) else or_words table 0 (split_on (CHR ''|'') text))"

section \<open>Handles\<close>

type_synonym slots = "(string \<times> u32) list"

fun slot_update :: "slots \<Rightarrow> string \<Rightarrow> u32 \<Rightarrow> slots option" where
  "slot_update [] name handle = None"
| "slot_update ((n, h) # slots) name handle =
     (if eq_word n name then Some ((n, handle) # slots) else map_option (\<lambda>slots. (n, h) # slots) (slot_update slots name handle))"

definition slot_set :: "string \<Rightarrow> u32 \<Rightarrow> slots \<Rightarrow> script_stop + slots" where
  "slot_set name handle slots =
     (if length name \<ge> 24 then Inl (Exited (''handle name too long: '' @ name))
      else case slot_update slots name handle of
        Some slots \<Rightarrow> Inr slots
      | None \<Rightarrow> if length slots = 128 then Inl (Exited ''too many handles'') else Inr (slots @ [(name, handle)]))"

fun slot_find :: "slots \<Rightarrow> string \<Rightarrow> u32 option" where
  "slot_find [] name = None"
| "slot_find ((n, h) # slots) name = (if eq_word n name then Some h else slot_find slots name)"

definition slot_get :: "string \<Rightarrow> slots \<Rightarrow> script_stop + u32" where
  "slot_get name slots =
     (case slot_find slots name of
        Some h \<Rightarrow> Inr h
      | None \<Rightarrow>
          if name \<noteq> [] \<and> 48 \<le> (of_char (hd name) :: nat) \<and> of_char (hd name) \<le> (57 :: nat) then number name
          else Inl (Exited (''unknown handle: '' @ name)))"

section \<open>Message data\<close>

fun hex_pairs :: "string \<Rightarrow> bytes option" where
  "hex_pairs [] = Some []"
| "hex_pairs [c] = None"
| "hex_pairs (h # l # s) =
     (if digit_value h < 0 \<or> digit_value l < 0 then None
      else map_option (\<lambda>d. word_of_int (push_bit 4 (digit_value h) OR digit_value l) # d) (hex_pairs s))"

definition set_data :: "string \<Rightarrow> passthru_msg \<Rightarrow> script_stop + passthru_msg" where
  "set_data text m =
     (if length text mod 2 \<noteq> 0 \<or> length text div 2 > data_capacity then Inl (Exited (''bad hex: '' @ text))
      else case hex_pairs text of
        None \<Rightarrow> Inl (Exited (''bad hex: '' @ text))
      | Some d \<Rightarrow> Inr (m\<lparr>Data := copy_at 0 d (Data m), DataSize := of_nat (length text div 2)\<rparr>))"

section \<open>Numbers as they are printed\<close>

lemma digit_char:
  assumes "n < 10"
  shows "digit_value (char_of (48 + n)) = int n" and "\<not> c_isspace (of_char (char_of (48 + n) :: char))"
    and "(char_of (48 + n) :: char) \<noteq> CHR ''-''" and "(char_of (48 + n) :: char) \<noteq> CHR ''+''"
    and "(char_of (48 + n) :: char) = CHR ''0'' \<longleftrightarrow> n = 0"
proof -
  let ?c = "char_of (48 + n) :: char"
  have c: "of_char ?c = 48 + n" using assms by (simp add: of_char_of)
  show "digit_value ?c = int n" "\<not> c_isspace (of_char ?c)"
    using assms by (simp_all add: digit_value_def hex_value_def c_isspace_def c)
  have "?c \<noteq> d" if "of_char d = k" "k < 48" for d and k :: nat using that c by auto
  then show "?c \<noteq> CHR ''-''" "?c \<noteq> CHR ''+''" by simp_all
  have "of_char (CHR ''0'') = (48 :: nat)" by simp
  then have "char_of (48 :: nat) = CHR ''0''" by (metis char_of_char)
  moreover have "n = 0" if "?c = CHR ''0''"
  proof -
    have "of_char (CHR ''0'') = (48 :: nat)" by simp
    then show ?thesis using that c by simp
  qed
  ultimately show "?c = CHR ''0'' \<longleftrightarrow> n = 0" by auto
qed

definition digit_chars :: "string \<Rightarrow> bool" where
  "digit_chars s \<longleftrightarrow> list_all (\<lambda>c. \<exists>n<10::nat. c = char_of (48 + n)) s"

lemma decimal_chars: "digit_chars (decimal n)" "decimal n \<noteq> []"
proof -
  have "digit_chars (decimal n) \<and> decimal n \<noteq> []"
  proof (induction n rule: decimal.induct)
    case (1 n)
    show ?case
    proof (cases "n < 10")
      case True
      then show ?thesis by (auto simp: decimal.simps [of n] digit_chars_def)
    next
      case False
      with 1 have "digit_chars (decimal (n div 10))" by simp
      moreover have "\<exists>k<10::nat. (char_of (48 + n mod 10) :: char) = char_of (48 + k)" by (rule exI [of _ "n mod 10"]) simp
      ultimately show ?thesis using False by (simp add: decimal.simps [of n] digit_chars_def)
    qed
  qed
  then show "digit_chars (decimal n)" "decimal n \<noteq> []" by simp_all
qed

lemma decimal_value: "digits_value 10 (decimal n) = int n"
proof (induction n rule: decimal.induct)
  case (1 n)
  show ?case
  proof (cases "n < 10")
    case True
    then show ?thesis by (simp add: decimal.simps [of n] digits_value_def digit_char)
  next
    case False
    with 1 have "digits_value 10 (decimal (n div 10)) = int (n div 10)" by simp
    moreover have "decimal n = decimal (n div 10) @ [char_of (48 + n mod 10)]" using False by (simp add: decimal.simps [of n])
    moreover have "digit_value (char_of (48 + n mod 10)) = int (n mod 10)" by (rule digit_char(1)) simp
    ultimately have "digits_value 10 (decimal n) = int (n div 10) * 10 + int (n mod 10)" by (simp add: digits_value_def)
    also have "\<dots> = int (n div 10 * 10 + n mod 10)" by (simp only: of_nat_add of_nat_mult of_nat_numeral)
    finally show ?thesis by simp
  qed
qed

lemma decimal_head: "hd (decimal n) = CHR ''0'' \<longleftrightarrow> n = 0"
proof (induction n rule: decimal.induct)
  case (1 n)
  show ?case
  proof (cases "n < 10")
    case True
    then show ?thesis by (simp add: decimal.simps [of n] digit_char(5))
  next
    case False
    then have "decimal n = decimal (n div 10) @ [char_of (48 + n mod 10)]" by (simp add: decimal.simps [of n])
    then have "hd (decimal n) = hd (decimal (n div 10))" using decimal_chars(2) by simp
    then show ?thesis using 1 False by simp
  qed
qed

lemma digits_in_all: "digit_chars s \<Longrightarrow> digits_in 10 s = s"
  by (auto simp: digits_in_def takeWhile_eq_all_conv digit_chars_def list_all_iff digit_char)

lemma strtoull_decimal: "strtoull (decimal n) = (if n < 2 ^ 64 then int n else 2 ^ 64 - 1, [])"
proof (cases "n = 0")
  case True
  have "strtoull (decimal 0) = (0, [])" by code_simp
  then show ?thesis using True by simp
next
  case False
  obtain c cs where c: "decimal n = c # cs" using decimal_chars(2) [of n] by (cases "decimal n") auto
  then obtain k where k: "k < (10 :: nat)" "c = char_of (48 + k)" using decimal_chars(1) [of n] by (auto simp: digit_chars_def)
  have "c \<noteq> CHR ''0''" using decimal_head [of n] c False by simp
  moreover have "\<not> c_isspace (of_char c)" "c \<noteq> CHR ''-''" "c \<noteq> CHR ''+''" using digit_char(2-4) [OF k(1)] k(2) by simp_all
  moreover have "digits_in 10 (c # cs) = c # cs" using digits_in_all [OF decimal_chars(1) [of n]] c by simp
  moreover have "digits_value 10 (c # cs) = int n" using decimal_value [of n] c by simp
  ultimately show ?thesis unfolding c by (simp add: strtoull_def Let_def)
qed

text \<open>
  A number in a step means what it says: the decimal text of a number that fits 32 bits is read as that number, and
  one that does not fit is refused, however long it is.
\<close>

theorem number_decimal:
  "number (decimal n) = (if n < 2 ^ 32 then Inr (of_nat n) else Inl (Exited (''invalid number: '' @ decimal n)))"
  using strtoull_decimal [of n] decimal_chars(2) [of n] by (auto simp: number_def)

section \<open>Message data\<close>

lemma hex_pair:
  assumes "0 \<le> digit_value h" and "0 \<le> digit_value l"
  shows "hex (word_of_int (push_bit 4 (digit_value h) OR digit_value l) # d) = hex_lower h # hex_lower l # hex d"
proof -
  have h: "0 \<le> hex_value (of_char h)" "0 \<le> hex_value (of_char l)" using assms by (simp_all add: digit_value_def)
  show ?thesis
    using join_nibbles [OF h(1) hex_value_code(1) [OF h(1)] h(2) hex_value_code(1) [OF h(2)]]
      hex_value_code(2) [OF h(1)] hex_value_code(2) [OF h(2)]
    by (simp add: hex_def digit_value_def)
qed

lemma hex_pairs_hex: "hex_pairs s = Some d \<Longrightarrow> hex d = map hex_lower s \<and> length s = 2 * length d"
proof (induction s arbitrary: d rule: hex_pairs.induct)
  case (3 h l s)
  then obtain e where e: "hex_pairs s = Some e" "d = word_of_int (push_bit 4 (digit_value h) OR digit_value l) # e"
    "0 \<le> digit_value h" "0 \<le> digit_value l" by (auto split: if_splits)
  then show ?case using "3.IH" hex_pair by simp
qed (simp_all add: hex_def)

lemma hex_pairs_of_hex: "hex_pairs (hex d) = Some d"
proof (induction d)
  case (Cons b d)
  have "hex (b # d) = hex_digits ! unat (drop_bit 4 b) # hex_digits ! unat (b AND 15) # hex d" by (simp add: hex_def)
  moreover have "digit_value (hex_digits ! unat (drop_bit 4 b)) = uint (drop_bit 4 b)"
    "digit_value (hex_digits ! unat (b AND 15)) = uint (b AND 15)"
    using hex_digit_value(2) [OF nibble_bounds(1) [of b]] hex_digit_value(2) [OF nibble_bounds(2) [of b]]
    by (simp_all add: digit_value_def)
  ultimately show ?case using Cons by (simp add: nibbles_join)
qed (simp add: hex_def)

lemma digit_value_lower: "digit_value (hex_lower c) = digit_value c"
  by (auto simp: digit_value_def hex_lower_def hex_value_def of_char_of)

lemma hex_pairs_lower: "hex_pairs (map hex_lower s) = hex_pairs s"
  by (induction s rule: hex_pairs.induct) (simp_all add: digit_value_lower)

text \<open>
  The data of a message in a script are read as written: hexadecimal text of at most 4128 bytes gives exactly the
  bytes it spells, in upper or lower case, at the head of \<open>Data\<close>, and nothing else is accepted.
\<close>

theorem set_data_exact:
  "(case set_data text m of
      Inr m' \<Rightarrow> (\<exists>d. length d \<le> data_capacity \<and> map hex_lower text = hex d \<and>
        m' = m\<lparr>Data := d @ drop (length d) (Data m), DataSize := of_nat (length d)\<rparr>)
    | Inl e \<Rightarrow> e = Exited (''bad hex: '' @ text) \<and> (\<nexists>d. length d \<le> data_capacity \<and> map hex_lower text = hex d))"
proof (cases "length text mod 2 \<noteq> 0 \<or> length text div 2 > data_capacity")
  case True
  have "length (hex d) = 2 * length d" for d by (induction d) (simp_all add: hex_def)
  then have "\<nexists>d. length d \<le> data_capacity \<and> map hex_lower text = hex d" using True by (metis length_map mod_mult_self1_is_0 nonzero_mult_div_cancel_left not_le zero_neq_numeral)
  then show ?thesis using True by (simp add: set_data_def)
next
  case False
  show ?thesis
  proof (cases "hex_pairs text")
    case None
    then have "\<nexists>d. length d \<le> data_capacity \<and> map hex_lower text = hex d"
      using hex_pairs_of_hex hex_pairs_lower [of "text"] by (metis option.distinct(1))
    then show ?thesis using None False by (simp add: set_data_def)
  next
    case (Some d)
    from hex_pairs_hex [OF this] show ?thesis using Some False
      by (auto simp: set_data_def copy_at_def intro!: exI [of _ d])
  qed
qed

section \<open>Handles\<close>

lemma eq_word_lower: "eq_word a b \<longleftrightarrow> map lower a = map lower b"
  by (induction a b rule: eq_word.induct) simp_all

lemma slot_update_spec:
  "slot_update slots name h = None \<longleftrightarrow> slot_find slots name = None"
  "slot_update slots name h = Some slots' \<Longrightarrow> slot_find slots' n = (if eq_word n name then Some h else slot_find slots n)"
proof -
  show "slot_update slots name h = None \<longleftrightarrow> slot_find slots name = None"
    by (induction slots name h rule: slot_update.induct) (auto split: if_splits)
  show "slot_update slots name h = Some slots' \<Longrightarrow> slot_find slots' n = (if eq_word n name then Some h else slot_find slots n)"
    by (induction slots arbitrary: slots') (auto simp: eq_word_lower split: if_splits)
qed

lemma slot_find_append:
  "slot_find (slots @ [(name, h)]) n =
     (case slot_find slots n of Some k \<Rightarrow> Some k | None \<Rightarrow> if eq_word name n then Some h else None)"
  by (induction slots) auto

text \<open>
  A handle stored under a name is what the name gives from then on, in any spelling by case, and no other name is
  affected; storing fails only for a name of 24 characters or more, or for a new name when all 128 places are taken.
\<close>

theorem slots_exact:
  "(case slot_set name h slots of
      Inr slots' \<Rightarrow> slot_get name slots' = Inr h \<and> slot_get n slots' = (if eq_word n name then Inr h else slot_get n slots)
    | Inl e \<Rightarrow> length name \<ge> 24 \<or> length slots = 128 \<and> slot_find slots name = None)"
proof (cases "slot_set name h slots")
  case (Inl e)
  then show ?thesis by (auto simp: slot_set_def slot_update_spec(1) split: if_splits option.splits)
next
  case (Inr slots')
  have find: "slot_find slots' k = (if eq_word k name then Some h else slot_find slots k)" for k
  proof (cases "slot_update slots name h")
    case None
    then have "slots' = slots @ [(name, h)]" "slot_find slots name = None"
      using Inr slot_update_spec(1) [of slots name h] by (auto simp: slot_set_def split: if_splits)
    moreover have "slot_find slots k = slot_find slots name" if "eq_word k name"
      using that by (induction slots) (auto simp: eq_word_lower)
    ultimately show ?thesis by (auto simp: slot_find_append eq_word_lower split: option.split)
  next
    case (Some sl)
    then have "slots' = sl" using Inr by (auto simp: slot_set_def split: if_splits)
    then show ?thesis using slot_update_spec(2) [OF Some] by simp
  qed
  have "eq_word name name" by (simp add: eq_word_lower)
  then show ?thesis using Inr find by (simp add: slot_get_def)
qed

lemma digits_value_nonneg: "0 \<le> base \<Longrightarrow> 0 \<le> digits_value base (digits_in base s)"
proof -
  assume b: "0 \<le> base"
  have "0 \<le> n \<Longrightarrow> list_all (\<lambda>c. 0 \<le> digit_value c) cs \<Longrightarrow> 0 \<le> foldl (\<lambda>n c. n * base + digit_value c) n cs" for n cs
    using b by (induction cs arbitrary: n) auto
  moreover have "list_all (\<lambda>c. 0 \<le> digit_value c) (digits_in base s)"
    by (auto simp: digits_in_def list_all_iff dest: set_takeWhileD)
  ultimately show ?thesis by (simp add: digits_value_def)
qed

end
