(* ===== verification/Library_Calls.thy ===== *)
theory Library_Calls
  imports Mongoose_Base
begin

text \<open>
  The J2534 library as its clients see it, the programs under tools/: calls, what they answer, and the laws the clients
  rely on (\<open>passthru_library\<close>). A library is a function with a state of its own.
\<close>

section \<open>Calls of the library\<close>

datatype j2534_call =
    J_Open "string option" | J_Close u32 | J_Version u32 | J_Connect u32 u32 u32 u32 | J_Disconnect u32
  | J_Start_filter u32 u32 passthru_msg passthru_msg "passthru_msg option" | J_Stop_filter u32 u32
  | J_Read u32 u32 u32 | J_Write u32 "passthru_msg list" u32 | J_Start_periodic u32 passthru_msg u32 | J_Stop_periodic u32 u32
  | J_Ioctl u32 u32 "(u32 \<times> u32) list option" bool | J_Last_error

text \<open>What a call answers: its result, the ID in its out parameter, the count of a read or a write, and the messages read.\<close>

record reply =
  ly_result :: int
  ly_id :: u32
  ly_count :: u32
  ly_messages :: "passthru_msg list"

type_synonym 'w library = "j2534_call \<Rightarrow> 'w \<Rightarrow> reply \<times> 'w"

text \<open>A zeroed message with a protocol and flags.\<close>

definition blank_message :: "u32 \<Rightarrow> u32 \<Rightarrow> passthru_msg" where
  "blank_message protocol flags = \<lparr>ProtocolID = protocol, RxStatus = 0, TxFlags = flags, Timestamp = 0, DataSize = 0,
     ExtraDataIndex = 0, Data = replicate data_capacity 0\<rparr>"

text \<open>The status codes after which a device or a channel is gone (\<open>fatal\<close> in tools/socketcan_bridge.c).\<close>

definition fatal :: "int \<Rightarrow> bool" where
  "fatal st =
     (st = status_value ERR_DEVICE_NOT_CONNECTED \<or> st = status_value ERR_INVALID_CHANNEL_ID \<or>
      st = status_value ERR_INVALID_DEVICE_ID)"

section \<open>What clients rely on\<close>

text \<open>
  A read gives at most the messages asked for, and none with a fatal status or an empty buffer if it does not wait for several; a write that
  does not wait counts no more than it was given.
\<close>

locale passthru_library =
  fixes lib :: "'w library"
  assumes read_within: "ly_count (fst (lib (J_Read c n t) w)) \<le> n"
    and read_messages: "length (ly_messages (fst (lib (J_Read c n t) w))) = unat (ly_count (fst (lib (J_Read c n t) w)))"
    and read_nothing: "t = 0 \<or> n = 1 \<Longrightarrow>
      fatal (ly_result (fst (lib (J_Read c n t) w))) \<or> ly_result (fst (lib (J_Read c n t) w)) = status_value ERR_BUFFER_EMPTY \<Longrightarrow>
      ly_count (fst (lib (J_Read c n t) w)) = 0"
    and write_within: "unat (ly_count (fst (lib (J_Write c ms 0) w))) \<le> length ms"

end
