(* ===== verification/Script_Runner.thy ===== *)
theory Script_Runner
  imports Script_Values Library_Calls Effects
begin

text \<open>
  The step interpreter of tools/script_runner.c: one definition per verb, in the order of \<open>run_step\<close>, and the loop over
  the lines of a script. The library is an argument, \<open>lib\<close>, with a state of its own; \<open>sc_calls\<close> records the calls made
  and \<open>sc_stats\<close> what \<open>readstats\<close> printed. Other output is left out. \<open>dry\<close> is the dry run, in which every call is a
  success that produced nothing.
\<close>

section \<open>Calls of the library\<close>

record 'w script =
  sc_slots :: slots
  sc_lib :: 'w
  sc_calls :: "j2534_call list"
  sc_stats :: "stats list"

type_synonym ('w, 'a) step = "(script_stop, 'w script, 'a) action"

definition call_lib :: "'w library \<Rightarrow> j2534_call \<Rightarrow> ('w, reply) step" where
  "call_lib lib c s =
     (case lib c (sc_lib s) of (r, w) \<Rightarrow> (Inr r, s\<lparr>sc_lib := w, sc_calls := sc_calls s @ [c]\<rparr>))"

text \<open>\<open>CALL\<close>; the out parameters of the steps start as 1.\<close>

definition CALL :: "bool \<Rightarrow> 'w library \<Rightarrow> j2534_call \<Rightarrow> ('w, reply) step" where
  "CALL dry lib c =
     (if dry then ret \<lparr>ly_result = 0, ly_id = 1, ly_count = 1, ly_messages = []\<rparr> else call_lib lib c)"

definition log_result :: "'w library \<Rightarrow> int \<Rightarrow> ('w, unit) step" where
  "log_result lib result =
     only_if (result \<noteq> 0) (andthen (call_lib lib J_Last_error) (\<lambda>_. ret ()))"

text \<open>The common end of a call: log it, and fail the step if it failed.\<close>

definition checked :: "bool \<Rightarrow> 'w library \<Rightarrow> reply \<Rightarrow> ('w, unit) step" where
  "checked dry lib r =
     andthen (only_if (\<not> dry) (log_result lib (ly_result r))) (\<lambda>_.
     throw_if (ly_result r \<noteq> 0) (Step_failed []))"

definition set_slot :: "string \<Rightarrow> u32 \<Rightarrow> ('w, unit) step" where
  "set_slot name handle s =
     (case slot_set name handle (sc_slots s) of
        Inl e \<Rightarrow> (Inl e, s)
      | Inr slots \<Rightarrow> (Inr (), s\<lparr>sc_slots := slots\<rparr>))"

definition get_slot :: "string \<Rightarrow> ('w, u32) step" where
  "get_slot name s = (slot_get name (sc_slots s), s)"

definition need :: "string list \<Rightarrow> nat \<Rightarrow> ('w, unit) step" where
  "need t n = throw_if (length t < n)
     (Step_failed (''step '' @ hd t @ '' needs '' @ decimal (n - 1) @ '' arguments''))"

section \<open>Steps\<close>

definition step_sleep :: "string list \<Rightarrow> ('w, unit) step" where
  "step_sleep t = andthen (need t 2) (\<lambda>_. andthen (lift (number (t ! 1))) (\<lambda>_. ret ()))"

definition step_open :: "bool \<Rightarrow> 'w library \<Rightarrow> string option \<Rightarrow> string list \<Rightarrow> ('w, unit) step" where
  "step_open dry lib name t =
     andthen (need t 2) (\<lambda>_.
     andthen (CALL dry lib (J_Open name)) (\<lambda>r.
     andthen (checked dry lib r) (\<lambda>_.
     set_slot (t ! 1) (ly_id r))))"

text \<open>The steps that make one call on one handle.\<close>

definition step_handle :: "bool \<Rightarrow> 'w library \<Rightarrow> (u32 \<Rightarrow> j2534_call) \<Rightarrow> string list \<Rightarrow> ('w, unit) step" where
  "step_handle dry lib c t =
     andthen (need t 2) (\<lambda>_.
     andthen (get_slot (t ! 1)) (\<lambda>handle.
     andthen (CALL dry lib (c handle)) (\<lambda>r.
     checked dry lib r)))"

definition step_connect :: "bool \<Rightarrow> 'w library \<Rightarrow> string list \<Rightarrow> ('w, unit) step" where
  "step_connect dry lib t =
     andthen (need t 6) (\<lambda>_.
     andthen (lift (lookup_word protocols (t ! 2))) (\<lambda>protocol.
     andthen (lift (lookup_flags tx_flags (t ! 3))) (\<lambda>flags.
     andthen (lift (number (t ! 4))) (\<lambda>baud.
     andthen (get_slot (t ! 1)) (\<lambda>device.
     andthen (CALL dry lib (J_Connect device protocol flags baud)) (\<lambda>r.
     andthen (checked dry lib r) (\<lambda>_.
     set_slot (t ! 5) (ly_id r))))))))"

definition step_filter :: "bool \<Rightarrow> 'w library \<Rightarrow> string list \<Rightarrow> ('w, unit) step" where
  "step_filter dry lib t =
     andthen (need t 8) (\<lambda>_.
     andthen (lift (lookup_word filter_types (t ! 2))) (\<lambda>type.
     andthen (lift (lookup_word protocols (t ! 3))) (\<lambda>protocol.
     andthen (lift (lookup_flags tx_flags (t ! 4))) (\<lambda>flags.
     let has_flow = (type = FLOW_CONTROL_FILTER); blank = blank_message protocol flags in
     andthen (only_if has_flow (need t 9)) (\<lambda>_.
     andthen (lift (set_data (t ! 5) blank)) (\<lambda>msk.
     andthen (lift (set_data (t ! 6) blank)) (\<lambda>pattern.
     andthen (if has_flow then andthen (lift (set_data (t ! 7) blank)) (\<lambda>m. ret (Some m)) else ret None) (\<lambda>flow.
     andthen (get_slot (t ! 1)) (\<lambda>chan.
     andthen (CALL dry lib (J_Start_filter chan type msk pattern flow)) (\<lambda>r.
     andthen (checked dry lib r) (\<lambda>_.
     set_slot (t ! (if has_flow then 8 else 7)) (ly_id r))))))))))))"

text \<open>\<open>stopfilter\<close> and \<open>stopperiodic\<close>.\<close>

definition step_two_handles :: "bool \<Rightarrow> 'w library \<Rightarrow> (u32 \<Rightarrow> u32 \<Rightarrow> j2534_call) \<Rightarrow> string list \<Rightarrow> ('w, unit) step" where
  "step_two_handles dry lib c t =
     andthen (need t 3) (\<lambda>_.
     andthen (get_slot (t ! 1)) (\<lambda>chan.
     andthen (get_slot (t ! 2)) (\<lambda>i.
     andthen (CALL dry lib (c chan i)) (\<lambda>r.
     checked dry lib r))))"

definition read_failed :: "int \<Rightarrow> bool" where
  "read_failed result =
     (result \<noteq> 0 \<and> result \<noteq> status_value ERR_BUFFER_EMPTY \<and> result \<noteq> status_value ERR_TIMEOUT)"

text \<open>
  The loops of \<open>readstats\<close> and \<open>read\<close>. The list says, after each round, whether there is time for another; the search of
  \<open>note_messages\<close> always ends (\<open>readstats_summary\<close>). The first gives the accounts and whether the step failed.
\<close>

definition note_round :: "reply \<Rightarrow> stats \<Rightarrow> stats" where
  "note_round r s =
     the (note_messages (take (unat (ly_count r)) (ly_messages r))
       (s\<lparr>ss_rounds := ss_rounds s + 1, ss_empty_rounds := ss_empty_rounds s + (if ly_count r = 0 then 1 else 0)\<rparr>))"

fun stats_loop :: "'w library \<Rightarrow> u32 \<Rightarrow> u32 \<Rightarrow> u32 \<Rightarrow> bool list \<Rightarrow> stats \<Rightarrow> ('w, stats \<times> bool) step" where
  "stats_loop lib chan wanted timeout rounds s =
     andthen (call_lib lib (J_Read chan wanted timeout)) (\<lambda>r.
     if ly_count r > wanted then ret (s, True)
     else
       let s = note_round r s in
       if read_failed (ly_result r) then andthen (log_result lib (ly_result r)) (\<lambda>_. ret (s, True))
       else case rounds of
         [] \<Rightarrow> ret (s, False)
       | b # rounds \<Rightarrow> if b then stats_loop lib chan wanted timeout rounds s else ret (s, False))"

fun read_loop :: "'w library \<Rightarrow> u32 \<Rightarrow> u32 \<Rightarrow> u32 \<Rightarrow> bool list \<Rightarrow> ('w, unit) step" where
  "read_loop lib chan wanted timeout rounds =
     andthen (call_lib lib (J_Read chan wanted timeout)) (\<lambda>r.
     andthen (log_result lib (ly_result r)) (\<lambda>_.
     andthen (throw_if (ly_count r > wanted) (Step_failed (''ReadMsgs returned '' @ decimal (unat (ly_count r))))) (\<lambda>_.
     andthen (throw_if (read_failed (ly_result r)) (Step_failed [])) (\<lambda>_.
     case rounds of
       [] \<Rightarrow> ret ()
     | b # rounds \<Rightarrow> if b then read_loop lib chan wanted timeout rounds else ret ()))))"

declare stats_loop.simps [simp del] read_loop.simps [simp del]

text \<open>What the reading steps meet: whether there is memory for the messages, and the time left after each round.\<close>

record step_env =
  en_memory :: bool
  en_more :: "bool list"

definition step_readstats :: "bool \<Rightarrow> 'w library \<Rightarrow> step_env \<Rightarrow> string list \<Rightarrow> ('w, unit) step" where
  "step_readstats dry lib env t =
     andthen (need t 5) (\<lambda>_.
     andthen (get_slot (t ! 1)) (\<lambda>chan.
     andthen (lift (number (t ! 2))) (\<lambda>wanted.
     andthen (lift (number (t ! 3))) (\<lambda>timeout.
     andthen (lift (number (t ! 4))) (\<lambda>seconds.
     andthen (throw_if (wanted = 0 \<or> wanted > 1024) (Step_failed ''readstats count must be 1..1024'')) (\<lambda>_.
     only_if (\<not> dry)
       (andthen (throw_if (\<not> en_memory env) (Step_failed ''out of memory'')) (\<lambda>_.
        andthen (stats_loop lib chan wanted timeout (en_more env) stats_new) (\<lambda>(stats, failed).
        andthen (modify (\<lambda>s. s\<lparr>sc_stats := sc_stats s @ [stats]\<rparr>)) (\<lambda>_.
        throw_if failed (Step_failed [])))))))))))"

text \<open>\<open>read\<close> is one round, \<open>readfor\<close> goes on while its seconds last.\<close>

definition step_read :: "bool \<Rightarrow> 'w library \<Rightarrow> step_env \<Rightarrow> string list \<Rightarrow> ('w, unit) step" where
  "step_read dry lib env t =
     andthen (need t 4) (\<lambda>_.
     andthen (get_slot (t ! 1)) (\<lambda>chan.
     andthen (lift (number (t ! 2))) (\<lambda>wanted.
     andthen (lift (number (t ! 3))) (\<lambda>timeout.
     andthen (if eq_word (hd t) ''readfor'' then andthen (need t 5) (\<lambda>_. lift (number (t ! 4))) else ret 0) (\<lambda>seconds.
     andthen (throw_if (wanted = 0 \<or> wanted > 256) (Step_failed ''read count must be 1..256'')) (\<lambda>_.
     only_if (\<not> dry)
       (andthen (throw_if (\<not> en_memory env) (Step_failed ''out of memory'')) (\<lambda>_.
        read_loop lib chan wanted timeout (if seconds = 0 then [] else en_more env)))))))))"

definition step_write :: "bool \<Rightarrow> 'w library \<Rightarrow> string list \<Rightarrow> ('w, unit) step" where
  "step_write dry lib t =
     andthen (need t 6) (\<lambda>_.
     andthen (lift (lookup_word protocols (t ! 2))) (\<lambda>protocol.
     andthen (lift (lookup_flags tx_flags (t ! 3))) (\<lambda>flags.
     andthen (lift (set_data (t ! 4) (blank_message protocol flags))) (\<lambda>m.
     andthen (lift (number (t ! 5))) (\<lambda>timeout.
     andthen (get_slot (t ! 1)) (\<lambda>chan.
     andthen (CALL dry lib (J_Write chan [m] timeout)) (\<lambda>r.
     checked dry lib r)))))))"

definition step_periodic :: "bool \<Rightarrow> 'w library \<Rightarrow> string list \<Rightarrow> ('w, unit) step" where
  "step_periodic dry lib t =
     andthen (need t 7) (\<lambda>_.
     andthen (lift (lookup_word protocols (t ! 2))) (\<lambda>protocol.
     andthen (lift (lookup_flags tx_flags (t ! 3))) (\<lambda>flags.
     andthen (lift (set_data (t ! 4) (blank_message protocol flags))) (\<lambda>m.
     andthen (lift (number (t ! 5))) (\<lambda>interval.
     andthen (get_slot (t ! 1)) (\<lambda>chan.
     andthen (CALL dry lib (J_Start_periodic chan m interval)) (\<lambda>r.
     andthen (checked dry lib r) (\<lambda>_.
     set_slot (t ! 6) (ly_id r)))))))))"

text \<open>The parameters of \<open>getconfig\<close> and the pairs of \<open>setconfig\<close>; at most 64 are looked at.\<close>

fun config_words :: "string list \<Rightarrow> script_stop + (u32 \<times> u32) list" where
  "config_words [] = Inr []"
| "config_words (part # parts) =
     (case number part of
        Inl e \<Rightarrow> Inl e
      | Inr p \<Rightarrow> (case config_words parts of Inl e \<Rightarrow> Inl e | Inr ps \<Rightarrow> Inr ((p, 0) # ps)))"

fun config_pairs :: "string list \<Rightarrow> script_stop + (u32 \<times> u32) list" where
  "config_pairs [] = Inr []"
| "config_pairs (part # parts) =
     (if CHR ''='' \<notin> set part then Inl (Step_failed ''setconfig needs PARAM=VALUE'')
      else case number (takeWhile (\<lambda>c. c \<noteq> CHR ''='') part) of
        Inl e \<Rightarrow> Inl e
      | Inr p \<Rightarrow>
          (case number (tl (dropWhile (\<lambda>c. c \<noteq> CHR ''='') part)) of
             Inl e \<Rightarrow> Inl e
           | Inr v \<Rightarrow> (case config_pairs parts of Inl e \<Rightarrow> Inl e | Inr ps \<Rightarrow> Inr ((p, v) # ps))))"

definition config_list :: "(string list \<Rightarrow> script_stop + (u32 \<times> u32) list) \<Rightarrow> string \<Rightarrow> script_stop + (u32 \<times> u32) list" where
  "config_list read_parts text =
     (if length text \<ge> 512 then Inl (Step_failed ''parameter list too long'')
      else read_parts (take 64 (split_on (CHR '','') text)))"

definition step_getconfig :: "bool \<Rightarrow> 'w library \<Rightarrow> string list \<Rightarrow> ('w, unit) step" where
  "step_getconfig dry lib t =
     andthen (need t 3) (\<lambda>_.
     andthen (lift (config_list config_words (t ! 2))) (\<lambda>params.
     andthen (get_slot (t ! 1)) (\<lambda>chan.
     andthen (CALL dry lib (J_Ioctl chan GET_CONFIG (Some params) False)) (\<lambda>r.
     only_if (\<not> dry) (log_result lib (ly_result r))))))"

definition step_setconfig :: "bool \<Rightarrow> 'w library \<Rightarrow> string list \<Rightarrow> ('w, unit) step" where
  "step_setconfig dry lib t =
     andthen (need t 3) (\<lambda>_.
     andthen (lift (config_list config_pairs (t ! 2))) (\<lambda>params.
     andthen (get_slot (t ! 1)) (\<lambda>chan.
     andthen (CALL dry lib (J_Ioctl chan SET_CONFIG (Some params) False)) (\<lambda>r.
     checked dry lib r))))"

definition step_ioctl :: "bool \<Rightarrow> 'w library \<Rightarrow> string list \<Rightarrow> ('w, unit) step" where
  "step_ioctl dry lib t =
     andthen (need t 3) (\<lambda>_.
     andthen (lift (lookup_word ioctls (t ! 2))) (\<lambda>i.
     andthen (throw_if (i = GET_CONFIG \<or> i = SET_CONFIG \<or> i = READ_VBATT \<or> i = READ_PROG_VOLTAGE)
       (Step_failed (''use getconfig/setconfig/vbatt for '' @ t ! 2))) (\<lambda>_.
     andthen (get_slot (t ! 1)) (\<lambda>handle.
     andthen (CALL dry lib (J_Ioctl handle i None False)) (\<lambda>r.
     checked dry lib r)))))"

definition run_step :: "bool \<Rightarrow> 'w library \<Rightarrow> string option \<Rightarrow> step_env \<Rightarrow> string list \<Rightarrow> ('w, unit) step" where
  "run_step dry lib name env t =
     (let verb = hd t in
      if eq_word verb ''sleep'' then step_sleep t
      else if eq_word verb ''mark'' then ret ()
      else if eq_word verb ''open'' then step_open dry lib name t
      else if eq_word verb ''close'' then step_handle dry lib J_Close t
      else if eq_word verb ''version'' then step_handle dry lib J_Version t
      else if eq_word verb ''connect'' then step_connect dry lib t
      else if eq_word verb ''disconnect'' then step_handle dry lib J_Disconnect t
      else if eq_word verb ''filter'' then step_filter dry lib t
      else if eq_word verb ''stopfilter'' then step_two_handles dry lib J_Stop_filter t
      else if eq_word verb ''readstats'' then step_readstats dry lib env t
      else if eq_word verb ''read'' \<or> eq_word verb ''readfor'' then step_read dry lib env t
      else if eq_word verb ''write'' then step_write dry lib t
      else if eq_word verb ''periodic'' then step_periodic dry lib t
      else if eq_word verb ''stopperiodic'' then step_two_handles dry lib J_Stop_periodic t
      else if eq_word verb ''getconfig'' then step_getconfig dry lib t
      else if eq_word verb ''setconfig'' then step_setconfig dry lib t
      else if eq_word verb ''vbatt'' then step_handle dry lib (\<lambda>device. J_Ioctl device READ_VBATT None True) t
      else if eq_word verb ''ioctl'' then step_ioctl dry lib t
      else raise (Step_failed (''unknown step: '' @ verb)))"

section \<open>Lines\<close>

text \<open>\<open>fgets\<close> into 512 bytes: what it reads of a non-empty file, the rest, and whether it met the end of the file.\<close>

definition newline :: char where "newline = CHR 0x0A"

definition read_line :: "string \<Rightarrow> string \<times> string \<times> bool" where
  "read_line content =
     (let n = length (takeWhile (\<lambda>c. c \<noteq> newline) content) in
      if n < length content \<and> n < 511 then (take (n + 1) content, drop (n + 1) content, False)
      else (take 511 content, drop 511 content, length content < 511))"

text \<open>\<open>strtok\<close> with the white space of a script.\<close>

definition blank :: "char \<Rightarrow> bool" where
  "blank c = (c = CHR '' '' \<or> c = CHR 0x09 \<or> c = CHR 0x0D \<or> c = newline)"

fun words_from :: "string \<Rightarrow> string \<Rightarrow> string list" where
  "words_from w [] = (if w = [] then [] else [w])"
| "words_from w (c # s) =
     (if blank c then (if w = [] then words_from [] s else w # words_from [] s) else words_from (w @ [c]) s)"

definition line_tokens :: "string \<Rightarrow> string list" where
  "line_tokens line = take 12 (words_from [] (takeWhile (\<lambda>c. c \<noteq> CHR ''#'') line))"

text \<open>The C string in the buffer ends at the first NUL.\<close>

definition line_of :: "string \<times> bool \<Rightarrow> script_stop + string" where
  "line_of r =
     (let line = takeWhile (\<lambda>c. c \<noteq> CHR 0x00) (fst r) in
      if length line = 511 \<and> last line \<noteq> newline \<and> \<not> snd r then Inl (Step_failed ''line too long (over 510 characters)'')
      else if line \<noteq> [] \<and> last line \<noteq> newline \<and> \<not> snd r then Inl (Step_failed ''line has an embedded NUL'')
      else Inr line)"

definition run_line :: "bool \<Rightarrow> 'w library \<Rightarrow> string option \<Rightarrow> step_env \<Rightarrow> string \<Rightarrow> ('w, unit) step" where
  "run_line dry lib name env line =
     (let t = line_tokens line in only_if (t \<noteq> []) (run_step dry lib name env t))"

function run_script :: "bool \<Rightarrow> 'w library \<Rightarrow> string option \<Rightarrow> (nat \<Rightarrow> step_env) \<Rightarrow> nat \<Rightarrow> string \<Rightarrow> ('w, unit) step" where
  "run_script dry lib name env n content =
     (if content = [] then ret ()
      else
        let (chunk, rest, eof) = read_line content in
        andthen (lift (line_of (chunk, eof))) (\<lambda>line.
        andthen (run_line dry lib name (env n) line) (\<lambda>_.
        run_script dry lib name env (n + 1) rest)))"
  by pat_completeness auto
termination
  by (relation "measure (\<lambda>(dry, lib, name, env, n, content). length content)")
    (auto simp: read_line_def Let_def split: if_splits)

declare run_script.simps [simp del]

definition script_new :: "'w \<Rightarrow> 'w script" where
  "script_new w = \<lparr>sc_slots = [], sc_lib = w, sc_calls = [], sc_stats = []\<rparr>"

text \<open>The exit code; \<open>None\<close> for a file that cannot be opened.\<close>

definition script_run ::
    "bool \<Rightarrow> 'w library \<Rightarrow> string option \<Rightarrow> (nat \<Rightarrow> step_env) \<Rightarrow> string option \<Rightarrow> 'w \<Rightarrow> int \<times> 'w script" where
  "script_run dry lib name env file w =
     (case file of
        None \<Rightarrow> (2, script_new w)
      | Some content \<Rightarrow>
          (case run_script dry lib name env 1 content (script_new w) of
             (Inr _, s) \<Rightarrow> (0, s)
           | (Inl (Step_failed _), s) \<Rightarrow> (1, s)
           | (Inl (Exited _), s) \<Rightarrow> (2, s)))"

end
