(* ===== verification/Native_Library.thy ===== *)
theory Native_Library
  imports Library_Calls Api_Properties
begin

text \<open>
  The model of the API as the library of a client: \<open>native\<close> answers its calls with the fourteen functions of
  src/j2534.cpp and keeps the laws of \<open>passthru_library\<close>.
\<close>

section \<open>Calls on the model of the API\<close>

text \<open>
  What calls meet: the steps of the reader threads before each, and for each the arguments that stand for
  the adapter, the clock and the memory in the model of the API.
\<close>

record native_env =
  ne_before :: "(nat \<times> ses_event list) list"
  ne_memory :: "exn + unit"
  ne_transport :: "selector \<Rightarrow> exn + unit"
  ne_closing :: "ses_event list"
  ne_stop :: "exn + unit"
  ne_waits :: "rx_event list list"
  ne_now :: int
  ne_clock :: "nat \<Rightarrow> int"
  ne_received :: "rx_event list"

fun native_one :: "native_env \<Rightarrow> j2534_call \<Rightarrow> api_call" where
  "native_one e (J_Open name) = Open (ne_memory e) (ne_transport e) name True"
| "native_one e (J_Close i) = Close (ne_closing e) (ne_stop e) i"
| "native_one e (J_Version i) = Read_version i True True True"
| "native_one e (J_Connect i protocol flags baud) = Connect (ne_memory e) i protocol flags baud True"
| "native_one e (J_Disconnect i) = Disconnect i"
| "native_one e (J_Start_filter i type msk pattern flow) = Start_filter (ne_memory e) i type (Some msk) (Some pattern) flow True"
| "native_one e (J_Stop_filter i f) = Stop_filter i f"
| "native_one e (J_Read i count timeout) = Read_msgs (ne_waits e) i True (Some count) timeout"
| "native_one e (J_Write i messages timeout) =
     Write_msgs (ne_now e) (ne_clock e) (ne_received e) i (Some messages) (Some (of_nat (length messages))) timeout"
| "native_one e (J_Start_periodic i message interval) = Start_periodic (ne_memory e) i (Some message) True interval"
| "native_one e (J_Stop_periodic i m) = Stop_periodic i m"
| "native_one e (J_Ioctl i ioctl list given) = Io_ctl i ioctl (map_option (\<lambda>ps. (of_nat (length ps), Some ps)) list) given"
| "native_one e J_Last_error = Get_last_error True"

definition native_step :: "native_env \<Rightarrow> j2534_call \<Rightarrow> api_call list" where
  "native_step e c = map (\<lambda>(k, es). Meanwhile k es) (ne_before e) @ [native_one e c]"

fun native_calls :: "(nat \<Rightarrow> native_env) \<Rightarrow> nat \<Rightarrow> j2534_call list \<Rightarrow> api_call list" where
  "native_calls net n [] = []"
| "native_calls net n (c # cs) = native_step (net n) c @ native_calls net (n + 1) cs"

text \<open>The messages a call puts in the buffer of its client, and the count it stores.\<close>

fun native_messages :: "native_env \<Rightarrow> j2534_call \<Rightarrow> world \<Rightarrow> passthru_msg list" where
  "native_messages e (J_Read i count timeout) w = fst (snd (PassThruReadMsgs (ne_waits e) i True (Some count) timeout w))"
| "native_messages e c w = []"

fun native_count :: "native_env \<Rightarrow> j2534_call \<Rightarrow> world \<Rightarrow> nat" where
  "native_count e (J_Write i messages timeout) w =
     fst (snd (PassThruWriteMsgs (ne_now e) (ne_clock e) (ne_received e) i (Some messages) (Some (of_nat (length messages))) timeout w))"
| "native_count e c w = length (native_messages e c w)"

definition native :: "(nat \<Rightarrow> native_env) \<Rightarrow> (world \<times> nat) library" where
  "native net c s =
     (case s of (w, n) \<Rightarrow>
        let e = net n; w' = run_calls (map (\<lambda>(k, es). Meanwhile k es) (ne_before e)) w;
            (st, i, w'') = perform (native_one e c) w'
        in (\<lparr>ly_result = status_value st, ly_id = (case i of None \<Rightarrow> 0 | Some i \<Rightarrow> i),
              ly_count = of_nat (native_count e c w'), ly_messages = native_messages e c w'\<rparr>, (w'', n + 1)))"

lemma run_calls_append: "run_calls (cs @ ds) w = run_calls ds (run_calls cs w)"
  by (induction cs arbitrary: w) simp_all

lemma native_calls_snoc: "native_calls net n (cs @ [c]) = native_calls net n cs @ native_step (net (n + length cs)) c"
  by (induction cs arbitrary: n) simp_all

lemma native_state: "snd (native net c (w, n)) = (run_calls (native_step (net n) c) w, n + 1)"
  by (simp add: native_def native_step_def run_calls_append case_prod_unfold Let_def)

section \<open>The laws\<close>

definition brings_nothing :: "status \<Rightarrow> bool" where
  "brings_nothing st \<longleftrightarrow> fatal (status_value st) \<or> st = ERR_BUFFER_EMPTY"

lemma read_result_something:
  "rx_read_result r k n timed = (Inl e, r') \<Longrightarrow> brings_nothing (exn_status e) \<Longrightarrow> k = 0"
  by (auto simp: rx_read_result_def fatal_def brings_nothing_def split: if_splits)

text \<open>One round of the loop of a read that does not wait for several messages, and has none yet.\<close>

lemma read_loop_round:
  "rx_read_loop r [] n timed waits =
     (if 0 < n \<and> rx_stopped r \<noteq> STATUS_NOERROR then ([], Inl (Error (rx_stopped r) (rx_reason r)), r)
      else
        let (got, r') = rx_drain r n
        in if length got = n \<or> \<not> timed \<or> rx_overflow r' \<or> rx_malformed r' then (got, rx_read_result r' (length got) n timed)
           else case waits of
             [] \<Rightarrow> (got, rx_read_result r' (length got) n timed)
           | evs # waits' \<Rightarrow>
               let woken = rx_run r' evs
               in if rx_read_ready woken then rx_read_loop woken got n timed waits'
                  else (got, rx_read_result woken (length got) n timed))"
  by (subst rx_read_loop.simps) (auto simp: Let_def case_prod_unfold rx_drain_def split: list.split)

lemma read_fatal_empty:
  assumes "timed \<longrightarrow> n = 1" and "rx_read r n timed waits = (out, Inl e, r')" and "brings_nothing (exn_status e)"
  shows "out = []"
proof -
  have "rx_read_loop r [] n timed waits = (out, Inl e, r') \<Longrightarrow> out = []"
  proof (induction waits arbitrary: r)
    case Nil
    have e: "rx_read_result q k n b = (Inl e, q') \<Longrightarrow> k = 0" for q k q' b
      using read_result_something assms(3) by blast
    show ?case using Nil
      by (auto dest!: e simp: read_loop_round [of r n timed "[]"] Let_def case_prod_unfold split: if_splits)
  next
    case (Cons evs waits)
    let ?got = "fst (rx_drain r n)" and ?r = "snd (rx_drain r n)"
    have e: "rx_read_result q k n b = (Inl e, q') \<Longrightarrow> k = 0" for q k q' b
      using read_result_something assms(3) by blast
    show ?case
    proof (cases "(0 < n \<and> rx_stopped r \<noteq> STATUS_NOERROR) \<or> length ?got = n \<or> \<not> timed \<or> rx_overflow ?r \<or> rx_malformed ?r")
      case True
      then show ?thesis using Cons.prems
        by (auto dest!: e simp: read_loop_round [of r n timed "evs # waits"] Let_def case_prod_unfold split: if_splits)
    next
      case False
      then have "n = 1" using assms(1) by simp
      then have "?got = []" using False drain_length [of r n] by (simp add: le_Suc_eq)
      then show ?thesis using Cons.prems Cons.IH False
        by (auto dest!: e simp: read_loop_round [of r n timed "evs # waits"] Let_def case_prod_unfold split: if_splits)
    qed
  qed
  then show ?thesis using assms(2) by (simp add: rx_read_def)
qed

lemma read_loop_within: "length out \<le> n \<Longrightarrow> length (fst (rx_read_loop r out n timed waits)) \<le> n"
proof (induction waits arbitrary: r out)
  case Nil
  then show ?case using drain_length [of r "n - length out"]
    by (subst rx_read_loop.simps) (auto simp: Let_def case_prod_unfold)
next
  case (Cons evs waits)
  obtain got r' where g: "(if length out < n then rx_drain r (n - length out) else ([], r)) = (got, r')"
    by (cases "if length out < n then rx_drain r (n - length out) else ([], r)")
  have "length got \<le> n - length out" using g drain_length [of r "n - length out"] by (auto split: if_splits)
  then have d: "length (out @ got) \<le> n" using Cons.prems by simp
  show ?case unfolding rx_read_loop.simps [of r out n timed "evs # waits"] g
    using Cons.IH [OF d] d Cons.prems by (cases timed) (simp_all add: case_prod_unfold Let_def)
qed

text \<open>What \<open>PassThruReadMsgs\<close> and \<open>PassThruWriteMsgs\<close> answer.\<close>

lemma guarded_cases:
  assumes "guarded out0 m w = (st, out, w')"
  obtains e where "out = out0" "st = exn_status e" "fst (m (w\<lparr>w_last_error := []\<rparr>)) = Inl e"
  | r where "fst (m (w\<lparr>w_last_error := []\<rparr>)) = Inr (r, out)" "st = (case r of Inl e \<Rightarrow> exn_status e | Inr _ \<Rightarrow> STATUS_NOERROR)"
  using assms by (auto simp: guarded_def split: prod.splits sum.splits)

lemma read_answers:
  assumes "PassThruReadMsgs waits i given (Some n) timeout w = (st, ms, w')"
  shows "length ms \<le> unat n" and "timeout = 0 \<or> n = 1 \<Longrightarrow> brings_nothing st \<Longrightarrow> ms = []"
proof -
  have found: "ms = [] \<or> (\<exists>r. ms = fst (rx_read r (unat n) (timeout \<noteq> 0) waits) \<and>
      st = (case fst (snd (rx_read r (unat n) (timeout \<noteq> 0) waits)) of Inl e \<Rightarrow> exn_status e | Inr _ \<Rightarrow> STATUS_NOERROR))"
  proof (rule guarded_cases [OF assms [unfolded PassThruReadMsgs_def]], goal_cases)
    case (1 e)
    then show ?case by simp
  next
    case (2 res)
    then show ?case
      by (auto simp: andthen_def read_messages_def Let_def case_prod_unfold throw_if_def required_def eff_apply
          split: prod.splits sum.splits if_splits option.splits)
  qed
  moreover have "length (fst (rx_read r (unat n) timed waits)) \<le> unat n" for r timed
    using read_loop_within [of "[]" "unat n" r timed waits] by (simp add: rx_read_def)
  ultimately show "length ms \<le> unat n" by auto
  show "ms = []" if n: "timeout = 0 \<or> n = 1" and f: "brings_nothing st"
  proof (rule ccontr)
    assume "ms \<noteq> []"
    then obtain r where r: "ms = fst (rx_read r (unat n) (timeout \<noteq> 0) waits)"
      "st = (case fst (snd (rx_read r (unat n) (timeout \<noteq> 0) waits)) of Inl e \<Rightarrow> exn_status e | Inr _ \<Rightarrow> STATUS_NOERROR)"
      using found by blast
    obtain out res r' where q: "rx_read r (unat n) (timeout \<noteq> 0) waits = (out, res, r')"
      by (cases "rx_read r (unat n) (timeout \<noteq> 0) waits")
    obtain e where e: "res = Inl e" using r(2) q f by (cases res) (simp_all add: fatal_def brings_nothing_def)
    have "timeout \<noteq> 0 \<longrightarrow> unat n = 1" using n by auto
    from read_fatal_empty [OF this q [unfolded e]] r q e f have "ms = []" by simp
    then show False using \<open>ms \<noteq> []\<close> by simp
  qed
qed

lemma write_answers:
  assumes "PassThruWriteMsgs now clock evs i (Some ms) (Some n) 0 w = (st, count, w')"
  shows "count \<le> length ms"
proof (rule guarded_cases [OF assms [unfolded PassThruWriteMsgs_def]], goal_cases)
  case (2 res)
  have "c \<le> length ms" if "fst (write_messages now clock evs k (take (unat n) ms) 0 v) = Inr (r, c)" for k v r c
    using that write_messages_now(1) [of now clock evs k "take (unat n) ms" v r c "snd (write_messages now clock evs k (take (unat n) ms) 0 v)"]
    by (simp add: prod_eq_iff)
  then show ?case using 2
    by (auto simp: andthen_def throw_if_def required_def eff_apply split: prod.splits sum.splits if_splits)
qed simp

interpretation native: passthru_library "native net" for net
proof unfold_locales
  fix c n t :: u32 and s :: "world \<times> nat" and ms
  obtain w k where s: "s = (w, k)" by (cases s)
  let ?e = "net k" and ?w = "run_calls (map (\<lambda>(k, es). Meanwhile k es) (ne_before (net k))) w"
  let ?read = "J_Read c n t"
  obtain st out w' where r: "PassThruReadMsgs (ne_waits ?e) c True (Some n) t ?w = (st, out, w')"
    by (cases "PassThruReadMsgs (ne_waits ?e) c True (Some n) t ?w") auto
  have answer: "ly_messages (fst (native net ?read s)) = out" "ly_count (fst (native net ?read s)) = of_nat (length out)"
    "ly_result (fst (native net ?read s)) = status_value st"
    using r by (simp_all add: s native_def Let_def plain_def)
  have len: "length out \<le> unat n" by (rule read_answers(1) [OF r])
  then have "unat (of_nat (length out) :: u32) = length out"
    using unsigned_less [of n, where ?'a = nat] by (simp add: unat_of_nat)
  then show "ly_count (fst (native net ?read s)) \<le> n"
    and "length (ly_messages (fst (native net ?read s))) = unat (ly_count (fst (native net ?read s)))"
    using len by (simp_all add: answer word_le_nat_alt)
  show "t = 0 \<or> n = 1 \<Longrightarrow>
      fatal (ly_result (fst (native net ?read s))) \<or> ly_result (fst (native net ?read s)) = status_value ERR_BUFFER_EMPTY \<Longrightarrow>
      ly_count (fst (native net ?read s)) = 0"
    using read_answers(2) [OF r] status_value_inj [of st ERR_BUFFER_EMPTY] by (auto simp: answer brings_nothing_def)
  obtain st' count w'' where q: "PassThruWriteMsgs (ne_now ?e) (ne_clock ?e) (ne_received ?e) c (Some ms)
      (Some (of_nat (length ms))) 0 ?w = (st', count, w'')"
    by (cases "PassThruWriteMsgs (ne_now ?e) (ne_clock ?e) (ne_received ?e) c (Some ms) (Some (of_nat (length ms))) 0 ?w") auto
  have "ly_count (fst (native net (J_Write c ms 0) s)) = of_nat count"
    using q by (simp add: s native_def Let_def case_prod_unfold)
  moreover have "unat (of_nat count :: u32) \<le> count" by (simp add: unat_of_nat)
  ultimately show "unat (ly_count (fst (native net (J_Write c ms 0) s))) \<le> length ms"
    using write_answers [OF q] by simp
qed

end
