(* ===== verification/Script_Properties.thy ===== *)
theory Script_Properties
  imports Script_Runner Native_Library
begin

text \<open>
  What scripts are good for and cannot do: the lines of a file are run as written, a dry run touches nothing, and a
  script that drives the library keeps its invariant.
\<close>

section \<open>What steps do to the library\<close>

text \<open>
  A step changes the library by calls only: what holds of its state and of the calls made, and is kept by every call, is
  kept by the step; a dry run makes none.
\<close>

abbreviation step_keeps :: "('w \<Rightarrow> j2534_call list \<Rightarrow> bool) \<Rightarrow> ('w, 'a) step \<Rightarrow> bool" where
  "step_keeps P m \<equiv> triple (\<lambda>s. P (sc_lib s) (sc_calls s)) m
     (\<lambda>_ s. P (sc_lib s) (sc_calls s)) (\<lambda>_ s. P (sc_lib s) (sc_calls s))"

definition kept_by :: "bool \<Rightarrow> 'w library \<Rightarrow> ('w \<Rightarrow> j2534_call list \<Rightarrow> bool) \<Rightarrow> bool" where
  "kept_by dry lib P \<longleftrightarrow> dry \<or> (\<forall>c w cs. P w cs \<longrightarrow> P (snd (lib c w)) (cs @ [c]))"

named_theorems step_intros

lemma holds_call_lib: "kept_by dry lib P \<Longrightarrow> \<not> dry \<Longrightarrow> step_keeps P (call_lib lib c)"
  by (rule tripleI) (auto simp: kept_by_def call_lib_def case_prod_unfold)

lemma holds_CALL [step_intros]: "kept_by dry lib P \<Longrightarrow> step_keeps P (CALL dry lib c)"
  using holds_call_lib [of dry lib P c] by (auto simp: CALL_def intro: triple_ret)

lemma holds_basic [step_intros]:
  "step_keeps P (ret x)" "step_keeps P (raise e)" "step_keeps P (lift r)" "step_keeps P (throw_if b e)" "step_keeps P (need t n)"
  by (auto simp: need_def intro: keeps_intros)

lemma holds_slots [step_intros]: "step_keeps P (set_slot n h)" "step_keeps P (get_slot n)"
  by (rule tripleI, simp add: set_slot_def get_slot_def split: sum.split)+

lemma holds_andthen [step_intros]: "step_keeps P m \<Longrightarrow> (\<And>x. step_keeps P (f x)) \<Longrightarrow> step_keeps P (andthen m f)"
  by (rule triple_andthen)

lemma holds_only_if: "(b \<Longrightarrow> step_keeps P m) \<Longrightarrow> step_keeps P (only_if b m)"
  by (rule triple_only_if) auto

lemma holds_if [step_intros]: "step_keeps P m \<Longrightarrow> step_keeps P n \<Longrightarrow> step_keeps P (if b then m else n)"
  by simp

lemma holds_let [step_intros]: "step_keeps P (f x) \<Longrightarrow> step_keeps P (let y = x in f y)"
  by simp

lemma holds_log: "kept_by dry lib P \<Longrightarrow> \<not> dry \<Longrightarrow> step_keeps P (log_result lib r)"
  unfolding log_result_def by (intro holds_only_if holds_andthen holds_call_lib holds_basic)

lemma holds_checked [step_intros]: "kept_by dry lib P \<Longrightarrow> step_keeps P (checked dry lib r)"
  unfolding checked_def by (intro holds_andthen holds_only_if holds_basic holds_log)

lemma holds_stats_loop:
  assumes k: "kept_by dry lib P" "\<not> dry"
  shows "step_keeps P (stats_loop lib chan wanted timeout rounds s)"
proof (induction rounds arbitrary: s)
  case Nil
  show ?case unfolding stats_loop.simps [of _ _ _ _ "[]"] list.case
    by (intro step_intros holds_call_lib [OF k] holds_log [OF k])
next
  case (Cons b rounds)
  show ?case unfolding stats_loop.simps [of _ _ _ _ "b # rounds"] list.case
    by (intro step_intros holds_call_lib [OF k] holds_log [OF k] Cons.IH)
qed

lemma holds_read_loop:
  assumes k: "kept_by dry lib P" "\<not> dry"
  shows "step_keeps P (read_loop lib chan wanted timeout rounds)"
proof (induction rounds)
  case Nil
  show ?case unfolding read_loop.simps [of _ _ _ _ "[]"] list.case
    by (intro step_intros holds_call_lib [OF k] holds_log [OF k])
next
  case (Cons b rounds)
  show ?case unfolding read_loop.simps [of _ _ _ _ "b # rounds"] list.case
    by (intro step_intros holds_call_lib [OF k] holds_log [OF k] Cons.IH)
qed

lemma holds_modify_stats: "step_keeps P (modify (\<lambda>s. s\<lparr>sc_stats := f s\<rparr>))"
  by (rule triple_modify) simp

lemma holds_run_step:
  assumes k: "kept_by dry lib P"
  shows "step_keeps P (run_step dry lib name env t)"
proof -
  have "step_keeps P (step_readstats dry lib env t)"
    unfolding step_readstats_def case_prod_unfold
    by (intro holds_andthen holds_basic holds_slots holds_only_if holds_stats_loop [OF k] holds_modify_stats)
  moreover have "step_keeps P (step_read dry lib env t)"
    unfolding step_read_def by (intro step_intros holds_only_if holds_read_loop [OF k])
  moreover have "step_keeps P (step_getconfig dry lib t)"
    unfolding step_getconfig_def by (intro step_intros holds_only_if holds_log [OF k] k)
  moreover have "step_keeps P (step_filter dry lib t)"
    unfolding step_filter_def by (intro step_intros holds_only_if k)
  moreover have "step_keeps P (step_handle dry lib c t)" "step_keeps P (step_two_handles dry lib d t)" for c d
    unfolding step_handle_def step_two_handles_def by (intro step_intros k)+
  moreover have "step_keeps P (step_sleep t)" "step_keeps P (step_open dry lib name t)" "step_keeps P (step_connect dry lib t)"
    "step_keeps P (step_write dry lib t)" "step_keeps P (step_periodic dry lib t)" "step_keeps P (step_setconfig dry lib t)"
    "step_keeps P (step_ioctl dry lib t)"
    unfolding step_sleep_def step_open_def step_connect_def step_write_def step_periodic_def step_setconfig_def step_ioctl_def
    by (intro step_intros k)+
  ultimately show ?thesis unfolding run_step_def by (intro step_intros)
qed

lemma holds_run_script: "kept_by dry lib P \<Longrightarrow> step_keeps P (run_script dry lib name env n content)"
proof (induction dry lib name env n content rule: run_script.induct)
  case (1 dry lib name env n content)
  show ?case
  proof (cases "content = []")
    case True
    then show ?thesis by (simp add: run_script.simps [of _ _ _ _ _ "[]"] holds_basic)
  next
    case False
    obtain chunk rest eof where r: "read_line content = (chunk, rest, eof)" by (cases "read_line content") auto
    have "step_keeps P (run_line dry lib name (env n) line)" for line
      unfolding run_line_def Let_def by (intro holds_only_if holds_run_step 1)
    moreover have "step_keeps P (run_script dry lib name env (n + 1) rest)" using 1 False r by auto
    ultimately show ?thesis
      using False r by (subst run_script.simps) (simp add: holds_andthen holds_basic)
  qed
qed

lemma script_run_keeps:
  assumes "kept_by dry lib P" and "P w []"
  shows "P (sc_lib (snd (script_run dry lib name env file w))) (sc_calls (snd (script_run dry lib name env file w)))"
proof (cases "file")
  case None
  then show ?thesis using assms(2) by (simp add: script_run_def script_new_def)
next
  case (Some content)
  have "P (sc_lib (snd (run_script dry lib name env 1 content (script_new w))))
      (sc_calls (snd (run_script dry lib name env 1 content (script_new w))))"
    by (rule triple_snd [OF holds_run_script [OF assms(1)]]) (simp add: script_new_def assms(2))
  then show ?thesis using Some
    by (simp add: script_run_def case_prod_unfold split: sum.split script_stop.split)
qed

text \<open>A dry run does not look at the library.\<close>

lemma dry_call:
  "CALL True lib c = CALL True lib' c" "checked True lib r = checked True lib' r" "only_if (\<not> True) m = only_if (\<not> True) m'"
  by (simp_all add: CALL_def checked_def only_if_def)

lemma dry_steps:
  "step_open True lib name t = step_open True lib' name t" "step_handle True lib c t = step_handle True lib' c t"
  "step_connect True lib t = step_connect True lib' t" "step_filter True lib t = step_filter True lib' t"
  "step_two_handles True lib d t = step_two_handles True lib' d t" "step_write True lib t = step_write True lib' t"
  "step_periodic True lib t = step_periodic True lib' t" "step_setconfig True lib t = step_setconfig True lib' t"
  "step_ioctl True lib t = step_ioctl True lib' t" "step_getconfig True lib t = step_getconfig True lib' t"
  "step_readstats True lib env t = step_readstats True lib' env t" "step_read True lib env t = step_read True lib' env t"
  unfolding step_open_def step_handle_def step_connect_def step_filter_def step_two_handles_def step_write_def
    step_periodic_def step_setconfig_def step_ioctl_def step_getconfig_def step_readstats_def step_read_def
    dry_call(1) [of lib _ lib'] dry_call(2) [of lib _ lib'] only_if_def
  by simp_all

lemma dry_step: "run_step True lib name env t = run_step True lib' name env t"
  unfolding run_step_def
  by (simp only: dry_steps [where lib = lib and lib' = lib'])

lemma dry_script: "run_script True lib name env n content = run_script True lib' name env n content"
proof (induction "True" lib name env n content rule: run_script.induct)
  case (1 lib name env n content)
  show ?case
  proof (cases "content = []")
    case True
    then show ?thesis by (simp add: run_script.simps)
  next
    case False
    obtain chunk rest eof where r: "read_line content = (chunk, rest, eof)" by (cases "read_line content") auto
    have "run_line True lib name (env n) line = run_line True lib' name (env n) line" for line
      unfolding run_line_def dry_step [of lib name "env n" _ lib'] ..
    then show ?thesis using False r 1
      by (subst run_script.simps, subst (2) run_script.simps) auto
  qed
qed

text \<open>
  C31. A dry run parses a script without the adapter: it makes no call and leaves the library as it was, and how it ends
  and the handles it gives out do not depend on the library.
\<close>

theorem dry_run_touches_nothing:
  "sc_lib (snd (script_run True lib name env file w)) = w \<and> sc_calls (snd (script_run True lib name env file w)) = [] \<and>
   fst (script_run True lib name env file w) = fst (script_run True lib' name env file w) \<and>
   sc_slots (snd (script_run True lib name env file w)) = sc_slots (snd (script_run True lib' name env file w))"
proof -
  have "sc_lib (snd (script_run True lib name env file w)) = w \<and> sc_calls (snd (script_run True lib name env file w)) = []"
    by (rule script_run_keeps [where P = "\<lambda>v cs. v = w \<and> cs = []"]) (simp_all add: kept_by_def)
  moreover have "script_run True lib name env file w = script_run True lib' name env file w"
    unfolding script_run_def dry_script [of lib name env _ _ lib'] ..
  ultimately show ?thesis by simp
qed

section \<open>Scripts on the native library\<close>

text \<open>
  A script drives the library through its API alone: whatever the script, the adapter and the reader threads do, the
  state it leaves is the one reached by the calls it made, one after the other, and is well formed; and of the IDs the
  library issued to it none is issued twice.
\<close>

theorem script_drives_api:
  "let s = snd (script_run False (native net) name env file (world_init start, 0))
   in sc_lib s = (run_calls (native_calls net 0 (sc_calls s)) (world_init start), length (sc_calls s)) \<and>
      world_ok (fst (sc_lib s)) \<and> sorted_wrt (<) (issued (native_calls net 0 (sc_calls s)) (world_init start))"
proof -
  let ?s = "snd (script_run False (native net) name env file (world_init start, 0))"
  let ?P = "\<lambda>l cs. l = (run_calls (native_calls net 0 cs) (world_init start), length cs)"
  have k: "kept_by False (native net) ?P"
    by (simp add: kept_by_def native_state native_calls_snoc run_calls_append)
  have "?P (sc_lib ?s) (sc_calls ?s)" by (rule script_run_keeps [OF k]) simp
  then show ?thesis using world_ok_run [OF world_ok_init] issued_increasing [OF world_ok_init] by (simp add: Let_def)
qed

section \<open>The lines of a script\<close>

definition plain_text :: "string \<Rightarrow> bool" where
  "plain_text l \<longleftrightarrow> newline \<notin> set l \<and> CHR 0x00 \<notin> set l"

fun run_lines :: "bool \<Rightarrow> 'w library \<Rightarrow> string option \<Rightarrow> (nat \<Rightarrow> step_env) \<Rightarrow> nat \<Rightarrow> string list \<Rightarrow> ('w, unit) step" where
  "run_lines dry lib name env n [] = ret ()"
| "run_lines dry lib name env n (l # ls) =
     andthen (run_line dry lib name (env n) l) (\<lambda>_. run_lines dry lib name env (n + 1) ls)"

lemma words_newline: "words_from w (s @ [newline]) = words_from w s"
  by (induction w s rule: words_from.induct) (auto simp: blank_def)

lemma run_line_newline: "run_line dry lib name e (l @ [newline]) = run_line dry lib name e l"
proof -
  have "takeWhile (\<lambda>c. c \<noteq> CHR ''#'') (l @ [newline]) =
      (if CHR ''#'' \<in> set l then takeWhile (\<lambda>c. c \<noteq> CHR ''#'') l else l @ [newline])"
    by (induction l) (auto simp: newline_def)
  moreover have "CHR ''#'' \<notin> set l \<Longrightarrow> takeWhile (\<lambda>c. c \<noteq> CHR ''#'') l = l"
    by (intro takeWhile_eq_all_conv [THEN iffD2]) auto
  ultimately show ?thesis by (cases "CHR ''#'' \<in> set l") (simp_all only: run_line_def line_tokens_def words_newline if_True if_False not_True_eq_False not_False_eq_True)
qed

lemma take_line: "newline \<notin> set l \<Longrightarrow> takeWhile (\<lambda>c. c \<noteq> newline) (l @ newline # rest) = l"
  by (induction l) auto

lemma read_short: "newline \<notin> set l \<Longrightarrow> length l \<le> 510 \<Longrightarrow> read_line (l @ newline # rest) = (l @ [newline], rest, False)"
  by (simp add: read_line_def take_line)

lemma read_long:
  assumes "newline \<notin> set l" and "511 \<le> length l"
  shows "read_line (l @ rest) = (take 511 l, drop 511 l @ rest, False)"
proof -
  have "takeWhile (\<lambda>c. c \<noteq> newline) (l @ rest) = l @ takeWhile (\<lambda>c. c \<noteq> newline) rest"
    using assms(1) by (intro takeWhile_append2) auto
  then show ?thesis using assms(2) by (simp add: read_line_def)
qed

lemma no_nul: "CHR 0x00 \<notin> set l \<Longrightarrow> takeWhile (\<lambda>c. c \<noteq> CHR 0x00) l = l"
  by (auto simp: takeWhile_eq_all_conv)

lemma line_of_short: "plain_text l \<Longrightarrow> line_of (l @ [newline], eof) = Inr (l @ [newline])"
  by (simp add: line_of_def plain_text_def no_nul newline_def)

lemma line_of_long:
  assumes "plain_text l" and "511 \<le> length l"
  shows "line_of (take 511 l, False) = Inl (Step_failed ''line too long (over 510 characters)'')"
proof -
  have t: "takeWhile (\<lambda>c. c \<noteq> CHR 0x00) (take 511 l) = take 511 l"
    using assms(1) by (intro no_nul) (auto simp: plain_text_def dest: in_set_takeD)
  have "take 511 l \<noteq> []" using assms(2) by auto
  then have "last (take 511 l) \<in> set l" using last_in_set in_set_takeD by metis
  then have "last (take 511 l) \<noteq> newline" using assms(1) by (auto simp: plain_text_def)
  then show ?thesis using assms(2) by (simp add: line_of_def t)
qed

lemma run_first_line:
  assumes "plain_text l" and "length l \<le> 510"
  shows "run_script dry lib name env n (l @ newline # rest) =
    andthen (run_line dry lib name (env n) l) (\<lambda>_. run_script dry lib name env (n + 1) rest)"
proof -
  have "read_line (l @ newline # rest) = (l @ [newline], rest, False)" using assms by (simp add: read_short plain_text_def)
  then show ?thesis using assms(1)
    by (subst run_script.simps) (auto simp: line_of_short run_line_newline fun_eq_iff andthen_def eff_apply split: prod.split sum.split)
qed

text \<open>
  The lines of a script are run one by one as they stand, each once and in order; a line of more than 510 characters
  stops the script before any part of it is run.
\<close>

theorem script_lines_exact:
  assumes "\<forall>l\<in>set ls. plain_text l \<and> length l \<le> 510" and "plain_text long" and "511 \<le> length long"
  shows "run_script dry lib name env n (concat (map (\<lambda>l. l @ [newline]) ls)) = run_lines dry lib name env n ls \<and>
    run_script dry lib name env n (concat (map (\<lambda>l. l @ [newline]) ls) @ long @ rest) =
      andthen (run_lines dry lib name env n ls) (\<lambda>_. raise (Step_failed ''line too long (over 510 characters)''))"
  using assms(1)
proof (induction ls arbitrary: n)
  case Nil
  have r: "read_line (long @ rest) = (take 511 long, drop 511 long @ rest, False)"
    using assms(2,3) by (simp add: read_long plain_text_def)
  have "long @ rest \<noteq> []" using assms(3) by auto
  then have "run_script dry lib name env n (long @ rest) = raise (Step_failed ''line too long (over 510 characters)'')"
    by (subst run_script.simps) (simp add: r line_of_long [OF assms(2,3)] fun_eq_iff andthen_def eff_apply)
  then show ?case by (simp add: run_script.simps [of _ _ _ _ _ "[]"] fun_eq_iff andthen_def eff_apply)
next
  case (Cons l ls)
  then have "plain_text l" "length l \<le> 510" by simp_all
  note first = run_first_line [OF this]
  have "run_script dry lib name env (n + 1) (concat (map (\<lambda>l. l @ [newline]) ls)) = run_lines dry lib name env (n + 1) ls"
    "run_script dry lib name env (n + 1) (concat (map (\<lambda>l. l @ [newline]) ls) @ long @ rest) =
      andthen (run_lines dry lib name env (n + 1) ls) (\<lambda>_. raise (Step_failed ''line too long (over 510 characters)''))"
    using Cons by simp_all
  then show ?case by (simp add: first andthen_assoc)
qed

lemma script_lines_exact_witness:
  "fst (run_script True (\<lambda>_ w. (\<lparr>ly_result = 0, ly_id = 1, ly_count = 0, ly_messages = []\<rparr>, w)) None
       (\<lambda>_. \<lparr>en_memory = True, en_more = []\<rparr>) 1 (''mark'' @ [newline] @ replicate 600 CHR ''x'') (script_new ())) =
     Inl (Step_failed ''line too long (over 510 characters)'')"
proof -
  let ?lib = "\<lambda>_ w :: unit. (\<lparr>ly_result = 0, ly_id = 1, ly_count = 0, ly_messages = []\<rparr>, w)" and ?env = "\<lambda>_. \<lparr>en_memory = True, en_more = []\<rparr>"
  have m: "run_lines True ?lib None ?env 1 [''mark''] = ret ()"
    by (simp add: run_line_def line_tokens_def blank_def newline_def only_if_def run_step_def eq_word_lower lower_def
        fun_eq_iff andthen_def eff_apply)
  have "\<forall>l\<in>set [''mark'']. plain_text l \<and> length l \<le> 510" "plain_text (replicate 600 CHR ''x'')"
    "511 \<le> length (replicate 600 CHR ''x'')" by (simp_all add: plain_text_def newline_def)
  from script_lines_exact [OF this, of True ?lib None ?env 1 "[]", unfolded m, THEN conjunct2]
  have "run_script True ?lib None ?env 1 (''mark'' @ [newline] @ replicate 600 CHR ''x'') =
      andthen (ret ()) (\<lambda>_. raise (Step_failed ''line too long (over 510 characters)''))"
    by (simp only: list.map concat.simps append_assoc append_Nil2 append_Nil append_Cons)
  then show ?thesis by (simp only: andthen_def eff_apply prod.case sum.case fst_conv)
qed

text \<open>
  A NUL hides a line: a line that begins with one is skipped without a word, whatever follows it.
\<close>

theorem nul_line_skipped:
  assumes "newline \<notin> set hidden" and "length hidden \<le> 509"
  shows "run_script dry lib name env n ((CHR 0x00 # hidden) @ newline # rest) = run_script dry lib name env (n + 1) rest"
proof -
  have "read_line ((CHR 0x00 # hidden) @ newline # rest) = ((CHR 0x00 # hidden) @ [newline], rest, False)"
    using assms by (intro read_short) (simp_all add: newline_def)
  then show ?thesis
    by (subst run_script.simps)
      (simp add: line_of_def run_line_def line_tokens_def only_if_def fun_eq_iff andthen_def eff_apply)
qed

end
