(* ===== verification/Socketcan.thy ===== *)
theory Socketcan
  imports Script_Values Library_Calls
begin

text \<open>
  The bridge of tools/socketcan_bridge.c between the adapter and a CAN interface of Linux: its command line, the
  translation of frames, its two threads and \<open>main\<close>. The threads are automata; a step of one makes at most one call of the
  library or of the kernel, and the steps of both interleave in any order. What the kernel answers is part of the step.
\<close>

section \<open>Command line\<close>

record bridge_options =
  bo_device :: "string option"
  bo_interface :: "string option"
  bo_bitrate :: u32
  bo_flags :: u32
  bo_transmit :: bool
  bo_stats :: u32

definition options_default :: bridge_options where
  "options_default = \<lparr>bo_device = None, bo_interface = None, bo_bitrate = 500000, bo_flags = 0, bo_transmit = False, bo_stats = 0\<rparr>"

definition parse_number :: "string \<Rightarrow> int \<Rightarrow> int option" where
  "parse_number text maximum =
     (let (parsed, rest, range) = strtoul text
      in if range \<or> rest = text \<or> rest \<noteq> [] \<or> hd text = CHR ''-'' \<or> parsed > maximum then None else Some parsed)"

text \<open>
  One turn of the loop of \<open>parse\<close>: the options and the arguments left. The conditions advance \<open>i\<close> before they fail: after
  \<open>--bitrate\<close> or \<open>--stats\<close> with a value that is refused, the rest of the chain looks at the value.
\<close>

definition take_interface :: "string \<Rightarrow> string list \<Rightarrow> bridge_options \<Rightarrow> (bridge_options \<times> string list) option" where
  "take_interface a rest opts =
     (if (a = [] \<or> hd a \<noteq> CHR ''-'') \<and> bo_interface opts = None then Some (opts\<lparr>bo_interface := Some a\<rparr>, rest) else None)"

definition take_flags :: "string \<Rightarrow> string list \<Rightarrow> bridge_options \<Rightarrow> (bridge_options \<times> string list) option" where
  "take_flags a rest opts =
     (if a = ''--29bit'' then Some (opts\<lparr>bo_flags := CAN_29BIT_ID\<rparr>, rest)
      else if a = ''--transmit'' then Some (opts\<lparr>bo_transmit := True\<rparr>, rest)
      else if a = ''--stats'' \<and> rest \<noteq> [] then
        (case parse_number (hd rest) 86400 of
           Some value \<Rightarrow> Some (opts\<lparr>bo_stats := of_int value\<rparr>, tl rest)
         | None \<Rightarrow> take_interface (hd rest) (tl rest) opts)
      else take_interface a rest opts)"

definition take_option :: "string \<Rightarrow> string list \<Rightarrow> bridge_options \<Rightarrow> (bridge_options \<times> string list) option" where
  "take_option a rest opts =
     (if a = ''--device'' \<and> rest \<noteq> [] then Some (opts\<lparr>bo_device := Some (hd rest)\<rparr>, tl rest)
      else if a = ''--bitrate'' \<and> rest \<noteq> [] then
        (case parse_number (hd rest) 1000000 of
           Some value \<Rightarrow> if value \<noteq> 0 then Some (opts\<lparr>bo_bitrate := of_int value\<rparr>, tl rest) else take_flags (hd rest) (tl rest) opts
         | None \<Rightarrow> take_flags (hd rest) (tl rest) opts)
      else take_flags a rest opts)"

lemma take_option_shorter: "take_option a rest opts = Some (o', rest') \<Longrightarrow> length rest' \<le> length rest"
  by (auto simp: take_option_def take_flags_def take_interface_def split: if_splits option.splits)

function parse_args :: "string list \<Rightarrow> bridge_options \<Rightarrow> bridge_options option" where
  "parse_args [] opts = Some opts"
| "parse_args (a # rest) opts =
     (case take_option a rest opts of None \<Rightarrow> None | Some (opts, rest) \<Rightarrow> parse_args rest opts)"
  by pat_completeness auto
termination
  by (relation "measure (\<lambda>(args, opts). length args)") (auto dest!: take_option_shorter)

definition parse_bridge :: "string list \<Rightarrow> bridge_options option" where
  "parse_bridge args =
     (case parse_args args options_default of
        Some opts \<Rightarrow> if bo_interface opts = None then None else Some opts
      | None \<Rightarrow> None)"

section \<open>Frames\<close>

text \<open>\<open>struct can_frame\<close> of linux/can.h and its masks and flags.\<close>

record can_frame =
  cf_id :: u32
  cf_len :: u8
  cf_data :: bytes

definition CAN_EFF_FLAG :: u32 where "CAN_EFF_FLAG = 0x80000000"
definition CAN_RTR_FLAG :: u32 where "CAN_RTR_FLAG = 0x40000000"
definition CAN_ERR_FLAG :: u32 where "CAN_ERR_FLAG = 0x20000000"
definition CAN_SFF_MASK :: u32 where "CAN_SFF_MASK = 0x7ff"
definition CAN_EFF_MASK :: u32 where "CAN_EFF_MASK = 0x1fffffff"

definition to_socketcan :: "passthru_msg \<Rightarrow> can_frame option" where
  "to_socketcan m =
     (if DataSize m < 4 \<or> DataSize m > 12 \<or> RxStatus m AND TX_MSG_TYPE \<noteq> 0 then None
      else
        let i = big_endian (Data m);
            len = DataSize m - 4
        in Some \<lparr>cf_id = (if RxStatus m AND CAN_29BIT_ID \<noteq> 0 then (i AND CAN_EFF_MASK) OR CAN_EFF_FLAG else i AND CAN_SFF_MASK),
             cf_len = ucast len, cf_data = copy_at 0 (take (unat len) (drop 4 (Data m))) (replicate 8 0)\<rparr>)"

definition from_socketcan :: "can_frame \<Rightarrow> passthru_msg option" where
  "from_socketcan f =
     (if cf_id f AND (CAN_RTR_FLAG OR CAN_ERR_FLAG) \<noteq> 0 \<or> cf_len f > 8 then None
      else
        let extended = (cf_id f AND CAN_EFF_FLAG \<noteq> 0);
            i = cf_id f AND (if extended then CAN_EFF_MASK else CAN_SFF_MASK);
            m = blank_message CAN (if extended then CAN_29BIT_ID else 0);
            d = copy_at 0 [ucast (drop_bit 24 i), ucast (drop_bit 16 i), ucast (drop_bit 8 i), ucast i] (Data m)
        in Some (m\<lparr>Data := copy_at 4 (take (unat (cf_len f)) (cf_data f)) d, DataSize := 4 + ucast (cf_len f)\<rparr>))"

section \<open>The threads\<close>

text \<open>Where a thread stands. \<open>R_frames\<close> and \<open>W_recv\<close>, \<open>W_send\<close> hold what is left of \<open>messages\<close>.\<close>

datatype reader_at =
  R_top | R_timed | R_status reply | R_report int "passthru_msg list" | R_frames "passthru_msg list" | R_done

datatype writer_at = W_top | W_recv "passthru_msg list" | W_send "passthru_msg list" | W_report int | W_done

text \<open>
  The counters are wide enough not to wrap. The last three fields record what the bridge did: its calls, the messages the
  library gave to the reader and the frames it wrote, and how many frames came from the interface.
\<close>

record 'w bridge =
  br_channel :: u32
  br_transmit :: bool
  br_socket :: bool
  br_stopping :: bool
  br_failed :: bool
  br_to_bus :: nat
  br_to_host :: nat
  br_refused :: nat
  br_overflows :: nat
  br_host_drops :: nat
  br_reader :: reader_at
  br_writer :: writer_at
  br_lib :: 'w
  br_calls :: "j2534_call list"
  br_from_vehicle :: "passthru_msg list"
  br_written :: "can_frame list"
  br_from_host :: nat

definition batch :: u32 where "batch = 32"
definition read_wait_ms :: u32 where "read_wait_ms = 100"

definition br_call :: "'w library \<Rightarrow> j2534_call \<Rightarrow> 'w bridge \<Rightarrow> reply \<times> 'w bridge" where
  "br_call lib c s = (case lib c (br_lib s) of (r, w) \<Rightarrow> (r, s\<lparr>br_lib := w, br_calls := br_calls s @ [c]\<rparr>))"

definition br_halting :: "'w bridge \<Rightarrow> bool" where
  "br_halting s \<longleftrightarrow> br_stopping s \<or> br_failed s"

text \<open>\<open>vehicle_to_host\<close>; \<open>ok\<close>: the interface takes the frame.\<close>

definition given :: "reply \<Rightarrow> passthru_msg list" where
  "given r = take (unat (ly_count r)) (ly_messages r)"

definition read_call :: "'w library \<Rightarrow> u32 \<Rightarrow> u32 \<Rightarrow> 'w bridge \<Rightarrow> reply \<times> 'w bridge" where
  "read_call lib count timeout s =
     (let (r, s) = br_call lib (J_Read (br_channel s) count timeout) s
      in (r, s\<lparr>br_from_vehicle := br_from_vehicle s @ given r\<rparr>))"

definition read_top :: "'w library \<Rightarrow> 'w bridge \<Rightarrow> 'w bridge" where
  "read_top lib s =
     (if br_halting s then s\<lparr>br_reader := R_done\<rparr>
      else
        let (r, s) = read_call lib batch 0 s
        in s\<lparr>br_reader := (if ly_result r = status_value ERR_BUFFER_EMPTY then R_timed else R_status r)\<rparr>)"

definition read_timed :: "'w library \<Rightarrow> 'w bridge \<Rightarrow> 'w bridge" where
  "read_timed lib s =
     (let (r, s) = read_call lib 1 read_wait_ms s in s\<lparr>br_reader := R_status r\<rparr>)"

definition read_status :: "reply \<Rightarrow> 'w bridge \<Rightarrow> 'w bridge" where
  "read_status r s =
     (let st = ly_result r; ms = given r
      in if st = status_value ERR_BUFFER_OVERFLOW then s\<lparr>br_overflows := br_overflows s + 1, br_reader := R_frames ms\<rparr>
         else if st \<noteq> 0 \<and> st \<noteq> status_value ERR_TIMEOUT \<and> st \<noteq> status_value ERR_BUFFER_EMPTY
         then s\<lparr>br_reader := R_report st ms\<rparr>
         else s\<lparr>br_reader := R_frames ms\<rparr>)"

definition read_report :: "'w library \<Rightarrow> int \<Rightarrow> passthru_msg list \<Rightarrow> 'w bridge \<Rightarrow> 'w bridge" where
  "read_report lib st ms s =
     (let (_, s) = br_call lib J_Last_error s
      in if fatal st then s\<lparr>br_failed := True, br_reader := R_done\<rparr> else s\<lparr>br_reader := R_frames ms\<rparr>)"

definition pass_frame :: "bool \<Rightarrow> passthru_msg \<Rightarrow> 'w bridge \<Rightarrow> 'w bridge" where
  "pass_frame ok m s =
     (case to_socketcan m of
        None \<Rightarrow> s
      | Some f \<Rightarrow>
          if ok then s\<lparr>br_to_host := br_to_host s + 1, br_written := br_written s @ [f]\<rparr>
          else s\<lparr>br_host_drops := br_host_drops s + 1\<rparr>)"

definition reader_step :: "'w library \<Rightarrow> bool \<Rightarrow> 'w bridge \<Rightarrow> 'w bridge" where
  "reader_step lib ok s =
     (case br_reader s of
        R_top \<Rightarrow> read_top lib s
      | R_timed \<Rightarrow> read_timed lib s
      | R_status r \<Rightarrow> read_status r s
      | R_report st ms \<Rightarrow> read_report lib st ms s
      | R_frames [] \<Rightarrow> s\<lparr>br_reader := R_top\<rparr>
      | R_frames (m # ms) \<Rightarrow> (pass_frame ok m s)\<lparr>br_reader := R_frames ms\<rparr>
      | R_done \<Rightarrow> s)"

text \<open>\<open>host_to_vehicle\<close>: what \<open>poll\<close> answers, an interrupted one like a time-out, and what \<open>recv\<close> gives.\<close>

datatype poll_answer = Poll_nothing | Poll_ready | Poll_error

definition write_top :: "poll_answer \<Rightarrow> 'w bridge \<Rightarrow> 'w bridge" where
  "write_top poll s =
     (if br_halting s then s\<lparr>br_writer := W_done\<rparr>
      else case poll of
        Poll_error \<Rightarrow> s\<lparr>br_failed := True, br_writer := W_done\<rparr>
      | Poll_nothing \<Rightarrow> s
      | Poll_ready \<Rightarrow> s\<lparr>br_writer := W_recv []\<rparr>)"

definition write_recv :: "can_frame option \<Rightarrow> passthru_msg list \<Rightarrow> 'w bridge \<Rightarrow> 'w bridge" where
  "write_recv got ms s =
     (case (if length ms < unat batch then got else None) of
        None \<Rightarrow> s\<lparr>br_writer := (if ms = [] then W_top else W_send ms)\<rparr>
      | Some f \<Rightarrow>
          let s = s\<lparr>br_from_host := br_from_host s + 1\<rparr>
          in case (if br_transmit s then from_socketcan f else None) of
               Some m \<Rightarrow> s\<lparr>br_writer := W_recv (ms @ [m])\<rparr>
             | None \<Rightarrow> s\<lparr>br_refused := br_refused s + 1\<rparr>)"

definition write_send :: "'w library \<Rightarrow> passthru_msg list \<Rightarrow> 'w bridge \<Rightarrow> 'w bridge" where
  "write_send lib ms s =
     (let (r, s) = br_call lib (J_Write (br_channel s) ms 0) s;
          sent = unat (ly_count r);
          s = s\<lparr>br_to_bus := br_to_bus s + sent\<rparr>;
          s = (if sent < length ms then s\<lparr>br_refused := br_refused s + (length ms - sent)\<rparr> else s)
      in s\<lparr>br_writer := (if ly_result r \<noteq> 0 then W_report (ly_result r) else W_top)\<rparr>)"

definition write_report :: "'w library \<Rightarrow> int \<Rightarrow> 'w bridge \<Rightarrow> 'w bridge" where
  "write_report lib st s =
     (let (_, s) = br_call lib J_Last_error s
      in (if fatal st then s\<lparr>br_failed := True\<rparr> else s)\<lparr>br_writer := W_top\<rparr>)"

definition writer_step :: "'w library \<Rightarrow> poll_answer \<Rightarrow> can_frame option \<Rightarrow> 'w bridge \<Rightarrow> 'w bridge" where
  "writer_step lib poll got s =
     (case br_writer s of
        W_top \<Rightarrow> write_top poll s
      | W_recv ms \<Rightarrow> write_recv got ms s
      | W_send ms \<Rightarrow> write_send lib ms s
      | W_report st \<Rightarrow> write_report lib st s
      | W_done \<Rightarrow> s)"

text \<open>\<open>Signal\<close> is \<open>on_signal\<close>.\<close>

datatype bridge_event = Reader bool | Writer poll_answer "can_frame option" | Signal

fun bridge_step :: "'w library \<Rightarrow> bridge_event \<Rightarrow> 'w bridge \<Rightarrow> 'w bridge" where
  "bridge_step lib (Reader ok) s = reader_step lib ok s"
| "bridge_step lib (Writer poll got) s = writer_step lib poll got s"
| "bridge_step lib Signal s = s\<lparr>br_stopping := True\<rparr>"

text \<open>The states of the two threads, in any interleaving.\<close>

inductive bridge_reaches :: "'w library \<Rightarrow> 'w bridge \<Rightarrow> 'w bridge \<Rightarrow> bool" for lib s where
  started: "bridge_reaches lib s s"
| stepped: "bridge_reaches lib s t \<Longrightarrow> bridge_reaches lib s (bridge_step lib e t)"

definition bridge_run :: "'w library \<Rightarrow> bridge_event list \<Rightarrow> 'w bridge \<Rightarrow> 'w bridge" where
  "bridge_run lib es s = foldl (\<lambda>s e. bridge_step lib e s) s es"

section \<open>The program\<close>

definition bridge_new :: "bridge_options \<Rightarrow> 'w \<Rightarrow> 'w bridge" where
  "bridge_new opts w = \<lparr>br_channel = 0, br_transmit = bo_transmit opts, br_socket = False, br_stopping = False,
     br_failed = False, br_to_bus = 0, br_to_host = 0, br_refused = 0, br_overflows = 0, br_host_drops = 0,
     br_reader = R_top, br_writer = W_top, br_lib = w, br_calls = [], br_from_vehicle = [], br_written = [], br_from_host = 0\<rparr>"

definition br_report :: "'w library \<Rightarrow> 'w bridge \<Rightarrow> 'w bridge" where
  "br_report lib s = snd (br_call lib J_Last_error s)"

text \<open>The labels at the end of \<open>main\<close>, each going on with the next.\<close>

definition close_socket :: "int \<Rightarrow> 'w bridge \<Rightarrow> int option \<times> 'w bridge" where
  "close_socket result s = (Some result, s\<lparr>br_socket := False\<rparr>)"

definition close_device :: "'w library \<Rightarrow> u32 \<Rightarrow> int \<Rightarrow> 'w bridge \<Rightarrow> int option \<times> 'w bridge" where
  "close_device lib device result s = close_socket result (snd (br_call lib (J_Close device) s))"

definition disconnect :: "'w library \<Rightarrow> u32 \<Rightarrow> int \<Rightarrow> 'w bridge \<Rightarrow> int option \<times> 'w bridge" where
  "disconnect lib device result s = close_device lib device result (snd (br_call lib (J_Disconnect (br_channel s)) s))"

definition stop_filter :: "'w library \<Rightarrow> u32 \<Rightarrow> u32 \<Rightarrow> int \<Rightarrow> 'w bridge \<Rightarrow> int option \<times> 'w bridge" where
  "stop_filter lib device i result s =
     disconnect lib device result (snd (br_call lib (J_Stop_filter (br_channel s) i) s))"

text \<open>
  What \<open>main\<close> meets: whether the interface opens and a thread can be made, and the steps of the threads. The exit code is
  \<open>None\<close> while a thread still runs after these steps. The thread of \<open>--stats\<close> only prints and is left out, with the
  \<open>pthread_join\<close> for it: it looks at the same two flags every tenth of a second.
\<close>

definition bridge_serve :: "'w library \<Rightarrow> bool \<Rightarrow> bridge_event list \<Rightarrow> u32 \<Rightarrow> u32 \<Rightarrow> 'w bridge \<Rightarrow> int option \<times> 'w bridge" where
  "bridge_serve lib thread es device i s =
     (if \<not> thread then stop_filter lib device i 1 s
      else
        let s = bridge_run lib es s
        in if br_reader s = R_done \<and> br_writer s = W_done
           then stop_filter lib device i (if br_failed s then 1 else 0) s else (None, s))"

definition bridge_filter ::
    "'w library \<Rightarrow> bool \<Rightarrow> bridge_event list \<Rightarrow> bridge_options \<Rightarrow> u32 \<Rightarrow> 'w bridge \<Rightarrow> int option \<times> 'w bridge" where
  "bridge_filter lib thread es opts device s =
     (let m = (blank_message CAN (bo_flags opts))\<lparr>DataSize := 4\<rparr>;
          (r, s) = br_call lib (J_Start_filter (br_channel s) PASS_FILTER m m None) s
      in if ly_result r \<noteq> 0 then disconnect lib device 1 (br_report lib s)
         else bridge_serve lib thread es device (ly_id r) s)"

definition bridge_connect ::
    "'w library \<Rightarrow> bool \<Rightarrow> bridge_event list \<Rightarrow> bridge_options \<Rightarrow> u32 \<Rightarrow> 'w bridge \<Rightarrow> int option \<times> 'w bridge" where
  "bridge_connect lib thread es opts device s =
     (let (r, s) = br_call lib (J_Connect device CAN (bo_flags opts) (bo_bitrate opts)) s;
          s = s\<lparr>br_channel := ly_id r\<rparr>
      in if ly_result r \<noteq> 0 then close_device lib device 1 (br_report lib s)
         else bridge_filter lib thread es opts device s)"

definition bridge_open ::
    "'w library \<Rightarrow> bool \<Rightarrow> bridge_event list \<Rightarrow> bridge_options \<Rightarrow> 'w bridge \<Rightarrow> int option \<times> 'w bridge" where
  "bridge_open lib thread es opts s =
     (let (r, s) = br_call lib (J_Open (bo_device opts)) s
      in if ly_result r \<noteq> 0 then close_socket 1 (br_report lib s)
         else bridge_connect lib thread es opts (ly_id r) s)"

text \<open>\<open>args\<close> is \<open>argv\<close> without the name of the program.\<close>

definition bridge_main ::
    "'w library \<Rightarrow> bool \<Rightarrow> bool \<Rightarrow> bridge_event list \<Rightarrow> string list \<Rightarrow> 'w \<Rightarrow> int option \<times> 'w bridge" where
  "bridge_main lib interface thread es args w =
     (if args = [''--help''] \<or> args = [''-h''] then (Some 0, bridge_new options_default w)
      else case parse_bridge args of
        None \<Rightarrow> (Some 2, bridge_new options_default w)
      | Some opts \<Rightarrow>
          let s = bridge_new opts w
          in if \<not> interface then (Some 1, s) else bridge_open lib thread es opts (s\<lparr>br_socket := True\<rparr>))"

end
