(* ===== verification/Socketcan_Properties.thy ===== *)
theory Socketcan_Properties
  imports Socketcan Native_Library "HOL-Library.Sublist"
begin

text \<open>
  What the bridge guarantees: the bus is left alone without \<open>--transmit\<close>, frames are translated exactly, none is lost
  without being counted, a stop ends both threads, and everything that was opened is closed.
\<close>

section \<open>Steps\<close>

lemma br_call_fields [simp]:
  "br_channel (snd (br_call lib c s)) = br_channel s" "br_transmit (snd (br_call lib c s)) = br_transmit s"
  "br_stopping (snd (br_call lib c s)) = br_stopping s" "br_failed (snd (br_call lib c s)) = br_failed s"
  "br_to_bus (snd (br_call lib c s)) = br_to_bus s" "br_to_host (snd (br_call lib c s)) = br_to_host s"
  "br_refused (snd (br_call lib c s)) = br_refused s" "br_overflows (snd (br_call lib c s)) = br_overflows s"
  "br_host_drops (snd (br_call lib c s)) = br_host_drops s" "br_reader (snd (br_call lib c s)) = br_reader s"
  "br_writer (snd (br_call lib c s)) = br_writer s" "br_from_vehicle (snd (br_call lib c s)) = br_from_vehicle s"
  "br_written (snd (br_call lib c s)) = br_written s" "br_from_host (snd (br_call lib c s)) = br_from_host s"
  "br_socket (snd (br_call lib c s)) = br_socket s"
  "br_calls (snd (br_call lib c s)) = br_calls s @ [c]"
  by (simp_all add: br_call_def case_prod_unfold)

lemma br_call_reply: "fst (br_call lib c s) = fst (lib c (br_lib s))"
  by (simp add: br_call_def case_prod_unfold)

lemmas reader_defs = reader_step_def read_top_def read_timed_def read_status_def read_report_def read_call_def pass_frame_def

lemmas writer_defs = writer_step_def write_top_def write_recv_def write_send_def write_report_def

lemma reader_leaves [simp]:
  "br_channel (reader_step lib ok s) = br_channel s" "br_transmit (reader_step lib ok s) = br_transmit s"
  "br_stopping (reader_step lib ok s) = br_stopping s"
  "br_to_bus (reader_step lib ok s) = br_to_bus s" "br_refused (reader_step lib ok s) = br_refused s"
  "br_writer (reader_step lib ok s) = br_writer s" "br_from_host (reader_step lib ok s) = br_from_host s"
  "br_socket (reader_step lib ok s) = br_socket s"
  by (auto simp: reader_defs Let_def case_prod_unfold split: reader_at.split list.split option.split)

lemma writer_leaves [simp]:
  "br_channel (writer_step lib poll got s) = br_channel s" "br_transmit (writer_step lib poll got s) = br_transmit s"
  "br_stopping (writer_step lib poll got s) = br_stopping s"
  "br_to_host (writer_step lib poll got s) = br_to_host s" "br_host_drops (writer_step lib poll got s) = br_host_drops s"
  "br_overflows (writer_step lib poll got s) = br_overflows s" "br_reader (writer_step lib poll got s) = br_reader s"
  "br_from_vehicle (writer_step lib poll got s) = br_from_vehicle s" "br_written (writer_step lib poll got s) = br_written s"
  "br_socket (writer_step lib poll got s) = br_socket s"
  by (auto simp: writer_defs Let_def case_prod_unfold split: writer_at.split option.split poll_answer.split)

inductive_cases bridge_reaches_cases: "bridge_reaches lib s t"

lemma reaches_run: "bridge_reaches lib s t \<Longrightarrow> bridge_reaches lib s (bridge_run lib es t)"
  by (induction es arbitrary: t) (auto simp: bridge_run_def intro: bridge_reaches.intros)

lemma reaches_keeps:
  assumes "bridge_reaches lib s t" and "P s" and "\<And>t e. P t \<Longrightarrow> P (bridge_step lib e t)"
  shows "P t"
  using assms by (induction rule: bridge_reaches.induct) auto

lemma run_keeps:
  assumes "P s" and "\<And>t e. P t \<Longrightarrow> P (bridge_step lib e t)"
  shows "P (bridge_run lib es s)"
  by (rule reaches_keeps [OF reaches_run [OF bridge_reaches.started]]) (fact assms)+

text \<open>The calls of \<open>main\<close> itself, and what holds at its end, or so far, because nothing it does breaks it.\<close>

fun main_call :: "j2534_call \<Rightarrow> bool" where
  "main_call (J_Open name) = True"
| "main_call (J_Connect device protocol flags baud) = (protocol = CAN)"
| "main_call (J_Start_filter chan type msk pattern flow) = (type = PASS_FILTER)"
| "main_call (J_Stop_filter chan i) = True"
| "main_call (J_Disconnect chan) = True"
| "main_call (J_Close device) = True"
| "main_call J_Last_error = True"
| "main_call c = False"

lemma main_runs:
  assumes new: "\<And>opts. opts = options_default \<or> parse_bridge args = Some opts \<Longrightarrow> P (bridge_new opts w)"
    and call: "\<And>s c. P s \<Longrightarrow> main_call c \<Longrightarrow> P (snd (br_call lib c s))" "\<And>s c. Q s \<Longrightarrow> main_call c \<Longrightarrow> Q (snd (br_call lib c s))"
    and set: "\<And>s x. P s \<Longrightarrow> P (s\<lparr>br_channel := x\<rparr>)" "\<And>s b. P s \<Longrightarrow> P (s\<lparr>br_socket := b\<rparr>)" "\<And>s b. Q s \<Longrightarrow> Q (s\<lparr>br_socket := b\<rparr>)"
    and weak: "\<And>s. P s \<Longrightarrow> Q s" and run: "\<And>s. P s \<Longrightarrow> Q (bridge_run lib es s)"
  shows "Q (snd (bridge_main lib interface thread es args w))"
proof -
  have close: "Q s \<Longrightarrow> Q (snd (close_device lib device k s))" for s device k
    by (simp add: close_device_def close_socket_def call set)
  have "Q s \<Longrightarrow> Q (snd (disconnect lib device k s))" for s device k
    by (simp add: disconnect_def close call)
  note disc = this
  have "Q s \<Longrightarrow> Q (snd (stop_filter lib device i k s))" for s device i k
    by (simp add: stop_filter_def disc call)
  then have serve: "P s \<Longrightarrow> Q (snd (bridge_serve lib thread es device i s))" for s device i
    using run weak by (auto simp: bridge_serve_def Let_def)
  have "P s \<Longrightarrow> Q (snd (bridge_filter lib thread es opts device s))" for s opts device
    by (simp add: bridge_filter_def Let_def case_prod_unfold br_report_def serve disc call weak)
  then have "P s \<Longrightarrow> Q (snd (bridge_connect lib thread es opts device s))" for s opts device
    by (simp add: bridge_connect_def Let_def case_prod_unfold br_report_def close call set weak)
  then have "P s \<Longrightarrow> Q (snd (bridge_open lib thread es opts s))" for s opts
    by (simp add: bridge_open_def Let_def case_prod_unfold br_report_def close_socket_def call set weak)
  then show ?thesis by (auto simp: bridge_main_def new set weak Let_def split: option.split)
qed

lemma main_keeps:
  assumes "\<And>opts. opts = options_default \<or> parse_bridge args = Some opts \<Longrightarrow> P (bridge_new opts w)"
    and "\<And>s c. P s \<Longrightarrow> main_call c \<Longrightarrow> P (snd (br_call lib c s))"
    and "\<And>s x. P s \<Longrightarrow> P (s\<lparr>br_channel := x\<rparr>)" "\<And>s b. P s \<Longrightarrow> P (s\<lparr>br_socket := b\<rparr>)"
    and step: "\<And>s e. P s \<Longrightarrow> P (bridge_step lib e s)"
  shows "P (snd (bridge_main lib interface thread es args w))"
  by (rule main_runs [where P = P]) (use assms run_keeps [of P, OF _ step] in auto)

lemma bridge_run_Cons: "bridge_run lib (e # es) s = bridge_run lib es (bridge_step lib e s)"
  by (simp add: bridge_run_def)

section \<open>Frames\<close>

text \<open>A frame as the other side of the bridge sees it: the identifier cut to its width, no data beyond the length.\<close>

definition canonical :: "can_frame \<Rightarrow> can_frame" where
  "canonical f =
     \<lparr>cf_id = (if cf_id f AND CAN_EFF_FLAG \<noteq> 0 then (cf_id f AND CAN_EFF_MASK) OR CAN_EFF_FLAG else cf_id f AND CAN_SFF_MASK),
      cf_len = cf_len f, cf_data = copy_at 0 (take (unat (cf_len f)) (cf_data f)) (replicate 8 0)\<rparr>"

lemma identifier_bytes:
  "big_endian ([ucast (drop_bit 24 i), ucast (drop_bit 16 i), ucast (drop_bit 8 i), ucast i] @ d) = i"
proof (rule bit_word_eqI)
  fix n assume "n < LENGTH(32)"
  then consider "n < 8" | "8 \<le> n" "n < 16" | "16 \<le> n" "n < 24" | "24 \<le> n" "n < 32" by fastforce
  then show "bit (big_endian ([ucast (drop_bit 24 i), ucast (drop_bit 16 i), ucast (drop_bit 8 i), ucast i] @ d)) n = bit i n"
    by cases (auto simp: big_endian_def bit_simps)
qed

lemma masks:
  "(i AND CAN_EFF_MASK) AND CAN_EFF_MASK = i AND CAN_EFF_MASK" "(i AND CAN_SFF_MASK) AND CAN_SFF_MASK = i AND CAN_SFF_MASK"
  by (simp_all add: and.assoc)

lemma drop_four: "drop (4 + n) (a # b # c # e # xs) = drop n xs"
  by (simp add: numeral_eq_Suc)

lemma copied_payload:
  assumes "length d \<le> 8"
  shows "copy_at 0 (take (length d) (drop 4 (copy_at 4 d (copy_at 0 [a, b, c, e] (replicate data_capacity 0))))) (replicate 8 0) =
      copy_at 0 d (replicate 8 0)"
    and "copy_at 4 d (copy_at 0 [a, b, c, e] (replicate data_capacity 0)) = [a, b, c, e] @ d @ replicate (data_capacity - 4 - length d) 0"
proof -
  show *: "copy_at 4 d (copy_at 0 [a, b, c, e] (replicate data_capacity 0)) = [a, b, c, e] @ d @ replicate (data_capacity - 4 - length d) 0"
    using assms by (simp add: copy_at_def data_capacity_def drop_four)
  show "copy_at 0 (take (length d) (drop 4 (copy_at 4 d (copy_at 0 [a, b, c, e] (replicate data_capacity 0))))) (replicate 8 0) =
      copy_at 0 d (replicate 8 0)"
    unfolding * by simp
qed

lemma from_socketcan_form:
  assumes "from_socketcan f = Some m"
  shows "cf_id f AND (CAN_RTR_FLAG OR CAN_ERR_FLAG) = 0" and "cf_len f \<le> 8"
    and "ProtocolID m = CAN" and "RxStatus m = 0" and "DataSize m = 4 + ucast (cf_len f)"
    and "TxFlags m = (if cf_id f AND CAN_EFF_FLAG \<noteq> 0 then CAN_29BIT_ID else 0)"
    and "big_endian (Data m) = cf_id f AND (if cf_id f AND CAN_EFF_FLAG \<noteq> 0 then CAN_EFF_MASK else CAN_SFF_MASK)"
    and "drop 4 (Data m) = take (unat (cf_len f)) (cf_data f) @
      replicate (data_capacity - 4 - length (take (unat (cf_len f)) (cf_data f))) 0"
proof -
  let ?i = "cf_id f AND (if cf_id f AND CAN_EFF_FLAG \<noteq> 0 then CAN_EFF_MASK else CAN_SFF_MASK)"
  let ?d = "take (unat (cf_len f)) (cf_data f)"
  show len: "cf_len f \<le> 8" and "cf_id f AND (CAN_RTR_FLAG OR CAN_ERR_FLAG) = 0"
    and "ProtocolID m = CAN" and "RxStatus m = 0" and "DataSize m = 4 + ucast (cf_len f)"
    and "TxFlags m = (if cf_id f AND CAN_EFF_FLAG \<noteq> 0 then CAN_29BIT_ID else 0)"
    using assms by (auto simp: from_socketcan_def blank_message_def Let_def split: if_splits)
  have "length ?d \<le> 8" using len by (simp add: word_le_nat_alt)
  then have d: "Data m = [ucast (drop_bit 24 ?i), ucast (drop_bit 16 ?i), ucast (drop_bit 8 ?i), ucast ?i] @ ?d @
      replicate (data_capacity - 4 - length ?d) 0"
    using assms by (subst copied_payload(2) [symmetric])
      (auto simp: from_socketcan_def blank_message_def Let_def simp del: copied_payload split: if_splits)
  show "big_endian (Data m) = ?i" unfolding d by (rule identifier_bytes)
  show "drop 4 (Data m) = ?d @ replicate (data_capacity - 4 - length ?d) 0" unfolding d by simp
qed

lemma padding:
  assumes "length d \<le> k" and "k \<le> 8"
  shows "copy_at 0 (take k (d @ replicate n 0)) (replicate 8 0) = copy_at 0 (take k d) (replicate 8 (0 :: u8))"
proof -
  have "replicate (min (k - length d) n) 0 @ replicate (8 - length d - min (k - length d) n) 0 = replicate (8 - length d) (0 :: u8)"
    using assms by (subst replicate_add [symmetric]) (auto simp: min_def)
  then show ?thesis using assms by (simp add: copy_at_def take_replicate min.commute diff_diff_add)
qed

lemma widened [simp]: "ucast (ucast (x :: u8) :: u32) = x" "unat (ucast (x :: u8) :: u32) = unat x"
proof -
  have "unat x < 2 ^ LENGTH(8)" by (rule unsigned_less)
  then have "unat x < 2 ^ 32" by (rule less_le_trans) simp
  then show "unat (ucast (x :: u8) :: u32) = unat x" by (simp add: unsigned_ucast_eq take_bit_nat_eq_self)
  show "ucast (ucast (x :: u8) :: u32) = x" by (intro bit_word_eqI) (auto simp: bit_simps)
qed

lemma frame_flags:
  "((i AND CAN_EFF_MASK) OR CAN_EFF_FLAG) AND (CAN_RTR_FLAG OR CAN_ERR_FLAG) = 0"
  "(i AND CAN_SFF_MASK) AND (CAN_RTR_FLAG OR CAN_ERR_FLAG) = 0"
  "((i AND CAN_EFF_MASK) OR CAN_EFF_FLAG) AND CAN_EFF_FLAG = CAN_EFF_FLAG"
  "(i AND CAN_SFF_MASK) AND CAN_EFF_FLAG = 0"
  "((i AND CAN_EFF_MASK) OR CAN_EFF_FLAG) AND CAN_EFF_MASK = i AND CAN_EFF_MASK"
  "CAN_EFF_FLAG \<noteq> 0"
  by (simp_all add: CAN_EFF_FLAG_def CAN_RTR_FLAG_def CAN_ERR_FLAG_def CAN_SFF_MASK_def CAN_EFF_MASK_def
      and.assoc bit.conj_disj_distrib2)

lemma copied_again: "k \<le> 8 \<Longrightarrow> take k (copy_at 0 d (replicate 8 0)) = take k (d @ replicate (8 - length d) 0)"
  by (simp add: copy_at_def)

lemma to_socketcan_canonical:
  assumes "to_socketcan m = Some g"
  shows "canonical g = g" and "from_socketcan g \<noteq> None"
proof -
  let ?d = "take (unat (DataSize m - 4)) (drop 4 (Data m))"
  have size: "4 \<le> DataSize m" "DataSize m \<le> 12" using assms by (auto simp: to_socketcan_def not_less split: if_splits)
  then have len: "unat (DataSize m - 4) \<le> 8" by (simp add: word_le_nat_alt unat_sub)
  then have narrow: "unat (ucast (DataSize m - 4) :: u8) = unat (DataSize m - 4)"
    by (simp add: unsigned_ucast_eq take_bit_nat_eq_self)
  have g: "cf_len g = ucast (DataSize m - 4)" "cf_data g = copy_at 0 ?d (replicate 8 0)"
    using assms by (auto simp: to_socketcan_def Let_def split: if_splits)
  have i: "\<exists>i. cf_id g = (i AND CAN_EFF_MASK) OR CAN_EFF_FLAG \<or> cf_id g = i AND CAN_SFF_MASK"
    using assms by (auto simp: to_socketcan_def Let_def split: if_splits)
  have "copy_at 0 (take (unat (cf_len g)) (cf_data g)) (replicate 8 0) = cf_data g"
    using len padding [of ?d "unat (DataSize m - 4)" "unat (DataSize m - 4) - length ?d"] by (simp add: g narrow copied_again)
  moreover have "(if cf_id g AND CAN_EFF_FLAG \<noteq> 0 then (cf_id g AND CAN_EFF_MASK) OR CAN_EFF_FLAG else cf_id g AND CAN_SFF_MASK) = cf_id g"
    using i by (auto simp: frame_flags masks)
  ultimately show "canonical g = g" by (simp add: canonical_def)
  have "cf_len g \<le> 8" using len narrow by (simp add: g word_le_nat_alt)
  then show "from_socketcan g \<noteq> None" using i by (auto simp: from_socketcan_def Let_def frame_flags)
qed

text \<open>
  C34. Frames cross the bridge exactly. Every data frame of at most eight bytes becomes a message that the library
  accepts, and comes back as the same frame; remote and error frames are refused, and what the bridge writes to the
  interface is a data frame that it would pass on itself.
\<close>

theorem frames_cross_exactly:
  "(case from_socketcan f of
      Some m \<Rightarrow> cf_id f AND (CAN_RTR_FLAG OR CAN_ERR_FLAG) = 0 \<and> cf_len f \<le> 8 \<and>
        to_socketcan (m\<lparr>RxStatus := TxFlags m\<rparr>) = Some (canonical f) \<and> (\<exists>p. can_transmit m t = Inr p)
    | None \<Rightarrow> \<not> (cf_id f AND (CAN_RTR_FLAG OR CAN_ERR_FLAG) = 0 \<and> cf_len f \<le> 8)) \<and>
   (case to_socketcan n of
      Some g \<Rightarrow> canonical g = g \<and> from_socketcan g \<noteq> None
    | None \<Rightarrow> \<not> (4 \<le> DataSize n \<and> DataSize n \<le> 12 \<and> RxStatus n AND TX_MSG_TYPE = 0))"
proof (rule conjI)
  show "case from_socketcan f of
      Some m \<Rightarrow> cf_id f AND (CAN_RTR_FLAG OR CAN_ERR_FLAG) = 0 \<and> cf_len f \<le> 8 \<and>
        to_socketcan (m\<lparr>RxStatus := TxFlags m\<rparr>) = Some (canonical f) \<and> (\<exists>p. can_transmit m t = Inr p)
    | None \<Rightarrow> \<not> (cf_id f AND (CAN_RTR_FLAG OR CAN_ERR_FLAG) = 0 \<and> cf_len f \<le> 8)"
  proof (cases "from_socketcan f")
    case None
    then show ?thesis by (auto simp: from_socketcan_def Let_def split: if_splits)
  next
    case (Some m)
    note form = from_socketcan_form [OF Some]
    have len: "unat (cf_len f) \<le> 8" using form(2) by (simp add: word_le_nat_alt)
    have size: "DataSize m - 4 = ucast (cf_len f)" "unat (DataSize m) = 4 + unat (cf_len f)"
      using len form(5) by (simp_all add: unat_word_ariths(1))
    have bounds: "\<not> DataSize m < 4" "\<not> DataSize m > 12" using len size(2) by (simp_all add: word_less_nat_alt)
    have data: "copy_at 0 (take (unat (cf_len f)) (drop 4 (Data m))) (replicate 8 0) =
        copy_at 0 (take (unat (cf_len f)) (cf_data f)) (replicate 8 0)"
      unfolding form(8) using len padding [of "take (unat (cf_len f)) (cf_data f)" "unat (cf_len f)"] by simp
    have "to_socketcan (m\<lparr>RxStatus := TxFlags m\<rparr>) = Some (canonical f)"
      using bounds form(6,7) by (auto simp: to_socketcan_def canonical_def Let_def size(1) data masks)
    moreover have "\<exists>p. can_transmit m t = Inr p" using bounds form(3,6) by (auto simp: can_transmit_cases)
    ultimately show ?thesis using Some form(1,2) by simp
  qed
  show "case to_socketcan n of
      Some g \<Rightarrow> canonical g = g \<and> from_socketcan g \<noteq> None
    | None \<Rightarrow> \<not> (4 \<le> DataSize n \<and> DataSize n \<le> 12 \<and> RxStatus n AND TX_MSG_TYPE = 0)"
    using to_socketcan_canonical [of n] by (auto simp: to_socketcan_def Let_def split: option.split if_splits)
qed

section \<open>Counting\<close>

text \<open>What the two threads hold: messages the reader has and frames the writer has.\<close>

fun pending :: "reader_at \<Rightarrow> passthru_msg list" where
  "pending (R_status r) = given r"
| "pending (R_report st ms) = ms"
| "pending (R_frames ms) = ms"
| "pending at = []"

fun in_hand :: "writer_at \<Rightarrow> passthru_msg list" where
  "in_hand (W_recv ms) = ms"
| "in_hand (W_send ms) = ms"
| "in_hand at = []"

text \<open>Every frame from the interface is counted once or in hand, and so is every frame from the vehicle.\<close>

definition host_counted :: "'w bridge \<Rightarrow> bool" where
  "host_counted s \<longleftrightarrow> br_from_host s = br_to_bus s + br_refused s + length (in_hand (br_writer s))"

definition vehicle_counted :: "'w bridge \<Rightarrow> bool" where
  "vehicle_counted s \<longleftrightarrow>
     (\<exists>passed. br_from_vehicle s = passed @ pending (br_reader s) \<and>
        subseq (br_written s) (List.map_filter to_socketcan passed) \<and> length (br_written s) = br_to_host s \<and>
        length (List.map_filter to_socketcan passed) = br_to_host s + br_host_drops s)"

text \<open>What the threads hold is bounded; a fatal status comes with no messages.\<close>

definition reader_bounded :: "'w bridge \<Rightarrow> bool" where
  "reader_bounded s \<longleftrightarrow> length (pending (br_reader s)) \<le> 32 \<and>
     (case br_reader s of
        R_status r \<Rightarrow> fatal (ly_result r) \<longrightarrow> given r = []
      | R_report st ms \<Rightarrow> fatal st \<longrightarrow> ms = []
      | _ \<Rightarrow> True)"

lemma map_filter_one: "List.map_filter f [x] = (case f x of None \<Rightarrow> [] | Some y \<Rightarrow> [y])"
  by (simp add: List.map_filter_def split: option.split)

definition all_counted :: "'w bridge \<Rightarrow> bool" where
  "all_counted s \<longleftrightarrow> host_counted s \<and> vehicle_counted s \<and> reader_bounded s"

lemma counted_simps:
  "host_counted (snd (br_call lib c s)) = host_counted s" "vehicle_counted (snd (br_call lib c s)) = vehicle_counted s"
  "reader_bounded (snd (br_call lib c s)) = reader_bounded s"
  "host_counted (reader_step lib ok s) = host_counted s" "vehicle_counted (writer_step lib poll got s) = vehicle_counted s"
  "reader_bounded (writer_step lib poll got s) = reader_bounded s"
  "host_counted (s\<lparr>br_channel := x\<rparr>) = host_counted s" "vehicle_counted (s\<lparr>br_channel := x\<rparr>) = vehicle_counted s"
  "reader_bounded (s\<lparr>br_channel := x\<rparr>) = reader_bounded s"
  "host_counted (s\<lparr>br_socket := b\<rparr>) = host_counted s" "vehicle_counted (s\<lparr>br_socket := b\<rparr>) = vehicle_counted s"
  "reader_bounded (s\<lparr>br_socket := b\<rparr>) = reader_bounded s"
  "host_counted (s\<lparr>br_stopping := b\<rparr>) = host_counted s" "vehicle_counted (s\<lparr>br_stopping := b\<rparr>) = vehicle_counted s"
  "reader_bounded (s\<lparr>br_stopping := b\<rparr>) = reader_bounded s"
  "host_counted (bridge_new opts w)" "vehicle_counted (bridge_new opts w)" "reader_bounded (bridge_new opts w)"
  by (simp_all add: host_counted_def vehicle_counted_def reader_bounded_def bridge_new_def)

context passthru_library
begin

lemma given_bound: "length (given (fst (lib (J_Read c n t) w))) \<le> unat n"
  using read_within [of c n t w] by (simp add: given_def word_le_nat_alt)

lemma given_nothing:
  assumes "t = 0 \<or> n = 1"
    and "fatal (ly_result (fst (lib (J_Read c n t) w))) \<or> ly_result (fst (lib (J_Read c n t) w)) = status_value ERR_BUFFER_EMPTY"
  shows "given (fst (lib (J_Read c n t) w)) = []"
  using read_nothing [OF assms] by (simp add: given_def)

lemma reader_bounds: "reader_bounded s \<Longrightarrow> reader_bounded (reader_step lib ok s)"
proof (cases "br_reader s")
  case R_top
  then show ?thesis
    using given_bound [of "br_channel s" batch 0 "br_lib s"] given_nothing [of 0 batch "br_channel s" "br_lib s"]
    by (auto simp: reader_bounded_def reader_defs Let_def case_prod_unfold br_call_reply batch_def)
next
  case R_timed
  then show ?thesis
    using given_bound [of "br_channel s" 1 read_wait_ms "br_lib s"] given_nothing [of read_wait_ms 1 "br_channel s" "br_lib s"]
    by (auto simp: reader_bounded_def reader_defs Let_def case_prod_unfold br_call_reply)
next
  case (R_frames ms)
  then show "reader_bounded s \<Longrightarrow> ?thesis"
    by (auto simp: reader_bounded_def reader_step_def split: list.split)
qed (auto simp: reader_bounded_def reader_defs Let_def case_prod_unfold)

text \<open>A message passed on is one more that is counted, if it is a frame.\<close>

lemma frame_counts:
  assumes "br_reader s = R_frames (m # ms)" and "vehicle_counted s"
  shows "vehicle_counted ((pass_frame ok m s)\<lparr>br_reader := R_frames ms\<rparr>)"
proof -
  obtain passed where p: "br_from_vehicle s = passed @ m # ms" "subseq (br_written s) (List.map_filter to_socketcan passed)"
    "length (br_written s) = br_to_host s" "length (List.map_filter to_socketcan passed) = br_to_host s + br_host_drops s"
    using assms by (auto simp: vehicle_counted_def)
  show ?thesis unfolding vehicle_counted_def
    using p by (intro exI [of _ "passed @ [m]"])
      (auto simp: pass_frame_def map_filter_append map_filter_one intro: list_emb_append_mono list_emb_prefix split: option.split)
qed

lemma reader_counts: "reader_bounded s \<Longrightarrow> vehicle_counted s \<Longrightarrow> vehicle_counted (reader_step lib ok s)"
proof (cases "br_reader s")
  case R_top
  then show "reader_bounded s \<Longrightarrow> vehicle_counted s \<Longrightarrow> ?thesis"
    using given_nothing [of 0 batch "br_channel s" "br_lib s"]
    by (auto simp: vehicle_counted_def reader_step_def read_top_def read_call_def Let_def case_prod_unfold br_call_reply)
next
  case (R_frames ms)
  then show "reader_bounded s \<Longrightarrow> vehicle_counted s \<Longrightarrow> ?thesis"
  proof (cases ms)
    case (Cons m rest)
    then show "vehicle_counted s \<Longrightarrow> ?thesis" using R_frames frame_counts [of s m rest ok] by (simp add: reader_step_def)
  qed (auto simp: reader_step_def vehicle_counted_def)
qed (auto simp: vehicle_counted_def reader_bounded_def reader_step_def read_timed_def read_status_def read_report_def read_call_def
    Let_def case_prod_unfold br_call_reply)

lemma writer_counts: "host_counted s \<Longrightarrow> host_counted (writer_step lib poll got s)"
proof (cases "br_writer s")
  case (W_send ms)
  then show "host_counted s \<Longrightarrow> ?thesis"
    using write_within [of "br_channel s" ms "br_lib s"]
    by (auto simp: host_counted_def writer_step_def write_send_def Let_def case_prod_unfold br_call_reply)
qed (auto simp: host_counted_def writer_defs Let_def case_prod_unfold split: poll_answer.split option.split)
lemma step_counts: "all_counted s \<Longrightarrow> all_counted (bridge_step lib e s)"
  by (cases e) (simp_all add: all_counted_def counted_simps reader_bounds reader_counts writer_counts)


end

text \<open>
  C33. The bridge loses no frame without counting it. Every frame that came from the interface is counted as sent to the
  vehicle or as refused, or is in the batch being collected; of the messages the library handed over, every one that is a
  frame was written to the interface, in order and unchanged, or counted as dropped, unless the reader still holds it.
\<close>

theorem bridge_accounts:
  "let s = snd (bridge_main (native net) interface thread es args w)
   in br_from_host s = br_to_bus s + br_refused s + length (in_hand (br_writer s)) \<and>
      (\<exists>passed. br_from_vehicle s = passed @ pending (br_reader s) \<and>
         subseq (br_written s) (List.map_filter to_socketcan passed) \<and> length (br_written s) = br_to_host s \<and>
         length (List.map_filter to_socketcan passed) = br_to_host s + br_host_drops s)"
proof -
  have "all_counted (snd (bridge_main (native net) interface thread es args w))"
    by (rule main_keeps [where P = all_counted])
      (erule native.step_counts | simp add: all_counted_def counted_simps)+
  then show ?thesis unfolding all_counted_def host_counted_def vehicle_counted_def Let_def by blast
qed

section \<open>The bus is left alone\<close>

text \<open>The calls the bridge may make: a write only when asked to transmit, of at most 32 frames, and nothing that changes the bus but that.\<close>

text \<open>The messages written so far, and the frames the interface gave in a run.\<close>

definition messages_written :: "j2534_call list \<Rightarrow> passthru_msg list" where
  "messages_written calls = concat (map (\<lambda>c. case c of J_Write _ ms _ \<Rightarrow> ms | _ \<Rightarrow> []) calls)"

definition frames_offered :: "bridge_event list \<Rightarrow> can_frame list" where
  "frames_offered es = List.map_filter (\<lambda>e. case e of Writer _ got \<Rightarrow> got | _ \<Rightarrow> None) es"

definition harmless :: "bool \<Rightarrow> j2534_call \<Rightarrow> bool" where
  "harmless transmit c =
     (case c of
        J_Write chan ms timeout \<Rightarrow> transmit \<and> timeout = 0 \<and> ms \<noteq> [] \<and> length ms \<le> 32
      | J_Read chan count timeout \<Rightarrow> count \<le> 32
      | _ \<Rightarrow> main_call c)"

definition writer_sound :: "'w bridge \<Rightarrow> bool" where
  "writer_sound s \<longleftrightarrow>
     (in_hand (br_writer s) \<noteq> [] \<longrightarrow> br_transmit s) \<and> length (in_hand (br_writer s)) \<le> 32 \<and> br_writer s \<noteq> W_send []"

lemma reader_harmless: "list_all (harmless b) (br_calls s) \<Longrightarrow> list_all (harmless b) (br_calls (reader_step lib ok s))"
proof (cases "br_reader s")
  case (R_frames ms)
  then show "list_all (harmless b) (br_calls s) \<Longrightarrow> ?thesis"
    by (cases ms) (auto simp: reader_step_def pass_frame_def split: option.split)
qed (auto simp: reader_defs Let_def case_prod_unfold harmless_def batch_def)

lemma writer_stays_sound: "writer_sound s \<Longrightarrow> writer_sound (writer_step lib poll got s)"
proof (cases "br_writer s")
  case (W_recv ms)
  then show "writer_sound s \<Longrightarrow> ?thesis"
    by (cases "if length ms < 32 then got else None") (auto simp: writer_sound_def writer_step_def write_recv_def batch_def Let_def split: option.split if_splits)
next
  case W_top
  then show "writer_sound s \<Longrightarrow> ?thesis"
    by (auto simp: writer_sound_def writer_step_def write_top_def split: poll_answer.split)
qed (auto simp: writer_sound_def writer_step_def write_send_def write_report_def Let_def case_prod_unfold)

lemma writer_harmless:
  assumes "writer_sound s" and "list_all (harmless (br_transmit s)) (br_calls s)"
  shows "list_all (harmless (br_transmit s)) (br_calls (writer_step lib poll got s))"
proof (cases "br_writer s")
  case (W_recv ms)
  then show ?thesis using assms
    by (auto simp: writer_step_def write_recv_def Let_def split: option.split)
next
  case W_top
  then show ?thesis using assms by (auto simp: writer_step_def write_top_def split: poll_answer.split)
qed (use assms in \<open>auto simp: writer_sound_def writer_step_def write_send_def write_report_def harmless_def Let_def case_prod_unfold\<close>)

lemma step_harmless:
  assumes "writer_sound s" and "list_all (harmless (br_transmit s)) (br_calls s)"
  shows "writer_sound (bridge_step lib e s) \<and>
    list_all (harmless (br_transmit (bridge_step lib e s))) (br_calls (bridge_step lib e s))"
proof (cases e)
  case (Reader ok)
  have "writer_sound (reader_step lib ok s)" using assms(1) by (simp add: writer_sound_def)
  then show ?thesis using Reader reader_harmless [OF assms(2)] by simp
next
  case (Writer poll got)
  then show ?thesis using writer_stays_sound [OF assms(1)] writer_harmless [OF assms] by simp
next
  case Signal
  then show ?thesis using assms by (simp add: writer_sound_def)
qed

text \<open>Which options come from where.\<close>

definition options_ok :: "string list \<Rightarrow> bridge_options \<Rightarrow> bool" where
  "options_ok args opts \<longleftrightarrow>
     bo_bitrate opts \<noteq> 0 \<and> bo_bitrate opts \<le> 1000000 \<and> bo_flags opts \<in> {0, CAN_29BIT_ID} \<and> bo_stats opts \<le> 86400 \<and>
     (bo_transmit opts \<longrightarrow> ''--transmit'' \<in> set args) \<and>
     (bo_interface opts = None \<or> bo_interface opts \<in> Some ` set args)"

lemma parse_number_range: "parse_number text k = Some v \<Longrightarrow> 0 \<le> v \<and> v \<le> k"
  using digits_value_nonneg [of 10] by (auto simp: parse_number_def strtoul_def Let_def split: if_splits)

lemma option_values:
  assumes "parse_number t k = Some v" and "0 < k" and "k < 4294967296"
  shows "(of_int v :: u32) \<le> of_int k" and "v \<noteq> 0 \<Longrightarrow> (of_int v :: u32) \<noteq> 0"
proof -
  have "uint (of_int v :: u32) = v" "uint (of_int k :: u32) = k"
    using parse_number_range [OF assms(1)] assms(2,3) by (simp_all add: uint_word_of_int_eq take_bit_int_eq_self)
  then show "(of_int v :: u32) \<le> of_int k" and "v \<noteq> 0 \<Longrightarrow> (of_int v :: u32) \<noteq> 0"
    using parse_number_range [OF assms(1)] by (auto simp: word_le_def)
qed

lemma take_interface_ok:
  assumes "take_interface a rest opts = Some (o', rest')" and "options_ok args opts" and "set (a # rest) \<subseteq> set args"
  shows "options_ok args o' \<and> set rest' \<subseteq> set args"
  using assms by (auto simp: take_interface_def options_ok_def split: if_splits)

lemma take_flags_ok:
  assumes "take_flags a rest opts = Some (o', rest')" and "options_ok args opts" and "set (a # rest) \<subseteq> set args"
  shows "options_ok args o' \<and> set rest' \<subseteq> set args"
proof (cases "a = ''--stats'' \<and> rest \<noteq> []")
  case True
  then obtain b more where r: "rest = b # more" by (cases rest) auto
  show ?thesis
  proof (cases "parse_number b 86400")
    case None
    then have "take_interface b more opts = Some (o', rest')" using assms(1) True r by (simp add: take_flags_def)
    from take_interface_ok [OF this assms(2)] show ?thesis using assms(3) r by simp
  next
    case (Some v)
    then have "(of_int v :: u32) \<le> 86400" using option_values(1) [OF Some] by simp
    then show ?thesis using assms True r Some by (auto simp: take_flags_def options_ok_def)
  qed
next
  case False
  then show ?thesis
    using assms take_interface_ok [of a rest opts o' rest' args] by (auto simp: take_flags_def options_ok_def split: if_splits)
qed

lemma take_option_ok:
  assumes "take_option a rest opts = Some (o', rest')" and "options_ok args opts" and "set (a # rest) \<subseteq> set args"
  shows "options_ok args o' \<and> set rest' \<subseteq> set args"
proof (cases "a = ''--bitrate'' \<and> rest \<noteq> []")
  case True
  then obtain b more where r: "rest = b # more" by (cases rest) auto
  show ?thesis
  proof (cases "\<exists>v. parse_number b 1000000 = Some v \<and> v \<noteq> 0")
    case False
    then have "take_flags b more opts = Some (o', rest')"
      using assms(1) True r by (auto simp: take_option_def split: option.splits)
    from take_flags_ok [OF this assms(2)] show ?thesis using assms(3) r by simp
  next
    case True
    then obtain v where v: "parse_number b 1000000 = Some v" "v \<noteq> 0" by blast
    then have "(of_int v :: u32) \<le> 1000000" "(of_int v :: u32) \<noteq> 0" using option_values [OF v(1)] by simp_all
    then show ?thesis using assms \<open>a = ''--bitrate'' \<and> rest \<noteq> []\<close> r v by (auto simp: take_option_def options_ok_def)
  qed
next
  case False
  show ?thesis
  proof (cases "a = ''--device'' \<and> rest \<noteq> []")
    case True
    then show ?thesis using assms by (cases rest) (auto simp: take_option_def options_ok_def)
  next
    case no: False
    then have "take_flags a rest opts = Some (o', rest')" using assms(1) False by (auto simp: take_option_def split: if_splits)
    from take_flags_ok [OF this assms(2,3)] show ?thesis .
  qed
qed

lemma parse_args_ok: "parse_args todo opts = Some o' \<Longrightarrow> options_ok args opts \<Longrightarrow> set todo \<subseteq> set args \<Longrightarrow> options_ok args o'"
proof (induction todo opts rule: parse_args.induct)
  case (2 a rest opts)
  then obtain q rest' where q: "take_option a rest opts = Some (q, rest')" "parse_args rest' q = Some o'"
    by (auto split: option.splits)
  then show ?case using "2.IH" [OF q(1)] take_option_ok [OF q(1) "2.prems"(2,3)] by auto
qed simp

lemma parse_bridge_ok: "parse_bridge args = Some opts \<Longrightarrow> options_ok args opts \<and> bo_interface opts \<noteq> None"
  using parse_args_ok [of args options_default opts args]
  by (auto simp: parse_bridge_def options_default_def options_ok_def split: option.splits if_splits)

text \<open>What was written, with what is in hand, comes from the frames offered: in order, each at most once, unchanged.\<close>

definition fed_from :: "can_frame list \<Rightarrow> 'w bridge \<Rightarrow> bool" where
  "fed_from fs s \<longleftrightarrow> subseq (messages_written (br_calls s) @ in_hand (br_writer s)) (List.map_filter from_socketcan fs)"

lemma messages_written_snoc:
  "messages_written (calls @ [c]) = messages_written calls @ (case c of J_Write _ ms _ \<Rightarrow> ms | _ \<Rightarrow> [])"
  by (simp add: messages_written_def)

lemma main_call_written: "main_call c \<Longrightarrow> messages_written (calls @ [c]) = messages_written calls"
  by (cases c) (simp_all add: messages_written_snoc)

lemma subseq_drop_right: "subseq (xs @ ys) zs \<Longrightarrow> subseq xs zs"
  by (rule subseq_order.trans [of _ "xs @ ys"]) (auto intro: list_emb_prefix)

lemma reader_fed_from: "fed_from fs s \<Longrightarrow> fed_from fs (reader_step lib ok s)"
proof -
  have "messages_written (br_calls (reader_step lib ok s)) = messages_written (br_calls s)"
  proof (cases "br_reader s")
    case (R_frames ms)
    then show ?thesis by (cases ms) (auto simp: reader_step_def pass_frame_def split: option.split)
  qed (auto simp: reader_defs Let_def case_prod_unfold messages_written_snoc)
  then show "fed_from fs s \<Longrightarrow> ?thesis" by (simp add: fed_from_def)
qed

lemma writer_fed_from:
  assumes "fed_from fs s" shows "fed_from (fs @ (case got of None \<Rightarrow> [] | Some f \<Rightarrow> [f])) (writer_step lib poll got s)"
proof -
  have more: "subseq xs (List.map_filter from_socketcan fs) \<Longrightarrow>
      subseq xs (List.map_filter from_socketcan (fs @ (case got of None \<Rightarrow> [] | Some f \<Rightarrow> [f])))" for xs
    by (auto simp: map_filter_append intro: list_emb_prefix)
  show ?thesis
  proof (cases "br_writer s")
    case (W_recv ms)
    show ?thesis
    proof (cases "if length ms < unat batch then got else None")
      case None
      then show ?thesis using assms W_recv more by (auto simp: fed_from_def writer_step_def write_recv_def)
    next
      case (Some f)
      then have g: "got = Some f" and len: "length ms < unat batch" by (simp_all split: if_splits)
      show ?thesis
      proof (cases "if br_transmit s then from_socketcan f else None")
        case None
        then show ?thesis using assms W_recv more Some by (auto simp: fed_from_def writer_step_def write_recv_def Let_def)
      next
        case m: (Some m)
        then have "from_socketcan f = Some m" by (simp split: if_splits)
        then have "subseq ((messages_written (br_calls s) @ ms) @ [m]) (List.map_filter from_socketcan fs @ List.map_filter from_socketcan [f])"
          using assms W_recv by (intro list_emb_append_mono) (simp_all add: fed_from_def map_filter_one)
        then show ?thesis using W_recv Some m g len by (simp add: fed_from_def writer_step_def write_recv_def map_filter_append Let_def)
      qed
    qed
  next
    case W_top
    then show ?thesis using assms more by (auto simp: fed_from_def writer_step_def write_top_def split: poll_answer.split)
  qed (use assms more in \<open>auto simp: fed_from_def writer_step_def write_send_def write_report_def Let_def case_prod_unfold messages_written_snoc\<close>)
qed

lemma run_fed_from: "fed_from fs s \<Longrightarrow> fed_from (fs @ frames_offered es) (bridge_run lib es s)"
proof (induction es arbitrary: fs s)
  case (Cons e es)
  have offered: "frames_offered (e # es) = (case e of Writer _ (Some f) \<Rightarrow> [f] | _ \<Rightarrow> []) @ frames_offered es"
    by (simp add: frames_offered_def List.map_filter_def split: bridge_event.split option.split)
  show ?case
  proof (cases e)
    case (Writer poll got)
    from Cons.IH [OF writer_fed_from [OF Cons.prems, where poll = poll and got = got]]
    show ?thesis unfolding bridge_run_Cons offered by (simp add: Writer split: option.splits)
  next
    case (Reader ok)
    from Cons.IH [OF reader_fed_from [OF Cons.prems, where ok = ok]] show ?thesis
      unfolding bridge_run_Cons offered by (simp add: Reader)
  next
    case Signal
    have "fed_from fs (s\<lparr>br_stopping := True\<rparr>)" using Cons.prems by (simp add: fed_from_def)
    from Cons.IH [OF this] show ?thesis unfolding bridge_run_Cons offered by (simp add: Signal)
  qed
qed (simp add: frames_offered_def bridge_run_def List.map_filter_def)

text \<open>
  C32. The bus is left alone: unless \<open>--transmit\<close> is among the arguments, the bridge writes no frame to the vehicle,
  whatever appears on the interface. With it, what it writes are frames that the interface gave it, in their order, each at
  most once and with the identifier and the data it had there, at most 32 in a call. Nothing else that changes the bus is
  ever called.
\<close>

theorem bridge_listens_only:
  "let s = snd (bridge_main lib interface thread es args w)
   in list_all (harmless (''--transmit'' \<in> set args)) (br_calls s) \<and>
      subseq (messages_written (br_calls s)) (List.map_filter from_socketcan (frames_offered es))"
proof -
  let ?tr = "''--transmit'' \<in> set args"
  let ?P = "\<lambda>s. writer_sound s \<and> list_all (harmless (br_transmit s)) (br_calls s) \<and> (br_transmit s \<longrightarrow> ?tr)"
  have "?P (snd (bridge_main lib interface thread es args w))"
  proof (rule main_keeps)
    fix opts assume "opts = options_default \<or> parse_bridge args = Some opts"
    then have "bo_transmit opts \<longrightarrow> ?tr" using parse_bridge_ok by (auto simp: options_ok_def options_default_def)
    then show "?P (bridge_new opts w)" by (simp add: bridge_new_def writer_sound_def)
  next
    fix s :: "'a bridge" and c assume "?P s" "main_call c"
    then show "?P (snd (br_call lib c s))" by (cases c) (auto simp: writer_sound_def harmless_def)
  next
    fix s :: "'a bridge" and e assume "?P s"
    moreover have "br_transmit (bridge_step lib e s) = br_transmit s" by (cases e) simp_all
    ultimately show "?P (bridge_step lib e s)" using step_harmless [of s lib e] by simp
  qed (simp_all add: writer_sound_def)
  moreover have "harmless b c \<Longrightarrow> (b \<longrightarrow> ?tr) \<Longrightarrow> harmless ?tr c" for b c
    by (auto simp: harmless_def split: j2534_call.splits)
  moreover have "subseq (messages_written (br_calls (snd (bridge_main lib interface thread es args w))))
      (List.map_filter from_socketcan (frames_offered es))"
  proof (rule main_runs [where P = "\<lambda>s. messages_written (br_calls s) = [] \<and> br_writer s = W_top"])
    show "subseq (messages_written (br_calls (bridge_run lib es s))) (List.map_filter from_socketcan (frames_offered es))"
      if "messages_written (br_calls s) = [] \<and> br_writer s = W_top" for s :: "'a bridge"
      using run_fed_from [of "[]" s es lib] that by (auto simp: fed_from_def intro: subseq_drop_right)
  qed (simp_all add: bridge_new_def main_call_written, simp add: messages_written_def)
  ultimately show ?thesis by (auto simp: list_all_iff Let_def)
qed

text \<open>
  A bit rate that is refused is not reported: the text after \<open>--bitrate\<close> becomes the name of the interface, and the
  bridge runs at the default rate.
\<close>

lemma refused_bitrate_taken:
  assumes "parse_number v 1000000 = None \<or> parse_number v 1000000 = Some 0" and "v \<noteq> []" and "hd v \<noteq> CHR ''-''"
  shows "parse_bridge [''--bitrate'', v] = Some (options_default\<lparr>bo_interface := Some v\<rparr>)"
proof -
  have "take_flags v [] options_default = Some (options_default\<lparr>bo_interface := Some v\<rparr>, [])"
    using assms(2,3) by (auto simp: take_flags_def take_interface_def options_default_def)
  then show ?thesis using assms(1) by (auto simp: parse_bridge_def take_option_def)
qed

section \<open>What is opened is closed\<close>

text \<open>The state of the library after a list of calls, and what it answers to the next.\<close>

fun after :: "'w library \<Rightarrow> j2534_call list \<Rightarrow> 'w \<Rightarrow> 'w" where
  "after lib [] w = w"
| "after lib (c # cs) w = after lib cs (snd (lib c w))"

definition answer :: "'w library \<Rightarrow> 'w \<Rightarrow> j2534_call list \<Rightarrow> j2534_call \<Rightarrow> reply" where
  "answer lib w cs c = fst (lib c (after lib cs w))"

fun on_channel :: "u32 \<Rightarrow> j2534_call \<Rightarrow> bool" where
  "on_channel chan (J_Read c n t) = (c = chan)"
| "on_channel chan (J_Write c ms t) = (c = chan)"
| "on_channel chan J_Last_error = True"
| "on_channel chan c = False"

text \<open>The calls of a program that has ended: nothing but what undoes the calls that succeeded, newest first.\<close>

definition tidy :: "'w library \<Rightarrow> 'w \<Rightarrow> j2534_call list \<Rightarrow> bool" where
  "tidy lib w cs \<longleftrightarrow> cs = [] \<or>
     (\<exists>name protocol flags baud m.
        let open1 = J_Open name; device = ly_id (answer lib w [] open1);
            connect = J_Connect device protocol flags baud; chan = ly_id (answer lib w [open1] connect);
            filter1 = J_Start_filter chan PASS_FILTER m m None; i = ly_id (answer lib w [open1, connect] filter1)
        in if ly_result (answer lib w [] open1) \<noteq> 0 then cs = [open1, J_Last_error]
           else if ly_result (answer lib w [open1] connect) \<noteq> 0 then cs = [open1, connect, J_Last_error, J_Close device]
           else if ly_result (answer lib w [open1, connect] filter1) \<noteq> 0
           then cs = [open1, connect, filter1, J_Last_error, J_Disconnect chan, J_Close device]
           else \<exists>served. list_all (on_channel chan) served \<and>
             cs = [open1, connect, filter1] @ served @ [J_Stop_filter chan i, J_Disconnect chan, J_Close device])"

lemma reader_on_channel:
  "\<exists>cs. br_calls (reader_step lib ok s) = br_calls s @ cs \<and> list_all (on_channel (br_channel s)) cs"
proof (cases "br_reader s")
  case (R_frames ms)
  then show ?thesis by (cases ms) (auto simp: reader_step_def pass_frame_def split: option.split)
qed (auto simp: reader_step_def read_top_def read_timed_def read_status_def read_report_def read_call_def Let_def case_prod_unfold)

lemma writer_on_channel:
  "\<exists>cs. br_calls (writer_step lib poll got s) = br_calls s @ cs \<and> list_all (on_channel (br_channel s)) cs"
proof (cases "br_writer s")
  case (W_recv ms)
  then show ?thesis by (auto simp: writer_step_def write_recv_def Let_def split: option.split)
next
  case W_top
  then show ?thesis by (auto simp: writer_step_def write_top_def split: poll_answer.split)
qed (auto simp: writer_step_def write_send_def write_report_def Let_def case_prod_unfold)

lemma run_on_channel:
  "br_channel (bridge_run lib es s) = br_channel s \<and>
   (\<exists>cs. br_calls (bridge_run lib es s) = br_calls s @ cs \<and> list_all (on_channel (br_channel s)) cs)"
proof (rule run_keeps)
  fix t :: "'a bridge" and e
  assume t: "br_channel t = br_channel s \<and> (\<exists>cs. br_calls t = br_calls s @ cs \<and> list_all (on_channel (br_channel s)) cs)"
  obtain ds where "br_calls (bridge_step lib e t) = br_calls t @ ds" "list_all (on_channel (br_channel t)) ds"
    using reader_on_channel writer_on_channel by (cases e) fastforce+
  moreover have "br_channel (bridge_step lib e t) = br_channel t" by (cases e) simp_all
  ultimately show "br_channel (bridge_step lib e t) = br_channel s \<and>
      (\<exists>cs. br_calls (bridge_step lib e t) = br_calls s @ cs \<and> list_all (on_channel (br_channel s)) cs)"
    using t by auto
qed simp

lemma br_lib_after: "br_lib s = after lib (br_calls s) w \<Longrightarrow>
    br_lib (snd (br_call lib c s)) = after lib (br_calls s @ [c]) w \<and> fst (br_call lib c s) = answer lib w (br_calls s) c"
proof -
  have "after lib (cs @ [c]) v = snd (lib c (after lib cs v))" for cs v by (induction cs arbitrary: v) simp_all
  then show "br_lib s = after lib (br_calls s) w \<Longrightarrow> ?thesis"
    by (simp add: br_call_def answer_def case_prod_unfold)
qed

lemma stop_filter_calls:
  "stop_filter lib device i k s = (Some k, t) \<Longrightarrow>
     \<not> br_socket t \<and> br_calls t = br_calls s @ [J_Stop_filter (br_channel s) i, J_Disconnect (br_channel s), J_Close device]"
  by (auto simp: stop_filter_def disconnect_def close_device_def close_socket_def)

lemma bridge_serve_calls:
  assumes "bridge_serve lib thread es device i s = (Some code, t)"
  shows "\<not> br_socket t \<and> (\<exists>served. list_all (on_channel (br_channel s)) served \<and>
    br_calls t = br_calls s @ served @ [J_Stop_filter (br_channel s) i, J_Disconnect (br_channel s), J_Close device])"
proof (cases thread)
  case False
  then have "stop_filter lib device i 1 s = (Some 1, t)" using assms
    by (auto simp: bridge_serve_def stop_filter_def disconnect_def close_device_def close_socket_def)
  from stop_filter_calls [OF this] show ?thesis by (auto intro: exI [of _ "[]"])
next
  case True
  let ?r = "bridge_run lib es s"
  obtain k where k: "stop_filter lib device i k ?r = (Some k, t)" using assms True
    by (auto simp: bridge_serve_def Let_def stop_filter_def disconnect_def close_device_def close_socket_def split: if_splits)
  obtain cs where cs: "br_channel ?r = br_channel s" "br_calls ?r = br_calls s @ cs" "list_all (on_channel (br_channel s)) cs"
    using run_on_channel by blast
  show ?thesis using stop_filter_calls [OF k] cs by auto
qed

text \<open>The four ends of a program whose interface opened; \<open>open1\<close>, \<open>connect\<close>, \<open>filter1\<close> as in \<open>tidy\<close>.\<close>

lemma tidyI:
  assumes "open1 = J_Open name" "device = ly_id (answer lib w [] open1)" "connect = J_Connect device protocol flags baud"
    "chan = ly_id (answer lib w [open1] connect)" "filter1 = J_Start_filter chan PASS_FILTER m m None"
    "i = ly_id (answer lib w [open1, connect] filter1)"
    "if ly_result (answer lib w [] open1) \<noteq> 0 then cs = [open1, J_Last_error]
     else if ly_result (answer lib w [open1] connect) \<noteq> 0 then cs = [open1, connect, J_Last_error, J_Close device]
     else if ly_result (answer lib w [open1, connect] filter1) \<noteq> 0
     then cs = [open1, connect, filter1, J_Last_error, J_Disconnect chan, J_Close device]
     else \<exists>served. list_all (on_channel chan) served \<and>
       cs = [open1, connect, filter1] @ served @ [J_Stop_filter chan i, J_Disconnect chan, J_Close device]"
  shows "tidy lib w cs"
  unfolding tidy_def Let_def using assms(7) unfolding assms(1-6) by blast

lemma bridge_open_tidy:
  assumes "br_calls s = []" and "br_lib s = w" and main: "bridge_open lib thread es opts s = (Some code, t)"
  shows "\<not> br_socket t \<and> tidy lib w (br_calls t)"
proof -
  define open1 where "open1 = J_Open (bo_device opts)"
  define s1 where "s1 = snd (br_call lib open1 s)"
  define device where "device = ly_id (answer lib w [] open1)"
  define connect where "connect = J_Connect device CAN (bo_flags opts) (bo_bitrate opts)"
  define s2 where "s2 = (snd (br_call lib connect s1))\<lparr>br_channel := ly_id (answer lib w [open1] connect)\<rparr>"
  define m where "m = (blank_message CAN (bo_flags opts))\<lparr>DataSize := 4\<rparr>"
  define filter1 where "filter1 = J_Start_filter (br_channel s2) PASS_FILTER m m None"
  define s3 where "s3 = snd (br_call lib filter1 s2)"
  have 1: "br_lib s1 = after lib [open1] w" "fst (br_call lib open1 s) = answer lib w [] open1" "br_calls s1 = [open1]"
    using br_lib_after [of s lib w open1] assms(1,2) by (simp_all add: s1_def)
  have 2: "br_lib s2 = after lib [open1, connect] w" "fst (br_call lib connect s1) = answer lib w [open1] connect"
    "br_calls s2 = [open1, connect]" "br_channel s2 = ly_id (answer lib w [open1] connect)"
    using br_lib_after [of s1 lib w connect] 1 by (simp_all add: s2_def)
  have 3: "fst (br_call lib filter1 s2) = answer lib w [open1, connect] filter1" "br_calls s3 = [open1, connect, filter1]"
    "br_channel s3 = br_channel s2"
    using br_lib_after [of s2 lib w filter1] 2 by (simp_all add: s3_def)
  have c1: "br_call lib open1 s = (answer lib w [] open1, s1)" using 1(2) by (simp add: s1_def prod_eq_iff)
  have c2: "br_call lib connect s1 = (answer lib w [open1] connect, snd (br_call lib connect s1))"
    using 2(2) by (simp add: prod_eq_iff)
  have c3: "br_call lib filter1 s2 = (answer lib w [open1, connect] filter1, s3)" using 3(1) by (simp add: s3_def prod_eq_iff)
  have o: "bridge_open lib thread es opts s =
      (if ly_result (answer lib w [] open1) \<noteq> 0 then close_socket 1 (br_report lib s1)
       else bridge_connect lib thread es opts device s1)"
    using c1 by (simp add: bridge_open_def open1_def device_def)
  have c: "bridge_connect lib thread es opts device s1 =
      (if ly_result (answer lib w [open1] connect) \<noteq> 0 then close_device lib device 1 (br_report lib s2)
       else bridge_filter lib thread es opts device s2)"
    by (simp only: bridge_connect_def connect_def [symmetric] case_prod_unfold Let_def 2(2) s2_def)
  have f: "bridge_filter lib thread es opts device s2 =
      (if ly_result (answer lib w [open1, connect] filter1) \<noteq> 0 then disconnect lib device 1 (br_report lib s3)
       else bridge_serve lib thread es device (ly_id (answer lib w [open1, connect] filter1)) s3)"
    using c3 by (simp add: bridge_filter_def filter1_def m_def Let_def)
  note run = main [unfolded o c f]
  have "\<not> br_socket t \<and>
      (if ly_result (answer lib w [] open1) \<noteq> 0 then br_calls t = [open1, J_Last_error]
       else if ly_result (answer lib w [open1] connect) \<noteq> 0 then br_calls t = [open1, connect, J_Last_error, J_Close device]
       else if ly_result (answer lib w [open1, connect] filter1) \<noteq> 0
       then br_calls t = [open1, connect, filter1, J_Last_error, J_Disconnect (br_channel s2), J_Close device]
       else \<exists>served. list_all (on_channel (br_channel s2)) served \<and>
         br_calls t = [open1, connect, filter1] @ served @
           [J_Stop_filter (br_channel s2) (ly_id (answer lib w [open1, connect] filter1)), J_Disconnect (br_channel s2), J_Close device])"
    using run 1(3) 2(3) 3(2,3) bridge_serve_calls [of lib thread es device _ s3 code t]
    by (auto simp: close_socket_def close_device_def disconnect_def br_report_def split: if_splits)
  then show ?thesis
    using tidyI [OF open1_def device_def connect_def 2(4) filter1_def refl, of "br_calls t"] by blast
qed

text \<open>
  C35. What the bridge opens, it closes: when it ends, by whatever path and whatever the library answers, the socket is
  closed, and the filter, the channel and the device it got are given back, each by its own ID, the newest first, and
  nothing else is; in between only the channel is used.
\<close>

theorem bridge_closes_what_it_opens:
  "case bridge_main lib interface thread es args w of
     (None, s) \<Rightarrow> True
   | (Some code, s) \<Rightarrow> \<not> br_socket s \<and> tidy lib w (br_calls s)"
proof (cases "bridge_main lib interface thread es args w")
  case (Pair code s)
  show ?thesis
  proof (cases code)
    case None
    then show ?thesis using Pair by simp
  next
    case (Some k)
    show ?thesis
    proof (cases "\<exists>opts. bridge_main lib interface thread es args w = bridge_open lib thread es opts ((bridge_new opts w)\<lparr>br_socket := True\<rparr>)")
      case True
      then obtain opts where "bridge_open lib thread es opts ((bridge_new opts w)\<lparr>br_socket := True\<rparr>) = (Some k, s)"
        using Pair Some by auto
      from bridge_open_tidy [OF _ _ this] show ?thesis using Pair Some by (simp add: bridge_new_def)
    next
      case False
      then have no: "bridge_open lib thread es opts ((bridge_new opts w)\<lparr>br_socket := True\<rparr>) \<noteq> (code, s)" for opts
        using Pair by metis
      then have "\<exists>opts. s = bridge_new opts w"
        using Pair by (auto simp: bridge_main_def Let_def split: if_splits option.splits)
      then show ?thesis using Pair Some by (auto simp: bridge_new_def tidy_def)
    qed
  qed
qed

section \<open>A stop ends both threads\<close>

text \<open>What a halting thread has left: its own steps until it is done. A writer step counts unless the interface gives it a frame it refuses.\<close>

definition reader_left :: "'w bridge \<Rightarrow> nat" where
  "reader_left s =
     (case br_reader s of
        R_done \<Rightarrow> 0
      | R_top \<Rightarrow> 1
      | R_frames ms \<Rightarrow> length ms + 2
      | R_report st ms \<Rightarrow> length ms + 3
      | R_status r \<Rightarrow> length (given r) + 4
      | R_timed \<Rightarrow> 37)"

definition writer_left :: "'w bridge \<Rightarrow> nat" where
  "writer_left s = (case br_writer s of W_done \<Rightarrow> 0 | W_top \<Rightarrow> 1 | W_report st \<Rightarrow> 2 | W_send ms \<Rightarrow> 3 | W_recv ms \<Rightarrow> 4 + (32 - length ms))"

fun reader_turn :: "bridge_event \<Rightarrow> bool" where
  "reader_turn (Reader ok) = True"
| "reader_turn e = False"

definition writer_turn :: "bool \<Rightarrow> bridge_event \<Rightarrow> bool" where
  "writer_turn transmit e =
     (case e of Writer _ None \<Rightarrow> True | Writer _ (Some f) \<Rightarrow> transmit \<and> from_socketcan f \<noteq> None | _ \<Rightarrow> False)"

lemma writer_turn_simps [simp]: "\<not> writer_turn b (Reader ok)" "\<not> writer_turn b Signal"
  by (simp_all add: writer_turn_def)

lemma writer_progress:
  assumes "br_halting s"
  shows "br_halting (writer_step lib poll got s)" and "writer_left (writer_step lib poll got s) \<le> writer_left s"
    and "writer_turn (br_transmit s) (Writer poll got) \<Longrightarrow> writer_left (writer_step lib poll got s) \<le> writer_left s - 1"
  using assms
  by (cases "br_writer s"; auto simp: br_halting_def writer_left_def writer_turn_def writer_defs batch_def Let_def case_prod_unfold
      split: option.splits)+

lemma halting_reader_left:
  "br_halting s \<Longrightarrow> br_halting (reader_step lib ok s)"
  by (cases "br_reader s"; auto simp: br_halting_def reader_defs Let_def case_prod_unfold split: list.split option.split)

context passthru_library
begin

lemma reader_progress:
  assumes "br_halting s"
  shows "reader_left (reader_step lib ok s) \<le> reader_left s - 1"
proof (cases "br_reader s")
  case R_timed
  then show ?thesis
    using given_bound [of "br_channel s" 1 read_wait_ms "br_lib s"]
    by (auto simp: reader_left_def reader_step_def read_timed_def read_call_def Let_def case_prod_unfold br_call_reply)
next
  case (R_frames ms)
  then show ?thesis
    by (cases ms) (auto simp: reader_left_def reader_step_def)
qed (use assms in \<open>auto simp: reader_left_def br_halting_def reader_step_def read_top_def read_status_def read_report_def
    Let_def case_prod_unfold\<close>)

lemma stops_in_time:
  assumes "br_halting s" and "reader_left s \<le> length (filter reader_turn es)" and "writer_left s \<le> length (filter (writer_turn (br_transmit s)) es)"
  shows "br_reader (bridge_run lib es s) = R_done \<and> br_writer (bridge_run lib es s) = W_done"
  using assms
proof (induction es arbitrary: s)
  case Nil
  then show ?case by (auto simp: bridge_run_def reader_left_def writer_left_def split: reader_at.splits writer_at.splits)
next
  case (Cons e es)
  have "br_halting (bridge_step lib e s) \<and> reader_left (bridge_step lib e s) \<le> length (filter reader_turn es) \<and>
      writer_left (bridge_step lib e s) \<le> length (filter (writer_turn (br_transmit (bridge_step lib e s))) es)"
  proof (cases e)
    case (Reader ok)
    have "writer_left (reader_step lib ok s) = writer_left s" by (simp add: writer_left_def)
    then show ?thesis
      using Reader Cons.prems halting_reader_left [OF Cons.prems(1)] reader_progress [OF Cons.prems(1), of ok] by auto
  next
    case (Writer poll got)
    have "reader_left (writer_step lib poll got s) = reader_left s" by (simp add: reader_left_def)
    then show ?thesis
      using Writer Cons.prems writer_progress [OF Cons.prems(1), where lib = lib and poll = poll and got = got]
      by (cases "writer_turn (br_transmit s) e") auto
  next
    case Signal
    then show ?thesis using Cons.prems by (simp add: br_halting_def reader_left_def writer_left_def)
  qed
  then show ?case unfolding bridge_run_Cons using Cons.IH by blast
qed

lemma left_bounded: "reader_bounded s \<Longrightarrow> reader_left s \<le> 37 \<and> writer_left s \<le> 36"
  by (auto simp: reader_bounded_def reader_left_def writer_left_def split: reader_at.splits writer_at.splits)

end

text \<open>Whether a command line makes the bridge transmit.\<close>

definition transmits :: "string list \<Rightarrow> bool" where
  "transmits args = (case parse_bridge args of None \<Rightarrow> False | Some opts \<Rightarrow> bo_transmit opts)"

lemma serve_ends:
  assumes "all_counted s" and "br_transmit s = tr"
    and "37 \<le> length (filter reader_turn es')" and "36 \<le> length (filter (writer_turn tr) es')"
  shows "\<exists>k. fst (bridge_serve (native net) thread (es @ Signal # es') device i s) = Some k"
proof -
  let ?ok = "\<lambda>s. all_counted s \<and> br_transmit s = tr"
  let ?t = "bridge_run (native net) es s"
  let ?u = "?t\<lparr>br_stopping := True\<rparr>"
  have step: "?ok (bridge_step (native net) e t)" if "?ok t" for e t
    using that native.step_counts [of t net e] by (cases e) simp_all
  have "?ok s" using assms(1,2) by simp
  from this step have t: "?ok ?t" by (rule run_keeps [where P = ?ok])
  then have "reader_bounded ?u" by (simp add: all_counted_def counted_simps)
  from native.left_bounded [OF this] have left: "reader_left ?u \<le> 37" "writer_left ?u \<le> 36" by simp_all
  have u: "br_halting ?u" "br_transmit ?u = tr" using t by (simp_all add: br_halting_def)
  have "writer_left ?u \<le> length (filter (writer_turn (br_transmit ?u)) es')"
    unfolding u(2) using left(2) assms(4) by (rule order_trans)
  from native.stops_in_time [OF u(1) order_trans [OF left(1) assms(3)] this, of net]
  have "br_reader (bridge_run (native net) (es @ Signal # es') s) = R_done \<and>
      br_writer (bridge_run (native net) (es @ Signal # es') s) = W_done"
    by (simp add: bridge_run_def)
  then show ?thesis
    by (simp add: bridge_serve_def Let_def stop_filter_def disconnect_def close_device_def close_socket_def)
qed



text \<open>
  Frames that are refused do not fill the batch: while the interface keeps giving them, the writer of a bridge that only
  listens stays in its inner loop, which does not look for a signal.
\<close>

lemma refused_frames_hold_writer:
  assumes "br_writer s = W_recv ms" and "length ms < 32" and "\<not> br_transmit s"
  shows "br_writer (bridge_run lib (replicate n (Writer poll (Some f))) s) = W_recv ms"
  using assms
proof (induction n arbitrary: s)
  case (Suc n)
  have "br_writer (writer_step lib poll (Some f) s) = W_recv ms"
    using Suc.prems by (simp add: writer_step_def write_recv_def batch_def Let_def)
  then show ?case using Suc by (simp add: bridge_run_Cons)
qed (simp add: bridge_run_def)

end
