(* ===== verification/Diagnostic.thy ===== *)
theory Diagnostic
  imports Script_Values Library_Calls Replay_Session Selector Posix
begin

text \<open>
  The diagnostic program of tools/diagnostic.cpp, which talks to the adapter through a \<open>Session\<close> of its own: the command
  line, the modes, the bench probe of the filter table and the cleanup. What it prints on standard output is part of the
  state; standard error is not. The network is an argument, a function from the commands sent so far to the environment
  of the next one; with \<open>--replay\<close> it is the recording.
\<close>

section \<open>State and output\<close>

text \<open>One call of \<open>Session::command\<close>; \<open>st_written\<close> tells whether the transport took the request's bytes,
  \<open>st_lost\<close> whether the session was lost or closing afterwards.\<close>

record sent =
  st_opcode :: u16
  st_node :: u16
  st_payload :: bytes
  st_written :: bool
  st_lost :: bool
  st_reply :: "exn + bytes"

text \<open>
  The variables of \<open>main\<close>, the members of \<open>FilterProbe\<close>, and what the program did: commands, output, one-second pauses.
\<close>

record diag =
  dg_session :: session
  dg_replay :: "replay option"
  dg_opened :: bool
  dg_channel :: bool
  dg_iso :: bool
  dg_handles :: "u32 list"
  dg_value :: u32
  dg_sent :: "sent list"
  dg_out :: string
  dg_pauses :: nat

definition diag_new :: diag where
  "diag_new = \<lparr>dg_session = session_new, dg_replay = None, dg_opened = False, dg_channel = False, dg_iso = False,
     dg_handles = [], dg_value = 0, dg_sent = [], dg_out = [], dg_pauses = 0\<rparr>"

type_synonym network = "sent list \<Rightarrow> cmd_env"

fun steps :: "('s, unit) eff list \<Rightarrow> ('s, unit) eff" where
  "steps [] = ret ()"
| "steps (m # ms) = andthen m (\<lambda>_. steps ms)"

declare steps.simps [simp del]

fun hexadecimal :: "nat \<Rightarrow> string" where
  "hexadecimal n = (if n < 16 then [hex_digits ! n] else hexadecimal (n div 16) @ [hex_digits ! (n mod 16)])"

declare hexadecimal.simps [simp del]

definition put :: "string \<Rightarrow> (diag, unit) eff" where
  "put text = modify (\<lambda>d. d\<lparr>dg_out := dg_out d @ text\<rparr>)"

definition endl :: string where
  "endl = [CHR 0x0A]"

definition show_body :: "string \<Rightarrow> bytes \<Rightarrow> bool \<Rightarrow> (diag, unit) eff" where
  "show_body label body status = steps [
     put (label @ '' body='' @ hex body),
     only_if status (andthen (lift (session_status body)) (\<lambda>v. put ('' status='' @ decimal (unat v)))),
     put endl]"

definition require_status :: "bytes \<Rightarrow> bool \<Rightarrow> exn + unit" where
  "require_status body start =
     ebind (session_status body) (\<lambda>status.
       if status \<noteq> 0 \<and> \<not> (start \<and> status = 7)
       then Inl (Error ERR_FAILED (''adapter returned status '' @ decimal (unat status))) else Inr ())"

definition firmware_text :: "bytes \<Rightarrow> string" where
  "firmware_text body =
     (if length body \<le> 20 then [] else map (\<lambda>b. char_of (unat b)) (takeWhile (\<lambda>b. b \<noteq> 0) (drop 20 body)))"

definition outcome :: "bytes \<Rightarrow> exn + string" where
  "outcome body =
     ebind (session_status body) (\<lambda>status.
       let line = ''status=0x'' @ hexadecimal (unat status); text = firmware_text body
       in Inr (if status \<noteq> 0 \<and> text \<noteq> [] then line @ '' text='' @ [CHR 0x22] @ text @ [CHR 0x22] else line))"

definition put_outcome :: "string \<Rightarrow> bytes \<Rightarrow> (diag, unit) eff" where
  "put_outcome label body = steps [put label, andthen (lift (outcome body)) put]"

section \<open>Commands\<close>

text \<open>What a recording has left after a command: \<open>begun\<close> are the bytes of the request.\<close>

definition replay_next :: "replay \<Rightarrow> exn + bytes \<Rightarrow> replay" where
  "replay_next r begun =
     (case (begun, rp_exchanges r) of
        (Inr wire, x # xs) \<Rightarrow> if wire = ex_out x then r\<lparr>rp_exchanges := xs\<rparr> else r
      | _ \<Rightarrow> r)"

text \<open>
  The session may refuse a command before it writes anything: an impossible timeout, no free slot, a session that is
  lost or closing, no sequence number, a request that does not encode, or a deadline that has passed.
\<close>

definition writes :: "cmd_env \<Rightarrow> u16 \<Rightarrow> bytes \<Rightarrow> int \<Rightarrow> u16 \<Rightarrow> u16 \<Rightarrow> seq_callback option \<Rightarrow> session \<Rightarrow> bool" where
  "writes env opcode payload timeout node chan known s \<longleftrightarrow>
     0 < timeout \<and> timeout \<le> 60000 \<and> env_slot env \<and>
     (case cmd_begin (ses_run s (env_queued env)) (env_now env) opcode payload node chan of
        (Inl _, _) \<Rightarrow> False
      | (Inr wire, t) \<Rightarrow>
          \<not> isl (fst (cmd_told env known t)) \<and> 0 < cmd_left env timeout \<and>
          \<not> isl (fst (env_send env wire (nat ((cmd_left env timeout + 999999) div 1000000)))))"

definition dg_send :: "network \<Rightarrow> int \<Rightarrow> u16 \<Rightarrow> bytes \<Rightarrow> u16 \<Rightarrow> u16 \<Rightarrow> seq_callback option \<Rightarrow> (diag, bytes) eff" where
  "dg_send net deadline opcode payload node chan known d =
     (let env = (case dg_replay d of None \<Rightarrow> net (dg_sent d) | Some r \<Rightarrow> replay_env r);
          (reply, s) = ses_command env opcode payload deadline node chan known (dg_session d);
          begun = fst (cmd_begin (dg_session d) (env_now env) opcode payload node chan)
      in (reply, d\<lparr>dg_session := s, dg_replay := map_option (\<lambda>r. replay_next r begun) (dg_replay d),
            dg_sent := dg_sent d @ [\<lparr>st_opcode = opcode, st_node = node, st_payload = payload,
              st_written = writes env opcode payload deadline node chan known (dg_session d),
              st_lost = \<not> ses_usable s, st_reply = reply\<rparr>]\<rparr>))"

definition dg_command :: "network \<Rightarrow> int \<Rightarrow> u16 \<Rightarrow> bytes \<Rightarrow> u16 \<Rightarrow> (diag, bytes) eff" where
  "dg_command net deadline opcode payload node = dg_send net deadline opcode payload node 0 None"

text \<open>\<open>patient_command\<close>: \<open>n\<close> attempts are left after this one, of sixteen.\<close>

fun patient_from :: "nat \<Rightarrow> network \<Rightarrow> int \<Rightarrow> u16 \<Rightarrow> bytes \<Rightarrow> u16 \<Rightarrow> (diag, bytes) eff" where
  "patient_from 0 net deadline opcode payload node = dg_command net deadline opcode payload node"
| "patient_from (Suc n) net deadline opcode payload node =
     catch (dg_command net deadline opcode payload node) (\<lambda>e.
       case e of
         Error code _ \<Rightarrow>
           if code \<noteq> ERR_EXCEEDED_LIMIT then raise e
           else
             andthen (put (''sequence quarantine full after '' @ decimal (14 - n) @ '' waits; pausing 1s'' @ endl)) (\<lambda>_.
             andthen (modify (\<lambda>d. d\<lparr>dg_pauses := dg_pauses d + 1\<rparr>)) (\<lambda>_.
             patient_from n net deadline opcode payload node))
       | _ \<Rightarrow> raise e)"

definition patient_command :: "network \<Rightarrow> int \<Rightarrow> u16 \<Rightarrow> bytes \<Rightarrow> u16 \<Rightarrow> (diag, bytes) eff" where
  "patient_command = patient_from 15"

definition can_node :: u16 where
  "can_node = channel_node CAN board_node"

definition iso_node :: u16 where
  "iso_node = channel_node ISO15765 board_node"

text \<open>\<open>auto x = session.command(...); show(...); require_status(...)\<close>.\<close>

definition asked :: "network \<Rightarrow> int \<Rightarrow> string \<Rightarrow> u16 \<Rightarrow> bytes \<Rightarrow> u16 \<Rightarrow> bool \<Rightarrow> (diag, unit) eff" where
  "asked net deadline label opcode payload node start =
     andthen (dg_command net deadline opcode payload node) (\<lambda>body.
     andthen (show_body label body True) (\<lambda>_. lift (require_status body start)))"

section \<open>The filter probe\<close>

definition pass_filter :: "u32 \<Rightarrow> exn + bytes" where
  "pass_filter can_id =
     (let blank = (blank_message CAN 0)\<lparr>DataSize := 4\<rparr>
      in can_pass_filter (blank\<lparr>Data := (Data blank)[2 := 7, 3 := 0xff]\<rparr>)
           (blank\<lparr>Data := (Data blank)[2 := ucast (drop_bit 8 can_id), 3 := ucast can_id]\<rparr>) 0)"

definition table_entry :: "u32 \<Rightarrow> u32 \<Rightarrow> exn + bytes" where
  "table_entry selector handle =
     ebind (put16 (replicate 8 0) 0 (ucast selector)) (\<lambda>payload.
     ebind (put16 payload 4 (ucast handle)) (\<lambda>payload.
     put16 payload 6 (ucast (drop_bit 16 handle))))"

definition add_filter :: "network \<Rightarrow> int \<Rightarrow> u32 \<Rightarrow> (diag, bytes) eff" where
  "add_filter net deadline can_id =
     andthen (lift (pass_filter can_id)) (\<lambda>payload. patient_command net deadline 0x0d payload can_node)"

definition take_handle :: "bytes \<Rightarrow> (diag, unit) eff" where
  "take_handle response = andthen (lift (le32 response 20)) (\<lambda>h. modify (\<lambda>d. d\<lparr>dg_handles := dg_handles d @ [h]\<rparr>))"

text \<open>\<open>fill\<close>; the list holds the values of \<open>i\<close> to come.\<close>

fun fill :: "network \<Rightarrow> int \<Rightarrow> nat \<Rightarrow> string \<Rightarrow> nat list \<Rightarrow> (diag, nat) eff" where
  "fill net deadline ceiling label [] =
     andthen (put (label @ '' reached the probe ceiling of '' @ decimal ceiling @ '' without refusal'' @ endl)) (\<lambda>_. ret ceiling)"
| "fill net deadline ceiling label (i # is) =
     andthen (add_filter net deadline (0x100 + of_nat i)) (\<lambda>response.
     andthen (lift (session_status response)) (\<lambda>status.
     if status \<noteq> 0 then
       andthen (asks (\<lambda>d. length (dg_handles d))) (\<lambda>n.
       andthen (put_outcome (label @ '' refused at '' @ decimal n @ '' '') response) (\<lambda>_.
       andthen (put endl) (\<lambda>_. ret n)))
     else
       andthen (throw_if (length response < 24) (Error ERR_FAILED ''filter response carried no handle'')) (\<lambda>_.
       andthen (take_handle response) (\<lambda>_.
       andthen (asks dg_handles) (\<lambda>handles.
       andthen (put (label @ '' '' @ decimal (length handles) @ '' handle=0x'' @ hexadecimal (unat (last handles)) @ endl)) (\<lambda>_.
       fill net deadline ceiling label is))))))"

definition remove_filter :: "network \<Rightarrow> int \<Rightarrow> u32 \<Rightarrow> (diag, unit) eff" where
  "remove_filter net deadline handle =
     andthen (lift (table_entry 0 handle)) (\<lambda>payload.
     andthen (patient_command net deadline 0x0e payload can_node) (\<lambda>response.
     andthen (lift (session_status response)) (\<lambda>status.
     only_if (status \<noteq> 0) (steps [put_outcome (''remove 0x'' @ hexadecimal (unat handle) @ '' '') response, put endl]))))"

definition drain_filters :: "network \<Rightarrow> int \<Rightarrow> (diag, unit) eff" where
  "drain_filters net deadline =
     andthen (asks dg_handles) (\<lambda>handles. steps [
       steps (map (remove_filter net deadline) handles),
       put (''removed '' @ decimal (length handles) @ '' filters'' @ endl),
       modify (\<lambda>d. d\<lparr>dg_handles := []\<rparr>)])"

text \<open>\<open>clear_table\<close>: whether the three filters were accepted, and what follows if they were.\<close>

fun add_some :: "network \<Rightarrow> int \<Rightarrow> nat list \<Rightarrow> (diag, bool) eff" where
  "add_some net deadline [] = ret True"
| "add_some net deadline (i # is) =
     andthen (add_filter net deadline (0x200 + of_nat i)) (\<lambda>response.
     andthen (lift (session_status response)) (\<lambda>status.
     if status \<noteq> 0 then ret False
     else andthen (take_handle response) (\<lambda>_. add_some net deadline is)))"

definition clear_table :: "network \<Rightarrow> int \<Rightarrow> (diag, unit) eff" where
  "clear_table net deadline =
     andthen (add_some net deadline [0..<3]) (\<lambda>added.
     only_if added (
       andthen (patient_command net deadline 0x10 (replicate 4 0) can_node) (\<lambda>cleared.
       andthen (steps [put_outcome ''cTableClear selector 0 '' cleared, put endl]) (\<lambda>_.
       andthen (asks (\<lambda>d. hd (dg_handles d))) (\<lambda>front.
       andthen (lift (table_entry 0 front)) (\<lambda>payload.
       andthen (patient_command net deadline 0x0e payload can_node) (\<lambda>stale.
       andthen (steps [put_outcome ''remove after clear '' stale, put endl]) (\<lambda>_.
       andthen (add_filter net deadline 0x300) (\<lambda>refilled.
       andthen (steps [put_outcome ''add after clear '' refilled, put endl, modify (\<lambda>d. d\<lparr>dg_handles := []\<rparr>)]) (\<lambda>_.
       andthen (lift (session_status refilled)) (\<lambda>status.
       only_if (status = 0 \<and> length refilled \<ge> 24) (steps [take_handle refilled, drain_filters net deadline]))))))))))))"

definition probe_value :: "network \<Rightarrow> int \<Rightarrow> u8 \<Rightarrow> (diag, bytes) eff" where
  "probe_value net deadline selector =
     andthen (patient_command net deadline 0xc [selector, 0, 0, 0] board_node) (\<lambda>response.
     andthen (if length response \<ge> 28 then lift (le32 response 24) else ret 0) (\<lambda>value.
     andthen (modify (\<lambda>d. d\<lparr>dg_value := value\<rparr>)) (\<lambda>_. ret response)))"

definition probe_run :: "network \<Rightarrow> int \<Rightarrow> nat \<Rightarrow> (diag, unit) eff" where
  "probe_run net deadline ceiling =
     andthen (fill net deadline ceiling ''capacity'' [0..<ceiling]) (\<lambda>capacity.
     andthen (put (''capacity: '' @ decimal capacity @ '' pass filters accepted'' @ endl)) (\<lambda>_.
     andthen (drain_filters net deadline) (\<lambda>_.
     andthen (add_filter net deadline 0x700) (\<lambda>reopened.
     andthen (steps [put_outcome ''after-removal re-add '' reopened, put endl]) (\<lambda>_.
     andthen (lift (session_status reopened)) (\<lambda>status.
     andthen (only_if (status = 0 \<and> length reopened \<ge> 24) (take_handle reopened)) (\<lambda>_.
     andthen (steps [drain_filters net deadline, clear_table net deadline]) (\<lambda>_.
     andthen (probe_value net deadline 0x2f) (\<lambda>probed.
     andthen (put_outcome ''selector 0x2f '' probed) (\<lambda>_.
     andthen (asks dg_value) (\<lambda>value.
     put ('' value=0x'' @ hexadecimal (unat value) @ endl))))))))))))"

section \<open>The modes\<close>

definition discover :: "network \<Rightarrow> int \<Rightarrow> (diag, unit) eff" where
  "discover net deadline =
     andthen (dg_command net deadline 0x100 [] board_node) (\<lambda>echo.
     steps [show_body ''echo'' echo False, asked net deadline ''board-info'' 0x109 [] board_node False])"

definition start_board :: "network \<Rightarrow> int \<Rightarrow> (diag, unit) eff" where
  "start_board net deadline = steps [
     asked net deadline ''start'' 0x103 [] board_node True,
     andthen (asked net deadline ''open'' 3 [] board_node False) (\<lambda>_. modify (\<lambda>d. d\<lparr>dg_opened := True\<rparr>)),
     asked net deadline ''board-info'' 0x109 [] board_node False]"

definition inspect_one :: "network \<Rightarrow> int \<Rightarrow> u8 \<Rightarrow> (diag, unit) eff" where
  "inspect_one net deadline selector =
     andthen (dg_command net deadline 0xc [selector, 0, 0, 0] board_node) (\<lambda>value. steps [
       put (''selector='' @ decimal (unat selector) @ '' ''),
       show_body ''value'' value True,
       lift (require_status value False)])"

definition burst_echo :: "bytes \<Rightarrow> exn + bool" where
  "burst_echo response = (if length response < 28 then Inr False else ebind (le32 response 20) (\<lambda>v. Inr (v = 0x2b)))"

fun read_burst :: "network \<Rightarrow> int \<Rightarrow> nat \<Rightarrow> nat list \<Rightarrow> nat \<Rightarrow> (diag, nat) eff" where
  "read_burst net deadline ceiling [] mismatched = ret mismatched"
| "read_burst net deadline ceiling (i # is) mismatched =
     andthen (dg_command net deadline 0xc [0x2b, 0, 0, 0] board_node) (\<lambda>response.
     andthen (lift (require_status response False)) (\<lambda>_.
     andthen (lift (burst_echo response)) (\<lambda>matched.
     andthen (only_if ((i + 1) mod 1000 = 0) (put (''burst '' @ decimal (i + 1) @ ''/'' @ decimal ceiling @ endl))) (\<lambda>_.
     read_burst net deadline ceiling is (if matched then mismatched else mismatched + 1)))))"

text \<open>\<open>rate\<close> is the text of the two numbers computed from the clock.\<close>

definition burst_mode :: "network \<Rightarrow> int \<Rightarrow> nat \<Rightarrow> string \<Rightarrow> (diag, unit) eff" where
  "burst_mode net deadline ceiling rate =
     andthen (read_burst net deadline ceiling [0..<ceiling] 0) (\<lambda>mismatched.
     put (''burst '' @ decimal ceiling @ '' commands in '' @ rate @ '', '' @ decimal mismatched @ '' mismatched responses'' @ endl))"

definition open_channel :: "network \<Rightarrow> int \<Rightarrow> string \<Rightarrow> u16 \<Rightarrow> (diag \<Rightarrow> diag) \<Rightarrow> (diag, unit) eff" where
  "open_channel net deadline label node mark =
     andthen (lift (unhex ''0000000020a10700'')) (\<lambda>baud.
     andthen (andthen (asked net deadline label 6 baud node False) (\<lambda>_. modify mark)) (\<lambda>_.
     andthen (lift (unhex ''01000000060000000e000000'')) (\<lambda>pins.
     asked net deadline ''set-pin'' 0x12 pins node False)))"

definition open_can :: "network \<Rightarrow> int \<Rightarrow> (diag, unit) eff" where
  "open_can net deadline = open_channel net deadline ''open-channel'' can_node (\<lambda>d. d\<lparr>dg_channel := True\<rparr>)"

text \<open>The listener is the receiver 0 of the session's store; \<open>note_frame\<close> is the callback of the transmit.\<close>

definition listener :: "diag \<Rightarrow> can_receiver" where
  "listener d = ses_receivers (dg_session d) 0"

definition set_listener :: "can_receiver \<Rightarrow> diag \<Rightarrow> diag" where
  "set_listener r d = d\<lparr>dg_session := (dg_session d)\<lparr>ses_receivers := (ses_receivers (dg_session d))(0 := r)\<rparr>\<rparr>"

definition attach_listener :: "nat option \<Rightarrow> diag \<Rightarrow> diag" where
  "attach_listener h d = d\<lparr>dg_session := set_can_receiver (dg_session d) h\<rparr>"

definition note_frame :: "passthru_msg \<Rightarrow> seq_callback" where
  "note_frame frame sq s = (Inr (), s\<lparr>ses_receivers := (ses_receivers s)(0 := note_transmit (ses_receivers s 0) frame sq None)\<rparr>)"

text \<open>The wait for the confirmation; each list holds what happens while the program sleeps 100 ms.\<close>

fun wait_transmitted :: "ses_event list list \<Rightarrow> (diag, unit) eff" where
  "wait_transmitted [] = ret ()"
| "wait_transmitted (es # rest) =
     andthen (asks (\<lambda>d. rx_transmitted (listener d))) (\<lambda>n.
     if n \<noteq> 0 then ret ()
     else andthen (modify (\<lambda>d. d\<lparr>dg_session := ses_run (dg_session d) es\<rparr>)) (\<lambda>_. wait_transmitted rest))"

definition listener_read :: "rx_event list list \<Rightarrow> (diag, unit) eff" where
  "listener_read waits d =
     (let (out, res, r) = rx_read (listener d) 1 True waits; d = set_listener r d
      in case res of
           Inr _ \<Rightarrow> put (''received '' @ decimal (length out) @ '' frames, first size '' @
             decimal (if out = [] then 0 else unat (DataSize (hd out))) @ endl) d
         | Inl (Error _ what) \<Rightarrow> put (''receive: '' @ what @ '' (expected: this probe installs no pass filter)'' @ endl) d
         | Inl e \<Rightarrow> (Inl e, d))"

definition probe_frame :: "exn + passthru_msg" where
  "probe_frame =
     ebind (unhex ''000007df0201005555555555'') (\<lambda>bytes.
       let frame = (blank_message CAN 0)\<lparr>DataSize := 12\<rparr> in Inr (frame\<lparr>Data := copy_at 0 bytes (Data frame)\<rparr>))"

definition transmit_status :: "u32 \<Rightarrow> string" where
  "transmit_status status = (if status = 0x100 then '' (queued)'' else if status \<noteq> 0 then '' (refused)'' else '' (accepted)'')"

definition transmit_probe :: "network \<Rightarrow> int \<Rightarrow> (nat \<Rightarrow> ses_event list) \<Rightarrow> rx_event list list \<Rightarrow> (diag, unit) eff" where
  "transmit_probe net deadline idle waits =
     andthen (steps [open_can net deadline, modify (set_listener (rx_new CAN)), modify (attach_listener (Some 0))]) (\<lambda>_.
     andthen (lift probe_frame) (\<lambda>frame.
     andthen (lift (can_transmit frame 1000)) (\<lambda>payload.
     andthen (dg_send net deadline 8 payload can_node data_chan (Some (note_frame frame))) (\<lambda>sent.
     andthen (show_body ''outbound'' sent True) (\<lambda>_.
     andthen (lift (session_status sent)) (\<lambda>status. steps [
       put_outcome ''transmit '' sent,
       put (transmit_status status @ endl),
       wait_transmitted (map idle [0..<20]),
       andthen (asks (\<lambda>d. rx_transmitted (listener d))) (\<lambda>n. put (''iMsgTxDone indications: '' @ decimal n @ endl)),
       listener_read waits,
       modify (attach_listener None)]))))))"

definition printable :: "bytes \<Rightarrow> string" where
  "printable text = map (\<lambda>b. if b \<ge> 32 \<and> b < 127 then char_of (unat b) else CHR ''.'') (takeWhile (\<lambda>b. b \<noteq> 0) text)"

definition sweep_value :: "bytes \<Rightarrow> u32 \<Rightarrow> exn + string" where
  "sweep_value response status =
     (if status = 0 \<and> length response \<ge> 28 then
        ebind (le32 response 20) (\<lambda>echo. ebind (le32 response 24) (\<lambda>value.
          Inr ('' echo=0x'' @ hexadecimal (unat echo) @ '' value=0x'' @ hexadecimal (unat value) @ '' ('' @ decimal (unat value) @ '')'')))
      else if length response > 20 then Inr ('' text='' @ [CHR 0x22] @ printable (drop 20 response) @ [CHR 0x22])
      else Inr [])"

definition sweep_one :: "network \<Rightarrow> int \<Rightarrow> string \<Rightarrow> u16 \<Rightarrow> nat \<Rightarrow> (diag, unit) eff" where
  "sweep_one net deadline label node selector =
     andthen (dg_command net deadline 0xc [of_nat selector, 0, 0, 0] node) (\<lambda>response.
     andthen (lift (session_status response)) (\<lambda>status. steps [
       put (label @ '' selector=0x'' @ hexadecimal selector @ '' status='' @ decimal (unat status)),
       andthen (lift (sweep_value response status)) put,
       put endl]))"

definition sweep :: "network \<Rightarrow> int \<Rightarrow> string \<Rightarrow> u16 \<Rightarrow> (diag, unit) eff" where
  "sweep net deadline label node = steps (map (sweep_one net deadline label node) [0..<0x80])"

definition value_sweep :: "network \<Rightarrow> int \<Rightarrow> (diag, unit) eff" where
  "value_sweep net deadline = steps [
     sweep net deadline ''board'' board_node,
     open_can net deadline,
     sweep net deadline ''channel'' can_node,
     andthen (asked net deadline ''close-channel'' 7 [] can_node False) (\<lambda>_. modify (\<lambda>d. d\<lparr>dg_channel := False\<rparr>)),
     open_channel net deadline ''open-iso15765'' iso_node (\<lambda>d. d\<lparr>dg_iso := True\<rparr>),
     sweep net deadline ''iso15765'' iso_node]"

section \<open>The program\<close>

record diag_options =
  do_mode :: string
  do_serial :: string
  do_device :: string
  do_replay :: string
  do_trace :: string
  do_timeout :: int
  do_ceiling :: nat

definition diag_defaults :: diag_options where
  "diag_defaults = \<lparr>do_mode = [], do_serial = [], do_device = [], do_replay = [], do_trace = [], do_timeout = 10000, do_ceiling = 512\<rparr>"

text \<open>\<open>std::stoul\<close>: the value and \<open>consumed\<close>.\<close>

definition stoul :: "string \<Rightarrow> exn + int \<times> nat" where
  "stoul text =
     (let (value, rest, range) = strtoul text
      in if rest = text then Inl (Invalid_argument ''stoul'')
         else if range then Inl (Out_of_range ''stoul'') else Inr (value, length text - length rest))"

definition option_number :: "string \<Rightarrow> int \<Rightarrow> string \<Rightarrow> exn + int" where
  "option_number text maximum what =
     ebind (stoul text) (\<lambda>(parsed, consumed).
       if consumed \<noteq> length text \<or> parsed = 0 \<or> parsed > maximum then Inl (Invalid_argument what) else Inr parsed)"

definition diag_modes :: "string list" where
  "diag_modes = [''--list'', ''--discover'', ''--open-close'', ''--inspect'', ''--filter-probe'', ''--transmit-probe'',
     ''--read-burst'', ''--value-sweep'']"

definition diag_value :: "string \<Rightarrow> string \<Rightarrow> diag_options \<Rightarrow> exn + diag_options" where
  "diag_value arg value opts =
     (if arg = ''--serial'' then Inr (opts\<lparr>do_serial := value\<rparr>)
      else if arg = ''--device'' then Inr (opts\<lparr>do_device := value\<rparr>)
      else if arg = ''--replay'' then Inr (opts\<lparr>do_replay := value\<rparr>)
      else if arg = ''--trace'' then Inr (opts\<lparr>do_trace := value\<rparr>)
      else if arg = ''--timeout-ms''
      then ebind (option_number value 60000 ''invalid timeout'') (\<lambda>n. Inr (opts\<lparr>do_timeout := n\<rparr>))
      else ebind (option_number value 100000 ''invalid ceiling'') (\<lambda>n. Inr (opts\<lparr>do_ceiling := nat n\<rparr>)))"

text \<open>The usage text ends the program with the exit code \<open>Usage\<close>.\<close>

datatype diag_command = Usage int | Run diag_options

fun parse_diag :: "string list \<Rightarrow> diag_options \<Rightarrow> exn + diag_command" where
  "parse_diag [] opts = Inr (Run opts)"
| "parse_diag (arg # rest) opts =
     (if arg \<in> set diag_modes then
        if do_mode opts \<noteq> [] then Inl (Invalid_argument ''choose exactly one mode'')
        else parse_diag rest (opts\<lparr>do_mode := arg\<rparr>)
      else if arg \<in> {''--serial'', ''--device'', ''--replay'', ''--trace'', ''--timeout-ms'', ''--filter-ceiling''} then
        (case rest of
           [] \<Rightarrow> Inr (Usage 2)
         | value # rest \<Rightarrow> ebind (diag_value arg value opts) (parse_diag rest))
      else Inr (Usage (if arg = ''--help'' then 0 else 2)))"

text \<open>
  What the program meets: the adapters, whether the trace file opens, the recording (its text, and whether reading it
  failed part-way), the transport and its start, the network, the sleeps and the wait of \<open>--transmit-probe\<close>, and what
  happens while the session closes.
\<close>

record diag_host =
  dh_devices :: "backend \<Rightarrow> exn + device_info list"
  dh_trace :: bool
  dh_recording :: "(string \<times> bool) option"
  dh_transport :: "selector \<Rightarrow> exn + unit"
  dh_start :: "exn + unit"
  dh_net :: network
  dh_idle :: "nat \<Rightarrow> ses_event list"
  dh_waits :: "rx_event list list"
  dh_rate :: string
  dh_closing :: "ses_event list"
  dh_stop :: "exn + unit"

fun put_devices :: "(string \<times> (exn + device_info list)) list \<Rightarrow> (diag, unit) eff" where
  "put_devices [] = ret ()"
| "put_devices ((label, found) # rest) =
     (case found of
        Inr devices \<Rightarrow> andthen (steps (map (\<lambda>device. put (label @ '' '' @ di_location device @ '' serial='' @ di_serial device @
            '' access='' @ (if di_error device = [] then ''ok'' else di_error device) @ endl)) devices))
          (\<lambda>_. put_devices rest)
      | Inl (Error _ _) \<Rightarrow> put_devices rest
      | Inl e \<Rightarrow> raise e)"

definition diag_list :: "diag_host \<Rightarrow> diag_options \<Rightarrow> (diag, unit) eff" where
  "diag_list host opts =
     (if do_replay opts \<noteq> [] \<or> do_trace opts \<noteq> [] \<or> do_serial opts \<noteq> [] \<or> do_device opts \<noteq> []
      then raise (Invalid_argument ''--list takes no device or file options'')
      else put_devices [(''tty'', dh_devices host Tty), (''usb'', dh_devices host Usb)])"

definition diag_checks :: "diag_host \<Rightarrow> diag_options \<Rightarrow> exn + unit" where
  "diag_checks host opts =
     (if do_replay opts \<noteq> [] \<and> (do_serial opts \<noteq> [] \<or> do_trace opts \<noteq> [])
      then Inl (Invalid_argument ''replay cannot be combined with hardware options'')
      else if do_replay opts \<noteq> [] \<and> do_device opts \<noteq> []
      then Inl (Invalid_argument ''replay cannot be combined with hardware options'')
      else if do_trace opts \<noteq> [] \<and> \<not> dh_trace host then Inl (Runtime_error ''cannot open trace file'')
      else Inr ())"

text \<open>The transport: a recording, or the hardware (\<open>None\<close>).\<close>

definition diag_transport :: "diag_host \<Rightarrow> diag_options \<Rightarrow> exn + replay option" where
  "diag_transport host opts =
     (if do_replay opts \<noteq> [] then
        (case dh_recording host of
           None \<Rightarrow> Inl (Runtime_error ''cannot open replay'')
         | Some (text, bad) \<Rightarrow> ebind (replay_read text bad) (\<lambda>r. ebind (fst (replay_start r)) (\<lambda>_. Inr (Some (snd (replay_start r))))))
      else if do_serial opts \<noteq> [] \<and> do_device opts \<noteq> []
      then Inl (Invalid_argument ''use either --serial or --device, not both'')
      else
        let name = (if do_device opts \<noteq> [] then do_device opts
                    else if do_serial opts = [] then [] else ''serial:'' @ do_serial opts)
        in ebind (parse_selector name) (\<lambda>selector. ebind (dh_transport host selector) (\<lambda>_. ebind (dh_start host) (\<lambda>_. Inr None))))"

definition diag_body :: "diag_host \<Rightarrow> diag_options \<Rightarrow> (diag, unit) eff" where
  "diag_body host opts =
     (let net = dh_net host; deadline = do_timeout opts; mode = do_mode opts in
      if mode = ''--discover'' then discover net deadline
      else steps [
        start_board net deadline,
        only_if (mode = ''--inspect'') (steps (map (inspect_one net deadline) [0x2b, 0x2a, 3, 2])),
        only_if (mode = ''--read-burst'') (burst_mode net deadline (do_ceiling opts) (dh_rate host)),
        only_if (mode = ''--transmit-probe'') (transmit_probe net deadline (dh_idle host) (dh_waits host)),
        only_if (mode = ''--value-sweep'') (value_sweep net deadline),
        only_if (mode = ''--filter-probe'') (steps [open_can net deadline, probe_run net deadline (do_ceiling opts)])])"

text \<open>The cleanup: every stage runs whatever the others did, and the first failure is kept.\<close>

definition cleanup_stage :: "(diag \<Rightarrow> bool) \<Rightarrow> (diag, unit) eff \<Rightarrow> exn option \<Rightarrow> (diag, exn option) eff" where
  "cleanup_stage needed m failure d =
     (if needed d then
        (case m d of
           (Inl e, d) \<Rightarrow> (Inr (if failure = None then Some e else failure), d)
         | (Inr _, d) \<Rightarrow> (Inr failure, d))
      else (Inr failure, d))"

definition close_node :: "network \<Rightarrow> int \<Rightarrow> string \<Rightarrow> u16 \<Rightarrow> u16 \<Rightarrow> (diag, unit) eff" where
  "close_node net deadline label opcode node =
     andthen (patient_command net deadline opcode [] node) (\<lambda>body.
     andthen (show_body label body True) (\<lambda>_. lift (require_status body False)))"

definition end_session :: "diag_host \<Rightarrow> (diag, unit) eff" where
  "end_session host d =
     (let (res, s) = ses_close (dg_session d) (dh_closing host) (if dg_replay d = None then dh_stop host else Inr ())
      in (res, d\<lparr>dg_session := s\<rparr>))"

definition diag_cleanup :: "diag_host \<Rightarrow> int \<Rightarrow> exn option \<Rightarrow> (diag, exn option) eff" where
  "diag_cleanup host deadline failure =
     andthen (cleanup_stage dg_channel (close_node (dh_net host) deadline ''close-channel'' 7 can_node) failure) (\<lambda>failure.
     andthen (cleanup_stage dg_iso (close_node (dh_net host) deadline ''close-iso15765'' 7 iso_node) failure) (\<lambda>failure.
     andthen (cleanup_stage dg_opened (close_node (dh_net host) deadline ''close'' 5 board_node) failure) (\<lambda>failure.
     cleanup_stage (\<lambda>_. True) (end_session host) failure)))"

definition diag_session :: "diag_host \<Rightarrow> diag_options \<Rightarrow> (diag, unit) eff" where
  "diag_session host opts =
     andthen (attempt (diag_body host opts)) (\<lambda>r.
     andthen (diag_cleanup host (do_timeout opts) (case r of Inl e \<Rightarrow> Some e | Inr _ \<Rightarrow> None)) (\<lambda>failure.
     case failure of
       Some e \<Rightarrow> raise e
     | None \<Rightarrow> andthen (asks dg_replay) (\<lambda>replay. case replay of None \<Rightarrow> ret () | Some r \<Rightarrow> lift (assert_finished r))))"

text \<open>\<open>args\<close> is \<open>argv\<close> without the name of the program.\<close>

definition diag_main :: "diag_host \<Rightarrow> string list \<Rightarrow> int \<times> diag" where
  "diag_main host args =
     (case parse_diag args diag_defaults of
        Inl _ \<Rightarrow> (1, diag_new)
      | Inr (Usage code) \<Rightarrow> (code, diag_new)
      | Inr (Run opts) \<Rightarrow>
          (case (if do_mode opts = [] then raise (Invalid_argument ''an explicit mode is required'') diag_new
                 else if do_mode opts = ''--list'' then diag_list host opts diag_new
                 else case ebind (diag_checks host opts) (\<lambda>_. diag_transport host opts) of
                   Inl e \<Rightarrow> raise e diag_new
                 | Inr replay \<Rightarrow> diag_session host opts (diag_new\<lparr>dg_replay := replay\<rparr>)) of
             (Inl _, d) \<Rightarrow> (1, d)
           | (Inr _, d) \<Rightarrow> (0, d)))"

end
