(* ===== verification/Diagnostic_Properties.thy ===== *)
theory Diagnostic_Properties
  imports Diagnostic Device
begin

text \<open>
  What the diagnostic program guarantees. An invariant that ignores the output and is kept by the commands of a mode is
  kept by the mode: that is proved once, in the locale \<open>diag_invariant\<close>, and used for three invariants: which commands
  are sent, what is open on the adapter, and the session between commands.
\<close>

section \<open>Invariants\<close>

lemma keeps_steps: "(\<And>m. m \<in> set ms \<Longrightarrow> keeps P m) \<Longrightarrow> keeps P (steps ms)"
  by (induction ms) (auto simp: steps.simps intro: keeps_basic keeps_andthen)

text \<open>The opcodes of a mode, without and with those of the cleanup.\<close>

definition body_opcodes :: "string \<Rightarrow> u16 set" where
  "body_opcodes mode =
     (if mode = ''--discover'' then {0x100, 0x109}
      else {0x103, 3, 0x109} \<union>
        (if mode = ''--inspect'' \<or> mode = ''--read-burst'' then {0xc}
         else if mode = ''--transmit-probe'' then {6, 0x12, 8}
         else if mode = ''--value-sweep'' then {0xc, 6, 7, 0x12}
         else if mode = ''--filter-probe'' then {6, 0x12, 0xc, 0xd, 0xe, 0x10} else {}))"

definition mode_opcodes :: "string \<Rightarrow> u16 set" where
  "mode_opcodes mode =
     body_opcodes mode \<union> (if mode = ''--discover'' then {} else {5}) \<union> (if 6 \<in> body_opcodes mode then {7} else {})"

text \<open>
  \<open>P\<close> does not depend on the output, and what is done with the opcodes \<open>A\<close> keeps it: commands, patient commands, and
  the actions that open and close and record it.
\<close>

locale diag_invariant =
  fixes P :: "diag \<Rightarrow> bool" and A :: "u16 set" and net :: network and deadline :: int
  assumes printed: "P (d\<lparr>dg_out := x\<rparr>) = P d" "P (d\<lparr>dg_handles := hs\<rparr>) = P d" "P (d\<lparr>dg_value := v\<rparr>) = P d"
    and patient: "opcode \<in> A \<Longrightarrow> opcode \<notin> {3, 6, 7} \<Longrightarrow> keeps P (patient_from n net deadline opcode payload node)"
    and opening_board: "3 \<in> A \<Longrightarrow>
      keeps P (andthen (asked net deadline ''open'' 3 [] board_node False) (\<lambda>_. modify (\<lambda>d. d\<lparr>dg_opened := True\<rparr>)))"
    and opening_can: "6 \<in> A \<Longrightarrow>
      keeps P (andthen (asked net deadline label 6 payload can_node False) (\<lambda>_. modify (\<lambda>d. d\<lparr>dg_channel := True\<rparr>)))"
    and opening_iso: "6 \<in> A \<Longrightarrow>
      keeps P (andthen (asked net deadline label 6 payload iso_node False) (\<lambda>_. modify (\<lambda>d. d\<lparr>dg_iso := True\<rparr>)))"
    and closing_can: "7 \<in> A \<Longrightarrow>
      keeps P (andthen (asked net deadline label 7 [] can_node False) (\<lambda>_. modify (\<lambda>d. d\<lparr>dg_channel := False\<rparr>)))"
begin

lemma keeps_command: "opcode \<in> A \<Longrightarrow> opcode \<notin> {3, 6, 7} \<Longrightarrow> keeps P (dg_command net deadline opcode payload node)"
  using patient [of opcode 0] by simp

lemma keeps_put: "keeps P (put text)"
  by (simp add: put_def printed keeps_modify)

lemma keeps_fields: "keeps P (modify (\<lambda>d. d\<lparr>dg_handles := f d\<rparr>))" "keeps P (modify (\<lambda>d. d\<lparr>dg_value := v\<rparr>))"
  by (simp_all add: printed keeps_modify)

lemma keeps_show: "keeps P (show_body label body status)"
  unfolding show_body_def by (auto intro!: keeps_steps keeps_only_if keeps_andthen keeps_basic keeps_put)

lemma keeps_put_outcome: "keeps P (put_outcome label body)"
  unfolding put_outcome_def by (auto intro!: keeps_steps keeps_andthen keeps_basic keeps_put)

lemma keeps_asked: "opcode \<in> A \<Longrightarrow> opcode \<notin> {3, 6, 7} \<Longrightarrow> keeps P (asked net deadline label opcode payload node start)"
  unfolding asked_def by (auto intro!: keeps_andthen keeps_basic keeps_show keeps_command)

lemma keeps_patient: "opcode \<in> A \<Longrightarrow> opcode \<notin> {3, 6, 7} \<Longrightarrow> keeps P (patient_command net deadline opcode payload node)"
  unfolding patient_command_def by (rule patient)

lemma keeps_discover: "{0x100, 0x109} \<subseteq> A \<Longrightarrow> keeps P (discover net deadline)"
  unfolding discover_def by (auto intro!: keeps_andthen keeps_steps keeps_command keeps_show keeps_asked)

lemma keeps_start_board: "{0x103, 3, 0x109} \<subseteq> A \<Longrightarrow> keeps P (start_board net deadline)"
  unfolding start_board_def by (auto intro!: keeps_steps keeps_asked opening_board)

lemma keeps_inspect_one: "0xc \<in> A \<Longrightarrow> keeps P (inspect_one net deadline selector)"
  unfolding inspect_one_def by (auto intro!: keeps_andthen keeps_steps keeps_basic keeps_command keeps_put keeps_show)

lemma keeps_read_burst: "0xc \<in> A \<Longrightarrow> keeps P (read_burst net deadline ceiling is mismatched)"
  by (induction "is" arbitrary: mismatched) (auto intro!: keeps_andthen keeps_basic keeps_only_if keeps_command keeps_put)

lemma keeps_burst: "0xc \<in> A \<Longrightarrow> keeps P (burst_mode net deadline ceiling rate)"
  unfolding burst_mode_def by (intro keeps_andthen keeps_put keeps_read_burst)

lemma keeps_open_channel:
  assumes "{6, 0x12} \<subseteq> A" and "\<And>payload. keeps P (andthen (asked net deadline label 6 payload node False) (\<lambda>_. modify mark))"
  shows "keeps P (open_channel net deadline label node mark)"
  unfolding open_channel_def using assms by (auto intro!: keeps_andthen [where m = "lift _"] keeps_basic keeps_andthen [OF assms(2)] keeps_asked)

lemma keeps_open_can: "{6, 0x12} \<subseteq> A \<Longrightarrow> keeps P (open_can net deadline)"
  unfolding open_can_def by (auto intro!: keeps_open_channel opening_can)

lemma keeps_sweep: "0xc \<in> A \<Longrightarrow> keeps P (sweep net deadline label node)"
  unfolding sweep_def sweep_one_def by (auto intro!: keeps_steps keeps_andthen keeps_basic keeps_command keeps_put)

lemma keeps_value_sweep: "{0xc, 6, 7, 0x12} \<subseteq> A \<Longrightarrow> keeps P (value_sweep net deadline)"
  unfolding value_sweep_def
  by (auto intro!: keeps_steps keeps_sweep keeps_open_can keeps_open_channel closing_can opening_iso)

lemma keeps_add_filter: "0xd \<in> A \<Longrightarrow> keeps P (add_filter net deadline can_id)"
  unfolding add_filter_def by (auto intro!: keeps_andthen keeps_basic keeps_patient)

lemma keeps_take_handle: "keeps P (take_handle response)"
  unfolding take_handle_def by (intro keeps_andthen keeps_basic keeps_fields)

lemma keeps_if: "keeps P m \<Longrightarrow> keeps P n \<Longrightarrow> keeps P (if b then m else n)"
  by simp

lemma keeps_fill: "0xd \<in> A \<Longrightarrow> keeps P (fill net deadline ceiling label is)"
  by (induction "is") (auto intro!: keeps_andthen keeps_if keeps_basic keeps_put keeps_put_outcome keeps_add_filter keeps_take_handle)

lemma keeps_drain: "0xe \<in> A \<Longrightarrow> keeps P (drain_filters net deadline)"
  unfolding drain_filters_def remove_filter_def
  by (auto intro!: keeps_andthen keeps_steps keeps_basic keeps_only_if keeps_put keeps_put_outcome keeps_patient keeps_fields)

lemma keeps_add_some: "0xd \<in> A \<Longrightarrow> keeps P (add_some net deadline is)"
  by (induction "is") (auto intro!: keeps_andthen keeps_if keeps_basic keeps_add_filter keeps_take_handle)

lemma keeps_clear_table: "{0xd, 0xe, 0x10} \<subseteq> A \<Longrightarrow> keeps P (clear_table net deadline)"
  unfolding clear_table_def
  by (auto intro!: keeps_andthen keeps_steps keeps_basic keeps_only_if keeps_put keeps_put_outcome keeps_patient keeps_fields
      keeps_add_some keeps_add_filter keeps_take_handle keeps_drain)

lemma keeps_probe: "{0xc, 0xd, 0xe, 0x10} \<subseteq> A \<Longrightarrow> keeps P (probe_run net deadline ceiling)"
  unfolding probe_run_def probe_value_def
  by (auto intro!: keeps_andthen keeps_steps keeps_basic keeps_only_if keeps_put keeps_put_outcome keeps_patient keeps_fields
      keeps_add_filter keeps_take_handle keeps_drain keeps_clear_table keeps_fill)

lemma keeps_close: "keeps P (patient_command net deadline opcode [] node) \<Longrightarrow> keeps P (close_node net deadline label opcode node)"
  unfolding close_node_def by (intro keeps_andthen keeps_basic keeps_show)

lemma keeps_body:
  assumes "dh_net host = net" and "do_timeout opts = deadline" and "do_mode opts \<noteq> ''--transmit-probe''"
    and "body_opcodes (do_mode opts) \<subseteq> A"
  shows "keeps P (diag_body host opts)"
proof -
  let ?mode = "do_mode opts"
  have a: "?mode = ''--discover'' \<Longrightarrow> {0x100, 0x109} \<subseteq> A" "?mode \<noteq> ''--discover'' \<Longrightarrow> {0x103, 3, 0x109} \<subseteq> A"
    "?mode = ''--inspect'' \<or> ?mode = ''--read-burst'' \<Longrightarrow> 0xc \<in> A" "?mode = ''--value-sweep'' \<Longrightarrow> {0xc, 6, 7, 0x12} \<subseteq> A"
    "?mode = ''--filter-probe'' \<Longrightarrow> {6, 0x12} \<subseteq> A \<and> {0xc, 0xd, 0xe, 0x10} \<subseteq> A"
    using assms(4) by (auto simp: body_opcodes_def)
  show ?thesis
  proof (cases "?mode = ''--discover''")
    case True
    then show ?thesis using keeps_discover a(1) assms(1,2) by (simp add: diag_body_def Let_def)
  next
    case False
    have start: "keeps P (start_board net deadline)" by (rule keeps_start_board [OF a(2) [OF False]])
    have inspect: "keeps P (only_if (?mode = ''--inspect'') (steps (map (inspect_one net deadline) [0x2b, 0x2a, 3, 2])))"
      using a(3) by (intro keeps_only_if keeps_steps) (auto intro: keeps_inspect_one)
    have burst: "keeps P (only_if (?mode = ''--read-burst'') (burst_mode net deadline (do_ceiling opts) (dh_rate host)))"
      by (intro keeps_only_if keeps_burst a(3)) blast
    have transmit: "keeps P (only_if (?mode = ''--transmit-probe'') m)" for m
      using assms(3) by (intro keeps_only_if) (erule (1) notE)
    have sweep: "keeps P (only_if (?mode = ''--value-sweep'') (value_sweep net deadline))"
      by (intro keeps_only_if keeps_value_sweep a(4))
    have probe: "keeps P (only_if (?mode = ''--filter-probe'') (steps [open_can net deadline, probe_run net deadline (do_ceiling opts)]))"
      unfolding steps.simps using a(5) by (intro keeps_only_if keeps_andthen keeps_basic keeps_open_can keeps_probe) blast+
    show ?thesis
      unfolding diag_body_def Let_def assms(1,2) if_not_P [OF False]
      by (subst steps.simps, intro keeps_andthen start, (subst steps.simps, rule keeps_andthen, rule inspect burst transmit sweep probe)+)
        (simp add: steps.simps keeps_basic)
  qed
qed

end

section \<open>Commands in the log\<close>

lemma keeps_patient_from:
  assumes "keeps P (dg_command net deadline opcode payload node)"
    and "\<And>d x. P (d\<lparr>dg_out := x\<rparr>) = P d" and "\<And>d n. P (d\<lparr>dg_pauses := n\<rparr>) = P d"
  shows "keeps P (patient_from n net deadline opcode payload node)"
proof (induction n)
  case (Suc n)
  then show ?case using assms
    by (auto intro!: triple_catch [where R = "\<lambda>_. P"] keeps_andthen keeps_modify keeps_basic simp: put_def split: exn.split)
qed (simp add: assms)

text \<open>What a command with \<open>show\<close> and \<open>require_status\<close> leaves: it returns exactly if the adapter answered with status 0.\<close>

definition confirmed :: "sent \<Rightarrow> bool" where
  "confirmed c = (case st_reply c of Inl _ \<Rightarrow> False | Inr body \<Rightarrow> session_status body = Inr 0)"

definition same_marks :: "diag \<Rightarrow> diag \<Rightarrow> bool" where
  "same_marks d d' \<longleftrightarrow> dg_opened d' = dg_opened d \<and> dg_channel d' = dg_channel d \<and> dg_iso d' = dg_iso d"

abbreviation dg_env :: "network \<Rightarrow> diag \<Rightarrow> cmd_env" where
  "dg_env net d \<equiv> (case dg_replay d of None \<Rightarrow> net (dg_sent d) | Some r \<Rightarrow> replay_env r)"

lemma dg_send_effect:
  assumes "dg_send net deadline opcode payload node chan known d = (reply, d')"
  shows "dg_sent d' = dg_sent d @ [\<lparr>st_opcode = opcode, st_node = node, st_payload = payload,
      st_written = writes (dg_env net d) opcode payload deadline node chan known (dg_session d),
      st_lost = \<not> ses_usable (dg_session d'), st_reply = reply\<rparr>]"
    and "same_marks d d'" and "dg_pauses d' = dg_pauses d" and "dg_handles d' = dg_handles d"
  using assms by (auto simp: dg_send_def same_marks_def Let_def split: prod.splits)

lemma answered_written:
  assumes "ses_command env opcode payload timeout node chan known s = (Inr body, t)"
  shows "writes env opcode payload timeout node chan known s"
  using assms by (auto simp: ses_command_cases writes_def cmd_exchange_def Let_def split: if_splits prod.splits sum.splits)

text \<open>A close the session turned down before it wrote anything: it was lost, or the command's time ran out.\<close>

definition turned_down :: "sent \<Rightarrow> bool" where
  "turned_down c \<longleftrightarrow> \<not> st_written c \<and>
     (st_lost c \<or> (case st_reply c of Inl (Error code _) \<Rightarrow> code = ERR_TIMEOUT \<or> code = ERR_EXCEEDED_LIMIT | _ \<Rightarrow> False))"

lemma close_begins:
  assumes "ses_usable s" and "cmd_begin s now opcode [] node 0 = (Inl e, t)" and "node \<noteq> 0"
  shows "\<exists>m. e = Error ERR_EXCEEDED_LIMIT m"
proof -
  obtain found q where q: "allocate 255 (ses_used s) now (ses_sequence s) = (found, q)" by fastforce
  have "\<exists>wire. ebind (request opcode q [] node 0) encode = Inr wire" if "found"
  proof -
    have "allocate 255 (ses_used s) now (ses_sequence s) = (True, q)" using q that by simp
    from allocate_bounds [OF this] have "q \<noteq> 0" "q \<le> 255" by (auto simp: word_le_nat_alt)
    then obtain body where b: "request opcode q [] node 0 = Inr body"
      using assms(3) request_Inr_iff [of opcode q "[]" node 0] by auto
    have "length body = 12" using request_fields(1) [OF b] by simp
    then have "body \<noteq> []" "length body \<le> max_body" by (auto simp: max_body_def)
    with b encode_total [of body] show ?thesis by auto
  qed
  with assms q show ?thesis
    by (auto simp: cmd_begin_def ses_usable_def Let_def split: if_splits sum.splits)
qed

lemma close_unwritten:
  assumes "ses_command env opcode [] timeout node 0 None s = (r, t)" and "node \<noteq> 0" and "0 < timeout" and "timeout \<le> 60000"
    and "\<not> writes env opcode [] timeout node 0 None s"
  shows "\<not> ses_usable t \<or> (\<exists>m. r = Inl (Error ERR_TIMEOUT m)) \<or> (\<exists>m. r = Inl (Error ERR_EXCEEDED_LIMIT m))"
proof (cases "cmd_begin (ses_run s (env_queued env)) (env_now env) opcode [] node 0")
  case (Pair b u)
  let ?q = "ses_run s (env_queued env)"
  show ?thesis
  proof (cases "ses_usable ?q")
    case False
    then have "\<exists>e. b = Inl e \<and> u = ?q" using Pair by (auto simp: cmd_begin_def ses_usable_def split: if_splits)
    with False Pair assms(1,3,4) show ?thesis by (auto simp: ses_command_cases split: if_splits)
  next
    case usable: True
    show ?thesis
    proof (cases b)
      case (Inl e)
      with close_begins [OF usable _ assms(2)] Pair assms(1,3,4) show ?thesis
        by (fastforce simp: ses_command_cases split: if_splits)
    next
      case (Inr wire)
      obtain x es where x: "env_send env wire (nat ((cmd_left env timeout + 999999) div 1000000)) = (x, es)" by fastforce
      have "isl x" if "0 < cmd_left env timeout" "env_slot env"
        using that assms(3-5) Pair Inr x by (simp add: writes_def cmd_told_def)
      with assms(1,3,4) Pair Inr x show ?thesis
        by (auto simp: ses_command_cases cmd_told_def cmd_exchange_def cmd_send_failed_def ses_usable_def Let_def
            split: if_splits sum.splits)
    qed
  qed
qed

lemma dg_command_close:
  assumes "dg_command net deadline opcode [] node d = (r, d')" and "node \<noteq> 0" and "0 < deadline" and "deadline \<le> 60000"
  shows "st_written (last (dg_sent d')) \<or> turned_down (last (dg_sent d'))"
proof -
  obtain q t where c: "ses_command (dg_env net d) opcode [] deadline node 0 None (dg_session d) = (q, t)" by fastforce
  with assms(1) have d': "dg_session d' = t" "last (dg_sent d') = \<lparr>st_opcode = opcode, st_node = node, st_payload = [],
      st_written = writes (dg_env net d) opcode [] deadline node 0 None (dg_session d), st_lost = \<not> ses_usable t, st_reply = q\<rparr>"
    by (auto simp: dg_command_def dg_send_def Let_def)
  from close_unwritten [OF c assms(2-4)] show ?thesis by (auto simp: d'(2) turned_down_def)
qed

lemma dg_send_written:
  assumes "dg_send net deadline opcode payload node chan known d = (Inr body, d')"
  shows "writes (dg_env net d) opcode payload deadline node chan known (dg_session d)"
  using assms by (auto simp: dg_send_def Let_def split: prod.splits intro!: answered_written)

lemma only_if_simps [simp]: "only_if True m = m" "only_if False m = ret ()"
  by (simp_all add: only_if_def)

lemma put_simps [effect_simps]:
  "put text d = (Inr (), d\<lparr>dg_out := dg_out d @ text\<rparr>)" "andthen (put text) f d = f () (d\<lparr>dg_out := dg_out d @ text\<rparr>)"
  by (simp_all add: put_def effect_simps)

lemma show_body_effect:
  "show_body label body True d = (r, d') \<Longrightarrow>
     (\<exists>x. d' = d\<lparr>dg_out := x\<rparr>) \<and> (case r of Inl e \<Rightarrow> session_status body = Inl e | Inr _ \<Rightarrow> \<exists>v. session_status body = Inr v)"
  by (auto simp: show_body_def steps.simps effect_simps andthen_assoc split: sum.splits)

lemma asked_effect:
  assumes "asked net deadline label opcode payload node False d = (r, d')"
  obtains c where "dg_sent d' = dg_sent d @ [c]" "st_opcode c = opcode" "st_node c = node"
    "confirmed c \<longleftrightarrow> (\<exists>u. r = Inr u)" "same_marks d d'" "dg_pauses d' = dg_pauses d" "confirmed c \<longrightarrow> st_written c"
proof -
  obtain reply e where s: "dg_command net deadline opcode payload node d = (reply, e)" by fastforce
  let ?c = "\<lparr>st_opcode = opcode, st_node = node, st_payload = payload,
      st_written = writes (dg_env net d) opcode payload deadline node 0 None (dg_session d),
      st_lost = \<not> ses_usable (dg_session e), st_reply = reply\<rparr>"
  note e = dg_send_effect [OF s [unfolded dg_command_def]]
  have "(\<exists>x. d' = e\<lparr>dg_out := x\<rparr>) \<and> (confirmed ?c \<longleftrightarrow> (\<exists>u. r = Inr u))"
  proof (cases reply)
    case (Inl x)
    then have "d' = e" "r = Inl x" using assms s by (simp_all add: asked_def effect_simps)
    moreover have "\<exists>x. e = e\<lparr>dg_out := x\<rparr>" by (rule exI [of _ "dg_out e"]) simp
    ultimately show ?thesis using Inl by (simp add: confirmed_def)
  next
    case (Inr body)
    obtain q f where q: "show_body label body True e = (q, f)" by fastforce
    from assms s Inr q have "(r, d') = (case q of Inl x \<Rightarrow> (Inl x, f) | Inr _ \<Rightarrow> (require_status body False, f))"
      by (cases q) (auto simp: asked_def effect_simps)
    with show_body_effect [OF q] Inr show ?thesis
      by (auto simp: confirmed_def require_status_def split: sum.splits if_splits)
  qed
  then obtain x where "d' = e\<lparr>dg_out := x\<rparr>" "confirmed ?c \<longleftrightarrow> (\<exists>u. r = Inr u)" by blast
  moreover have "st_written ?c" if "confirmed ?c"
    using that s dg_send_written by (cases reply) (auto simp: confirmed_def dg_command_def)
  ultimately show thesis using e
    by (intro that [of ?c]) (simp_all add: same_marks_def)
qed

lemma triple_asked:
  assumes "\<And>d d' c. P d \<Longrightarrow> dg_sent d' = dg_sent d @ [c] \<Longrightarrow> st_opcode c = opcode \<Longrightarrow> st_node c = node \<Longrightarrow>
      same_marks d d' \<Longrightarrow> (confirmed c \<longrightarrow> st_written c) \<Longrightarrow> if confirmed c then P (f d') else P d'"
  shows "keeps P (andthen (asked net deadline label opcode payload node False) (\<lambda>_. modify f))"
proof (rule triple_change)
  fix d r d' assume p: "P d" and m: "andthen (asked net deadline label opcode payload node False) (\<lambda>_. modify f) d = (r, d')"
  obtain q e where a: "asked net deadline label opcode payload node False d = (q, e)" by fastforce
  from a obtain c where c: "dg_sent e = dg_sent d @ [c]" "st_opcode c = opcode" "st_node c = node"
      "confirmed c \<longleftrightarrow> (\<exists>u. q = Inr u)" "same_marks d e" "confirmed c \<longrightarrow> st_written c" by (rule asked_effect)
  from assms [OF p c(1,2,3,5,6)] c(4) m a show "case r of Inl _ \<Rightarrow> P d' | Inr _ \<Rightarrow> P d'"
    by (cases q) (auto simp: effect_simps)
qed

section \<open>What is sent\<close>

text \<open>The opcodes \<open>A\<close>, at most \<open>n\<close> of them transmits; what is marked open may be closed.\<close>

definition modest :: "u16 set \<Rightarrow> nat \<Rightarrow> diag \<Rightarrow> bool" where
  "modest A n d \<longleftrightarrow> list_all (\<lambda>c. st_opcode c \<in> A) (dg_sent d) \<and> length (filter (\<lambda>c. st_opcode c = 8) (dg_sent d)) \<le> n \<and>
     (dg_opened d \<longrightarrow> 5 \<in> A) \<and> (dg_channel d \<or> dg_iso d \<longrightarrow> 7 \<in> A)"

definition plain_opcodes :: "u16 set \<Rightarrow> u16 set" where
  "plain_opcodes A = {opcode \<in> A. opcode \<noteq> 8 \<and> (opcode = 3 \<longrightarrow> 5 \<in> A) \<and> (opcode = 6 \<longrightarrow> 7 \<in> A)}"

lemma modest_marks [simp]:
  "modest A n (d\<lparr>dg_out := x\<rparr>) = modest A n d" "modest A n (d\<lparr>dg_handles := hs\<rparr>) = modest A n d"
  "modest A n (d\<lparr>dg_value := v\<rparr>) = modest A n d" "modest A n (d\<lparr>dg_pauses := k\<rparr>) = modest A n d"
  "modest A n (d\<lparr>dg_session := s\<rparr>) = modest A n d"
  by (simp_all add: modest_def)

lemma modest_sent:
  assumes "modest A n d" and "dg_sent d' = dg_sent d @ [c]" and "same_marks d d'" and "st_opcode c \<in> A"
    and "if st_opcode c = 8 then n < k else n \<le> k"
  shows "modest A k d'"
  using assms by (auto simp: modest_def same_marks_def split: if_splits)

lemma modest_send:
  assumes "opcode \<in> A" and "if opcode = 8 then n < k else n \<le> k"
  shows "triple (modest A n) (dg_send net deadline opcode payload node chan known) (\<lambda>_. modest A k) (\<lambda>_. modest A k)"
proof (rule triple_change)
  fix d r d' assume m: "modest A n d" and s: "dg_send net deadline opcode payload node chan known d = (r, d')"
  from modest_sent [OF m dg_send_effect(1,2) [OF s], of k] assms show "case r of Inl _ \<Rightarrow> modest A k d' | Inr _ \<Rightarrow> modest A k d'"
    by (simp split: sum.split)
qed

lemma modest_patient:
  assumes "opcode \<in> A" and "opcode \<noteq> 8"
  shows "keeps (modest A n) (patient_from k net deadline opcode payload node)"
  by (rule keeps_patient_from) (use assms in \<open>auto simp: dg_command_def intro!: modest_send\<close>)

interpretation modest: diag_invariant "modest A n" "plain_opcodes A" net deadline for A n net deadline
proof unfold_locales
  fix opcode :: u16 and k payload node
  assume "opcode \<in> plain_opcodes A"
  then show "keeps (modest A n) (patient_from k net deadline opcode payload node)"
    by (intro modest_patient) (simp_all add: plain_opcodes_def)
qed (auto intro!: triple_asked simp: plain_opcodes_def modest_def same_marks_def)

lemma modest_close:
  "opcode \<in> A \<Longrightarrow> opcode \<noteq> 8 \<Longrightarrow> keeps (modest A n) (close_node net deadline label opcode node)"
  by (intro modest.keeps_close) (simp add: patient_command_def modest_patient)

lemma modest_end_session: "keeps (modest A n) (end_session host)"
  by (rule triple_change) (auto simp: end_session_def Let_def split: prod.splits sum.split)

lemma ret_then [simp]: "andthen (ret x) f = f x" "andthen m ret = m"
  by (rule ext, simp add: andthen_def effect_simps split: prod.split sum.split)+

lemma modify_modify: "andthen (modify f) (\<lambda>_. andthen (modify g) m) = andthen (modify (\<lambda>d. g (f d))) m"
  by (rule ext) (simp add: effect_simps)

lemma triple_lift_then: "(\<And>x. triple P (f x) Q E) \<Longrightarrow> (\<And>e d. P d \<Longrightarrow> E e d) \<Longrightarrow> triple P (andthen (lift r) f) Q E"
  by (rule triple_andthen [where R = "\<lambda>_. P"]) (auto intro: triple_lift)

text \<open>
  The transmit probe: \<open>P\<close> until the listener is attached, \<open>R\<close> until the transmit, \<open>Q\<close> from there on and after a failure.
\<close>

lemma transmit_probe_rule:
  assumes P: "diag_invariant P A net deadline" and Q: "diag_invariant Q A' net deadline" and "{6, 0x12} \<subseteq> A"
    and PQ: "\<And>d. P d \<Longrightarrow> Q d" and RQ: "\<And>d. R d \<Longrightarrow> Q d"
    and att: "\<And>d. P d \<Longrightarrow> R (attach_listener (Some 0) (set_listener (rx_new CAN) d))"
    and send: "\<And>frame payload. triple R (dg_send net deadline 8 payload can_node data_chan (Some (note_frame frame))) (\<lambda>_. Q) (\<lambda>_. Q)"
    and idle: "\<And>d es. Q d \<Longrightarrow> Q (d\<lparr>dg_session := ses_run (dg_session d) es\<rparr>)"
    and reads: "\<And>d. Q d \<Longrightarrow> Q (set_listener (snd (snd (rx_read (listener d) 1 True waits))) d)"
    and det: "\<And>d. Q d \<Longrightarrow> Q (attach_listener None d)"
  shows "triple P (transmit_probe net deadline ev waits) (\<lambda>_. Q) (\<lambda>_. Q)"
proof -
  have "keeps P (open_can net deadline)" using assms(3) by (rule diag_invariant.keeps_open_can [OF P])
  then have o: "triple P (open_can net deadline) (\<lambda>_. P) (\<lambda>_. Q)" by (rule triple_weaken) (auto intro: PQ)
  have w: "keeps Q (wait_transmitted ess)" for ess
    by (induction ess) (auto intro!: keeps_andthen keeps_basic keeps_modify idle split: if_splits)
  have r: "keeps Q (listener_read waits)"
  proof (rule triple_change)
    fix d x d' assume q: "Q d" and l: "listener_read waits d = (x, d')"
    obtain out res r where rr: "rx_read (listener d) 1 True waits = (out, res, r)" by (cases "rx_read (listener d) 1 True waits")
    have "Q (set_listener r d)" using reads [OF q] rr by simp
    moreover have "\<exists>y. d' = (set_listener r d)\<lparr>dg_out := y\<rparr> \<or> d' = set_listener r d"
      using l rr by (auto simp: listener_read_def effect_simps Let_def split: sum.splits exn.splits)
    ultimately have "Q d'" using diag_invariant.printed(1) [OF Q] by auto
    then show "case x of Inl _ \<Rightarrow> Q d' | Inr _ \<Rightarrow> Q d'" by (cases x) auto
  qed
  have rest: "keeps Q (andthen (show_body ''outbound'' sent True) (\<lambda>_. andthen (lift (session_status sent)) (\<lambda>status. steps [
       put_outcome ''transmit '' sent, put (transmit_status status @ endl), wait_transmitted (map ev [0..<20]),
       andthen (asks (\<lambda>d. rx_transmitted (listener d))) (\<lambda>n. put (''iMsgTxDone indications: '' @ decimal n @ endl)),
       listener_read waits, modify (attach_listener None)])))" for sent
    by (auto intro!: keeps_andthen keeps_steps keeps_basic keeps_modify det w r diag_invariant.keeps_show [OF Q]
        diag_invariant.keeps_put [OF Q] diag_invariant.keeps_put_outcome [OF Q])
  have att': "triple P (modify (\<lambda>d. attach_listener (Some 0) (set_listener (rx_new CAN) d))) (\<lambda>_. R) (\<lambda>_. Q)"
    by (rule triple_modify) (rule att)
  have eq: "andthen (steps [m, modify f, modify g]) h = andthen m (\<lambda>_. andthen (modify (\<lambda>d. g (f d))) h)"
    for m :: "(diag, unit) eff" and f g and h :: "unit \<Rightarrow> (diag, unit) eff"
    by (simp add: steps.simps andthen_assoc modify_modify)
  show ?thesis
    unfolding transmit_probe_def eq
    by (rule triple_andthen [OF o], rule triple_andthen [OF att'], rule triple_lift_then, rule triple_lift_then,
        rule triple_andthen [OF send], rule rest) (auto intro: RQ)
qed

section \<open>The cleanup\<close>

text \<open>The commands of a patient command: all alike, the last one gives the result.\<close>

lemma patient_from_effect:
  assumes "patient_from n net deadline opcode payload node d = (r, d')"
  shows "\<exists>cs. cs \<noteq> [] \<and> dg_sent d' = dg_sent d @ cs \<and> (\<forall>c \<in> set cs. st_opcode c = opcode \<and> st_node c = node \<and> st_payload c = payload) \<and>
    st_reply (last cs) = r \<and> (\<forall>c \<in> set (butlast cs). \<exists>m. st_reply c = Inl (Error ERR_EXCEEDED_LIMIT m)) \<and>
    length cs \<le> Suc n \<and> same_marks d d' \<and> dg_handles d' = dg_handles d \<and> (isl r \<or> st_written (last cs)) \<and>
    (payload = [] \<and> node \<noteq> 0 \<and> 0 < deadline \<and> deadline \<le> 60000 \<longrightarrow> st_written (last cs) \<or> turned_down (last cs))"
  using assms
proof (induction n arbitrary: d r d')
  case 0
  then show ?case
    using dg_send_effect [of net deadline opcode payload node 0 None d r d'] dg_send_written [of net deadline opcode payload node 0 None d _ d']
      dg_command_close [of net deadline opcode node d r d']
    by (cases r) (auto simp: dg_command_def)
next
  case (Suc n)
  obtain q e where s: "dg_command net deadline opcode payload node d = (q, e)" by fastforce
  note e = dg_send_effect [OF s [unfolded dg_command_def]]
  show ?case
  proof (cases "\<exists>m. q = Inl (Error ERR_EXCEEDED_LIMIT m)")
    case False
    then have "r = q" "d' = e"
      using Suc.prems s by (auto simp: catch_def effect_simps split: sum.splits exn.splits if_splits)
    with e s show ?thesis using dg_send_written [of net deadline opcode payload node 0 None d _ e]
        dg_command_close [of net deadline opcode node d q e]
      by (cases q) (auto simp: dg_command_def)
  next
    case True
    then obtain m f where m: "q = Inl (Error ERR_EXCEEDED_LIMIT m)" and f: "patient_from n net deadline opcode payload node f = (r, d')"
      "dg_sent f = dg_sent e" "same_marks e f" "dg_handles f = dg_handles e"
      using Suc.prems s by (auto simp: catch_def effect_simps same_marks_def split: sum.splits exn.splits)
    let ?c = "\<lparr>st_opcode = opcode, st_node = node, st_payload = payload,
      st_written = writes (dg_env net d) opcode payload deadline node 0 None (dg_session d),
      st_lost = \<not> ses_usable (dg_session e), st_reply = q\<rparr>"
    from Suc.IH [OF f(1)] obtain cs where cs: "cs \<noteq> []" "dg_sent d' = dg_sent f @ cs"
      "\<forall>c \<in> set cs. st_opcode c = opcode \<and> st_node c = node \<and> st_payload c = payload" "st_reply (last cs) = r"
      "\<forall>c \<in> set (butlast cs). \<exists>m. st_reply c = Inl (Error ERR_EXCEEDED_LIMIT m)" "length cs \<le> Suc n" "same_marks f d'"
      "dg_handles d' = dg_handles f" "isl r \<or> st_written (last cs)"
      "payload = [] \<and> node \<noteq> 0 \<and> 0 < deadline \<and> deadline \<le> 60000 \<longrightarrow> st_written (last cs) \<or> turned_down (last cs)"
      by blast
    then show ?thesis using e f m
      by (intro exI [of _ "?c # cs"]) (auto simp: same_marks_def)
  qed
qed

lemma close_node_effect:
  assumes "close_node net deadline label opcode node d = (r, d')"
  shows "\<exists>cs. cs \<noteq> [] \<and> dg_sent d' = dg_sent d @ cs \<and> (\<forall>c \<in> set cs. st_opcode c = opcode \<and> st_node c = node) \<and>
    (confirmed (last cs) \<longleftrightarrow> (\<exists>u. r = Inr u)) \<and> same_marks d d' \<and> (confirmed (last cs) \<longrightarrow> st_written (last cs)) \<and>
    (node \<noteq> 0 \<and> 0 < deadline \<and> deadline \<le> 60000 \<longrightarrow> st_written (last cs) \<or> turned_down (last cs))"
proof -
  obtain q e where p: "patient_command net deadline opcode [] node d = (q, e)" by fastforce
  from patient_from_effect [OF p [unfolded patient_command_def]] obtain cs where cs: "cs \<noteq> []" "dg_sent e = dg_sent d @ cs"
    "\<forall>c \<in> set cs. st_opcode c = opcode \<and> st_node c = node" "st_reply (last cs) = q" "same_marks d e"
    "isl q \<or> st_written (last cs)"
    "node \<noteq> 0 \<and> 0 < deadline \<and> deadline \<le> 60000 \<longrightarrow> st_written (last cs) \<or> turned_down (last cs)" by blast
  have "(\<exists>x. d' = e\<lparr>dg_out := x\<rparr>) \<and> (confirmed (last cs) \<longleftrightarrow> (\<exists>u. r = Inr u))"
  proof (cases q)
    case (Inl x)
    then have "d' = e" "r = Inl x" using assms p by (simp_all add: close_node_def effect_simps)
    moreover have "\<exists>x. e = e\<lparr>dg_out := x\<rparr>" by (rule exI [of _ "dg_out e"]) simp
    ultimately show ?thesis using Inl cs(4) by (simp add: confirmed_def)
  next
    case (Inr body)
    obtain t f where t: "show_body label body True e = (t, f)" by fastforce
    from assms p Inr t have "(r, d') = (case t of Inl x \<Rightarrow> (Inl x, f) | Inr _ \<Rightarrow> (require_status body False, f))"
      by (cases t) (auto simp: close_node_def effect_simps)
    with show_body_effect [OF t] Inr cs(4) show ?thesis
      by (auto simp: confirmed_def require_status_def split: sum.splits if_splits)
  qed
  then have r: "confirmed (last cs) \<longleftrightarrow> (\<exists>u. r = Inr u)" and d': "dg_sent d' = dg_sent d @ cs" "same_marks d d'"
    using cs(2,5) by (auto simp: same_marks_def)
  have "confirmed (last cs) \<longrightarrow> st_written (last cs)"
    using cs(4,6) by (cases q) (simp_all add: confirmed_def)
  with r d' cs(1,3,7) show ?thesis by blast
qed

lemma keeps_cleanup:
  assumes "\<And>d. P d \<Longrightarrow> needed d \<Longrightarrow> keeps P m"
  shows "keeps P (cleanup_stage needed m failure)"
proof (rule triple_change)
  fix d r d' assume p: "P d" and c: "cleanup_stage needed m failure d = (r, d')"
  show "case r of Inl _ \<Rightarrow> P d' | Inr _ \<Rightarrow> P d'"
  proof (cases "needed d")
    case True
    obtain q e where m: "m d = (q, e)" by fastforce
    then have "P e" using tripleD [OF assms [OF p True] p] by (cases q) auto
    then show ?thesis using c m True by (auto simp: cleanup_stage_def split: sum.splits)
  qed (use p c in \<open>auto simp: cleanup_stage_def\<close>)
qed

lemma transmit_body:
  assumes "do_mode opts = ''--transmit-probe''"
  shows "diag_body host opts = andthen (start_board (dh_net host) (do_timeout opts))
    (\<lambda>_. transmit_probe (dh_net host) (do_timeout opts) (dh_idle host) (dh_waits host))"
  using assms by (simp add: diag_body_def Let_def steps.simps)

lemma modest_listener [simp]: "modest A n (set_listener r d) = modest A n d" "modest A n (attach_listener h d) = modest A n d"
  by (simp_all add: set_listener_def attach_listener_def)

lemma diag_session_rule:
  assumes "triple P (diag_body host opts) (\<lambda>_. Q) (\<lambda>_. Q)" and "\<And>failure. keeps Q (diag_cleanup host (do_timeout opts) failure)"
  shows "triple P (diag_session host opts) (\<lambda>_. Q) (\<lambda>_. Q)"
  unfolding diag_session_def
  using assms
  by (auto intro!: triple_andthen [where R = "\<lambda>_. Q"] triple_attempt keeps_basic keeps_andthen split: option.split)

lemma put_list_effect:
  "\<exists>x. steps (map (\<lambda>v. put (f v)) vs) d = (Inr (), d\<lparr>dg_out := x\<rparr>)"
proof (induction vs arbitrary: d)
  case Nil
  show ?case by (rule exI [of _ "dg_out d"]) (simp add: steps.simps effect_simps)
next
  case (Cons v vs)
  from Cons [of "d\<lparr>dg_out := dg_out d @ f v\<rparr>"] show ?case by (simp add: steps.simps effect_simps)
qed

lemma put_devices_effect: "\<exists>x. snd (put_devices found d) = d\<lparr>dg_out := x\<rparr>"
proof (induction found arbitrary: d)
  case Nil
  show ?case by (rule exI [of _ "dg_out d"]) (simp add: effect_simps)
next
  case (Cons a found)
  obtain label r where a: "a = (label, r)" by fastforce
  show ?case
  proof (cases r)
    case (Inl e)
    moreover have "\<exists>x. d = d\<lparr>dg_out := x\<rparr>" by (rule exI [of _ "dg_out d"]) simp
    ultimately show ?thesis using a Cons.IH by (cases e) (simp_all add: effect_simps)
  next
    case (Inr vs)
    obtain x where "steps (map (\<lambda>device. put (label @ '' '' @ di_location device @ '' serial='' @ di_serial device @
          '' access='' @ (if di_error device = [] then ''ok'' else di_error device) @ endl)) vs) d = (Inr (), d\<lparr>dg_out := x\<rparr>)"
      using put_list_effect [of "\<lambda>device. label @ '' '' @ di_location device @ '' serial='' @ di_serial device @
          '' access='' @ (if di_error device = [] then ''ok'' else di_error device) @ endl" vs d] by blast
    then have "put_devices (a # found) d = put_devices found (d\<lparr>dg_out := x\<rparr>)"
      using a Inr by (simp only: put_devices.simps sum.case andthen_apply)
    with Cons.IH [of "d\<lparr>dg_out := x\<rparr>"] show ?thesis by simp
  qed
qed

lemma diag_main_rule:
  assumes new: "\<And>code x. P code (diag_new\<lparr>dg_out := x\<rparr>)"
    and run: "\<And>opts replay r d. parse_diag args diag_defaults = Inr (Run opts) \<Longrightarrow> do_mode opts \<noteq> [] \<Longrightarrow> do_mode opts \<noteq> ''--list'' \<Longrightarrow>
      ebind (diag_checks host opts) (\<lambda>_. diag_transport host opts) = Inr replay \<Longrightarrow> diag_session host opts (diag_new\<lparr>dg_replay := replay\<rparr>) = (r, d) \<Longrightarrow>
      P (if isl r then 1 else 0) d"
  shows "P (fst (diag_main host args)) (snd (diag_main host args))"
proof -
  have n: "P code diag_new" for code using new [of code "[]"] by (simp add: diag_new_def)
  have l: "P code (snd (diag_list host opts diag_new))" for code opts
  proof -
    obtain x where "snd (put_devices [(''tty'', dh_devices host Tty), (''usb'', dh_devices host Usb)] diag_new) = diag_new\<lparr>dg_out := x\<rparr>"
      using put_devices_effect by blast
    then show ?thesis using new [of code x] n by (simp add: diag_list_def effect_simps del: put_devices.simps)
  qed
  show ?thesis
  proof (cases "parse_diag args diag_defaults")
    case (Inr c)
    show ?thesis
    proof (cases c)
      case (Run opts)
      note parsed = Inr [unfolded Run]
      consider "do_mode opts = []" | "do_mode opts = ''--list''" | e where "do_mode opts \<noteq> []" "do_mode opts \<noteq> ''--list''" "ebind (diag_checks host opts) (\<lambda>_. diag_transport host opts) = Inl e"
        | replay where "do_mode opts \<noteq> []" "do_mode opts \<noteq> ''--list''" "ebind (diag_checks host opts) (\<lambda>_. diag_transport host opts) = Inr replay"
        by (cases "ebind (diag_checks host opts) (\<lambda>_. diag_transport host opts)") blast+
      then show ?thesis
      proof cases
        case 2
        then show ?thesis using l [of _ opts] parsed
          by (cases "diag_list host opts diag_new") (auto simp: diag_main_def split: sum.splits dest: spec)
      next
        case (4 replay)
        obtain r d where "diag_session host opts (diag_new\<lparr>dg_replay := replay\<rparr>) = (r, d)" by fastforce
        with run [OF parsed 4 this] 4 parsed show ?thesis by (cases r) (simp_all add: diag_main_def)
      qed (use n parsed in \<open>simp_all add: diag_main_def effect_simps\<close>)
    qed (use n Inr in \<open>simp add: diag_main_def\<close>)
  qed (use n in \<open>simp add: diag_main_def\<close>)
qed

text \<open>
  C37. The program sends nothing but the commands of the mode it was given, and at most one transmit, which only
  \<open>--transmit-probe\<close> makes, whatever the adapter answers and whatever fails. In particular the filter table is only
  touched by \<open>--filter-probe\<close>, a channel is only closed in a mode that opens one, and without a mode nothing is sent.
\<close>

theorem mode_sends_only:
  "(case parse_diag args diag_defaults of
      Inr (Run opts) \<Rightarrow>
        list_all (\<lambda>c. st_opcode c \<in> mode_opcodes (do_mode opts)) (dg_sent (snd (diag_main host args))) \<and>
        length (filter (\<lambda>c. st_opcode c = 8) (dg_sent (snd (diag_main host args)))) \<le> 1
    | _ \<Rightarrow> dg_sent (snd (diag_main host args)) = [])"
proof -
  let ?Q = "\<lambda>opts d. list_all (\<lambda>c. st_opcode c \<in> mode_opcodes (do_mode opts)) (dg_sent d) \<and>
        length (filter (\<lambda>c. st_opcode c = 8) (dg_sent d)) \<le> 1"
  have main: "?Q opts (snd (diag_session host opts (diag_new\<lparr>dg_replay := replay\<rparr>)))" for opts replay
  proof -
    let ?A = "mode_opcodes (do_mode opts)"
    have sub: "body_opcodes (do_mode opts) - {8} \<subseteq> plain_opcodes ?A"
      by (auto simp: plain_opcodes_def mode_opcodes_def body_opcodes_def)
    have weak: "modest ?A 0 d \<Longrightarrow> modest ?A 1 d" for d by (simp add: modest_def)
    have body: "triple (modest ?A 0) (diag_body host opts) (\<lambda>_. modest ?A 1) (\<lambda>_. modest ?A 1)"
    proof (cases "do_mode opts = ''--transmit-probe''")
      case False
      then have "8 \<notin> body_opcodes (do_mode opts)" by (simp add: body_opcodes_def)
      then have "keeps (modest ?A 0) (diag_body host opts)"
        using sub by (intro modest.keeps_body [OF refl refl False]) blast
      then show ?thesis by (rule triple_weaken) (blast intro: weak)+
    next
      case True
      then have A: "{3, 5, 6, 7, 8, 0x12, 0x103, 0x109} \<subseteq> ?A" by (simp add: mode_opcodes_def body_opcodes_def)
      have "keeps (modest ?A 0) (start_board (dh_net host) (do_timeout opts))"
        using A by (intro modest.keeps_start_board) (auto simp: plain_opcodes_def)
      then have start: "triple (modest ?A 0) (start_board (dh_net host) (do_timeout opts)) (\<lambda>_. modest ?A 0) (\<lambda>_. modest ?A 1)"
        by (rule triple_weaken) (blast intro: weak)+
      have "triple (modest ?A 0) (transmit_probe (dh_net host) (do_timeout opts) (dh_idle host) (dh_waits host))
          (\<lambda>_. modest ?A 1) (\<lambda>_. modest ?A 1)"
        by (rule transmit_probe_rule [where R = "modest ?A 0", OF modest.diag_invariant_axioms modest.diag_invariant_axioms])
          (use A weak in \<open>simp_all add: plain_opcodes_def modest_send\<close>)
      with start show ?thesis unfolding transmit_body [OF True] by (rule triple_andthen)
    qed
    have "keeps (modest ?A 1) (diag_cleanup host (do_timeout opts) failure)" for failure
      unfolding diag_cleanup_def
      by (intro keeps_andthen keeps_cleanup modest_close modest_end_session) (auto simp: modest_def)
    from triple_snd [OF diag_session_rule [OF body this], of "diag_new\<lparr>dg_replay := replay\<rparr>"]
    show ?thesis by (simp add: modest_def diag_new_def)
  qed
  show ?thesis
  proof (cases "parse_diag args diag_defaults")
    case (Inr c)
    then show ?thesis
    proof (cases c)
      case (Run opts)
      have "?Q opts (snd (diag_main host args))"
      proof (rule diag_main_rule [of "\<lambda>_. ?Q opts"])
        fix opts' replay r d
        assume "parse_diag args diag_defaults = Inr (Run opts')" "diag_session host opts' (diag_new\<lparr>dg_replay := replay\<rparr>) = (r, d)"
        then show "?Q opts d" using main [of opts replay] Inr Run by simp
      qed (simp add: diag_new_def)
      then show ?thesis using Inr Run by simp
    qed (simp add: diag_main_def diag_new_def)
  qed (simp add: diag_main_def diag_new_def)
qed

section \<open>What is left open\<close>

text \<open>
  The nodes the adapter has confirmed to be open, going by the commands and the answers: an open that was answered with
  status 0 adds its node, a close of which \<open>closes\<close> holds takes it away.
\<close>

definition open_after :: "(sent \<Rightarrow> bool) \<Rightarrow> u16 list \<Rightarrow> sent \<Rightarrow> u16 list" where
  "open_after closes nodes c =
     (if st_opcode c \<in> {3, 6} \<and> confirmed c then st_node c # nodes
      else if st_opcode c \<in> {5, 7} \<and> closes c then filter (\<lambda>n. n \<noteq> st_node c) nodes
      else nodes)"

definition left_open :: "(sent \<Rightarrow> bool) \<Rightarrow> sent list \<Rightarrow> u16 list" where
  "left_open closes log = foldl (open_after closes) [] log"

text \<open>A command that was written to the adapter and that the adapter confirmed.\<close>

definition settled :: "sent \<Rightarrow> bool" where
  "settled c \<longleftrightarrow> st_written c \<and> confirmed c"

text \<open>A command that was written to the adapter, or that the session turned down.\<close>

definition asked_or_lost :: "sent \<Rightarrow> bool" where
  "asked_or_lost c \<longleftrightarrow> st_written c \<or> turned_down c"

definition marked :: "diag \<Rightarrow> u16 set" where
  "marked d = (if dg_opened d then {board_node} else {}) \<union> (if dg_channel d then {can_node} else {}) \<union>
     (if dg_iso d then {iso_node} else {})"

definition tracked :: "(sent \<Rightarrow> bool) \<Rightarrow> diag \<Rightarrow> bool" where
  "tracked closes d \<longleftrightarrow> set (left_open closes (dg_sent d)) \<subseteq> marked d"

lemma nodes_distinct [simp]:
  "can_node \<noteq> board_node" "iso_node \<noteq> board_node" "iso_node \<noteq> can_node"
  "board_node \<noteq> can_node" "board_node \<noteq> iso_node" "can_node \<noteq> iso_node"
  by (simp_all add: can_node_def iso_node_def board_node_def channel_node_def)

lemma left_open_snoc: "left_open closes (log @ [c]) = open_after closes (left_open closes log) c"
  by (simp add: left_open_def)

lemma marked_same: "same_marks d d' \<Longrightarrow> marked d' = marked d"
  by (simp add: same_marks_def marked_def)

lemma tracked_fields [simp]:
  "tracked closes (d\<lparr>dg_out := x\<rparr>) = tracked closes d" "tracked closes (d\<lparr>dg_handles := hs\<rparr>) = tracked closes d"
  "tracked closes (d\<lparr>dg_value := v\<rparr>) = tracked closes d" "tracked closes (d\<lparr>dg_pauses := k\<rparr>) = tracked closes d"
  "tracked closes (d\<lparr>dg_session := s\<rparr>) = tracked closes d"
  "tracked closes (set_listener r d) = tracked closes d" "tracked closes (attach_listener h d) = tracked closes d"
  by (simp_all add: tracked_def marked_def set_listener_def attach_listener_def)

lemma tracked_send:
  assumes "opcode \<notin> {3, 5, 6, 7}"
  shows "keeps (tracked closes) (dg_send net deadline opcode payload node chan known)"
proof (rule triple_change)
  fix d r d' assume t: "tracked closes d" and s: "dg_send net deadline opcode payload node chan known d = (r, d')"
  from t assms have "tracked closes d'"
    by (simp add: tracked_def dg_send_effect(1) [OF s] marked_same [OF dg_send_effect(2) [OF s]] left_open_snoc open_after_def)
  then show "case r of Inl _ \<Rightarrow> tracked closes d' | Inr _ \<Rightarrow> tracked closes d'" by (cases r) auto
qed

lemma tracked_invariant:
  assumes "\<And>c. settled c \<Longrightarrow> closes c"
  shows "diag_invariant (tracked closes) (- {5}) net deadline"
proof unfold_locales
  fix opcode :: u16 and k payload node
  assume "opcode \<in> - {5}" "opcode \<notin> {3, 6, 7}"
  then show "keeps (tracked closes) (patient_from k net deadline opcode payload node)"
    by (intro keeps_patient_from) (auto simp: dg_command_def intro!: tracked_send)
qed (use assms in \<open>auto intro!: triple_asked simp: tracked_def settled_def left_open_snoc open_after_def marked_def same_marks_def split: if_splits\<close>)

interpretation requested: diag_invariant "tracked asked_or_lost" "- {5}" net deadline for net deadline
  by (rule tracked_invariant) (simp add: asked_or_lost_def settled_def)

interpretation closed: diag_invariant "tracked settled" "- {5}" net deadline for net deadline
  by (rule tracked_invariant)

lemma tracked_body:
  assumes "\<And>c. settled c \<Longrightarrow> closes c"
  shows "keeps (tracked closes) (diag_body host opts)"
proof (cases "do_mode opts = ''--transmit-probe''")
  case False
  then show ?thesis
    by (intro diag_invariant.keeps_body [OF tracked_invariant [OF assms]]) (auto simp: body_opcodes_def)
next
  case True
  have "keeps (tracked closes) (start_board (dh_net host) (do_timeout opts))"
    by (intro diag_invariant.keeps_start_board [OF tracked_invariant [OF assms]]) auto
  moreover have "keeps (tracked closes) (transmit_probe (dh_net host) (do_timeout opts) (dh_idle host) (dh_waits host))"
    by (rule transmit_probe_rule [where R = "tracked closes", OF tracked_invariant [OF assms] tracked_invariant [OF assms]])
      (simp_all add: tracked_send)
  ultimately show ?thesis unfolding transmit_body [OF True] by (rule keeps_andthen)
qed

lemma marked_empty:
  "S \<subseteq> marked d \<Longrightarrow> (dg_channel d \<Longrightarrow> can_node \<notin> S) \<Longrightarrow> (dg_iso d \<Longrightarrow> iso_node \<notin> S) \<Longrightarrow> (dg_opened d \<Longrightarrow> board_node \<notin> S) \<Longrightarrow> S = {}"
  unfolding marked_def by (cases "dg_channel d"; cases "dg_iso d"; cases "dg_opened d") auto

lemma open_after_close:
  "st_opcode c \<in> {5, 7} \<Longrightarrow> set (open_after closes nodes c) = set nodes - (if closes c then {st_node c} else {})"
  by (auto simp: open_after_def)

text \<open>A close of a node, repeated or not.\<close>

lemma left_open_closes:
  assumes "\<forall>c \<in> set cs. st_opcode c = opcode \<and> st_node c = node" and "opcode \<in> {5, 7}"
  shows "set (left_open closes (log @ cs)) = set (left_open closes log) - {n. n = node \<and> (\<exists>c \<in> set cs. closes c)}"
  using assms(1)
proof (induction cs rule: rev_induct)
  case (snoc c cs)
  have c: "st_opcode c \<in> {5, 7}" "st_node c = node" using snoc.prems assms(2) by auto
  have "set (left_open closes (log @ cs @ [c])) = set (left_open closes (log @ cs)) - (if closes c then {node} else {})"
    unfolding append_assoc [symmetric] left_open_snoc open_after_close [OF c(1)] c(2) ..
  also have "set (left_open closes (log @ cs)) = set (left_open closes log) - {n. n = node \<and> (\<exists>c \<in> set cs. closes c)}"
    using snoc by fastforce
  finally show ?case by (cases "closes c") auto
qed simp

lemma cleanup_close:
  assumes "cleanup_stage needed (close_node net deadline label opcode node) failure d = (x, d')" and "opcode \<in> {5, 7}"
    and "node \<noteq> 0" "0 < deadline" "deadline \<le> 60000"
  obtains f where "x = Inr f" "same_marks d d'" "\<And>closes. set (left_open closes (dg_sent d')) \<subseteq> set (left_open closes (dg_sent d))"
    "needed d \<Longrightarrow> node \<notin> set (left_open asked_or_lost (dg_sent d'))"
    "needed d \<Longrightarrow> f = None \<Longrightarrow> node \<notin> set (left_open settled (dg_sent d'))" "f = None \<Longrightarrow> failure = None"
proof (cases "needed d")
  case True
  obtain r e where c: "close_node net deadline label opcode node d = (r, e)" by fastforce
  from close_node_effect [OF c] obtain cs where cs: "cs \<noteq> []" "dg_sent e = dg_sent d @ cs"
    "\<forall>c \<in> set cs. st_opcode c = opcode \<and> st_node c = node" "confirmed (last cs) \<longleftrightarrow> (\<exists>u. r = Inr u)" "same_marks d e"
    "confirmed (last cs) \<longrightarrow> st_written (last cs)" "st_written (last cs) \<or> turned_down (last cs)"
    using assms(3-5) by blast
  have x: "x = Inr (case r of Inl e \<Rightarrow> if failure = None then Some e else failure | Inr _ \<Rightarrow> failure)" "d' = e"
    using assms(1) True c by (auto simp: cleanup_stage_def split: sum.splits)
  note l = left_open_closes [OF cs(3) assms(2), of _ "dg_sent d", folded cs(2)]
  have "\<exists>c \<in> set cs. settled c" if "r = Inr u" for u
    using that cs(1,4,6) last_in_set unfolding settled_def by blast
  moreover have "\<exists>c \<in> set cs. asked_or_lost c" using cs(1,7) last_in_set unfolding asked_or_lost_def by blast
  ultimately show thesis using x cs(5) l
    by (intro that [of "case r of Inl e \<Rightarrow> if failure = None then Some e else failure | Inr _ \<Rightarrow> failure"])
      (auto split: sum.splits if_splits)
next
  case False
  with assms(1) show thesis by (intro that [of failure]) (auto simp: cleanup_stage_def same_marks_def)
qed

lemma cleanup_session:
  assumes "cleanup_stage (\<lambda>_. True) (end_session host) failure d = (x, d')"
  obtains f where "x = Inr f" "dg_sent d' = dg_sent d" "ses_stopped (dg_session d')" "f = None \<Longrightarrow> failure = None"
proof -
  obtain r s where c: "ses_close (dg_session d) (dh_closing host) (if dg_replay d = None then dh_stop host else Inr ()) = (r, s)"
    by fastforce
  then have "ses_stopped s" by (auto simp: ses_close_def split: if_splits)
  with c assms show thesis
    by (intro that [of "case r of Inl e \<Rightarrow> if failure = None then Some e else failure | Inr _ \<Rightarrow> failure"])
      (auto simp: cleanup_stage_def end_session_def split: sum.splits if_splits)
qed

lemma diag_cleanup_effect:
  assumes "tracked asked_or_lost d" and "tracked settled d" and "diag_cleanup host deadline failure d = (x, d')"
    and "0 < deadline" "deadline \<le> 60000"
  obtains f where "x = Inr f" "left_open asked_or_lost (dg_sent d') = []" "f = None \<Longrightarrow> left_open settled (dg_sent d') = []"
    "f = None \<Longrightarrow> failure = None" "ses_stopped (dg_session d')"
proof -
  have op: "(7 :: u16) \<in> {5, 7}" "(5 :: u16) \<in> {5, 7}" by simp_all
  have nodes: "can_node \<noteq> 0" "iso_node \<noteq> 0" "board_node \<noteq> 0"
    by (simp_all add: can_node_def iso_node_def board_node_def channel_node_def)
  let ?net = "dh_net host" and ?o = "\<lambda>closes d. set (left_open closes (dg_sent d))"
  obtain x1 d1 where c1: "cleanup_stage dg_channel (close_node ?net deadline ''close-channel'' 7 can_node) failure d = (x1, d1)" by fastforce
  from cleanup_close [OF this op(1) nodes(1) assms(4,5)] obtain f1 where 1: "x1 = Inr f1"
    "same_marks d d1" "\<And>closes. ?o closes d1 \<subseteq> ?o closes d" "dg_channel d \<Longrightarrow> can_node \<notin> ?o asked_or_lost d1"
    "dg_channel d \<Longrightarrow> f1 = None \<Longrightarrow> can_node \<notin> ?o settled d1" "f1 = None \<Longrightarrow> failure = None" by blast
  obtain x2 d2 where c2: "cleanup_stage dg_iso (close_node ?net deadline ''close-iso15765'' 7 iso_node) f1 d1 = (x2, d2)" by fastforce
  from cleanup_close [OF this op(1) nodes(2) assms(4,5)] obtain f2 where 2: "x2 = Inr f2"
    "same_marks d1 d2" "\<And>closes. ?o closes d2 \<subseteq> ?o closes d1" "dg_iso d1 \<Longrightarrow> iso_node \<notin> ?o asked_or_lost d2"
    "dg_iso d1 \<Longrightarrow> f2 = None \<Longrightarrow> iso_node \<notin> ?o settled d2" "f2 = None \<Longrightarrow> f1 = None" by blast
  obtain x3 d3 where c3: "cleanup_stage dg_opened (close_node ?net deadline ''close'' 5 board_node) f2 d2 = (x3, d3)" by fastforce
  from cleanup_close [OF this op(2) nodes(3) assms(4,5)] obtain f3 where 3: "x3 = Inr f3"
    "same_marks d2 d3" "\<And>closes. ?o closes d3 \<subseteq> ?o closes d2" "dg_opened d2 \<Longrightarrow> board_node \<notin> ?o asked_or_lost d3"
    "dg_opened d2 \<Longrightarrow> f3 = None \<Longrightarrow> board_node \<notin> ?o settled d3" "f3 = None \<Longrightarrow> f2 = None" by blast
  from assms(3) c1 c2 c3 1(1) 2(1) 3(1) have "cleanup_stage (\<lambda>_. True) (end_session host) f3 d3 = (x, d')"
    by (simp add: diag_cleanup_def effect_simps)
  from cleanup_session [OF this] obtain f where 4: "x = Inr f" "dg_sent d' = dg_sent d3" "ses_stopped (dg_session d')" "f = None \<Longrightarrow> f3 = None"
    by blast
  have T: "?o asked_or_lost d' = {}"
  proof -
    have "?o asked_or_lost d3 \<subseteq> marked d" using assms(1) 1(3) 2(3) 3(3) unfolding tracked_def by blast
    moreover have "can_node \<notin> ?o asked_or_lost d3" if "dg_channel d" using 1(4) [OF that] 2(3) 3(3) by blast
    moreover have "iso_node \<notin> ?o asked_or_lost d3" if "dg_iso d" using 2(4) that 1(2) 3(3) unfolding same_marks_def by blast
    moreover have "board_node \<notin> ?o asked_or_lost d3" if "dg_opened d" using 3(4) that 1(2) 2(2) unfolding same_marks_def by blast
    ultimately show ?thesis unfolding 4(2) by (rule marked_empty)
  qed
  have C: "?o settled d' = {}" if f: "f = None"
  proof -
    have n: "f3 = None" "f2 = None" "f1 = None" using f 4(4) 3(6) 2(6) by blast+
    have "?o settled d3 \<subseteq> marked d" using assms(2) 1(3) 2(3) 3(3) unfolding tracked_def by blast
    moreover have "can_node \<notin> ?o settled d3" if "dg_channel d" using 1(5) [OF that n(3)] 2(3) 3(3) by blast
    moreover have "iso_node \<notin> ?o settled d3" if "dg_iso d" using 2(5) that n(2) 1(2) 3(3) unfolding same_marks_def by blast
    moreover have "board_node \<notin> ?o settled d3" if "dg_opened d" using 3(5) that n(1) 1(2) 2(2) unfolding same_marks_def by blast
    ultimately show ?thesis unfolding 4(2) by (rule marked_empty)
  qed
  have "failure = None" if "f = None" using that 4(4) 3(6) 2(6) 1(6) by blast
  with T C 4(1,3) show thesis by (intro that [of f]) simp_all
qed

text \<open>\<open>--timeout-ms\<close> is within the limits of a command.\<close>

lemma option_number_range: "option_number text n what = Inr v \<Longrightarrow> 0 < v \<and> v \<le> n"
  using digits_value_nonneg [of 10 "dropWhile (\<lambda>c. c_isspace (of_char c)) text"]
    digits_value_nonneg [of 10 "tl (dropWhile (\<lambda>c. c_isspace (of_char c)) text)"]
  by (auto simp: option_number_def stoul_def strtoul_def Let_def ebind_eq_Inr_iff split: if_splits)

lemma parse_diag_timeout:
  assumes "parse_diag args opts = Inr (Run opts')" and "0 < do_timeout opts" and "do_timeout opts \<le> 60000"
  shows "0 < do_timeout opts' \<and> do_timeout opts' \<le> 60000"
  using assms
proof (induction args opts rule: parse_diag.induct)
  case (2 arg rest opts)
  have v: "0 < do_timeout opts2 \<and> do_timeout opts2 \<le> 60000" if "diag_value arg v opts = Inr opts2" for v opts2
    using that 2(4,5) option_number_range [of v 60000 "''invalid timeout''"]
    by (auto simp: diag_value_def ebind_eq_Inr_iff split: if_splits)
  from 2 v show ?case
    by (auto simp: ebind_eq_Inr_iff split: if_splits list.splits)
qed simp

lemma diag_session_closes:
  assumes "diag_session host opts d = (r, d')" and "tracked asked_or_lost d" and "tracked settled d"
    and o: "0 < do_timeout opts" "do_timeout opts \<le> 60000"
  shows "left_open asked_or_lost (dg_sent d') = [] \<and> ((\<exists>u. r = Inr u) \<longrightarrow> left_open settled (dg_sent d') = []) \<and>
    ses_stopped (dg_session d')"
proof -
  obtain q e where b: "diag_body host opts d = (q, e)" by fastforce
  have "keeps (tracked asked_or_lost) (diag_body host opts)" "keeps (tracked settled) (diag_body host opts)"
    by (rule tracked_body; simp add: settled_def asked_or_lost_def)+
  from triple_snd [OF this(1) assms(2)] triple_snd [OF this(2) assms(3)] b
  have e: "tracked asked_or_lost e" "tracked settled e" by simp_all
  obtain x f where c: "diag_cleanup host (do_timeout opts) (case q of Inl e \<Rightarrow> Some e | Inr _ \<Rightarrow> None) e = (x, f)" by fastforce
  from diag_cleanup_effect [OF e c o] obtain g where g: "x = Inr g" "left_open asked_or_lost (dg_sent f) = []"
    "g = None \<Longrightarrow> left_open settled (dg_sent f) = []" "ses_stopped (dg_session f)" by blast
  have "d' = f" "(\<exists>u. r = Inr u) \<Longrightarrow> g = None"
    using assms(1) b c g(1) by (auto simp: diag_session_def attempt_def effect_simps andthen_def split: option.splits)
  with g show ?thesis by blast
qed

text \<open>
  C38. What the program opens on the adapter it closes, whatever fails in between: when it ends, for every channel and the
  board that the adapter confirmed to have opened a later close was written to the adapter, unless the session turned that
  close down because it had been lost or the command's time ran out; and the session is stopped. If the program reports
  success, all those closes were written and the adapter confirmed them.
\<close>

theorem diagnostic_closes:
  "(case diag_main host args of
      (code, d) \<Rightarrow>
        left_open asked_or_lost (dg_sent d) = [] \<and>
        (if code = 0 then left_open settled (dg_sent d) = [] else True) \<and>
        (dg_sent d = [] \<or> ses_stopped (dg_session d)))"
proof -
  have new: "tracked asked_or_lost (diag_new\<lparr>dg_replay := replay\<rparr>)" "tracked settled (diag_new\<lparr>dg_replay := replay\<rparr>)" for replay
    by (simp_all add: tracked_def left_open_def diag_new_def)
  have "(\<lambda>code d. left_open asked_or_lost (dg_sent d) = [] \<and> (if code = 0 then left_open settled (dg_sent d) = [] else True) \<and>
      (dg_sent d = [] \<or> ses_stopped (dg_session d))) (fst (diag_main host args)) (snd (diag_main host args))"
  proof (rule diag_main_rule)
    fix opts replay r d
    assume p: "parse_diag args diag_defaults = Inr (Run opts)"
    have o: "0 < do_timeout opts" "do_timeout opts \<le> 60000"
      using parse_diag_timeout [OF p] by (simp_all add: diag_defaults_def)
    assume "diag_session host opts (diag_new\<lparr>dg_replay := replay\<rparr>) = (r, d)"
    from diag_session_closes [OF this new o] show "left_open asked_or_lost (dg_sent d) = [] \<and>
        (if (if isl r then 1 else 0) = (0 :: int) then left_open settled (dg_sent d) = [] else True) \<and>
        (dg_sent d = [] \<or> ses_stopped (dg_session d))" by (cases r) auto
  qed (simp add: left_open_def diag_new_def)
  then show ?thesis by (simp add: case_prod_unfold)
qed

section \<open>The waits\<close>

text \<open>A session between commands, on which no command was refused for want of a sequence number.\<close>

definition unhurried :: "diag \<Rightarrow> bool" where
  "unhurried d \<longleftrightarrow> ses_inv (dg_session d) \<and> ses_quiet (dg_session d) \<and> dg_pauses d = 0"

definition not_exhausted :: "exn \<Rightarrow> bool" where
  "not_exhausted e = (case e of Error code _ \<Rightarrow> code \<noteq> ERR_EXCEEDED_LIMIT | _ \<Rightarrow> True)"

definition transport_errors :: "cmd_env \<Rightarrow> bool" where
  "transport_errors env \<longleftrightarrow> (\<forall>wire ms e. fst (env_send env wire ms) = Inl e \<longrightarrow> not_exhausted e)"

lemma command_not_exhausted:
  assumes "ses_inv s" and "ses_quiet s" and "transport_errors env" and "\<And>f q t. known = Some f \<Longrightarrow> fst (f q t) = Inr ()"
    and "ses_command env opcode payload timeout destination chan known s = (Inl e, t)"
  shows "not_exhausted e"
proof -
  let ?q = "ses_run s (env_queued env)"
  have q: "ses_inv ?q" "same_command s ?q" using ses_run_keeps [OF assms(1)] by blast+
  have qq: "ses_quiet ?q" using ses_quiet_same [OF assms(2) q(2)] .
  obtain b u where b: "cmd_begin ?q (env_now env) opcode payload destination chan = (b, u)" by fastforce
  obtain c v where c: "cmd_told env known u = (c, v)" by fastforce
  have told: "c = Inr ()"
    using c assms(4) by (cases known) (auto simp: cmd_told_def Let_def case_prod_unfold)
  have begun: "not_exhausted x" if "b = Inl x" for x
    using cmd_begin_Inl [OF q(1) qq b [unfolded that]] by (cases x) (auto simp: not_exhausted_def)
  have finish: "not_exhausted x" if "cmd_finish w k = (Inl x, y)" for w k x y
    using that by (auto simp: cmd_finish_def not_exhausted_def Let_def split: if_splits)
  have exchange: "not_exhausted x" if "cmd_exchange env w wire k left = (Inl x, y)" for w wire k left x y
    using that finish assms(3) unfolding cmd_exchange_def transport_errors_def Let_def
    by (auto simp: case_prod_unfold split: sum.splits)
  have "not_exhausted (Invalid_argument m)" "not_exhausted (Error ERR_TIMEOUT m)" for m
    by (simp_all add: not_exhausted_def)
  with assms(5) b c told begun exchange show ?thesis
    by (auto simp: ses_command_cases split: if_splits sum.splits)
qed

lemma replay_env_errors: "transport_errors (replay_env r)"
  by (auto simp: transport_errors_def replay_env_def replay_write_def not_exhausted_def split: list.splits if_splits)

definition hears :: "nat option \<Rightarrow> diag \<Rightarrow> bool" where
  "hears h d \<longleftrightarrow> unhurried d \<and> (h = None \<longrightarrow> ses_can (dg_session d) = None)"

lemma hears_send:
  assumes "\<And>log. transport_errors (net log)" and "callback_ok known" and "callback_receivers known"
    and "\<And>f q t. known = Some f \<Longrightarrow> fst (f q t) = Inr ()"
  shows "triple (hears h) (dg_send net deadline opcode payload node chan known) (\<lambda>_. hears h) (\<lambda>e d. hears h d \<and> not_exhausted e)"
proof (rule triple_change)
  fix d r d' assume q: "hears h d" and s: "dg_send net deadline opcode payload node chan known d = (r, d')"
  define env where "env = (case dg_replay d of None \<Rightarrow> net (dg_sent d) | Some r \<Rightarrow> replay_env r)"
  have env: "transport_errors env" using assms(1) replay_env_errors by (simp add: env_def split: option.split)
  obtain t where c: "ses_command env opcode payload deadline node chan known (dg_session d) = (r, t)" and d': "dg_session d' = t"
    using s by (auto simp: dg_send_def env_def Let_def split: prod.splits)
  have inv: "ses_inv (dg_session d)" "ses_quiet (dg_session d)" using q by (simp_all add: hears_def unhurried_def)
  have "ses_inv t" "ses_quiet t" using ses_command_keeps [OF inv assms(2) c] by blast+
  moreover have "ses_can t = ses_can (dg_session d)"
    using keeps_receivers_command [OF inv assms(2,3), of env opcode payload deadline node chan] c by (simp add: keeps_receivers_def)
  ultimately have h: "hears h d'" using q d' dg_send_effect(3) [OF s] by (simp add: hears_def unhurried_def)
  show "case r of Inl e \<Rightarrow> hears h d' \<and> not_exhausted e | Inr _ \<Rightarrow> hears h d'"
  proof (cases r)
    case (Inl e)
    have "not_exhausted e" by (rule command_not_exhausted [OF inv env _ c [unfolded Inl]]) (rule assms(4))
    with h Inl show ?thesis by simp
  qed (use h in simp)
qed

lemma hears_fields [simp]:
  "hears h (d\<lparr>dg_out := x\<rparr>) = hears h d" "hears h (d\<lparr>dg_handles := hs\<rparr>) = hears h d" "hears h (d\<lparr>dg_value := v\<rparr>) = hears h d"
  "hears h (d\<lparr>dg_opened := b\<rparr>) = hears h d" "hears h (d\<lparr>dg_channel := b\<rparr>) = hears h d" "hears h (d\<lparr>dg_iso := b\<rparr>) = hears h d"
  by (simp_all add: hears_def unhurried_def)

lemma hears_patient:
  assumes "\<And>log. transport_errors (net log)"
  shows "keeps (hears h) (patient_from n net deadline opcode payload node)"
proof -
  have c: "triple (hears h) (dg_command net deadline opcode payload node) (\<lambda>_. hears h) (\<lambda>e d. hears h d \<and> not_exhausted e)"
    unfolding dg_command_def by (rule hears_send [OF assms]) (simp_all add: callback_ok_def callback_receivers_def)
  show ?thesis
  proof (cases n)
    case 0
    with c show ?thesis by (auto elim: triple_weaken)
  next
    case (Suc k)
    have "triple (\<lambda>d. hears h d \<and> not_exhausted e) (case e of
         Error code _ \<Rightarrow> if code \<noteq> ERR_EXCEEDED_LIMIT then raise e else m | _ \<Rightarrow> raise e) (\<lambda>_. hears h) (\<lambda>_. hears h)" for e m
      by (cases e) (auto simp: not_exhausted_def triple_def effect_simps)
    then show ?thesis unfolding Suc patient_from.simps by (intro triple_catch [OF c])
  qed
qed

lemma hears_invariant:
  assumes "\<And>log. transport_errors (net log)"
  shows "diag_invariant (hears h) UNIV net deadline"
proof -
  have a: "keeps (hears h) (andthen (asked net deadline label opcode payload node start) (\<lambda>_. modify f))"
    if "\<And>d. hears h (f d) = hears h d" for label opcode payload node start f
  proof -
    have "keeps (hears h) (dg_command net deadline opcode payload node)" using hears_patient [OF assms, of h 0] by simp
    then show ?thesis unfolding asked_def andthen_assoc
      by (rule keeps_andthen)
        (auto intro!: keeps_andthen keeps_basic keeps_modify keeps_steps keeps_only_if simp: show_body_def put_def that)
  qed
  show ?thesis by unfold_locales (simp_all add: a hears_patient [OF assms])
qed

lemma note_frame_ok: "callback_ok (Some (note_frame frame))" "callback_receivers (Some (note_frame frame))"
proof -
  have n: "rx_halted (note_transmit r frame q None) = rx_halted r" "rx_protocol (note_transmit r frame q None) = rx_protocol r" for r q
    by (simp_all add: note_transmit_def Let_def rx_halted_def)
  have "ses_inv (s\<lparr>ses_receivers := (ses_receivers s)(0 := note_transmit (ses_receivers s 0) frame q None)\<rparr>)" if "ses_inv s" for s q
    using ses_inv_base [OF that] rx_inv_note_transmit n
    by (intro ses_inv_receivers that) (simp_all add: ses_base_def)
  then show "callback_ok (Some (note_frame frame))"
    by (simp add: callback_ok_def note_frame_def same_command_def ses_usable_def)
  show "callback_receivers (Some (note_frame frame))"
    using n by (simp add: callback_receivers_def note_frame_def keeps_receivers_def)
qed

lemma hears_listener:
  assumes "rx_inv r" and "rx_halted (listener d) \<Longrightarrow> rx_halted r" and "hears h d"
  shows "hears h (set_listener r d)"
proof -
  have i: "ses_inv (dg_session d)" using assms(3) by (simp add: hears_def unhurried_def)
  have "ses_inv ((dg_session d)\<lparr>ses_receivers := (ses_receivers (dg_session d))(0 := r)\<rparr>)"
    using ses_inv_base [OF i] assms(1,2) by (intro ses_inv_receivers [OF i]) (simp_all add: ses_base_def listener_def)
  with assms(3) show ?thesis by (simp add: hears_def unhurried_def set_listener_def ses_quiet_def ses_usable_def)
qed

lemma hears_attach: "hears g d \<Longrightarrow> hears h (attach_listener h d)"
  using ses_inv_install [of "dg_session d" h]
  by (simp add: hears_def unhurried_def attach_listener_def ses_quiet_def)

lemma hears_new_listener:
  assumes "hears None d" shows "hears (Some 0) (attach_listener (Some 0) (set_listener (rx_new CAN) d))"
proof (rule hears_attach [where g = None])
  let ?s = "(dg_session d)\<lparr>ses_receivers := (ses_receivers (dg_session d))(0 := rx_new CAN)\<rparr>"
  have "ses_inv ?s" using assms
    by (auto simp: hears_def unhurried_def ses_inv_def ses_base_def minimum_ok_def ses_usable_def)
  then show "hears None (set_listener (rx_new CAN) d)"
    using assms by (simp add: hears_def unhurried_def set_listener_def ses_quiet_def ses_usable_def)
qed

lemma hears_read:
  assumes "hears h d" shows "hears h (set_listener (snd (snd (rx_read (listener d) 1 True waits))) d)"
proof -
  obtain out res r where rr: "rx_read (listener d) 1 True waits = (out, res, r)" by (cases "rx_read (listener d) 1 True waits")
  have i: "rx_inv (listener d)" using assms by (simp add: hears_def unhurried_def listener_def ses_inv_def ses_base_def)
  from rx_read_loop_ok [OF i _ _ rr [unfolded rx_read_def]] rx_read_loop_keeps [OF rr [unfolded rx_read_def]]
  have "rx_inv r" "rx_halted (listener d) \<Longrightarrow> rx_halted r" by auto
  then show ?thesis using hears_listener assms rr by simp
qed

lemma hears_idle: "hears h d \<Longrightarrow> hears h (d\<lparr>dg_session := ses_run (dg_session d) es\<rparr>)"
  using ses_run_keeps [of "dg_session d" es] ses_quiet_same [of "dg_session d"]
  by (auto simp: hears_def unhurried_def same_command_def)

text \<open>
  C39. The program never waits for a sequence number. A session frees a number as soon as its response is matched, and
  after anything else it is unusable, so unless the transport itself reports \<open>ERR_EXCEEDED_LIMIT\<close> the retries of
  \<open>patient_command\<close> are never needed, however long the burst, in any mode.
\<close>

theorem patience_unused:
  assumes "\<And>log. transport_errors (dh_net host log)"
  shows "dg_pauses (snd (diag_main host args)) = 0"
proof -
  have body: "triple (hears None) (diag_body host opts) (\<lambda>_. unhurried) (\<lambda>_. unhurried)" for opts
  proof (cases "do_mode opts = ''--transmit-probe''")
    case False
    have "keeps (hears None) (diag_body host opts)"
      by (rule diag_invariant.keeps_body [OF hears_invariant [OF assms] refl refl False]) simp
    then show ?thesis by (rule triple_weaken) (simp_all add: hears_def)
  next
    case True
    have "keeps (hears None) (start_board (dh_net host) (do_timeout opts))"
      by (rule diag_invariant.keeps_start_board [OF hears_invariant [OF assms]]) simp
    then have start: "triple (hears None) (start_board (dh_net host) (do_timeout opts)) (\<lambda>_. hears None) (\<lambda>_. hears (Some 0))"
      by (rule triple_weaken) (simp_all add: hears_def)
    have "triple (hears None) (transmit_probe (dh_net host) (do_timeout opts) (dh_idle host) (dh_waits host))
        (\<lambda>_. hears (Some 0)) (\<lambda>_. hears (Some 0))"
    proof (rule transmit_probe_rule [where R = "hears (Some 0)", OF hears_invariant [OF assms] hears_invariant [OF assms]])
      show "triple (hears (Some 0)) (dg_send (dh_net host) (do_timeout opts) 8 payload can_node data_chan (Some (note_frame frame)))
          (\<lambda>_. hears (Some 0)) (\<lambda>_. hears (Some 0))" for frame payload
        by (rule triple_weaken [OF hears_send [OF assms note_frame_ok]]) (auto simp: note_frame_def)
      show "hears (Some 0) (attach_listener None d)" if "hears (Some 0) d" for d
        using hears_attach [OF that, of None] by (simp add: hears_def)
    qed ((rule hears_new_listener hears_read hears_idle, assumption) | simp add: hears_def)+
    with start have "triple (hears None) (diag_body host opts) (\<lambda>_. hears (Some 0)) (\<lambda>_. hears (Some 0))"
      unfolding transmit_body [OF True] by (rule triple_andthen)
    then show ?thesis by (rule triple_weaken) (simp_all add: hears_def)
  qed
  have some: "hears (Some 0) = unhurried" by (rule ext) (simp add: hears_def)
  have close: "keeps unhurried (close_node (dh_net host) deadline label opcode node)" for deadline label opcode node
    using diag_invariant.keeps_close [OF hears_invariant [where net = "dh_net host" and h = "Some 0", OF assms]]
      hears_patient [where net = "dh_net host" and h = "Some 0", OF assms]
    unfolding some patient_command_def by blast
  have stop: "keeps unhurried (end_session host)"
  proof (rule triple_change)
    fix d r d' assume u: "unhurried d" and c: "end_session host d = (r, d')"
    let ?closed = "ses_close (dg_session d) (dh_closing host) (if dg_replay d = None then dh_stop host else Inr ())"
    have "ses_inv (snd ?closed)" "ses_quiet (snd ?closed)" using u ses_close_keeps by (auto simp: unhurried_def)
    moreover have "d' = d\<lparr>dg_session := snd ?closed\<rparr>" using c by (auto simp: end_session_def case_prod_unfold Let_def)
    ultimately have "unhurried d'" using u by (simp add: unhurried_def)
    then show "case r of Inl _ \<Rightarrow> unhurried d' | Inr _ \<Rightarrow> unhurried d'" by (cases r) auto
  qed
  have cleanup_stage: "keeps unhurried (diag_cleanup host deadline failure)" for deadline failure
    unfolding diag_cleanup_def by (intro keeps_andthen keeps_cleanup close stop)
  have "(\<lambda>_ d. dg_pauses d = 0) (fst (diag_main host args)) (snd (diag_main host args))"
  proof (rule diag_main_rule)
    fix opts replay r d
    assume s: "diag_session host opts (diag_new\<lparr>dg_replay := replay\<rparr>) = (r, d)"
    have "hears None (diag_new\<lparr>dg_replay := replay\<rparr>)"
      by (simp add: hears_def unhurried_def diag_new_def ses_inv_new) (simp add: session_new_def)
    from triple_snd [OF diag_session_rule [OF body cleanup_stage] this, of opts] s show "dg_pauses d = 0" by (simp add: unhurried_def)
  qed (simp add: diag_new_def)
  then show ?thesis .
qed

text \<open>An adapter that plays a recording with nothing on it.\<close>

definition silent_host :: diag_host where
  "silent_host =
     \<lparr>dh_devices = (\<lambda>_. Inr []), dh_trace = True, dh_recording = None, dh_transport = (\<lambda>_. Inr ()), dh_start = Inr (),
      dh_net = (\<lambda>_. replay_env ((replay_new [])\<lparr>rp_started := True\<rparr>)), dh_idle = (\<lambda>_. []), dh_waits = [], dh_rate = [],
      dh_closing = [], dh_stop = Inr ()\<rparr>"

theorem patience_unused_witness: "dg_pauses (snd (diag_main silent_host [''--filter-probe'', ''--filter-ceiling'', ''100000''])) = 0"
  by (rule patience_unused) (simp add: silent_host_def replay_env_errors)

end
