(* ===== verification/Filter_Probe.thy ===== *)
theory Filter_Probe
  imports Diagnostic_Properties
begin

text \<open>
  The account the filter probe of tools/diagnostic.cpp keeps of the filters it installs and removes, read off the
  commands it sent and the answers it got.
\<close>

text \<open>The handle a command brought, if it was accepted; a removal of a handle.\<close>

definition new_handle :: "sent \<Rightarrow> u32 option" where
  "new_handle c =
     (case st_reply c of
        Inl _ \<Rightarrow> None
      | Inr body \<Rightarrow>
          if session_status body = Inr 0 then (case le32 body 20 of Inl _ \<Rightarrow> None | Inr h \<Rightarrow> Some h) else None)"

definition answered :: "sent \<Rightarrow> bool" where
  "answered c = (case st_reply c of Inl _ \<Rightarrow> False | Inr _ \<Rightarrow> True)"

abbreviation new_handles :: "sent list \<Rightarrow> u32 list" where
  "new_handles \<equiv> List.map_filter new_handle"

lemma table_entry_removal: "table_entry 0 h = Inr ([0, 0, 0, 0] @ u32_bytes h)"
proof -
  have "replicate 8 (0 :: u8) = [0, 0, 0, 0, 0, 0, 0, 0]" by (simp add: numeral_nat)
  moreover have "ucast (drop_bit 8 (ucast h :: u16)) = (ucast (drop_bit 8 h) :: u8)" for h :: u32
    by (rule bit_word_eqI) (auto simp: bit_simps)
  moreover have "ucast (ucast h :: u16) = (ucast h :: u8)" for h :: u32
    by (rule bit_word_eqI) (auto simp: bit_simps)
  moreover have "drop_bit 8 (drop_bit 16 h) = drop_bit 24 h" for h :: u32 by simp
  ultimately show ?thesis by (simp add: table_entry_def put16_def u32_bytes_def)
qed

lemma patient_handles:
  assumes "patient_command net deadline opcode payload node d = (r, d')"
  shows "\<exists>cs. dg_sent d' = dg_sent d @ cs \<and> list_all (\<lambda>c. st_opcode c = opcode \<and> st_node c = node \<and> st_payload c = payload) cs \<and>
    dg_handles d' = dg_handles d \<and> (\<exists>before c. cs = before @ [c] \<and> st_reply c = r \<and> new_handles before = [] \<and> filter answered before = [])"
proof -
  from patient_from_effect [OF assms [unfolded patient_command_def]] obtain cs where cs: "cs \<noteq> []" "dg_sent d' = dg_sent d @ cs"
    "\<forall>c \<in> set cs. st_opcode c = opcode \<and> st_node c = node \<and> st_payload c = payload" "st_reply (last cs) = r"
    "\<forall>c \<in> set (butlast cs). \<exists>m. st_reply c = Inl (Error ERR_EXCEEDED_LIMIT m)" "dg_handles d' = dg_handles d" by blast
  have "new_handle c = None \<and> \<not> answered c" if "c \<in> set (butlast cs)" for c
    using cs(5) that by (fastforce simp: new_handle_def answered_def)
  then have "new_handles (butlast cs) = []" "filter answered (butlast cs) = []"
    by (auto simp: List.map_filter_def filter_empty_conv)
  with cs show ?thesis
    by (intro exI [of _ cs] conjI exI [of _ "butlast cs"] exI [of _ "last cs"]) (auto simp: list_all_iff)
qed

definition adds :: "sent list \<Rightarrow> bool" where
  "adds = list_all (\<lambda>c. st_opcode c = 0xd \<and> st_node c = can_node)"

lemma add_filter_effect:
  assumes "add_filter net deadline can_id d = (r, d')"
  shows "\<exists>cs. dg_sent d' = dg_sent d @ cs \<and> adds cs \<and> dg_handles d' = dg_handles d \<and>
    new_handles cs = (case r of Inl _ \<Rightarrow> [] | Inr body \<Rightarrow>
      if session_status body = Inr 0 then (case le32 body 20 of Inl _ \<Rightarrow> [] | Inr h \<Rightarrow> [h]) else [])"
proof (cases "pass_filter can_id")
  case (Inl e)
  then have "r = Inl e" "d' = d" using assms by (simp_all add: add_filter_def effect_simps)
  then show ?thesis by (intro exI [of _ "[]"]) (simp add: adds_def List.map_filter_def)
next
  case (Inr payload)
  then have "patient_command net deadline 0xd payload can_node d = (r, d')"
    using assms by (simp add: add_filter_def effect_simps)
  from patient_handles [OF this] obtain cs before c where cs: "dg_sent d' = dg_sent d @ cs"
    "list_all (\<lambda>c. st_opcode c = 0xd \<and> st_node c = can_node \<and> st_payload c = payload) cs" "dg_handles d' = dg_handles d"
    "cs = before @ [c]" "st_reply c = r" "new_handles before = []" by blast
  have "adds cs" using cs(2) by (simp add: adds_def list_all_iff)
  with cs show ?thesis
    by (intro exI [of _ cs]) (auto simp: map_filter_append new_handle_def List.map_filter_def split: sum.split)
qed

lemma le32_short: "24 \<le> length body \<Longrightarrow> \<exists>h. le32 body 20 = Inr h" "length body < 24 \<Longrightarrow> \<exists>e. le32 body 20 = Inl e"
  by (auto simp: le32_def le16_def ebind_eq_Inl_iff)

text \<open>The fill keeps exactly the handles it was given, whatever stops it.\<close>

lemma fill_effect:
  assumes "fill net deadline ceiling label is d = (r, d')"
  shows "\<exists>cs. dg_sent d' = dg_sent d @ cs \<and> adds cs \<and> dg_handles d' = dg_handles d @ new_handles cs \<and>
    length (new_handles cs) \<le> length is \<and>
    (case r of Inl _ \<Rightarrow> True | Inr n \<Rightarrow> n = length (dg_handles d') \<or> n = ceiling \<and> length (new_handles cs) = length is)"
  using assms
proof (induction "is" arbitrary: d)
  case Nil
  then show ?case by (intro exI [of _ "[]"]) (auto simp: effect_simps adds_def List.map_filter_def)
next
  case (Cons i "is")
  obtain q e where a: "add_filter net deadline (0x100 + of_nat i) d = (q, e)" by fastforce
  from add_filter_effect [OF a] obtain cs where cs: "dg_sent e = dg_sent d @ cs" "adds cs" "dg_handles e = dg_handles d"
    "new_handles cs = (case q of Inl _ \<Rightarrow> [] | Inr body \<Rightarrow>
      if session_status body = Inr 0 then (case le32 body 20 of Inl _ \<Rightarrow> [] | Inr h \<Rightarrow> [h]) else [])" by blast
  show ?case
  proof (cases q)
    case (Inl x)
    then show ?thesis using Cons.prems a cs by (intro exI [of _ cs]) (auto simp: effect_simps)
  next
    case (Inr body)
    note a = a [unfolded Inr]
    note m = Cons.prems a
    consider x where "session_status body = Inl x" | v where "session_status body = Inr v" "v \<noteq> 0"
      | "session_status body = Inr 0" "length body < 24" | "session_status body = Inr 0" "24 \<le> length body"
      by (cases "session_status body") (auto simp: not_less [symmetric])
    then show ?thesis
    proof cases
      case 1
      then show ?thesis using m Inr cs by (intro exI [of _ cs]) (auto simp: effect_simps)
    next
      case 2
      then have "outcome body = Inr x" if "x = projr (outcome body)" for x using that by (simp add: outcome_def Let_def)
      then obtain x where x: "outcome body = Inr x" by blast
      from 2 show ?thesis using m Inr cs x
        by (intro exI [of _ cs]) (auto simp: effect_simps put_outcome_def steps.simps andthen_assoc)
    next
      case 3
      then show ?thesis using m Inr cs le32_short(2) [of body] by (intro exI [of _ cs]) (auto simp: effect_simps)
    next
      case 4
      then obtain h where h: "le32 body 20 = Inr h" using le32_short(1) by blast
      obtain x where f: "fill net deadline ceiling label is (e\<lparr>dg_handles := dg_handles e @ [h], dg_out := x\<rparr>) = (r, d')"
        using m 4 h by (auto simp: effect_simps take_handle_def andthen_assoc not_less [symmetric])
      from Cons.IH [OF f] obtain cs' where cs': "dg_sent d' = dg_sent e @ cs'" "adds cs'"
        "dg_handles d' = (dg_handles e @ [h]) @ new_handles cs'" "length (new_handles cs') \<le> length is"
        "case r of Inl _ \<Rightarrow> True | Inr n \<Rightarrow> n = length (dg_handles d') \<or> n = ceiling \<and> length (new_handles cs') = length is" by auto
      have "new_handles cs = [h]" using cs(4) Inr 4 h by simp
      with cs cs' show ?thesis
        by (intro exI [of _ "cs @ cs'"]) (auto simp: map_filter_append adds_def split: sum.splits)
    qed
  qed
qed

definition removals :: "sent list \<Rightarrow> u32 list \<Rightarrow> bool" where
  "removals cs handles \<longleftrightarrow> list_all (\<lambda>c. st_opcode c = 0xe \<and> st_node c = can_node) cs \<and>
     map st_payload (filter answered cs) = map (\<lambda>h. [0, 0, 0, 0] @ u32_bytes h) handles"

lemma remove_filter_effect:
  assumes "remove_filter net deadline h d = (Inr u, d')"
  shows "\<exists>cs. dg_sent d' = dg_sent d @ cs \<and> removals cs [h] \<and> dg_handles d' = dg_handles d"
proof -
  let ?payload = "[0, 0, 0, 0] @ u32_bytes h"
  obtain q e where p: "patient_command net deadline 0xe ?payload can_node d = (q, e)" by fastforce
  then obtain body where q: "q = Inr body"
    using assms by (cases q) (simp_all add: remove_filter_def table_entry_removal effect_simps)
  have "dg_sent d' = dg_sent e" "dg_handles d' = dg_handles e"
    using assms p q by (auto simp: remove_filter_def table_entry_removal effect_simps put_outcome_def steps.simps andthen_assoc
        outcome_def Let_def split: sum.splits if_splits)
  moreover from patient_handles [OF p] obtain cs before c where cs: "dg_sent e = dg_sent d @ cs"
    "list_all (\<lambda>c. st_opcode c = 0xe \<and> st_node c = can_node \<and> st_payload c = ?payload) cs" "dg_handles e = dg_handles d"
    "cs = before @ [c]" "st_reply c = q" "filter answered before = []" by blast
  moreover have "removals cs [h]"
    using cs(2,4-6) q by (simp add: removals_def list_all_iff answered_def)
  ultimately show ?thesis by auto
qed

lemma drain_effect:
  assumes "drain_filters net deadline d = (Inr u, d')"
  shows "\<exists>cs. dg_sent d' = dg_sent d @ cs \<and> removals cs (dg_handles d) \<and> dg_handles d' = []"
proof -
  have all: "\<exists>cs. dg_sent f = dg_sent e @ cs \<and> removals cs handles \<and> dg_handles f = dg_handles e"
    if "steps (map (remove_filter net deadline) handles) e = (Inr v, f)" for handles e f v
    using that
  proof (induction handles arbitrary: e)
    case Nil
    then show ?case by (intro exI [of _ "[]"]) (simp add: steps.simps effect_simps removals_def)
  next
    case (Cons h handles)
    obtain q g where q: "remove_filter net deadline h e = (q, g)" by fastforce
    then obtain w where "q = Inr w" and rest: "steps (map (remove_filter net deadline) handles) g = (Inr v, f)"
      using Cons.prems by (cases q) (simp_all add: steps.simps effect_simps)
    with remove_filter_effect [of net deadline h e w g] q Cons.IH [OF rest] show ?case
      by (fastforce simp: removals_def)
  qed
  let ?m = "steps (map (remove_filter net deadline) (dg_handles d))"
  obtain q e where q: "?m d = (q, e)" by fastforce
  then obtain w where w: "q = Inr w"
    using assms by (cases q) (simp_all add: drain_filters_def effect_simps steps.simps(2) [of ?m])
  then have "dg_sent d' = dg_sent e" "dg_handles d' = []"
    using assms q by (auto simp: drain_filters_def effect_simps steps.simps)
  with all [OF q [unfolded w]] show ?thesis by auto
qed

text \<open>
  C40. The filter probe keeps account of the filters it installs: the capacity it reports is the number of filters the
  adapter accepted, never more than the ceiling; whatever stops the fill, the handles kept are the ones the adapter gave,
  and a drain that ends removes exactly those, each once, in the order of their installation, however often a command
  had to be repeated.
\<close>

theorem probe_removes_what_it_added:
  "(case fill net deadline ceiling label [0..<ceiling] (d\<lparr>dg_handles := []\<rparr>) of
      (r, d1) \<Rightarrow> \<exists>added. dg_sent d1 = dg_sent d @ added \<and> adds added \<and> dg_handles d1 = new_handles added \<and>
        length (new_handles added) \<le> ceiling \<and> (case r of Inl _ \<Rightarrow> True | Inr n \<Rightarrow> n = length (new_handles added)) \<and>
        (case drain_filters net deadline d1 of
           (Inl _, _) \<Rightarrow> True
         | (Inr _, d2) \<Rightarrow> \<exists>removed. dg_sent d2 = dg_sent d1 @ removed \<and> removals removed (new_handles added) \<and> dg_handles d2 = []))"
proof -
  obtain r d1 where f: "fill net deadline ceiling label [0..<ceiling] (d\<lparr>dg_handles := []\<rparr>) = (r, d1)" by fastforce
  from fill_effect [OF f, unfolded length_upt diff_zero] obtain cs where cs: "dg_sent d1 = dg_sent d @ cs" "adds cs" "dg_handles d1 = new_handles cs"
    "length (new_handles cs) \<le> ceiling" and
    n: "case r of Inl _ \<Rightarrow> True | Inr n \<Rightarrow> n = length (dg_handles d1) \<or> n = ceiling \<and> length (new_handles cs) = ceiling" by auto
  from n cs(3) have n: "case r of Inl _ \<Rightarrow> True | Inr n \<Rightarrow> n = length (new_handles cs)" by (cases r) auto
  obtain q d2 where q: "drain_filters net deadline d1 = (q, d2)" by fastforce
  have "case q of Inl _ \<Rightarrow> True | Inr _ \<Rightarrow> \<exists>removed. dg_sent d2 = dg_sent d1 @ removed \<and> removals removed (new_handles cs) \<and> dg_handles d2 = []"
    using drain_effect [of net deadline d1 _ d2] q cs(3) by (cases q) auto
  with f q cs n show ?thesis by (cases q) (auto intro!: exI [of _ cs])
qed

end
