(* ===== verification/Client.thy ===== *)
theory Client
  imports Script_Runner
begin

text \<open>
  The command-line client of tools/client.c: one check per option, each a sequence of calls of the library, and \<open>main\<close>.
  The library is an argument, as in \<open>Script_Runner\<close>; the clocks are functions from the number of the reading to its
  value. \<open>now_ms\<close> is an integer number of nanoseconds (the rounding of \<open>double\<close> is not modelled), \<open>time\<close> one of seconds.
  Output is left out, with the readings of the clock made only to print; the counters that are printed are kept. A loop
  that runs until a deadline makes at most \<open>ch_rounds\<close> turns here; \<open>Inl ()\<close> is a program that still runs after them.
\<close>

section \<open>Calls and clocks\<close>

record 'w client =
  cl_lib :: 'w
  cl_calls :: "(j2534_call \<times> reply) list"
  cl_ticks :: nat
  cl_seconds :: nat

record client_host =
  ch_now :: "nat \<Rightarrow> int"
  ch_time :: "nat \<Rightarrow> int"
  ch_rounds :: nat
  ch_soak :: "string option"
  ch_observe :: "string option"
  ch_files :: "string \<Rightarrow> string option"
  ch_script :: "nat \<Rightarrow> step_env"

type_synonym ('w, 'a) act = "(unit, 'w client, 'a) action"

definition client_new :: "'w \<Rightarrow> 'w client" where
  "client_new w = \<lparr>cl_lib = w, cl_calls = [], cl_ticks = 0, cl_seconds = 0\<rparr>"

definition cl_call :: "'w library \<Rightarrow> j2534_call \<Rightarrow> ('w, reply) act" where
  "cl_call lib c s = (case lib c (cl_lib s) of (r, w) \<Rightarrow> (Inr r, s\<lparr>cl_lib := w, cl_calls := cl_calls s @ [(c, r)]\<rparr>))"

definition report :: "'w library \<Rightarrow> int \<Rightarrow> ('w, unit) act" where
  "report lib status = only_if (status \<noteq> 0) (andthen (cl_call lib J_Last_error) (\<lambda>_. ret ()))"

text \<open>A call whose status is reported.\<close>

definition reported :: "'w library \<Rightarrow> j2534_call \<Rightarrow> ('w, reply) act" where
  "reported lib c = andthen (cl_call lib c) (\<lambda>r. andthen (report lib (ly_result r)) (\<lambda>_. ret r))"

definition ms :: "int \<Rightarrow> int" where
  "ms n = n * 1000000"

definition now_ms :: "client_host \<Rightarrow> ('w, int) act" where
  "now_ms ch s = (Inr (ch_now ch (cl_ticks s)), s\<lparr>cl_ticks := cl_ticks s + 1\<rparr>)"

definition time_now :: "client_host \<Rightarrow> ('w, int) act" where
  "time_now ch s = (Inr (ch_time ch (cl_seconds s)), s\<lparr>cl_seconds := cl_seconds s + 1\<rparr>)"

definition received :: "reply \<Rightarrow> passthru_msg list" where
  "received r = take (unat (ly_count r)) (ly_messages r)"

section \<open>Messages\<close>

definition id_filter :: "u32 \<Rightarrow> u8 \<Rightarrow> u8 \<Rightarrow> passthru_msg" where
  "id_filter flags a b =
     (let m = (blank_message CAN flags)\<lparr>DataSize := 4\<rparr> in m\<lparr>Data := (Data m)[2 := a, 3 := b]\<rparr>)"

text \<open>A read-only OBD-II request as a single frame on a raw CAN channel, to the functional address 7DF.\<close>

definition obd_query :: "u32 \<Rightarrow> u8 \<Rightarrow> u8 \<Rightarrow> passthru_msg" where
  "obd_query flags service pid =
     (let m = (blank_message CAN flags)\<lparr>DataSize := 12\<rparr>
      in m\<lparr>Data := copy_at 2 [0x07, 0xdf, 0x02, service, pid, 0x55, 0x55, 0x55, 0x55, 0x55] (Data m)\<rparr>)"

definition client_iso_message :: "u32 \<Rightarrow> bytes \<Rightarrow> passthru_msg" where
  "client_iso_message i service =
     (let m = blank_message ISO15765 ISO15765_FRAME_PAD
      in m\<lparr>Data := copy_at 0 ([ucast (drop_bit 24 i), ucast (drop_bit 16 i), ucast (drop_bit 8 i), ucast i] @ service) (Data m),
           DataSize := 4 + of_nat (length service)\<rparr>)"

definition start_wildcard :: "'w library \<Rightarrow> u32 \<Rightarrow> ('w, reply) act" where
  "start_wildcard lib chan = reported lib (J_Start_filter chan PASS_FILTER (id_filter 0 0 0) (id_filter 0 0 0) None)"

definition start_flow :: "u32 \<Rightarrow> u32 \<Rightarrow> u32 \<Rightarrow> j2534_call" where
  "start_flow chan reply_id request_id =
     J_Start_filter chan FLOW_CONTROL_FILTER (client_iso_message 0xffffffff []) (client_iso_message reply_id []) (Some (client_iso_message request_id []))"

section \<open>Single checks\<close>

text \<open>\<open>check_receive\<close>: the two filters and their IDs, which are 0 for a filter that was not tried.\<close>

definition start_two :: "'w library \<Rightarrow> u32 \<Rightarrow> u32 \<Rightarrow> ('w, int \<times> u32 list) act" where
  "start_two lib chan flags =
     andthen (reported lib (J_Start_filter chan PASS_FILTER (id_filter flags 0 0) (id_filter flags 0 0) None)) (\<lambda>r.
     if ly_result r \<noteq> 0 then ret (ly_result r, [ly_id r, 0])
     else
       andthen (reported lib (J_Start_filter chan PASS_FILTER (id_filter flags 7 0xff) (id_filter flags 7 0xe8) None)) (\<lambda>q.
       ret (ly_result q, [ly_id r, ly_id q])))"

fun stop_all :: "'w library \<Rightarrow> u32 \<Rightarrow> u32 list \<Rightarrow> int \<Rightarrow> ('w, int) act" where
  "stop_all lib chan [] status = ret status"
| "stop_all lib chan (f # fs) status =
     (if f = 0 then stop_all lib chan fs status
      else andthen (reported lib (J_Stop_filter chan f)) (\<lambda>r.
        stop_all lib chan fs (if status = 0 then ly_result r else status)))"

definition check_receive :: "'w library \<Rightarrow> u32 \<Rightarrow> u32 \<Rightarrow> ('w, int) act" where
  "check_receive lib chan flags =
     andthen (start_two lib chan flags) (\<lambda>(status, filters).
     andthen (if status \<noteq> 0 then ret status
              else andthen (reported lib (J_Read chan 1 25)) (\<lambda>r.
                ret (if ly_result r = status_value ERR_BUFFER_EMPTY then 0 else ly_result r))) (\<lambda>status.
     stop_all lib chan filters status))"

definition check_transmit :: "'w library \<Rightarrow> u32 \<Rightarrow> u32 \<Rightarrow> ('w, int) act" where
  "check_transmit lib chan flags =
     andthen (reported lib (J_Write chan [obd_query flags 1 0] 0)) (\<lambda>r.
     if ly_result r \<noteq> 0 then ret (ly_result r)
     else
       andthen (reported lib (J_Write chan [obd_query flags 1 0] 250)) (\<lambda>q.
       ret (if ly_result q = status_value ERR_TIMEOUT \<and> ly_count q = 0 then 0 else ly_result q)))"

text \<open>Statuses of a read that do not end a check.\<close>

definition read_bad :: "int \<Rightarrow> bool" where
  "read_bad status = (status \<noteq> 0 \<and> status \<noteq> status_value ERR_BUFFER_EMPTY \<and> status \<noteq> status_value ERR_TIMEOUT)"

text \<open>\<open>check_vehicle\<close>. The loop that discards stale frames has no deadline.\<close>

fun drain_stale :: "'w library \<Rightarrow> u32 \<Rightarrow> nat \<Rightarrow> ('w, unit) act" where
  "drain_stale lib chan 0 = raise ()"
| "drain_stale lib chan (Suc n) =
     andthen (cl_call lib (J_Read chan 1 0)) (\<lambda>r.
     if ly_result r \<noteq> 0 \<or> ly_count r = 0 then ret () else drain_stale lib chan n)"

definition obd_range :: "passthru_msg \<Rightarrow> bool" where
  "obd_range m = (let i = (if DataSize m \<ge> 4 then big_endian (Data m) else 0) in i \<ge> 0x700 \<and> i \<le> 0x7ff)"

text \<open>The counters are \<open>total\<close> and \<open>diagnostic\<close>.\<close>

fun listen :: "client_host \<Rightarrow> 'w library \<Rightarrow> u32 \<Rightarrow> int \<Rightarrow> nat \<Rightarrow> nat \<times> nat \<Rightarrow> ('w, int \<times> nat \<times> nat) act" where
  "listen ch lib chan end_time 0 counts = raise ()"
| "listen ch lib chan end_time (Suc n) (seen, diagnostic) =
     andthen (time_now ch) (\<lambda>t.
     if t \<ge> end_time then ret (0, seen, diagnostic)
     else andthen (cl_call lib (J_Read chan 1 100)) (\<lambda>r.
       if read_bad (ly_result r)
       then andthen (report lib (ly_result r)) (\<lambda>_. ret (ly_result r, seen, diagnostic))
       else listen ch lib chan end_time n
         (seen + length (received r), diagnostic + length (filter obd_range (received r)))))"

definition ask_vehicle :: "'w library \<Rightarrow> u32 \<Rightarrow> u8 \<Rightarrow> u8 \<Rightarrow> ('w, int) act" where
  "ask_vehicle lib chan service pid =
     andthen (reported lib (J_Write chan [obd_query 0 service pid] 250)) (\<lambda>r.
     ret (if ly_result r = status_value ERR_TIMEOUT then 0 else ly_result r))"

text \<open>The second request is made whatever the first one gave, and its status is the one that stays.\<close>

definition vehicle_phase :: "client_host \<Rightarrow> 'w library \<Rightarrow> u32 \<Rightarrow> bool \<Rightarrow> ('w, int) act" where
  "vehicle_phase ch lib chan second =
     andthen (if second
              then andthen (drain_stale lib chan (ch_rounds ch)) (\<lambda>_.
                   andthen (ask_vehicle lib chan 1 0) (\<lambda>_. ask_vehicle lib chan 9 2))
              else ret 0) (\<lambda>status.
     andthen (time_now ch) (\<lambda>t.
     andthen (listen ch lib chan (t + 4) (ch_rounds ch) (0, 0)) (\<lambda>(heard, counts).
     ret (if heard \<noteq> 0 then heard else status))))"

definition check_vehicle :: "client_host \<Rightarrow> 'w library \<Rightarrow> u32 \<Rightarrow> bool \<Rightarrow> ('w, int) act" where
  "check_vehicle ch lib chan requesting =
     andthen (start_wildcard lib chan) (\<lambda>r.
     if ly_result r \<noteq> 0 then ret (ly_result r)
     else
       andthen (vehicle_phase ch lib chan False) (\<lambda>status.
       andthen (if requesting \<and> status = 0 then vehicle_phase ch lib chan True else ret status) (\<lambda>status.
       andthen (reported lib (J_Stop_filter chan (ly_id r))) (\<lambda>q.
       ret (if status \<noteq> 0 then status else ly_result q)))))"

fun listen_iso :: "client_host \<Rightarrow> 'w library \<Rightarrow> u32 \<Rightarrow> int \<Rightarrow> nat \<Rightarrow> nat \<Rightarrow> int \<Rightarrow> ('w, int \<times> nat) act" where
  "listen_iso ch lib chan end_time 0 messages status = raise ()"
| "listen_iso ch lib chan end_time (Suc n) messages status =
     andthen (time_now ch) (\<lambda>t.
     if t \<ge> end_time \<or> status \<noteq> 0 then ret (status, messages)
     else andthen (cl_call lib (J_Read chan 1 100)) (\<lambda>r.
       if read_bad (ly_result r)
       then andthen (report lib (ly_result r)) (\<lambda>_. ret (ly_result r, messages))
       else listen_iso ch lib chan end_time n (messages + length (received r)) status))"

definition check_vehicle_iso :: "client_host \<Rightarrow> 'w library \<Rightarrow> u32 \<Rightarrow> ('w, int) act" where
  "check_vehicle_iso ch lib chan =
     andthen (reported lib (start_flow chan 0x7e8 0x7e0)) (\<lambda>r.
     if ly_result r \<noteq> 0 then ret (ly_result r)
     else
       andthen (reported lib (J_Write chan [client_iso_message 0x7df [0x09, 0x02]] 250)) (\<lambda>q.
       let status = (if ly_result q = status_value ERR_TIMEOUT then 0 else ly_result q) in
       andthen (time_now ch) (\<lambda>t.
       andthen (listen_iso ch lib chan (t + 4) (ch_rounds ch) 0 status) (\<lambda>(status, messages).
       andthen (reported lib (J_Stop_filter chan (ly_id r))) (\<lambda>p.
       ret (if status \<noteq> 0 then status else ly_result p))))))"

text \<open>\<open>check_vehicle_soak\<close>: the gaps between time stamps. The first one only starts the account.\<close>

record gaps =
  gp_last :: "u32 option"
  gp_first :: u32
  gp_max :: u32
  gp_over :: nat

definition gap_note :: "passthru_msg \<Rightarrow> gaps \<Rightarrow> gaps" where
  "gap_note m g =
     (case gp_last g of
        None \<Rightarrow> g\<lparr>gp_last := Some (Timestamp m), gp_first := Timestamp m\<rparr>
      | Some before \<Rightarrow>
          let gap = Timestamp m - before
          in g\<lparr>gp_last := Some (Timestamp m), gp_max := max gap (gp_max g), gp_over := gp_over g + (if gap > 10000 then 1 else 0)\<rparr>)"

record soak =
  so_total :: nat
  so_overflows :: nat
  so_empty :: nat
  so_gaps :: gaps

fun soak_loop :: "client_host \<Rightarrow> 'w library \<Rightarrow> u32 \<Rightarrow> int \<Rightarrow> nat \<Rightarrow> soak \<Rightarrow> ('w, int \<times> soak) act" where
  "soak_loop ch lib chan end_time 0 k = raise ()"
| "soak_loop ch lib chan end_time (Suc n) k =
     andthen (time_now ch) (\<lambda>t.
     if t \<ge> end_time then ret (0, k)
     else andthen (cl_call lib (J_Read chan 256 100)) (\<lambda>r.
       let rd = ly_result r;
           k = k\<lparr>so_overflows := so_overflows k + (if rd = status_value ERR_BUFFER_OVERFLOW then 1 else 0),
                 so_empty := so_empty k + (if rd = status_value ERR_BUFFER_EMPTY then 1 else 0)\<rparr>
       in if read_bad rd \<and> rd \<noteq> status_value ERR_BUFFER_OVERFLOW
          then andthen (report lib rd) (\<lambda>_. ret (rd, k))
          else soak_loop ch lib chan end_time n
            (k\<lparr>so_total := so_total k + unat (ly_count r), so_gaps := fold gap_note (received r) (so_gaps k)\<rparr>)))"

definition gaps_new :: gaps where
  "gaps_new = \<lparr>gp_last = None, gp_first = 0, gp_max = 0, gp_over = 0\<rparr>"

definition check_vehicle_soak :: "client_host \<Rightarrow> 'w library \<Rightarrow> u32 \<Rightarrow> int \<Rightarrow> ('w, int) act" where
  "check_vehicle_soak ch lib chan seconds =
     andthen (start_wildcard lib chan) (\<lambda>r.
     if ly_result r \<noteq> 0 then ret (ly_result r)
     else
       andthen (time_now ch) (\<lambda>t.
       andthen (soak_loop ch lib chan (t + seconds) (ch_rounds ch)
         \<lparr>so_total = 0, so_overflows = 0, so_empty = 0, so_gaps = gaps_new\<rparr>) (\<lambda>(status, k).
       andthen (reported lib (J_Stop_filter chan (ly_id r))) (\<lambda>q.
       ret (if status \<noteq> 0 then status else ly_result q)))))"

section \<open>Life cycles\<close>

text \<open>\<open>cycle_once\<close> is the step that failed, or 0. Its request, and a reply from 7E8.\<close>

definition cycle_request :: "bool \<Rightarrow> passthru_msg" where
  "cycle_request raw = (if raw then obd_query 0 1 0 else client_iso_message 0x7df [0x01, 0x00])"

definition cycle_reply :: "bool \<Rightarrow> passthru_msg \<Rightarrow> bool" where
  "cycle_reply raw m =
     (let at = (if raw then 5 else 4) in
      RxStatus m = 0 \<and> unat (DataSize m) \<ge> at + 2 \<and> Data m ! 2 = 0x07 \<and> Data m ! 3 = 0xe8 \<and>
      Data m ! at = 0x41 \<and> Data m ! (at + 1) = 0)"

fun await_reply :: "client_host \<Rightarrow> 'w library \<Rightarrow> u32 \<Rightarrow> bool \<Rightarrow> int \<Rightarrow> nat \<Rightarrow> ('w, int) act" where
  "await_reply ch lib chan raw deadline 0 = raise ()"
| "await_reply ch lib chan raw deadline (Suc n) =
     andthen (now_ms ch) (\<lambda>t.
     if deadline - t \<le> 0 then ret 7
     else andthen (cl_call lib (J_Read chan 1 (of_int ((deadline - t) div ms 1) + 1))) (\<lambda>r.
       if read_bad (ly_result r) then andthen (report lib (ly_result r)) (\<lambda>_. ret 6)
       else if ly_count r = 0 then ret 7
       else if list_ex (cycle_reply raw) (received r) then ret 0
       else await_reply ch lib chan raw deadline n))"

definition cycle_exchange :: "client_host \<Rightarrow> 'w library \<Rightarrow> u32 \<Rightarrow> bool \<Rightarrow> ('w, int) act" where
  "cycle_exchange ch lib chan raw =
     andthen (now_ms ch) (\<lambda>t0.
     andthen (cl_call lib (J_Write chan [cycle_request raw] 250)) (\<lambda>r.
     let failed = (ly_result r \<noteq> 0 \<or> ly_count r \<noteq> 1) in
     andthen (only_if failed (report lib (ly_result r))) (\<lambda>_.
     andthen (now_ms ch) (\<lambda>t.
     andthen (if failed then ret 5 else await_reply ch lib chan raw (t + ms 1000) (ch_rounds ch)) (\<lambda>result.
     andthen (now_ms ch) (\<lambda>t1. ret result))))))"

text \<open>A call of the teardown: made if its handle is not 0, and it fails the cycle if nothing did before.\<close>

definition cycle_undo :: "'w library \<Rightarrow> bool \<Rightarrow> j2534_call \<Rightarrow> int \<Rightarrow> int \<Rightarrow> ('w, int) act" where
  "cycle_undo lib needed c code result =
     (if needed then andthen (reported lib c) (\<lambda>r. ret (if ly_result r \<noteq> 0 \<and> result = 0 then code else result)) else ret result)"

definition cycle_filter :: "u32 \<Rightarrow> bool \<Rightarrow> j2534_call" where
  "cycle_filter chan raw =
     (if raw then J_Start_filter chan PASS_FILTER (id_filter 0 0x07 0xf8) (id_filter 0 0x07 0xe8) None
      else start_flow chan 0x7e8 0x7e0)"

text \<open>What is between the open and the teardown: the result, the channel and the filter.\<close>

definition cycle_body :: "client_host \<Rightarrow> 'w library \<Rightarrow> u32 \<Rightarrow> bool \<Rightarrow> ('w, int \<times> u32 \<times> u32) act" where
  "cycle_body ch lib device raw =
     andthen (cl_call lib (J_Version device)) (\<lambda>v.
     if ly_result v \<noteq> 0 then andthen (report lib 1) (\<lambda>_. ret (2, 0, 0))
     else andthen (reported lib (J_Connect device (if raw then CAN else ISO15765) 0 500000)) (\<lambda>c.
       if ly_result c \<noteq> 0 then ret (3, ly_id c, 0)
       else andthen (reported lib (cycle_filter (ly_id c) raw)) (\<lambda>f.
         if ly_result f \<noteq> 0 then ret (4, ly_id c, ly_id f)
         else andthen (cycle_exchange ch lib (ly_id c) raw) (\<lambda>result. ret (result, ly_id c, ly_id f)))))"

definition cycle_once :: "client_host \<Rightarrow> 'w library \<Rightarrow> string option \<Rightarrow> bool \<Rightarrow> ('w, int) act" where
  "cycle_once ch lib name raw =
     andthen (reported lib (J_Open name)) (\<lambda>d.
     if ly_result d \<noteq> 0 then ret 1
     else
       andthen (cycle_body ch lib (ly_id d) raw) (\<lambda>(result, chan, filter_id).
       andthen (cycle_undo lib (filter_id \<noteq> 0) (J_Stop_filter chan filter_id) 8 result) (\<lambda>result.
       andthen (cycle_undo lib (chan \<noteq> 0) (J_Disconnect chan) 9 result) (\<lambda>result.
       cycle_undo lib True (J_Close (ly_id d)) 10 result))))"

fun check_vehicle_cycles :: "client_host \<Rightarrow> 'w library \<Rightarrow> string option \<Rightarrow> nat \<Rightarrow> bool \<Rightarrow> ('w, int) act" where
  "check_vehicle_cycles ch lib name 0 raw = ret 0"
| "check_vehicle_cycles ch lib name (Suc n) raw =
     andthen (cycle_once ch lib name raw) (\<lambda>failed. if failed \<noteq> 0 then ret 1 else check_vehicle_cycles ch lib name n raw)"

section \<open>The soak on a CAN channel\<close>

text \<open>The local variables of \<open>check_vehicle_hour\<close>; the time stamps are accounted as in \<open>gaps\<close>.\<close>

record hour =
  hr_next :: int
  hr_sent_at :: int
  hr_worst :: int
  hr_reply_total :: int
  hr_frames :: nat
  hr_overflows :: nat
  hr_requests :: nat
  hr_replies :: nat
  hr_unanswered :: nat
  hr_write_failures :: nat
  hr_gaps :: gaps
  hr_outstanding :: bool
  hr_wanted :: u8

definition hour_new :: "int \<Rightarrow> hour" where
  "hour_new start = \<lparr>hr_next = start, hr_sent_at = 0, hr_worst = 0, hr_reply_total = 0, hr_frames = 0, hr_overflows = 0,
     hr_requests = 0, hr_replies = 0, hr_unanswered = 0, hr_write_failures = 0, hr_gaps = gaps_new, hr_outstanding = False,
     hr_wanted = 0\<rparr>"

definition pids :: "u8 list" where
  "pids = [0x00, 0x05, 0x0c, 0x0d]"

definition hour_request :: "client_host \<Rightarrow> 'w library \<Rightarrow> u32 \<Rightarrow> int \<Rightarrow> hour \<Rightarrow> ('w, hour) act" where
  "hour_request ch lib chan now h =
     (if now < hr_next h then ret h
      else
        let h = (if hr_outstanding h then h\<lparr>hr_unanswered := hr_unanswered h + 1\<rparr> else h);
            wanted = pids ! (hr_requests h mod 4)
        in andthen (cl_call lib (J_Write chan [obd_query 0 1 wanted] 250)) (\<lambda>r.
           let failed = (ly_result r \<noteq> 0 \<or> ly_count r \<noteq> 1) in
           andthen (only_if failed (report lib (ly_result r))) (\<lambda>_.
           andthen (now_ms ch) (\<lambda>t.
           ret (h\<lparr>hr_write_failures := hr_write_failures h + (if failed then 1 else 0), hr_requests := hr_requests h + 1,
                  hr_outstanding := True, hr_sent_at := t, hr_next := hr_next h + ms 1000, hr_wanted := wanted\<rparr>)))))"

definition hour_reply :: "hour \<Rightarrow> passthru_msg \<Rightarrow> bool" where
  "hour_reply h m =
     (hr_outstanding h \<and> DataSize m \<ge> 7 \<and> Data m ! 2 = 0x07 \<and> Data m ! 3 AND 0xf8 = 0xe8 \<and>
      Data m ! 5 = 0x41 \<and> Data m ! 6 = hr_wanted h)"

fun hour_messages :: "client_host \<Rightarrow> passthru_msg list \<Rightarrow> hour \<Rightarrow> ('w, hour) act" where
  "hour_messages ch [] h = ret h"
| "hour_messages ch (m # rest) h =
     (let h = h\<lparr>hr_gaps := gap_note m (hr_gaps h)\<rparr> in
      if hour_reply h m then
        andthen (now_ms ch) (\<lambda>t.
        let taken = t - hr_sent_at h in
        hour_messages ch rest (h\<lparr>hr_replies := hr_replies h + 1, hr_reply_total := hr_reply_total h + taken,
          hr_worst := max taken (hr_worst h), hr_outstanding := False\<rparr>))
      else hour_messages ch rest h)"

text \<open>The loop; the second result is \<open>failed\<close>.\<close>

fun hour_loop :: "client_host \<Rightarrow> 'w library \<Rightarrow> u32 \<Rightarrow> int \<Rightarrow> nat \<Rightarrow> hour \<Rightarrow> ('w, hour \<times> bool) act" where
  "hour_loop ch lib chan end_time 0 h = raise ()"
| "hour_loop ch lib chan end_time (Suc n) h =
     andthen (now_ms ch) (\<lambda>t.
     if t \<ge> end_time then ret (h, False)
     else andthen (now_ms ch) (\<lambda>now.
       andthen (hour_request ch lib chan now h) (\<lambda>h.
       andthen (cl_call lib (J_Read chan 256 5)) (\<lambda>r.
       let rd = ly_result r; h = h\<lparr>hr_overflows := hr_overflows h + (if rd = status_value ERR_BUFFER_OVERFLOW then 1 else 0)\<rparr> in
       if read_bad rd \<and> rd \<noteq> status_value ERR_BUFFER_OVERFLOW then andthen (report lib rd) (\<lambda>_. ret (h, True))
       else andthen (hour_messages ch (received r) h) (\<lambda>h.
         hour_loop ch lib chan end_time n (h\<lparr>hr_frames := hr_frames h + unat (ly_count r)\<rparr>))))))"

text \<open>The request that is pending at the end; the clock is only read if there is one.\<close>

definition hour_pending :: "client_host \<Rightarrow> hour \<Rightarrow> ('w, hour) act" where
  "hour_pending ch h =
     (if hr_outstanding h then
        andthen (now_ms ch) (\<lambda>t. ret (if t - hr_sent_at h < ms 1000 then h else h\<lparr>hr_unanswered := hr_unanswered h + 1\<rparr>))
      else ret h)"

definition check_vehicle_hour :: "client_host \<Rightarrow> 'w library \<Rightarrow> u32 \<Rightarrow> int \<Rightarrow> ('w, int \<times> hour) act" where
  "check_vehicle_hour ch lib chan seconds =
     andthen (start_wildcard lib chan) (\<lambda>r.
     if ly_result r \<noteq> 0 then ret (1, hour_new 0)
     else
       andthen (now_ms ch) (\<lambda>start.
       andthen (hour_loop ch lib chan (start + ms (seconds * 1000)) (ch_rounds ch) (hour_new start)) (\<lambda>(h, failed).
       andthen (hour_pending ch h) (\<lambda>h.
       andthen (reported lib (J_Stop_filter chan (ly_id r))) (\<lambda>q.
       ret (if failed \<or> ly_result q \<noteq> 0 \<or> hr_unanswered h \<noteq> 0 \<or> hr_write_failures h \<noteq> 0 \<or> hr_overflows h \<noteq> 0 then 1 else 0, h))))))"

section \<open>The soak on an ISO15765 channel\<close>

record hour_iso =
  hi_next :: int
  hi_sent_at :: int
  hi_worst :: int
  hi_reply_total :: int
  hi_requests :: nat
  hi_singles :: nat
  hi_multis :: nat
  hi_single_ok :: nat
  hi_multi_ok :: nat
  hi_single_bad :: nat
  hi_multi_bad :: nat
  hi_write_failures :: nat
  hi_read_errors :: nat
  hi_overflows :: nat
  hi_tx_done :: nat
  hi_indications :: nat
  hi_stray :: nat
  hi_second_ecu :: nat
  hi_outstanding :: bool
  hi_multi :: bool
  hi_got8 :: bool
  hi_got9 :: bool
  hi_wanted :: u8

definition hour_iso_new :: "int \<Rightarrow> hour_iso" where
  "hour_iso_new start = \<lparr>hi_next = start, hi_sent_at = 0, hi_worst = 0, hi_reply_total = 0, hi_requests = 0, hi_singles = 0,
     hi_multis = 0, hi_single_ok = 0, hi_multi_ok = 0, hi_single_bad = 0, hi_multi_bad = 0, hi_write_failures = 0,
     hi_read_errors = 0, hi_overflows = 0, hi_tx_done = 0, hi_indications = 0, hi_stray = 0, hi_second_ecu = 0,
     hi_outstanding = False, hi_multi = False, hi_got8 = False, hi_got9 = False, hi_wanted = 0\<rparr>"

text \<open>A request that has not been answered in full.\<close>

definition iso_given_up :: "hour_iso \<Rightarrow> hour_iso" where
  "iso_given_up h =
     (if hi_multi h then h\<lparr>hi_multi_bad := hi_multi_bad h + 1\<rparr> else h\<lparr>hi_single_bad := hi_single_bad h + 1\<rparr>)"

definition iso_request :: "client_host \<Rightarrow> 'w library \<Rightarrow> u32 \<Rightarrow> int \<Rightarrow> hour_iso \<Rightarrow> ('w, hour_iso) act" where
  "iso_request ch lib chan now h =
     (if now < hi_next h then ret h
      else
        let h = (if hi_outstanding h then iso_given_up h else h);
            multi = (hi_requests h mod 10 = 9);
            wanted = pids ! (hi_requests h mod 4)
        in andthen (cl_call lib (J_Write chan [client_iso_message 0x7df (if multi then [0x09, 0x04] else [0x01, wanted])] 250)) (\<lambda>r.
           let failed = (ly_result r \<noteq> 0 \<or> ly_count r \<noteq> 1) in
           andthen (only_if failed (report lib (ly_result r))) (\<lambda>_.
           andthen (now_ms ch) (\<lambda>t.
           ret (h\<lparr>hi_multi := multi, hi_wanted := wanted,
                  hi_write_failures := hi_write_failures h + (if failed then 1 else 0), hi_requests := hi_requests h + 1,
                  hi_multis := hi_multis h + (if multi then 1 else 0), hi_singles := hi_singles h + (if multi then 0 else 1),
                  hi_outstanding := True, hi_got8 := False, hi_got9 := False, hi_sent_at := t, hi_next := hi_next h + ms 1000\<rparr>)))))"

text \<open>A part of a multi-frame answer, from either ECU.\<close>

definition iso_part :: "passthru_msg \<Rightarrow> hour_iso \<Rightarrow> hour_iso" where
  "iso_part m h =
     (let h = (if Data m ! 3 = 0xe8 \<and> DataSize m = 39 then h\<lparr>hi_got8 := True\<rparr>
               else if Data m ! 3 = 0xe9 \<and> DataSize m = 23 then h\<lparr>hi_got9 := True\<rparr> else h)
      in if hi_got8 h \<and> hi_got9 h then h\<lparr>hi_multi_ok := hi_multi_ok h + 1, hi_outstanding := False\<rparr> else h)"

definition iso_note :: "client_host \<Rightarrow> passthru_msg \<Rightarrow> hour_iso \<Rightarrow> ('w, hour_iso) act" where
  "iso_note ch m h =
     (if RxStatus m AND TX_DONE \<noteq> 0 then ret (h\<lparr>hi_tx_done := hi_tx_done h + 1\<rparr>)
      else if RxStatus m AND START_OF_MESSAGE \<noteq> 0 then ret (h\<lparr>hi_indications := hi_indications h + 1\<rparr>)
      else if RxStatus m \<noteq> 0 \<or> DataSize m < 6 then ret (h\<lparr>hi_stray := hi_stray h + 1\<rparr>)
      else if hi_outstanding h \<and> \<not> hi_multi h \<and> Data m ! 3 = 0xe8 \<and> Data m ! 4 = 0x41 \<and> Data m ! 5 = hi_wanted h then
        andthen (now_ms ch) (\<lambda>t.
        let taken = t - hi_sent_at h in
        ret (h\<lparr>hi_single_ok := hi_single_ok h + 1, hi_reply_total := hi_reply_total h + taken,
               hi_worst := max taken (hi_worst h), hi_outstanding := False\<rparr>))
      else if hi_outstanding h \<and> hi_multi h \<and> Data m ! 4 = 0x49 \<and> Data m ! 5 = 0x04 then ret (iso_part m h)
      else if Data m ! 3 = 0xe9 \<and> Data m ! 4 = 0x41 then ret (h\<lparr>hi_second_ecu := hi_second_ecu h + 1\<rparr>)
      else ret (h\<lparr>hi_stray := hi_stray h + 1\<rparr>))"

fun iso_messages :: "client_host \<Rightarrow> passthru_msg list \<Rightarrow> hour_iso \<Rightarrow> ('w, hour_iso) act" where
  "iso_messages ch [] h = ret h"
| "iso_messages ch (m # rest) h = andthen (iso_note ch m h) (iso_messages ch rest)"

definition iso_limit :: "hour_iso \<Rightarrow> int" where
  "iso_limit h = (if hi_multi h then ms 2000 else ms 1000)"

definition iso_late :: "client_host \<Rightarrow> hour_iso \<Rightarrow> ('w, hour_iso) act" where
  "iso_late ch h =
     (if hi_outstanding h then
        andthen (now_ms ch) (\<lambda>t.
        ret (if t - hi_sent_at h > iso_limit h then (iso_given_up h)\<lparr>hi_outstanding := False\<rparr> else h))
      else ret h)"

fun iso_loop :: "client_host \<Rightarrow> 'w library \<Rightarrow> u32 \<Rightarrow> int \<Rightarrow> nat \<Rightarrow> hour_iso \<Rightarrow> ('w, hour_iso) act" where
  "iso_loop ch lib chan end_time 0 h = raise ()"
| "iso_loop ch lib chan end_time (Suc n) h =
     andthen (now_ms ch) (\<lambda>t.
     if t \<ge> end_time then ret h
     else andthen (now_ms ch) (\<lambda>now.
       andthen (iso_request ch lib chan now h) (\<lambda>h.
       andthen (cl_call lib (J_Read chan 16 5)) (\<lambda>r.
       let rd = ly_result r;
           other = (read_bad rd \<and> rd \<noteq> status_value ERR_BUFFER_OVERFLOW);
           h = h\<lparr>hi_overflows := hi_overflows h + (if rd = status_value ERR_BUFFER_OVERFLOW then 1 else 0),
                 hi_read_errors := hi_read_errors h + (if other then 1 else 0)\<rparr> in
       andthen (only_if other (report lib rd)) (\<lambda>_.
       if rd = status_value ERR_DEVICE_NOT_CONNECTED \<or> rd = status_value ERR_INVALID_CHANNEL_ID then ret h
       else andthen (iso_messages ch (received r) h) (\<lambda>h.
         andthen (iso_late ch h) (\<lambda>h. iso_loop ch lib chan end_time n h)))))))"

definition iso_pending :: "client_host \<Rightarrow> hour_iso \<Rightarrow> ('w, hour_iso) act" where
  "iso_pending ch h =
     (if hi_outstanding h then
        andthen (now_ms ch) (\<lambda>t. ret (if t - hi_sent_at h \<ge> iso_limit h then iso_given_up h else h))
      else ret h)"

definition iso_run :: "client_host \<Rightarrow> 'w library \<Rightarrow> u32 \<Rightarrow> int \<Rightarrow> u32 \<Rightarrow> u32 \<Rightarrow> ('w, int \<times> hour_iso) act" where
  "iso_run ch lib chan seconds filter8 filter9 =
     andthen (now_ms ch) (\<lambda>start.
     andthen (iso_loop ch lib chan (start + ms (seconds * 1000)) (ch_rounds ch) (hour_iso_new start)) (\<lambda>h.
     andthen (iso_pending ch h) (\<lambda>h.
     andthen (cl_call lib (J_Stop_filter chan filter9)) (\<lambda>q9.
     andthen (cl_call lib (J_Stop_filter chan filter8)) (\<lambda>q8.
     andthen (report lib (if ly_result q8 \<noteq> 0 then ly_result q8 else ly_result q9)) (\<lambda>_.
     ret (if hi_single_bad h \<noteq> 0 \<or> hi_multi_bad h \<noteq> 0 \<or> hi_write_failures h \<noteq> 0 \<or> hi_read_errors h \<noteq> 0 \<or>
             hi_overflows h \<noteq> 0 \<or> ly_result q8 \<noteq> 0 \<or> ly_result q9 \<noteq> 0 then 1 else 0, h)))))))"

definition check_vehicle_hour_iso :: "client_host \<Rightarrow> 'w library \<Rightarrow> u32 \<Rightarrow> int \<Rightarrow> ('w, int \<times> hour_iso) act" where
  "check_vehicle_hour_iso ch lib chan seconds =
     andthen (reported lib (start_flow chan 0x7e8 0x7e0)) (\<lambda>r8.
     if ly_result r8 \<noteq> 0 then ret (1, hour_iso_new 0)
     else
       andthen (reported lib (start_flow chan 0x7e9 0x7e1)) (\<lambda>r9.
       if ly_result r9 \<noteq> 0 then andthen (cl_call lib (J_Stop_filter chan (ly_id r8))) (\<lambda>_. ret (1, hour_iso_new 0))
       else iso_run ch lib chan seconds (ly_id r8) (ly_id r9)))"

section \<open>The ignition observer\<close>

text \<open>
  The local variables of \<open>check_vehicle_ignition\<close>. \<open>ob_sends\<close> records its requests: the time of the turn of the loop that made
  it, the time of the last frame, the requests that went unanswered in a row before it, and the time noted after the write.
\<close>

record observer =
  ob_next_tick :: int
  ob_last_frame :: int
  ob_last_request :: int
  ob_sent_at :: int
  ob_total :: nat
  ob_tick_frames :: nat
  ob_requests :: nat
  ob_replies :: nat
  ob_unanswered :: nat
  ob_write_failures :: nat
  ob_overflows :: nat
  ob_other_errors :: nat
  ob_by_code :: "int \<Rightarrow> nat"
  ob_last_ts :: u32
  ob_max_gap :: u32
  ob_have_ts :: bool
  ob_quiet :: bool
  ob_outstanding :: bool
  ob_passive :: bool
  ob_transitions :: nat
  ob_streak :: nat
  ob_sends :: "(int \<times> int \<times> nat \<times> int) list"

definition observer_new :: "int \<Rightarrow> observer" where
  "observer_new start = \<lparr>ob_next_tick = start + ms 1000, ob_last_frame = start - ms 1001, ob_last_request = start - ms 10000,
     ob_sent_at = 0, ob_total = 0, ob_tick_frames = 0, ob_requests = 0, ob_replies = 0, ob_unanswered = 0,
     ob_write_failures = 0, ob_overflows = 0, ob_other_errors = 0, ob_by_code = (\<lambda>_. 0), ob_last_ts = 0, ob_max_gap = 0,
     ob_have_ts = False, ob_quiet = False, ob_outstanding = False, ob_passive = False, ob_transitions = 0, ob_streak = 0,
     ob_sends = []\<rparr>"

definition observe_message :: "passthru_msg \<Rightarrow> observer \<Rightarrow> observer" where
  "observe_message m b =
     (let gap = Timestamp m - ob_last_ts b;
          b = (if ob_have_ts b \<and> gap > ob_max_gap b \<and> gap < 0x80000000 then b\<lparr>ob_max_gap := gap\<rparr> else b);
          b = b\<lparr>ob_last_ts := Timestamp m, ob_have_ts := True\<rparr>
      in if ob_outstanding b \<and> DataSize m \<ge> 7 \<and> Data m ! 2 = 0x07 \<and> Data m ! 3 = 0xe8 \<and> Data m ! 5 = 0x41 \<and> Data m ! 6 = 0
         then b\<lparr>ob_replies := ob_replies b + 1, ob_outstanding := False, ob_streak := 0\<rparr> else b)"

definition observe_frames :: "int \<Rightarrow> nat \<Rightarrow> observer \<Rightarrow> observer" where
  "observe_frames now count b =
     (if count = 0 then b
      else b\<lparr>ob_total := ob_total b + count, ob_tick_frames := ob_tick_frames b + count, ob_last_frame := now\<rparr>)"

definition observe_quiet :: "int \<Rightarrow> observer \<Rightarrow> observer" where
  "observe_quiet now b =
     (let now_quiet = (now - ob_last_frame b > ms 1000) in
      if now_quiet = ob_quiet b then b
      else
        let b = b\<lparr>ob_quiet := now_quiet, ob_transitions := ob_transitions b + 1\<rparr>
        in if \<not> now_quiet \<and> ob_passive b then b\<lparr>ob_passive := False, ob_streak := 0\<rparr> else b)"

definition observe_late :: "int \<Rightarrow> observer \<Rightarrow> observer" where
  "observe_late now b =
     (if ob_outstanding b \<and> now - ob_sent_at b > ms 1000 then
        let b = b\<lparr>ob_unanswered := ob_unanswered b + 1, ob_outstanding := False, ob_streak := ob_streak b + 1\<rparr>
        in if ob_streak b \<ge> 2 \<and> \<not> ob_passive b then b\<lparr>ob_passive := True\<rparr> else b
      else b)"

definition observe_request :: "client_host \<Rightarrow> 'w library \<Rightarrow> u32 \<Rightarrow> int \<Rightarrow> observer \<Rightarrow> ('w, observer) act" where
  "observe_request ch lib chan now b =
     (if \<not> ob_quiet b \<and> \<not> ob_outstanding b \<and> \<not> ob_passive b \<and> now - ob_last_request b \<ge> ms 10000 then
        andthen (cl_call lib (J_Write chan [obd_query 0 1 0] 250)) (\<lambda>r.
        let failed = (ly_result r \<noteq> 0 \<or> ly_count r \<noteq> 1) in
        andthen (only_if failed (report lib (ly_result r))) (\<lambda>_.
        andthen (now_ms ch) (\<lambda>t.
        ret (b\<lparr>ob_write_failures := ob_write_failures b + (if failed then 1 else 0), ob_requests := ob_requests b + 1,
               ob_outstanding := True, ob_sent_at := t, ob_last_request := t,
               ob_sends := ob_sends b @ [(now, ob_last_frame b, ob_streak b, t)]\<rparr>))))
      else ret b)"

definition observe_tick :: "'w library \<Rightarrow> u32 \<Rightarrow> int \<Rightarrow> observer \<Rightarrow> ('w, observer) act" where
  "observe_tick lib device now b =
     (if now < ob_next_tick b then ret b
      else
        andthen (cl_call lib (J_Ioctl device READ_VBATT None True)) (\<lambda>_.
        let b = (if ob_passive b \<and> ob_tick_frames b > 1800 then b\<lparr>ob_passive := False, ob_streak := 0\<rparr> else b)
        in ret (b\<lparr>ob_tick_frames := 0, ob_next_tick := ob_next_tick b + ms 1000\<rparr>)))"

definition observe_error :: "int \<Rightarrow> observer \<Rightarrow> observer" where
  "observe_error rd b =
     b\<lparr>ob_other_errors := ob_other_errors b + 1,
       ob_by_code := (if rd > 0 \<and> rd < 32 then (ob_by_code b)(rd := ob_by_code b rd + 1) else ob_by_code b)\<rparr>"

fun observe_loop :: "client_host \<Rightarrow> 'w library \<Rightarrow> u32 \<Rightarrow> u32 \<Rightarrow> int \<Rightarrow> nat \<Rightarrow> observer \<Rightarrow> ('w, observer) act" where
  "observe_loop ch lib device chan end_time 0 b = raise ()"
| "observe_loop ch lib device chan end_time (Suc n) b =
     andthen (now_ms ch) (\<lambda>t.
     if t \<ge> end_time then ret b
     else andthen (now_ms ch) (\<lambda>now.
       andthen (cl_call lib (J_Read chan 256 20)) (\<lambda>r.
       let rd = ly_result r;
           other = (read_bad rd \<and> rd \<noteq> status_value ERR_BUFFER_OVERFLOW);
           b = (if rd = status_value ERR_BUFFER_OVERFLOW then b\<lparr>ob_overflows := ob_overflows b + 1\<rparr>
                else if other then observe_error rd b else b) in
       andthen (only_if other (report lib rd)) (\<lambda>_.
       if rd = status_value ERR_DEVICE_NOT_CONNECTED \<or> rd = status_value ERR_INVALID_CHANNEL_ID then ret b
       else
         let b = observe_late now (observe_quiet now (observe_frames now (unat (ly_count r)) (fold observe_message (received r) b)))
         in andthen (observe_request ch lib chan now b) (\<lambda>b.
            andthen (observe_tick lib device now b) (\<lambda>b.
            observe_loop ch lib device chan end_time n b))))))"

definition check_vehicle_ignition :: "client_host \<Rightarrow> 'w library \<Rightarrow> u32 \<Rightarrow> u32 \<Rightarrow> int \<Rightarrow> ('w, int \<times> observer) act" where
  "check_vehicle_ignition ch lib device chan seconds =
     andthen (start_wildcard lib chan) (\<lambda>r.
     if ly_result r \<noteq> 0 then ret (1, observer_new 0)
     else
       andthen (now_ms ch) (\<lambda>start.
       andthen (observe_loop ch lib device chan (start + ms (seconds * 1000)) (ch_rounds ch) (observer_new start)) (\<lambda>b.
       andthen (reported lib (J_Stop_filter chan (ly_id r))) (\<lambda>q. ret (0, b)))))"

section \<open>The program\<close>

text \<open>\<open>script_main\<close> on the arguments without the name of the program; \<open>Not_script\<close> is its -1.\<close>

datatype script_command = Script_check "string list" | Script_file string "string option" u32 | Script_usage | Not_script

definition script_gap :: "string \<Rightarrow> u32 option" where
  "script_gap text =
     (let (value, rest, range) = strtoul text in
      if text = [] \<or> hd text \<notin> set ''0123456789'' \<or> rest \<noteq> [] \<or> range \<or> value > 4294967295 then None
      else Some (of_int value))"

definition script_after_name :: "string option \<Rightarrow> string list \<Rightarrow> script_command" where
  "script_after_name name args =
     (case args of
        [] \<Rightarrow> Not_script
      | a # rest \<Rightarrow>
          if a \<noteq> ''--script'' then Not_script
          else (case rest of
            [] \<Rightarrow> Script_usage
          | [path] \<Rightarrow> Script_file path name 0
          | [path, b, value] \<Rightarrow>
              (if b = ''--gap'' then (case script_gap value of None \<Rightarrow> Script_usage | Some gap \<Rightarrow> Script_file path name gap)
               else Script_usage)
          | _ \<Rightarrow> Script_usage))"

definition is_serial :: "string \<Rightarrow> bool" where
  "is_serial name = (take 7 name = ''serial:'')"

definition script_main :: "string list \<Rightarrow> script_command" where
  "script_main args =
     (if length args \<ge> 2 \<and> hd args = ''--script-check'' then Script_check (tl args)
      else if args \<noteq> [] \<and> is_serial (hd args) then script_after_name (Some (hd args)) (tl args)
      else script_after_name None args)"

text \<open>The gap of a script is only a wait between its steps.\<close>

definition script_call :: "bool \<Rightarrow> client_host \<Rightarrow> 'w library \<Rightarrow> string \<Rightarrow> string option \<Rightarrow> ('w, int) act" where
  "script_call checking ch lib path name s =
     (let (r, t) = script_run checking lib name (ch_script ch) (ch_files ch path) (cl_lib s) in (Inr r, s\<lparr>cl_lib := sc_lib t\<rparr>))"

fun script_check :: "client_host \<Rightarrow> 'w library \<Rightarrow> string list \<Rightarrow> int \<Rightarrow> ('w, int) act" where
  "script_check ch lib [] result = ret result"
| "script_check ch lib (path # paths) result =
     andthen (script_call True ch lib path None) (\<lambda>r. script_check ch lib paths (if r \<noteq> 0 then r else result))"

definition seconds_of :: "string option \<Rightarrow> int \<Rightarrow> int" where
  "seconds_of text fallback =
     (case text of
        None \<Rightarrow> fallback
      | Some t \<Rightarrow> let n = uint (of_int (fst (strtoul t)) :: u32) in if n = 0 then fallback else n)"

text \<open>The modes that open a device of their own.\<close>

definition with_channel :: "'w library \<Rightarrow> string \<Rightarrow> u32 \<Rightarrow> (u32 \<Rightarrow> u32 \<Rightarrow> ('w, int) act) \<Rightarrow> ('w, int) act" where
  "with_channel lib name protocol job =
     andthen (cl_call lib (J_Open (Some name))) (\<lambda>d.
     if ly_result d \<noteq> 0 then andthen (report lib 1) (\<lambda>_. ret 1)
     else
       andthen (cl_call lib (J_Connect (ly_id d) protocol 0 500000)) (\<lambda>c.
       andthen (if ly_result c = 0
                then andthen (job (ly_id d) (ly_id c)) (\<lambda>result.
                     andthen (cl_call lib (J_Disconnect (ly_id c))) (\<lambda>_. ret result))
                else andthen (report lib 1) (\<lambda>_. ret 1)) (\<lambda>result.
       andthen (cl_call lib (J_Close (ly_id d))) (\<lambda>_. ret result))))"

definition verdict :: "('w, int \<times> 'b) act \<Rightarrow> ('w, int) act" where
  "verdict m = andthen m (\<lambda>(result, _). ret result)"

text \<open>A check on a channel of the common device; the status of the disconnect counts if nothing failed before.\<close>

definition on_channel :: "'w library \<Rightarrow> u32 \<Rightarrow> u32 \<Rightarrow> u32 \<Rightarrow> u32 \<Rightarrow> (u32 \<Rightarrow> ('w, int) act) \<Rightarrow> ('w, int) act" where
  "on_channel lib device protocol flags baud job =
     andthen (reported lib (J_Connect device protocol flags baud)) (\<lambda>c.
     if ly_result c \<noteq> 0 then ret (ly_result c)
     else
       andthen (job (ly_id c)) (\<lambda>status.
       andthen (reported lib (J_Disconnect (ly_id c))) (\<lambda>q.
       ret (if status = 0 then ly_result q else status))))"

fun lifecycle :: "'w library \<Rightarrow> u32 \<Rightarrow> string \<Rightarrow> (u32 \<times> u32) list \<Rightarrow> ('w, int) act" where
  "lifecycle lib device mode [] = ret 0"
| "lifecycle lib device mode ((baud, flags) # rest) =
     andthen (on_channel lib device CAN flags baud (\<lambda>chan.
       if mode = ''--can-receive-check'' then check_receive lib chan flags
       else if mode = ''--can-transmit-check'' then check_transmit lib chan flags else ret 0)) (\<lambda>status.
     if status \<noteq> 0 then ret status else lifecycle lib device mode rest)"

definition channel_mode :: "client_host \<Rightarrow> 'w library \<Rightarrow> u32 \<Rightarrow> string \<Rightarrow> ('w, int) act" where
  "channel_mode ch lib device mode =
     (if mode = ''--vehicle-listen'' \<or> mode = ''--vehicle-check''
      then on_channel lib device CAN 0 500000 (\<lambda>chan. check_vehicle ch lib chan (mode = ''--vehicle-check''))
      else if mode = ''--vehicle-soak'' then on_channel lib device CAN 0 500000 (\<lambda>chan. check_vehicle_soak ch lib chan 300)
      else if mode = ''--vehicle-iso'' then on_channel lib device ISO15765 0 500000 (check_vehicle_iso ch lib)
      else if mode \<in> {''--can-lifecycle'', ''--can-receive-check'', ''--can-transmit-check''}
      then lifecycle lib device mode [(500000, 0), (250000, 0), (500000, CAN_29BIT_ID)]
      else ret 0)"

definition client_run :: "client_host \<Rightarrow> 'w library \<Rightarrow> string option \<Rightarrow> string \<Rightarrow> ('w, int) act" where
  "client_run ch lib name mode =
     andthen (reported lib (J_Open name)) (\<lambda>d.
     if ly_result d \<noteq> 0 then ret 1
     else
       andthen (reported lib (J_Version (ly_id d))) (\<lambda>v.
       andthen (if ly_result v = 0 then channel_mode ch lib (ly_id d) mode else ret 0) (\<lambda>status.
       andthen (reported lib (J_Close (ly_id d))) (\<lambda>q.
       ret (if ly_result q \<noteq> 0 \<or> ly_result v \<noteq> 0 \<or> status \<noteq> 0 then 1 else 0)))))"

definition channel_modes :: "string list" where
  "channel_modes = [''--can-lifecycle'', ''--can-receive-check'', ''--can-transmit-check'', ''--vehicle-listen'',
     ''--vehicle-check'', ''--vehicle-iso'', ''--vehicle-soak'']"

definition client_modes :: "client_host \<Rightarrow> 'w library \<Rightarrow> string list \<Rightarrow> ('w, int) act" where
  "client_modes ch lib args =
     (case args of
        [name, mode] \<Rightarrow>
          if mode = ''--vehicle-ignition'' then with_channel lib name CAN
            (\<lambda>device chan. verdict (check_vehicle_ignition ch lib device chan (seconds_of (ch_observe ch) 600)))
          else if mode = ''--vehicle-hour-iso'' then with_channel lib name ISO15765
            (\<lambda>device chan. verdict (check_vehicle_hour_iso ch lib chan (seconds_of (ch_soak ch) 3600)))
          else if mode = ''--vehicle-hour'' then with_channel lib name CAN
            (\<lambda>device chan. verdict (check_vehicle_hour ch lib chan (seconds_of (ch_soak ch) 3600)))
          else if mode = ''--vehicle-cycles'' then check_vehicle_cycles ch lib (Some name) 100 False
          else if mode = ''--vehicle-cycles-raw'' then check_vehicle_cycles ch lib (Some name) 100 True
          else if is_serial name \<and> mode \<in> set channel_modes then client_run ch lib (Some name) mode
          else ret 2
      | [name] \<Rightarrow> if is_serial name then client_run ch lib (Some name) [] else ret 2
      | [] \<Rightarrow> client_run ch lib None []
      | _ \<Rightarrow> ret 2)"

definition client_main :: "client_host \<Rightarrow> 'w library \<Rightarrow> string list \<Rightarrow> ('w, int) act" where
  "client_main ch lib args =
     (case script_main args of
        Script_check paths \<Rightarrow> script_check ch lib paths 0
      | Script_file path name gap \<Rightarrow> script_call False ch lib path name
      | Script_usage \<Rightarrow> ret 2
      | Not_script \<Rightarrow> client_modes ch lib args)"

end
