(* ===== verification/Client_Properties.thy ===== *)
theory Client_Properties
  imports Client
begin

text \<open>
  What the client guarantees. A property of its calls that is kept by each call of a check is kept by the check: that is
  proved once, in the locale \<open>client_invariant\<close>, and used for two: what is asked of the vehicle, and what is left open.
  The accounts of the soaks and the restraint of the ignition observer are invariants of their loops.
\<close>

section \<open>Invariants of the calls\<close>

text \<open>A read-only OBD-II request, services 01 and 09, to the functional address 7DF.\<close>

definition obd_read :: "passthru_msg \<Rightarrow> bool" where
  "obd_read m =
     (take 4 (Data m) = [0, 0, 0x07, 0xdf] \<and>
      (if ProtocolID m = CAN then DataSize m = 12 \<and> Data m ! 4 = 2 \<and> Data m ! 5 \<in> {1, 9}
       else ProtocolID m = ISO15765 \<and> DataSize m = 6 \<and> Data m ! 4 \<in> {1, 9}))"

definition asking :: "j2534_call \<Rightarrow> bool" where
  "asking c = (case c of J_Write chan [m] t \<Rightarrow> obd_read m | _ \<Rightarrow> False)"

lemma take_4: "4 \<le> length xs \<Longrightarrow> take 4 xs = [xs ! 0, xs ! 1, xs ! 2, xs ! 3]"
  by (simp add: list_eq_iff_nth_eq nth_Cons less_Suc_eq numeral_eq_Suc split: nat.split)

lemma obd_read_query: "service \<in> {1, 9} \<Longrightarrow> obd_read (obd_query flags service pid)"
  by (auto simp: obd_read_def obd_query_def blank_message_def Let_def copy_at_def data_capacity_def take_4 nth_append nth_Cons' numeral_2_eq_2)

lemma obd_read_iso: "service \<in> {1, 9} \<Longrightarrow> obd_read (client_iso_message 0x7df [service, pid])"
  by (auto simp: obd_read_def client_iso_message_def blank_message_def Let_def copy_at_def data_capacity_def take_4 nth_append nth_Cons'
      CAN_def ISO15765_def)

lemma asking_write:
  assumes "Collect asking \<subseteq> A"
  shows "J_Write chan [obd_query flags 1 pid] t \<in> A" "J_Write chan [obd_query flags 9 pid] t \<in> A"
    "J_Write chan [client_iso_message 0x7df [1, pid]] t \<in> A" "J_Write chan [client_iso_message 0x7df [9, pid]] t \<in> A"
proof -
  have "asking (J_Write chan [obd_query flags service pid] t)" "asking (J_Write chan [client_iso_message 0x7df [service, pid]] t)"
    if "service \<in> {1, 9}" for service
    using that by (simp_all only: asking_def j2534_call.case list.case obd_read_query obd_read_iso)
  with assms show "J_Write chan [obd_query flags 1 pid] t \<in> A" "J_Write chan [obd_query flags 9 pid] t \<in> A"
    "J_Write chan [client_iso_message 0x7df [1, pid]] t \<in> A" "J_Write chan [client_iso_message 0x7df [9, pid]] t \<in> A"
    by blast+
qed

locale client_invariant =
  fixes P :: "'w client \<Rightarrow> bool" and A :: "j2534_call set" and lib :: "'w library"
  assumes clocks: "P (s\<lparr>cl_ticks := i\<rparr>) = P s" "P (s\<lparr>cl_seconds := i\<rparr>) = P s"
    and calls: "c \<in> A \<Longrightarrow> keeps P (cl_call lib c)"
    and harmless: "J_Last_error \<in> A" "J_Read chan n t \<in> A"
begin

lemma keeps_clocks: "keeps P (now_ms ch)" "keeps P (time_now ch)"
  by (auto simp: now_ms_def time_now_def clocks intro: tripleI)

lemma keeps_report: "keeps P (report lib status)"
  unfolding report_def by (intro keeps_only_if keeps_andthen keeps_basic calls harmless)

lemma keeps_reported: "c \<in> A \<Longrightarrow> keeps P (reported lib c)"
  unfolding reported_def by (intro keeps_andthen keeps_basic keeps_report calls)

lemmas keeps_rules = keeps_andthen keeps_basic keeps_only_if keeps_clocks keeps_report keeps_reported calls harmless

lemma keeps_listen: "keeps P (listen ch lib chan end_time n counts)"
proof (induction n arbitrary: counts)
  case (Suc n)
  then show ?case by (cases counts) (auto intro!: keeps_rules)
qed (simp add: keeps_basic)

lemma keeps_drain: "keeps P (drain_stale lib chan n)"
  by (induction n) (auto intro!: keeps_rules)

lemma keeps_phase:
  assumes "second \<Longrightarrow> Collect asking \<subseteq> A" shows "keeps P (vehicle_phase ch lib chan second)"
  unfolding vehicle_phase_def ask_vehicle_def
  by (auto intro!: keeps_rules keeps_listen keeps_drain asking_write assms)

lemma keeps_transmit: "Collect asking \<subseteq> A \<Longrightarrow> keeps P (check_transmit lib chan flags)"
  unfolding check_transmit_def by (auto intro!: keeps_rules asking_write)

lemma keeps_listen_iso: "keeps P (listen_iso ch lib chan end_time n messages status)"
  by (induction n arbitrary: messages status) (auto intro!: keeps_rules)

lemma keeps_soak: "keeps P (soak_loop ch lib chan end_time n k)"
  by (induction n arbitrary: k) (auto simp: Let_def intro!: keeps_rules)

lemma keeps_await: "keeps P (await_reply ch lib chan raw deadline n)"
  by (induction n) (auto intro!: keeps_rules)

lemma keeps_exchange: "Collect asking \<subseteq> A \<Longrightarrow> keeps P (cycle_exchange ch lib chan raw)"
  unfolding cycle_exchange_def cycle_request_def Let_def by (auto intro!: keeps_rules asking_write keeps_await)

lemma keeps_hour_messages: "keeps P (hour_messages ch xs h)"
  by (induction xs arbitrary: h) (auto simp: Let_def intro!: keeps_rules)

lemma keeps_hour_request: "Collect asking \<subseteq> A \<Longrightarrow> keeps P (hour_request ch lib chan now h)"
  unfolding hour_request_def Let_def by (auto intro!: keeps_rules asking_write)

lemma keeps_hour_loop: "Collect asking \<subseteq> A \<Longrightarrow> keeps P (hour_loop ch lib chan end_time n h)"
  by (induction n arbitrary: h) (auto simp: Let_def intro!: keeps_rules keeps_hour_request keeps_hour_messages)

lemma keeps_hour_pending: "keeps P (hour_pending ch h)"
  unfolding hour_pending_def by (auto intro!: keeps_rules)

lemma keeps_iso_messages: "keeps P (iso_messages ch xs h)"
  by (induction xs arbitrary: h) (auto simp: iso_note_def Let_def intro!: keeps_rules)

lemma keeps_iso_request: "Collect asking \<subseteq> A \<Longrightarrow> keeps P (iso_request ch lib chan now h)"
  unfolding iso_request_def Let_def by (auto intro!: keeps_rules asking_write)

lemma keeps_iso_loop: "Collect asking \<subseteq> A \<Longrightarrow> keeps P (iso_loop ch lib chan end_time n h)"
  by (induction n arbitrary: h)
    (auto simp: Let_def iso_late_def intro!: keeps_rules keeps_iso_request keeps_iso_messages)

lemma keeps_iso_pending: "keeps P (iso_pending ch h)"
  unfolding iso_pending_def by (auto intro!: keeps_rules)

lemma keeps_observe_loop:
  assumes "Collect asking \<subseteq> A" and "J_Ioctl device READ_VBATT None True \<in> A"
  shows "keeps P (observe_loop ch lib device chan end_time n b)"
proof (induction n arbitrary: b)
  case (Suc n)
  have "keeps P (observe_request ch lib chan now c)" for now c
    unfolding observe_request_def Let_def by (auto intro!: keeps_rules asking_write [OF assms(1)])
  moreover have "keeps P (observe_tick lib device now c)" for now c
    unfolding observe_tick_def Let_def using assms(2) by (auto intro!: keeps_rules)
  ultimately show ?case using Suc by (auto simp: Let_def intro!: keeps_rules)
qed (simp add: keeps_basic)

end

section \<open>What is asked of the vehicle\<close>

text \<open>The command lines of the checks that never transmit.\<close>

definition listening :: "string list \<Rightarrow> bool" where
  "listening args =
     (case args of
        [] \<Rightarrow> True
      | [name] \<Rightarrow> True
      | [name, mode] \<Rightarrow> mode \<in> {''--vehicle-listen'', ''--vehicle-soak'', ''--can-lifecycle'', ''--can-receive-check''}
      | _ \<Rightarrow> False)"

text \<open>The calls a command line makes: what changes the adapter or the vehicle is a read-only request and the battery reading.\<close>

definition permitted :: "bool \<Rightarrow> j2534_call \<Rightarrow> bool" where
  "permitted silent c =
     (case c of
        J_Write _ _ _ \<Rightarrow> \<not> silent \<and> asking c
      | J_Ioctl _ i _ _ \<Rightarrow> i = READ_VBATT
      | J_Start_periodic _ _ _ \<Rightarrow> False
      | J_Stop_periodic _ _ \<Rightarrow> False
      | _ \<Rightarrow> True)"

definition courteous :: "bool \<Rightarrow> 'w client \<Rightarrow> bool" where
  "courteous silent s = list_all (\<lambda>(c, _). permitted silent c) (cl_calls s)"

interpretation manners: client_invariant "courteous silent" "Collect (permitted silent)" lib for silent lib
proof unfold_locales
  show "c \<in> Collect (permitted silent) \<Longrightarrow> keeps (courteous silent) (cl_call lib c)" for c
    by (auto simp: triple_def cl_call_def courteous_def split: prod.split)
qed (simp_all add: courteous_def permitted_def)

lemma asking_permitted: "Collect asking \<subseteq> Collect (permitted False)"
  by (auto simp: permitted_def asking_def split: j2534_call.splits list.splits)

lemma permitted_simps [simp]:
  "permitted silent (J_Open name)" "permitted silent (J_Close d)" "permitted silent (J_Version d)"
  "permitted silent (J_Connect d p f b)" "permitted silent (J_Disconnect chan)" "permitted silent (J_Start_filter chan k m q fl)"
  "permitted silent (J_Stop_filter chan f)" "permitted silent (J_Read chan n t)" "permitted silent (J_Ioctl d READ_VBATT None True)"
  "permitted silent J_Last_error" "permitted silent (start_flow chan a b)" "permitted silent (cycle_filter chan raw)"
  by (simp_all add: permitted_def start_flow_def cycle_filter_def)

lemmas manners_rules = keeps_andthen keeps_basic keeps_only_if manners.keeps_clocks manners.keeps_report manners.keeps_reported
  manners.calls CollectI permitted_simps

lemma manners_stop_all: "keeps (courteous silent) (stop_all lib chan fs status)"
  by (induction fs arbitrary: status) (auto intro!: manners_rules)

lemma manners_single:
  "keeps (courteous silent) (check_receive lib chan flags)"
  "keeps (courteous silent) (check_vehicle_soak ch lib chan seconds)"
  "keeps (courteous silent) (check_vehicle ch lib chan False)"
  unfolding check_receive_def start_two_def check_vehicle_soak_def check_vehicle_def start_wildcard_def
  by (auto intro!: manners_rules manners_stop_all manners.keeps_soak manners.keeps_phase)

lemma manners_asking:
  "keeps (courteous False) (check_vehicle ch lib chan requesting)"
  "keeps (courteous False) (check_transmit lib chan flags)"
  "keeps (courteous False) (check_vehicle_iso ch lib chan)"
  "keeps (courteous False) (cycle_once ch lib name raw)"
  "keeps (courteous False) (check_vehicle_hour ch lib chan seconds)"
  "keeps (courteous False) (check_vehicle_hour_iso ch lib chan seconds)"
  "keeps (courteous False) (check_vehicle_ignition ch lib device chan seconds)"
  unfolding check_vehicle_def start_wildcard_def check_vehicle_iso_def cycle_once_def cycle_body_def cycle_undo_def
    check_vehicle_hour_def check_vehicle_hour_iso_def iso_run_def check_vehicle_ignition_def Let_def
  by (auto intro!: manners_rules manners.keeps_phase manners.keeps_transmit manners.keeps_listen_iso manners.keeps_exchange
      manners.keeps_hour_loop manners.keeps_hour_pending manners.keeps_iso_loop manners.keeps_iso_pending
      manners.keeps_observe_loop asking_permitted asking_write [OF asking_permitted])

lemma manners_cycles: "keeps (courteous False) (check_vehicle_cycles ch lib name n raw)"
  by (induction n) (auto intro!: manners_rules manners_asking)

lemma manners_on_channel:
  "(\<And>chan. keeps (courteous silent) (job chan)) \<Longrightarrow> keeps (courteous silent) (on_channel lib device protocol flags baud job)"
  unfolding on_channel_def by (auto intro!: manners_rules)

lemma manners_lifecycle:
  assumes "mode = ''--can-transmit-check'' \<Longrightarrow> \<not> silent"
  shows "keeps (courteous silent) (lifecycle lib device mode rates)"
proof (induction rates)
  case (Cons r rates)
  then show ?case using assms by (cases r) (auto intro!: manners_rules manners_on_channel manners_single manners_asking)
qed (simp add: keeps_basic)

lemma manners_run:
  assumes "mode \<in> {''--vehicle-check'', ''--vehicle-iso'', ''--can-transmit-check''} \<Longrightarrow> \<not> silent"
  shows "keeps (courteous silent) (client_run ch lib name mode)"
proof -
  have "keeps (courteous silent) (channel_mode ch lib device mode)" for device
    unfolding channel_mode_def using assms
    by (auto intro!: manners_rules manners_on_channel manners_lifecycle manners_single manners_asking)
  then show ?thesis unfolding client_run_def by (auto intro!: manners_rules)
qed

lemma manners_with_channel:
  "(\<And>device chan. keeps (courteous silent) (job device chan)) \<Longrightarrow> keeps (courteous silent) (with_channel lib name protocol job)"
  unfolding with_channel_def by (auto intro!: manners_rules)

lemma manners_verdict: "keeps (courteous silent) m \<Longrightarrow> keeps (courteous silent) (verdict m)"
  unfolding verdict_def by (auto intro!: manners_rules)

lemma script_keeps:
  assumes "\<And>s w. P (s\<lparr>cl_lib := w\<rparr>) = P s"
  shows "keeps P (script_call k ch lib path name)" and "keeps P (script_check ch lib paths result)"
proof -
  show call: "keeps P (script_call k ch lib path name)" for k path name
    by (auto simp: script_call_def assms case_prod_unfold Let_def intro!: tripleI)
  show "keeps P (script_check ch lib paths result)"
    by (induction paths arbitrary: result) (auto intro!: keeps_andthen keeps_basic call)
qed

text \<open>
  What the client asks of a vehicle is read-only: the only messages it ever writes are single requests of services 01 and
  09 to the functional address, the only parameter it reads is the battery voltage, and it starts nothing periodic; the
  listening checks write nothing at all. Whatever the library answers, and also in a check that is still running. A script
  is not bound by this: it asks what its file says.
\<close>

theorem client_only_reads:
  "courteous (listening args) (snd (client_main ch lib args (client_new w)))"
proof -
  have modes: "keeps (courteous (listening args)) (client_modes ch lib args)"
  proof (cases "listening args")
    case True
    then show ?thesis unfolding client_modes_def
      by (auto simp: listening_def split: list.splits intro!: manners_rules manners_run)
  next
    case False
    then have "listening args = False" by simp
    then show ?thesis unfolding client_modes_def
      by (auto split: list.splits intro!: manners_rules manners_run manners_with_channel manners_verdict manners_cycles manners_asking)
  qed
  have "keeps (courteous (listening args)) (client_main ch lib args)"
    using modes unfolding client_main_def
    by (auto split: script_command.split intro: keeps_basic script_keeps simp: courteous_def)
  then show ?thesis by (rule triple_snd) (simp add: courteous_def client_new_def)
qed

section \<open>What is left open\<close>

datatype resource = Device u32 | Channel u32 | Filter u32 u32

text \<open>
  What is open after a call, in the order of opening; \<open>None\<close> once a device that is not open is closed, or a device or a
  channel while something of it is open. A failed open leaves nothing, and neither does an ID of 0.
\<close>

definition owe :: "resource list option \<Rightarrow> j2534_call \<times> reply \<Rightarrow> resource list option" where
  "owe owed entry =
     (case owed of
        None \<Rightarrow> None
      | Some rs \<Rightarrow>
          (case entry of (c, r) \<Rightarrow>
            let good = (ly_result r = 0 \<and> ly_id r \<noteq> 0) in
            case c of
              J_Open _ \<Rightarrow> Some (if ly_result r = 0 then rs @ [Device (ly_id r)] else rs)
            | J_Connect _ _ _ _ \<Rightarrow> Some (if good then rs @ [Channel (ly_id r)] else rs)
            | J_Start_filter chan _ _ _ _ \<Rightarrow> Some (if good then rs @ [Filter chan (ly_id r)] else rs)
            | J_Stop_filter chan i \<Rightarrow> Some (removeAll (Filter chan i) rs)
            | J_Disconnect chan \<Rightarrow>
                if list_ex (\<lambda>o'. case o' of Filter x _ \<Rightarrow> x = chan | _ \<Rightarrow> False) rs then None else Some (removeAll (Channel chan) rs)
            | J_Close d \<Rightarrow> if rs = [Device d] then Some [] else None
            | _ \<Rightarrow> Some rs))"

definition owing :: "(j2534_call \<times> reply) list \<Rightarrow> resource list option" where
  "owing entries = foldl owe (Some []) entries"

definition owes :: "resource list \<Rightarrow> 'w client \<Rightarrow> bool" where
  "owes rs s \<longleftrightarrow> owing (cl_calls s) = Some rs"

definition orderly :: "unit \<Rightarrow> 'w client \<Rightarrow> bool" where
  "orderly e s \<longleftrightarrow> owing (cl_calls s) \<noteq> None"

definition neutral :: "j2534_call \<Rightarrow> bool" where
  "neutral c =
     (case c of J_Read _ _ _ \<Rightarrow> True | J_Write _ _ _ \<Rightarrow> True | J_Version _ \<Rightarrow> True | J_Ioctl _ _ _ _ \<Rightarrow> True | J_Last_error \<Rightarrow> True
      | _ \<Rightarrow> False)"

interpretation debt: client_invariant "owes rs" "Collect neutral" lib for rs lib
proof unfold_locales
  show "c \<in> Collect neutral \<Longrightarrow> keeps (owes rs) (cl_call lib c)" for c
    by (auto simp: triple_def cl_call_def owes_def owing_def owe_def neutral_def split: prod.split j2534_call.splits)
qed (simp_all add: owes_def neutral_def)

text \<open>A piece of code that settles what it owes, and one that may leave more.\<close>

abbreviation settles :: "resource list \<Rightarrow> ('w, 'a) act \<Rightarrow> resource list \<Rightarrow> bool" where
  "settles rs m rs' \<equiv> triple (owes rs) m (\<lambda>_. owes rs') orderly"

lemma settles_keeps: "keeps (owes rs) m \<Longrightarrow> settles rs m rs"
  by (erule triple_weaken) (simp_all add: owes_def orderly_def)

lemma owes_call: "triple (owes rs) (cl_call lib c) (\<lambda>r s. owing (cl_calls s) = owe (Some rs) (c, r)) orderly"
  by (simp add: triple_def cl_call_def owes_def owing_def split: prod.split)

lemma owes_report: "triple (\<lambda>s. owing (cl_calls s) = owed) (report lib status) (\<lambda>_ s. owing (cl_calls s) = owed) E"
  by (cases owed)
    (auto simp: report_def only_if_def andthen_def triple_def cl_call_def owing_def owe_def effect_simps split: prod.split)

lemma owes_reported: "triple (owes rs) (reported lib c) (\<lambda>r s. owing (cl_calls s) = owe (Some rs) (c, r)) orderly"
  unfolding reported_def
  by (rule triple_andthen [OF owes_call]) (rule triple_andthen [OF owes_report], rule triple_ret)

lemma asking_neutral: "Collect asking \<subseteq> Collect neutral"
  by (auto simp: asking_def neutral_def split: j2534_call.splits)

text \<open>What follows a call that opens, closes, or does neither.\<close>

lemma owes_then:
  assumes "triple (owes rs) m (\<lambda>r s. owing (cl_calls s) = owe (Some rs) (c, r)) orderly"
    and "\<And>r. triple (\<lambda>s. owing (cl_calls s) = owe (Some rs) (c, r)) (f r) (\<lambda>_. owes rs') orderly"
  shows "settles rs (andthen m f) rs'"
  using assms by (rule triple_andthen)

lemmas owes_calls = owes_then [OF owes_call] owes_then [OF owes_reported]

lemma settles_andthen: "settles rs m rs' \<Longrightarrow> (\<And>x. settles rs' (f x) rs'') \<Longrightarrow> settles rs (andthen m f) rs''"
  by (rule triple_andthen)

lemma settles_ret: "settles rs (ret x) rs"
  by (simp add: triple_ret)

lemma settled_eq: "(\<lambda>s. owing (cl_calls s) = Some rs) = owes rs"
  by (rule ext) (simp add: owes_def)

lemma owe_simps:
  "owe (Some rs) (J_Open name, r) = Some (if ly_result r = 0 then rs @ [Device (ly_id r)] else rs)"
  "owe (Some rs) (J_Connect d p f b, r) = Some (if ly_result r = 0 \<and> ly_id r \<noteq> 0 then rs @ [Channel (ly_id r)] else rs)"
  "owe (Some rs) (J_Start_filter chan k m q fl, r) =
     Some (if ly_result r = 0 \<and> ly_id r \<noteq> 0 then rs @ [Filter chan (ly_id r)] else rs)"
  "owe (Some rs) (J_Stop_filter chan i, r) = Some (removeAll (Filter chan i) rs)"
  "owe (Some rs) (J_Version d, r) = Some rs" "owe (Some rs) (J_Write chan xs t, r) = Some rs"
  "owe (Some rs) (J_Read chan n t, r) = Some rs" "owe (Some rs) (J_Last_error, r) = Some rs"
  by (simp_all add: owe_def)

text \<open>A device, and a device with a channel; an ID of 0 is not owed.\<close>

definition held :: "u32 \<Rightarrow> u32 \<Rightarrow> resource list" where
  "held device chan = (if chan = 0 then [Device device] else [Device device, Channel chan])"

definition filtered :: "u32 \<Rightarrow> u32 list \<Rightarrow> resource list" where
  "filtered chan fs = map (Filter chan) (filter (\<lambda>i. i \<noteq> 0) fs)"

lemma held_filter [simp]: "removeAll (Filter chan i) (held device c) = held device c"
  by (simp add: held_def)

lemma filtered_simps [simp]:
  "filtered chan [] = []" "filtered chan (i # fs) = (if i = 0 then [] else [Filter chan i]) @ filtered chan fs"
  by (simp_all add: filtered_def)

lemma removeAll_filtered: "removeAll (Filter chan i) (filtered chan fs) = filtered chan (removeAll i fs)"
  by (induction fs) auto

lemma held_close: "owe (Some (held device chan)) (J_Disconnect chan', r) = Some (removeAll (Channel chan') (held device chan))"
  "owe (Some (held device 0)) (J_Close device, q) = Some []"
  by (auto simp: owe_def held_def)

lemma settles_start_again:
  assumes "\<And>r. ly_result r = 0 \<Longrightarrow> settles (held d c @ filtered c (fs @ [ly_id r])) (f r) rs"
    and "\<And>r. ly_result r \<noteq> 0 \<Longrightarrow> settles (held d c @ filtered c fs) (f r) rs"
  shows "settles (held d c @ filtered c fs) (andthen (reported lib (J_Start_filter c k m q fl)) f) rs"
proof (rule owes_calls)
  fix r
  show "triple (\<lambda>s. owing (cl_calls s) = owe (Some (held d c @ filtered c fs)) (J_Start_filter c k m q fl, r)) (f r)
      (\<lambda>_. owes rs) orderly"
    using assms(1,2) [of r] by (cases "ly_result r = 0"; cases "ly_id r = 0") (simp_all add: owe_simps settled_eq filtered_def)
qed

lemmas settles_start = settles_start_again [where fs = "[]", simplified append_Nil append_Nil2 filtered_simps(1)]

lemma settles_stop:
  assumes "\<And>r. settles (held d c @ filtered c (removeAll i fs)) (f r) rs"
  shows "settles (held d c @ filtered c fs) (andthen (reported lib (J_Stop_filter c i)) f) rs"
    and "settles (held d c @ filtered c fs) (andthen (cl_call lib (J_Stop_filter c i)) f) rs"
  using assms by (auto simp: owe_simps removeAll_filtered settled_eq intro!: owes_calls)

text \<open>What stays in force through a step of a check that neither opens nor closes.\<close>

lemma settles_through: "keeps (owes rs) m \<Longrightarrow> (\<And>x. settles rs (f x) rs') \<Longrightarrow> settles rs (andthen m f) rs'"
  by (blast intro: settles_andthen settles_keeps)

lemma settles_if: "(b \<Longrightarrow> settles rs m rs') \<Longrightarrow> (\<not> b \<Longrightarrow> settles rs n rs') \<Longrightarrow> settles rs (if b then m else n) rs'"
  by simp

lemma settles_prod: "(\<And>a b. settles rs (f a b) rs') \<Longrightarrow> settles rs (case p of (a, b) \<Rightarrow> f a b) rs'"
  by (cases p) simp

lemma settles_done: "settles (held d c @ filtered c (removeAll i [i])) (ret x) (held d c)"
  "settles (held d c @ filtered c (removeAll i [])) (ret x) (held d c)"
  by (simp_all add: settles_ret)

lemmas debt_rules = debt.keeps_clocks debt.keeps_report debt.keeps_reported debt.calls keeps_andthen keeps_basic keeps_only_if

lemma settles_stop_all:
  assumes "set gs \<subseteq> set fs"
  shows "settles (held d c @ filtered c gs) (stop_all lib c fs status) (held d c)"
  using assms
proof (induction fs arbitrary: gs status)
  case (Cons f fs)
  have "settles (held d c @ filtered c (removeAll f gs)) (stop_all lib c fs st) (held d c)" for st
    using Cons.prems by (intro Cons.IH) auto
  moreover have "filtered c (removeAll 0 gs) = filtered c gs" by (induction gs) auto
  ultimately show ?case by (auto intro: settles_stop)
qed (simp add: settles_ret)

lemmas settles_rules = settles_stop settles_done settles_ret settles_prod settles_if settles_through
  debt_rules debt.keeps_phase debt.keeps_soak debt.keeps_listen_iso debt.keeps_await
  debt.keeps_hour_loop debt.keeps_hour_pending debt.keeps_iso_loop debt.keeps_iso_pending debt.keeps_observe_loop triple_if asking_neutral

lemma settles_vehicle: "settles (held d c) (check_vehicle ch lib c requesting) (held d c)"
  unfolding check_vehicle_def start_wildcard_def
  by (intro settles_start; simp only: if_True if_False simp_thms not_not settles_ret; (rule settles_rules)+)

lemma settles_soak: "settles (held d c) (check_vehicle_soak ch lib c seconds) (held d c)"
  unfolding check_vehicle_soak_def start_wildcard_def
  by (intro settles_start; simp only: if_True if_False simp_thms not_not settles_ret; (rule settles_rules)+)

lemma settles_vehicle_iso: "settles (held d c) (check_vehicle_iso ch lib c) (held d c)"
proof -
  have "Collect neutral \<supseteq> {J_Write c [client_iso_message 0x7df [9, 2]] 250}" by (simp add: neutral_def)
  then have w: "keeps (owes rs) (reported lib (J_Write c [client_iso_message 0x7df [9, 2]] 250))" for rs
    by (intro debt.keeps_reported) blast
  show ?thesis unfolding check_vehicle_iso_def start_flow_def Let_def
    by (intro settles_start; simp only: if_True if_False simp_thms not_not settles_ret; (rule w settles_rules)+)
qed

lemma settles_hour: "settles (held d c) (check_vehicle_hour ch lib c seconds) (held d c)"
  unfolding check_vehicle_hour_def start_wildcard_def
  by (intro settles_start; simp only: if_True if_False simp_thms not_not settles_ret; (rule settles_rules)+)

lemma settles_ignition: "settles (held d c) (check_vehicle_ignition ch lib device c seconds) (held d c)"
  unfolding check_vehicle_ignition_def start_wildcard_def
  by (intro settles_start; simp only: if_True if_False simp_thms not_not settles_ret;
      (rule settles_rules | (simp add: neutral_def; fail))+)

lemma settles_iso_run: "settles (held d c @ filtered c [f8, f9]) (iso_run ch lib c seconds f8 f9) (held d c)"
  unfolding iso_run_def by (rule settles_rules)+ (auto simp: settles_ret)

lemma settles_hour_iso: "settles (held d c) (check_vehicle_hour_iso ch lib c seconds) (held d c)"
proof -
  have more: "settles (held d c @ filtered c [f8]) (andthen (reported lib (start_flow c 0x7e9 0x7e1)) (\<lambda>r9.
      if ly_result r9 \<noteq> 0 then andthen (cl_call lib (J_Stop_filter c f8)) (\<lambda>_. ret (1, hour_iso_new 0))
      else iso_run ch lib c seconds f8 (ly_id r9))) (held d c)" for f8
    unfolding start_flow_def
    by (rule settles_start_again; simp only: if_True if_False simp_thms not_not append.simps;
        rule settles_iso_run settles_stop; rule settles_done)
  show ?thesis unfolding check_vehicle_hour_iso_def
    by (subst (1) start_flow_def; rule settles_start; simp only: if_True if_False simp_thms not_not more settles_ret)
qed

lemma triple_ex:
  assumes "\<And>x. triple (P x) m Q E" shows "triple (\<lambda>s. \<exists>x. P x s) m Q E"
proof (rule tripleI)
  fix s assume "\<exists>x. P x s"
  then obtain x where "P x s" ..
  with assms [of x] show "case m s of (Inl e, t) \<Rightarrow> E e t | (Inr y, t) \<Rightarrow> Q y t" by (simp add: triple_def)
qed

lemma triple_pure: "(b \<Longrightarrow> triple P m Q E) \<Longrightarrow> triple (\<lambda>s. b \<and> P s) m Q E"
  by (simp add: triple_def)

text \<open>Filters whose IDs are among those of a list.\<close>

definition owes_some :: "u32 \<Rightarrow> u32 \<Rightarrow> u32 list \<Rightarrow> 'w client \<Rightarrow> bool" where
  "owes_some d c fs s \<longleftrightarrow> (\<exists>gs. set gs \<subseteq> set fs \<and> owes (held d c @ filtered c gs) s)"

lemma start_two_owes: "triple (owes (held d c)) (start_two lib c flags) (\<lambda>(status, fs). owes_some d c fs) orderly"
proof -
  have one: "owes_some d c [a, b] s" if "owes (held d c) s" for a b s
    using that by (auto simp: owes_some_def intro: exI [of _ "[]"])
  have two: "owes_some d c [a, b] s" if "owing (cl_calls s) = owe (Some (held d c @ filtered c [a])) (J_Start_filter c k m q fl, r)"
    and "ly_id r = b" for a b s r k m q fl
  proof (cases "ly_result r = 0 \<and> b \<noteq> 0")
    case True
    then have "owes (held d c @ filtered c [a, b]) s" using that by (auto simp: owe_simps owes_def)
    then show ?thesis unfolding owes_some_def by (intro exI [of _ "[a, b]"]) simp
  next
    case False
    then have "owes (held d c @ filtered c [a]) s" using that by (auto simp: owe_simps owes_def)
    then show ?thesis unfolding owes_some_def by (intro exI [of _ "[a]"]) simp
  qed
  show ?thesis unfolding start_two_def
  proof (rule triple_andthen [OF owes_reported])
    fix r :: reply
    let ?m = "id_filter flags 0 0"
    have rest: "triple (owes (held d c @ filtered c [ly_id r]))
        (andthen (reported lib (J_Start_filter c PASS_FILTER (id_filter flags 7 0xff) (id_filter flags 7 0xe8) None))
          (\<lambda>q. ret (ly_result q, [ly_id r, ly_id q]))) (\<lambda>(status, fs). owes_some d c fs) orderly"
      by (rule triple_andthen [OF owes_reported], rule triple_ret) (simp add: two)
    show "triple (\<lambda>s. owing (cl_calls s) = owe (Some (held d c)) (J_Start_filter c PASS_FILTER ?m ?m None, r))
       (if ly_result r \<noteq> 0 then ret (ly_result r, [ly_id r, 0])
        else andthen (reported lib (J_Start_filter c PASS_FILTER (id_filter flags 7 0xff) (id_filter flags 7 0xe8) None))
          (\<lambda>q. ret (ly_result q, [ly_id r, ly_id q]))) (\<lambda>(status, fs). owes_some d c fs) orderly"
      using rest by (cases "ly_result r = 0"; cases "ly_id r = 0") (auto simp: owe_simps settled_eq intro!: triple_ret one)
  qed
qed

lemma settles_receive: "settles (held d c) (check_receive lib c flags) (held d c)"
  unfolding check_receive_def
proof (rule triple_andthen [OF start_two_owes])
  fix x show "triple (case x of (status, fs) \<Rightarrow> owes_some d c fs) (case x of (status, filters) \<Rightarrow>
      andthen (if status \<noteq> 0 then ret status
        else andthen (reported lib (J_Read c 1 25)) (\<lambda>r. ret (if ly_result r = status_value ERR_BUFFER_EMPTY then 0 else ly_result r)))
       (\<lambda>status. stop_all lib c filters status)) (\<lambda>_. owes (held d c)) orderly"
  proof (cases x)
    case (Pair status fs)
    show ?thesis unfolding Pair prod.case owes_some_def
      by (intro triple_ex triple_pure) (rule settles_stop_all settles_through triple_if settles_rules debt.harmless, assumption?)+
  qed
qed

text \<open>A cycle: what its steps leave is on its channel, or nothing is.\<close>

definition cycle_owes :: "u32 \<Rightarrow> u32 \<Rightarrow> u32 \<Rightarrow> 'w client \<Rightarrow> bool" where
  "cycle_owes d c f s \<longleftrightarrow> (\<exists>x \<in> {0, c}. \<exists>gs. set gs \<subseteq> {f} \<and> owes (held d x @ filtered c gs) s)"

lemma cycle_owes_held: "x \<in> {0, c} \<Longrightarrow> owes (held d x) s \<Longrightarrow> cycle_owes d c f s"
  unfolding cycle_owes_def by (rule bexI [of _ x]) (auto intro: exI [of _ "[]"])

lemma cycle_rest_owes:
  "triple (owes (held d c)) (andthen (reported lib (cycle_filter c raw)) (\<lambda>f.
      if ly_result f \<noteq> 0 then ret (4, c, ly_id f)
      else andthen (cycle_exchange ch lib c raw) (\<lambda>result. ret (result, c, ly_id f)))) (\<lambda>(_, c, f). cycle_owes d c f) orderly"
proof (rule triple_andthen [OF owes_reported])
  fix f :: reply
  have one: "cycle_owes d c (ly_id f) s" if "owes (held d c @ filtered c [ly_id f]) s" for s
    unfolding cycle_owes_def by (rule bexI [of _ c], rule exI [of _ "[ly_id f]"]) (use that in simp_all)
  have call: "owe (Some (held d c)) (cycle_filter c raw, f) =
      Some (if ly_result f = 0 then held d c @ filtered c [ly_id f] else held d c)"
    by (simp add: cycle_filter_def start_flow_def owe_simps)
  have "triple (owes (held d c @ filtered c [ly_id f])) (andthen (cycle_exchange ch lib c raw) (\<lambda>result. ret (result, c, ly_id f)))
      (\<lambda>(_, c, f). cycle_owes d c f) orderly"
    by (rule triple_andthen [OF settles_keeps [OF debt.keeps_exchange [OF asking_neutral]]], rule triple_ret) (simp add: one)
  then show "triple (\<lambda>s. owing (cl_calls s) = owe (Some (held d c)) (cycle_filter c raw, f))
     (if ly_result f \<noteq> 0 then ret (4, c, ly_id f)
      else andthen (cycle_exchange ch lib c raw) (\<lambda>result. ret (result, c, ly_id f))) (\<lambda>(_, c, f). cycle_owes d c f) orderly"
    unfolding call settled_eq by (auto intro!: triple_ret cycle_owes_held [of c c])
qed

lemma cycle_body_owes: "triple (owes (held d 0)) (cycle_body ch lib d raw) (\<lambda>(_, c, f). cycle_owes d c f) orderly"
  unfolding cycle_body_def
proof (rule triple_andthen [OF owes_call])
  fix v
  have connect: "triple (owes (held d 0)) (andthen (reported lib (J_Connect d (if raw then CAN else ISO15765) 0 500000)) (\<lambda>c.
       if ly_result c \<noteq> 0 then ret (3, ly_id c, 0)
       else andthen (reported lib (cycle_filter (ly_id c) raw)) (\<lambda>f.
         if ly_result f \<noteq> 0 then ret (4, ly_id c, ly_id f)
         else andthen (cycle_exchange ch lib (ly_id c) raw) (\<lambda>result. ret (result, ly_id c, ly_id f)))))
      (\<lambda>(_, c, f). cycle_owes d c f) orderly" (is "triple _ (andthen _ ?rest) _ _")
  proof (rule triple_andthen [OF owes_reported])
    fix c
    have "owe (Some (held d 0)) (J_Connect d p 0 500000, c) = Some (held d (if ly_result c = 0 then ly_id c else 0))" for p
      by (simp add: owe_simps held_def)
    then show "triple (\<lambda>s. owing (cl_calls s) = owe (Some (held d 0)) (J_Connect d (if raw then CAN else ISO15765) 0 500000, c))
        (?rest c) (\<lambda>(_, c, f). cycle_owes d c f) orderly"
      using cycle_rest_owes [of d "ly_id c" lib raw ch] by (auto simp: settled_eq intro!: triple_ret cycle_owes_held [of 0])
  qed
  have "triple (owes (held d 0)) (andthen (report lib 1) (\<lambda>_. ret (2 :: int, 0, 0))) (\<lambda>(_, c, f). cycle_owes d c f) orderly"
    by (rule triple_andthen [OF settles_keeps [OF debt.keeps_report]], rule triple_ret) (simp add: cycle_owes_held [of 0])
  with connect show "triple (\<lambda>s. owing (cl_calls s) = owe (Some (held d 0)) (J_Version d, v))
      (if ly_result v \<noteq> 0 then andthen (report lib 1) (\<lambda>_. ret (2, 0, 0))
       else andthen (reported lib (J_Connect d (if raw then CAN else ISO15765) 0 500000)) ?rest)
      (\<lambda>(_, c, f). cycle_owes d c f) orderly"
    by (simp add: owe_simps settled_eq)
qed

lemma settles_disconnect:
  assumes "x \<in> {0, c}"
  shows "settles (held d x) (cycle_undo lib (c \<noteq> 0) (J_Disconnect c) 9 result) (held d 0)"
proof -
  have "owe (Some (held d x)) (J_Disconnect c, r) = Some (held d 0)" for r
    using assms by (auto simp: owe_def held_def)
  then show ?thesis using assms unfolding cycle_undo_def by (auto simp: settled_eq intro!: owes_calls settles_ret)
qed

lemma settles_cycle: "settles [] (cycle_once ch lib name raw) []"
  unfolding cycle_once_def
proof (rule owes_calls)
  fix d :: reply
  let ?undo = "\<lambda>(result, chan, filter_id). andthen (cycle_undo lib (filter_id \<noteq> 0) (J_Stop_filter chan filter_id) 8 result) (\<lambda>result.
       andthen (cycle_undo lib (chan \<noteq> 0) (J_Disconnect chan) 9 result) (\<lambda>result. cycle_undo lib True (J_Close (ly_id d)) 10 result))"
  have close: "settles (held d' 0) (cycle_undo lib True (J_Close d') 10 result) []" for d' result
    unfolding cycle_undo_def by (auto simp: held_close settled_eq intro!: owes_calls settles_ret)
  have stop: "settles (held d' x @ filtered c gs) (cycle_undo lib (f \<noteq> 0) (J_Stop_filter c f) 8 result) (held d' x)"
    if "set gs \<subseteq> {f}" for d' x c gs f result
  proof -
    have "filtered c (removeAll f gs) = []" "f = 0 \<Longrightarrow> filtered c gs = []" using that by (auto simp: filtered_def filter_empty_conv)
    then show ?thesis unfolding cycle_undo_def
      by (auto simp: owe_simps removeAll_filtered settled_eq intro!: owes_calls settles_ret)
  qed
  have undo: "triple (case p of (_, c, f) \<Rightarrow> cycle_owes (ly_id d) c f) (?undo p) (\<lambda>_. owes []) orderly" for p
  proof (cases p)
    case (fields result c f)
    show ?thesis unfolding fields prod.case cycle_owes_def bex_simps Bex_def
      by (intro triple_ex triple_pure) (rule settles_andthen [OF stop] settles_andthen [OF settles_disconnect] close, assumption?)+
  qed
  have "settles (held (ly_id d) 0) (andthen (cycle_body ch lib (ly_id d) raw) ?undo) []"
    by (rule triple_andthen [OF cycle_body_owes undo])
  then show "triple (\<lambda>s. owing (cl_calls s) = owe (Some []) (J_Open name, d))
      (if ly_result d \<noteq> 0 then ret 1 else andthen (cycle_body ch lib (ly_id d) raw) ?undo) (\<lambda>_. owes []) orderly"
    by (auto simp: owe_simps held_def settled_eq intro: settles_ret)
qed

lemma settles_cycles: "settles [] (check_vehicle_cycles ch lib name n raw) []"
  by (induction n) (auto intro!: settles_ret settles_andthen [OF settles_cycle])

section \<open>What the client closes\<close>

lemma settles_disconnecting:
  "settles (held d c) (andthen (reported lib (J_Disconnect c)) (\<lambda>q. ret (x q))) (held d 0)"
  "settles (held d c) (andthen (cl_call lib (J_Disconnect c)) (\<lambda>q. ret (x q))) (held d 0)"
proof -
  have "owe (Some (held d c)) (J_Disconnect c, r) = Some (held d 0)" for r
    by (auto simp: owe_def held_def)
  then show "settles (held d c) (andthen (reported lib (J_Disconnect c)) (\<lambda>q. ret (x q))) (held d 0)"
    "settles (held d c) (andthen (cl_call lib (J_Disconnect c)) (\<lambda>q. ret (x q))) (held d 0)"
    by (auto simp: settled_eq intro!: owes_calls settles_ret)
qed

lemma settles_on_channel:
  assumes "\<And>c. settles (held d c) (job c) (held d c)"
  shows "settles (held d 0) (on_channel lib d protocol flags baud job) (held d 0)"
  unfolding on_channel_def
proof (rule owes_calls)
  fix c :: reply
  have "settles (held d (ly_id c)) (andthen (job (ly_id c)) (\<lambda>status.
      andthen (reported lib (J_Disconnect (ly_id c))) (\<lambda>q. ret (if status = 0 then ly_result q else status)))) (held d 0)"
    by (rule settles_andthen [OF assms settles_disconnecting(1)])
  moreover have "owe (Some (held d 0)) (J_Connect d protocol flags baud, c) = Some (held d (if ly_result c = 0 then ly_id c else 0))"
    by (simp add: owe_simps held_def)
  ultimately show "triple (\<lambda>s. owing (cl_calls s) = owe (Some (held d 0)) (J_Connect d protocol flags baud, c))
      (if ly_result c \<noteq> 0 then ret (ly_result c)
       else andthen (job (ly_id c)) (\<lambda>status.
         andthen (reported lib (J_Disconnect (ly_id c))) (\<lambda>q. ret (if status = 0 then ly_result q else status))))
      (\<lambda>_. owes (held d 0)) orderly"
    by (auto simp: settled_eq intro: settles_ret)
qed

lemma settles_lifecycle: "settles (held d 0) (lifecycle lib d mode rates) (held d 0)"
proof (induction rates)
  case (Cons r rates)
  have "settles (held d c) (if mode = ''--can-receive-check'' then check_receive lib c flags
       else if mode = ''--can-transmit-check'' then check_transmit lib c flags else ret 0) (held d c)" for c flags
    by (auto intro!: settles_receive settles_ret settles_keeps [OF debt.keeps_transmit] asking_neutral)
  with Cons show ?case by (cases r) (auto intro!: settles_andthen settles_on_channel settles_ret)
qed (simp add: settles_ret)

lemma settles_channel_mode: "settles (held d 0) (channel_mode ch lib d mode) (held d 0)"
  unfolding channel_mode_def
  by (intro settles_if settles_on_channel settles_vehicle settles_soak settles_vehicle_iso settles_lifecycle settles_ret)

lemma settles_close:
  "settles (held d 0) (andthen (reported lib (J_Close d)) (\<lambda>q. ret (x q))) []"
  "settles (held d 0) (andthen (cl_call lib (J_Close d)) (\<lambda>q. ret (x q))) []"
  by (auto simp: held_close settled_eq intro!: owes_calls settles_ret)

lemma settles_run: "settles [] (client_run ch lib name mode) []"
  unfolding client_run_def
proof (rule owes_calls)
  fix d :: reply
  have version: "keeps (owes rs) (reported lib (J_Version i))" for rs i
    by (rule debt.keeps_reported) (simp add: neutral_def)
  show "triple (\<lambda>s. owing (cl_calls s) = owe (Some []) (J_Open name, d))
      (if ly_result d \<noteq> 0 then ret 1
       else andthen (reported lib (J_Version (ly_id d))) (\<lambda>v.
         andthen (if ly_result v = 0 then channel_mode ch lib (ly_id d) mode else ret 0) (\<lambda>status.
         andthen (reported lib (J_Close (ly_id d))) (\<lambda>q.
         ret (if ly_result q \<noteq> 0 \<or> ly_result v \<noteq> 0 \<or> status \<noteq> 0 then 1 else 0))))) (\<lambda>_. owes []) orderly"
    by (auto simp: owe_simps held_def [of _ 0, simplified, symmetric] settled_eq
        intro!: settles_through [OF version] settles_close settles_ret settles_andthen [OF settles_channel_mode]
        settles_andthen [OF settles_ret])
qed

lemma settles_with_channel:
  assumes "\<And>d c. settles (held d c) (job d c) (held d c)"
  shows "settles [] (with_channel lib name protocol job) []"
  unfolding with_channel_def
proof (rule owes_calls)
  fix d :: reply
  let ?used = "\<lambda>c. if ly_result c = 0 then andthen (job (ly_id d) (ly_id c)) (\<lambda>result.
      andthen (cl_call lib (J_Disconnect (ly_id c))) (\<lambda>_. ret result)) else andthen (report lib 1) (\<lambda>_. ret 1)"
  have used: "triple (\<lambda>s. owing (cl_calls s) = owe (Some (held (ly_id d) 0)) (J_Connect (ly_id d) protocol 0 500000, c))
      (?used c) (\<lambda>_. owes (held (ly_id d) 0)) orderly" for c
  proof -
    have "owe (Some (held (ly_id d) 0)) (J_Connect (ly_id d) protocol 0 500000, c) =
        Some (held (ly_id d) (if ly_result c = 0 then ly_id c else 0))"
      by (simp add: owe_simps held_def)
    then show ?thesis
      by (auto simp: settled_eq intro: settles_andthen [OF assms settles_disconnecting(2)] settles_through [OF debt.keeps_report] settles_ret)
  qed
  have "settles (held (ly_id d) 0) (andthen (cl_call lib (J_Connect (ly_id d) protocol 0 500000)) (\<lambda>c.
      andthen (?used c) (\<lambda>result. andthen (cl_call lib (J_Close (ly_id d))) (\<lambda>_. ret result)))) []"
    by (rule owes_calls, rule triple_andthen [OF used], rule settles_close)
  then show "triple (\<lambda>s. owing (cl_calls s) = owe (Some []) (J_Open (Some name), d))
      (if ly_result d \<noteq> 0 then andthen (report lib 1) (\<lambda>_. ret 1)
       else andthen (cl_call lib (J_Connect (ly_id d) protocol 0 500000)) (\<lambda>c.
         andthen (?used c) (\<lambda>result. andthen (cl_call lib (J_Close (ly_id d))) (\<lambda>_. ret result)))) (\<lambda>_. owes []) orderly"
    by (auto simp: owe_simps held_def settled_eq intro: settles_through [OF debt.keeps_report] settles_ret)
qed

lemma settles_verdict: "settles rs m rs' \<Longrightarrow> settles rs (verdict m) rs'"
  unfolding verdict_def by (rule settles_andthen) (auto intro: settles_ret)


end
