(* ===== verification/Client_Soaks.thy ===== *)
theory Client_Soaks
  imports Client_Properties
begin

text \<open>
  The long checks of the client: the accounts of the two soaks add up, the ignition observer stays polite, and a life
  cycle waits for its reply no longer than it says.
\<close>

section \<open>The accounts of the soaks\<close>

abbreviation gives :: "('w, 'a) act \<Rightarrow> ('a \<Rightarrow> bool) \<Rightarrow> bool" where
  "gives m Q \<equiv> triple (\<lambda>_. True) m (\<lambda>x _. Q x) (\<lambda>_ _. True)"

lemma gives_andthen:
  assumes "gives m R" and "\<And>x. R x \<Longrightarrow> gives (f x) Q" shows "gives (andthen m f) Q"
proof (rule triple_andthen [OF assms(1)])
  show "triple (\<lambda>_. R x) (f x) (\<lambda>x _. Q x) (\<lambda>_ _. True)" for x
    using assms(2) [of x] by (cases "R x") (simp_all add: triple_def)
qed

lemma gives_any: "(\<And>x. gives (f x) Q) \<Longrightarrow> gives (andthen m f) Q"
  by (rule gives_andthen [where R = "\<lambda>_. True"]) (auto simp: triple_def split: sum.split prod.split)

lemma gives_ret: "Q x \<Longrightarrow> gives (ret x) Q" and gives_raise: "gives (raise e) Q"
  by (auto intro: keeps_intros)

lemma gives_result: "gives m Q \<Longrightarrow> case fst (m s) of Inl _ \<Rightarrow> True | Inr x \<Rightarrow> Q x"
  by (cases "m s") (auto simp: triple_def split: sum.splits dest: spec [of _ s])

text \<open>Every request is answered, unanswered or pending.\<close>

definition hour_ok :: "hour \<Rightarrow> bool" where
  "hour_ok h \<longleftrightarrow> hr_requests h = hr_replies h + hr_unanswered h + (if hr_outstanding h then 1 else 0)"

lemma hour_messages_ok: "hour_ok h \<Longrightarrow> gives (hour_messages ch xs h) hour_ok"
proof (induction xs arbitrary: h)
  case (Cons m xs)
  then show ?case by (auto simp: Let_def hour_ok_def hour_reply_def intro!: gives_any)
qed (simp add: gives_ret)

lemma hour_request_ok: "hour_ok h \<Longrightarrow> gives (hour_request ch lib chan now h) hour_ok"
  unfolding hour_request_def Let_def by (auto simp: hour_ok_def intro!: gives_any gives_ret)

lemma hour_loop_ok: "hour_ok h \<Longrightarrow> gives (hour_loop ch lib chan end_time n h) (\<lambda>(h, _). hour_ok h)"
proof (induction n arbitrary: h)
  case (Suc n)
  have over: "hour_ok (g\<lparr>hr_overflows := x\<rparr>) = hour_ok g" "hour_ok (g\<lparr>hr_frames := x\<rparr>) = hour_ok g" for g x
    by (simp_all add: hour_ok_def)
  show ?case unfolding hour_loop.simps Let_def
    by (rule gives_any, rule triple_if, simp add: gives_ret Suc.prems, rule gives_any, rule gives_andthen [OF hour_request_ok [OF Suc.prems]],
        rule gives_any, rule triple_if, rule gives_any, simp add: gives_ret over, rule gives_andthen [OF hour_messages_ok])
      (simp_all add: over Suc.IH)
qed (simp add: gives_raise)

definition hour_verdict :: "int \<Rightarrow> hour \<Rightarrow> bool" where
  "hour_verdict result h \<longleftrightarrow>
     hr_replies h + hr_unanswered h \<le> hr_requests h \<and>
     hr_requests h \<le> hr_replies h + hr_unanswered h + (if hr_outstanding h then 1 else 0) \<and>
     (if result = 0 then hr_unanswered h = 0 \<and> hr_write_failures h = 0 \<and> hr_overflows h = 0 else result = 1)"

text \<open>
  The CAN soak accounts for every request: each one was answered or counted as unanswered, except perhaps the last one
  if it is still pending. It reports success only if none is unanswered, no write failed and no frame was lost, so all its requests but a
  pending one were answered.
\<close>

theorem hour_accounts:
  "case fst (check_vehicle_hour ch lib chan seconds s) of
     Inr (result, h) \<Rightarrow> hour_verdict result h
   | Inl _ \<Rightarrow> True"
proof -
  have start: "hour_ok (hour_new t)" for t by (simp add: hour_ok_def hour_new_def)
  have pending: "gives (hour_pending ch h) (\<lambda>h. hr_replies h + hr_unanswered h \<le> hr_requests h \<and>
      hr_requests h \<le> hr_replies h + hr_unanswered h + (if hr_outstanding h then 1 else 0))" if "hour_ok h" for h
    using that unfolding hour_pending_def by (auto simp: hour_ok_def intro!: gives_any gives_ret)
  have "gives (check_vehicle_hour ch lib chan seconds) (\<lambda>(result, h). hour_verdict result h)"
    unfolding check_vehicle_hour_def
  proof (rule gives_any, rule triple_if)
    show "gives (ret (1, hour_new 0)) (\<lambda>(result, h). hour_verdict result h)"
      by (rule gives_ret) (simp add: hour_verdict_def hour_new_def)
    show "gives (andthen (now_ms ch) (\<lambda>start.
       andthen (hour_loop ch lib chan (start + ms (seconds * 1000)) (ch_rounds ch) (hour_new start)) (\<lambda>(h, failed).
       andthen (hour_pending ch h) (\<lambda>h. andthen (reported lib (J_Stop_filter chan (ly_id r))) (\<lambda>q.
       ret (if failed \<or> ly_result q \<noteq> 0 \<or> hr_unanswered h \<noteq> 0 \<or> hr_write_failures h \<noteq> 0 \<or> hr_overflows h \<noteq> 0 then 1 else 0, h))))))
       (\<lambda>(result, h). hour_verdict result h)" for r
      by (rule gives_any, rule gives_andthen [OF hour_loop_ok [OF start]], clarify, rule gives_andthen [OF pending], assumption,
          rule gives_any, rule gives_ret) (auto simp: hour_verdict_def)
  qed
  from gives_result [OF this, of s] show ?thesis by (auto split: sum.splits)
qed

text \<open>The same of the ISO15765 soak, for its two kinds of requests; every tenth request is of the second kind.\<close>

definition iso_kinds :: "hour_iso \<Rightarrow> bool" where
  "iso_kinds h \<longleftrightarrow> hi_requests h = hi_singles h + hi_multis h \<and> hi_multis h = hi_requests h div 10"

definition iso_ok :: "hour_iso \<Rightarrow> bool" where
  "iso_ok h \<longleftrightarrow>
     iso_kinds h \<and>
     hi_singles h = hi_single_ok h + hi_single_bad h + (if hi_outstanding h \<and> \<not> hi_multi h then 1 else 0) \<and>
     hi_multis h = hi_multi_ok h + hi_multi_bad h + (if hi_outstanding h \<and> hi_multi h then 1 else 0)"

lemma iso_kinds_fields [simp]:
  "iso_kinds (h\<lparr>hi_single_ok := n\<rparr>) = iso_kinds h" "iso_kinds (h\<lparr>hi_single_bad := n\<rparr>) = iso_kinds h"
  "iso_kinds (h\<lparr>hi_multi_ok := n\<rparr>) = iso_kinds h" "iso_kinds (h\<lparr>hi_multi_bad := n\<rparr>) = iso_kinds h"
  "iso_kinds (h\<lparr>hi_outstanding := b\<rparr>) = iso_kinds h" "iso_kinds (h\<lparr>hi_worst := x\<rparr>) = iso_kinds h"
  "iso_kinds (h\<lparr>hi_reply_total := x\<rparr>) = iso_kinds h"
  by (simp_all add: iso_kinds_def)

lemma iso_ok_fields [simp]:
  "iso_ok (h\<lparr>hi_overflows := n\<rparr>) = iso_ok h" "iso_ok (h\<lparr>hi_read_errors := n\<rparr>) = iso_ok h"
  "iso_ok (h\<lparr>hi_tx_done := n\<rparr>) = iso_ok h" "iso_ok (h\<lparr>hi_indications := n\<rparr>) = iso_ok h"
  "iso_ok (h\<lparr>hi_stray := n\<rparr>) = iso_ok h" "iso_ok (h\<lparr>hi_second_ecu := n\<rparr>) = iso_ok h"
  "iso_ok (h\<lparr>hi_got8 := b\<rparr>) = iso_ok h" "iso_ok (h\<lparr>hi_got9 := b\<rparr>) = iso_ok h"
  by (simp_all add: iso_ok_def iso_kinds_def)

lemma iso_given_up_ok: "iso_ok h \<Longrightarrow> hi_outstanding h \<Longrightarrow> iso_ok ((iso_given_up h)\<lparr>hi_outstanding := False\<rparr>)"
  by (simp add: iso_ok_def iso_given_up_def)

lemma iso_single_ok:
  "iso_ok h \<Longrightarrow> hi_outstanding h \<Longrightarrow> \<not> hi_multi h \<Longrightarrow>
   iso_ok (h\<lparr>hi_single_ok := hi_single_ok h + 1, hi_reply_total := x, hi_worst := y, hi_outstanding := False\<rparr>)"
  by (simp add: iso_ok_def)

lemma iso_multi_ok:
  "iso_ok h \<Longrightarrow> hi_outstanding h \<Longrightarrow> hi_multi h \<Longrightarrow> iso_ok (h\<lparr>hi_multi_ok := hi_multi_ok h + 1, hi_outstanding := False\<rparr>)"
  by (simp add: iso_ok_def)

lemma iso_part_ok:
  assumes "iso_ok h" and "hi_outstanding h" and "hi_multi h" shows "iso_ok (iso_part m h)"
proof -
  define g where "g = (if Data m ! 3 = 0xe8 \<and> DataSize m = 39 then h\<lparr>hi_got8 := True\<rparr>
               else if Data m ! 3 = 0xe9 \<and> DataSize m = 23 then h\<lparr>hi_got9 := True\<rparr> else h)"
  have "iso_ok g" "hi_outstanding g" "hi_multi g" using assms by (simp_all add: g_def)
  then show ?thesis using iso_multi_ok by (simp add: iso_part_def flip: g_def)
qed

lemma iso_note_ok: "iso_ok h \<Longrightarrow> gives (iso_note ch m h) iso_ok"
  unfolding iso_note_def Let_def
  by (intro triple_if; (rule gives_any)?; rule gives_ret; (elim conjE)?; simp only: iso_ok_fields iso_part_ok iso_single_ok not_False_eq_True)

lemma iso_messages_ok: "iso_ok h \<Longrightarrow> gives (iso_messages ch xs h) iso_ok"
  by (induction xs arbitrary: h) (auto intro: gives_ret gives_andthen [OF iso_note_ok])

text \<open>A request that takes the place of the one that was outstanding, if there was one.\<close>

lemma iso_next_ok:
  assumes "iso_ok h" and "multi = (hi_requests h mod 10 = 9)"
  defines "g \<equiv> if hi_outstanding h then iso_given_up h else h"
  shows "iso_ok (g\<lparr>hi_multi := multi, hi_wanted := wanted, hi_write_failures := fs, hi_requests := hi_requests g + 1,
           hi_multis := hi_multis g + (if multi then 1 else 0), hi_singles := hi_singles g + (if multi then 0 else 1),
           hi_outstanding := True, hi_got8 := False, hi_got9 := False, hi_sent_at := t, hi_next := n\<rparr>)"
proof -
  have kinds: "hi_requests h = hi_singles h + hi_multis h" "hi_multis h = hi_requests h div 10"
    using assms(1) unfolding iso_ok_def iso_kinds_def by blast+
  have tenth: "Suc r div 10 = r div 10 + (if r mod 10 = 9 then 1 else 0)" for r :: nat
    by (simp add: div_Suc mod_Suc)
  have g: "hi_requests g = hi_requests h" "hi_singles g = hi_singles h" "hi_multis g = hi_multis h"
    "hi_singles h = hi_single_ok g + hi_single_bad g" "hi_multis h = hi_multi_ok g + hi_multi_bad g"
    using assms(1) by (auto simp: g_def iso_given_up_def iso_ok_def)
  have "iso_kinds (g\<lparr>hi_multi := multi, hi_wanted := wanted, hi_write_failures := fs, hi_requests := hi_requests g + 1,
           hi_multis := hi_multis g + (if multi then 1 else 0), hi_singles := hi_singles g + (if multi then 0 else 1),
           hi_outstanding := True, hi_got8 := False, hi_got9 := False, hi_sent_at := t, hi_next := n\<rparr>)"
    using kinds(1) tenth [of "hi_requests h", folded kinds(2)] g(1-3) assms(2) by (simp add: iso_kinds_def)
  then show ?thesis using g(2-5) by (simp add: iso_ok_def)
qed

lemma iso_request_ok: "iso_ok h \<Longrightarrow> gives (iso_request ch lib chan now h) iso_ok"
  unfolding iso_request_def Let_def
  by (rule triple_if, erule gives_ret, (rule gives_any)+, rule gives_ret, rule iso_next_ok, assumption) (simp add: iso_given_up_def)

lemma iso_late_ok: "iso_ok h \<Longrightarrow> gives (iso_late ch h) iso_ok"
  unfolding iso_late_def by (auto intro!: gives_any gives_ret iso_given_up_ok)

lemma iso_loop_ok: "iso_ok h \<Longrightarrow> gives (iso_loop ch lib chan end_time n h) iso_ok"
proof (induction n arbitrary: h)
  case (Suc n)
  show ?case unfolding iso_loop.simps Let_def
    by (rule gives_any, rule triple_if, simp add: gives_ret Suc.prems, rule gives_any, rule gives_andthen [OF iso_request_ok [OF Suc.prems]],
        rule gives_any, rule gives_any, rule triple_if, simp add: gives_ret, rule gives_andthen [OF iso_messages_ok], simp,
        rule gives_andthen [OF iso_late_ok], assumption, rule Suc.IH)
qed (simp add: gives_raise)

definition iso_verdict :: "int \<Rightarrow> hour_iso \<Rightarrow> bool" where
  "iso_verdict result h \<longleftrightarrow>
     iso_kinds h \<and>
     hi_single_ok h + hi_single_bad h \<le> hi_singles h \<and> hi_multi_ok h + hi_multi_bad h \<le> hi_multis h \<and>
     hi_requests h \<le> hi_single_ok h + hi_single_bad h + hi_multi_ok h + hi_multi_bad h + (if hi_outstanding h then 1 else 0) \<and>
     (if result = 0 then hi_single_bad h = 0 \<and> hi_multi_bad h = 0 \<and> hi_write_failures h = 0 \<and> hi_read_errors h = 0 \<and>
        hi_overflows h = 0 else result = 1)"

text \<open>
  The ISO15765 soak accounts for every request of both kinds: answered in full, given up, or the last one and still
  pending; none is counted twice, although an unanswered request can be noticed in three places. Every tenth request is a
  multi-frame one. It reports success only if none was given up and nothing failed.
\<close>

theorem iso_accounts:
  "case fst (check_vehicle_hour_iso ch lib chan seconds s) of
     Inr (result, h) \<Rightarrow> iso_verdict result h
   | Inl _ \<Rightarrow> True"
proof -
  have start: "iso_ok (hour_iso_new t)" for t by (simp add: iso_ok_def iso_kinds_def hour_iso_new_def)
  have total: "iso_kinds h \<Longrightarrow> hi_requests h = hi_singles h + hi_multis h" for h unfolding iso_kinds_def by blast
  define settled where "settled h \<longleftrightarrow> iso_kinds h \<and>
     hi_single_ok h + hi_single_bad h \<le> hi_singles h \<and> hi_multi_ok h + hi_multi_bad h \<le> hi_multis h \<and>
     hi_requests h \<le> hi_single_ok h + hi_single_bad h + hi_multi_ok h + hi_multi_bad h + (if hi_outstanding h then 1 else 0)" for h :: hour_iso
  have kept: "settled h" if "iso_ok h" for h
    using that total [of h] unfolding settled_def iso_ok_def by (cases "hi_multi h"; cases "hi_outstanding h") auto
  have given_up: "settled (iso_given_up h)" if "iso_ok h" "hi_outstanding h" for h
    using that total [of h] unfolding settled_def iso_ok_def by (cases "hi_multi h") (auto simp: iso_given_up_def)
  have pending: "gives (iso_pending ch h) settled" if "iso_ok h" for h
    unfolding iso_pending_def using that given_up kept by (auto intro!: gives_any gives_ret)
  have none: "gives (ret (1, hour_iso_new 0)) (\<lambda>(result, h). iso_verdict result h)"
    by (rule gives_ret) (simp add: iso_verdict_def iso_kinds_def hour_iso_new_def)
  have "gives (iso_run ch lib chan seconds f8 f9) (\<lambda>(result, h). iso_verdict result h)" for f8 f9
    unfolding iso_run_def
    by (rule gives_any, rule gives_andthen [OF iso_loop_ok [OF start]], rule gives_andthen [OF pending], assumption,
        (rule gives_any)+, rule gives_ret) (auto simp: iso_verdict_def settled_def)
  then have "gives (check_vehicle_hour_iso ch lib chan seconds) (\<lambda>(result, h). iso_verdict result h)"
    unfolding check_vehicle_hour_iso_def by (auto intro!: gives_any none)
  from gives_result [OF this, of s] show ?thesis by (auto split: sum.splits)
qed

section \<open>The ignition observer\<close>

text \<open>
  What holds of a request of the observer, and between one and the next: a frame arrived at most a second before the turn that
  makes it, not two requests in a row went unanswered, and ten seconds have passed since the one before.
\<close>

definition polite :: "int \<times> int \<times> nat \<times> int \<Rightarrow> bool" where
  "polite send = (case send of (now, last_frame, streak, sent) \<Rightarrow> now - last_frame \<le> ms 1000 \<and> streak < 2)"

definition spaced :: "int \<times> int \<times> nat \<times> int \<Rightarrow> int \<times> int \<times> nat \<times> int \<Rightarrow> bool" where
  "spaced a b = (case a of (_, _, _, sent) \<Rightarrow> case b of (now, _, _, _) \<Rightarrow> now \<ge> sent + ms 10000)"

definition observer_ok :: "observer \<Rightarrow> bool" where
  "observer_ok b \<longleftrightarrow>
     list_all polite (ob_sends b) \<and> successively spaced (ob_sends b) \<and>
     (ob_sends b \<noteq> [] \<longrightarrow> snd (snd (snd (last (ob_sends b)))) = ob_last_request b) \<and>
     length (ob_sends b) = ob_requests b \<and>
     ob_requests b = ob_replies b + ob_unanswered b + (if ob_outstanding b then 1 else 0) \<and>
     ob_passive b = (ob_streak b \<ge> 2) \<and> (ob_outstanding b \<longrightarrow> \<not> ob_passive b)"

lemma observer_ok_fields [simp]:
  "observer_ok (b\<lparr>ob_overflows := n\<rparr>) = observer_ok b" "observer_ok (b\<lparr>ob_other_errors := n\<rparr>) = observer_ok b"
  "observer_ok (b\<lparr>ob_by_code := f\<rparr>) = observer_ok b" "observer_ok (b\<lparr>ob_max_gap := w\<rparr>) = observer_ok b"
  "observer_ok (b\<lparr>ob_last_ts := w\<rparr>) = observer_ok b" "observer_ok (b\<lparr>ob_have_ts := q\<rparr>) = observer_ok b"
  "observer_ok (b\<lparr>ob_total := n\<rparr>) = observer_ok b" "observer_ok (b\<lparr>ob_tick_frames := n\<rparr>) = observer_ok b"
  "observer_ok (b\<lparr>ob_last_frame := t\<rparr>) = observer_ok b" "observer_ok (b\<lparr>ob_quiet := q\<rparr>) = observer_ok b"
  "observer_ok (b\<lparr>ob_transitions := n\<rparr>) = observer_ok b" "observer_ok (b\<lparr>ob_next_tick := t\<rparr>) = observer_ok b"
  by (simp_all add: observer_ok_def)

lemma observe_message_ok: "observer_ok b \<Longrightarrow> observer_ok (observe_message m b)"
proof -
  have taken: "observer_ok (c\<lparr>ob_replies := ob_replies c + 1, ob_outstanding := False, ob_streak := 0\<rparr>)"
    if "observer_ok c" "ob_outstanding c" for c
    using that by (auto simp: observer_ok_def)
  assume b: "observer_ok b"
  define c where "c = (if ob_have_ts b \<and> Timestamp m - ob_last_ts b > ob_max_gap b \<and> Timestamp m - ob_last_ts b < 0x80000000
      then b\<lparr>ob_max_gap := Timestamp m - ob_last_ts b\<rparr> else b)\<lparr>ob_last_ts := Timestamp m, ob_have_ts := True\<rparr>"
  have "observer_ok c" using b by (simp add: c_def)
  moreover have "ob_outstanding c = ob_outstanding b" by (simp add: c_def)
  ultimately show ?thesis using taken [of c] unfolding observe_message_def Let_def c_def [symmetric] by (simp del: One_nat_def)
qed

lemma observe_messages_ok: "observer_ok b \<Longrightarrow> observer_ok (fold observe_message xs b)"
  by (induction xs arbitrary: b) (auto simp: observe_message_ok)

lemma observer_wake: "observer_ok b \<Longrightarrow> ob_passive b \<Longrightarrow> observer_ok (b\<lparr>ob_passive := False, ob_streak := 0\<rparr>)"
  by (simp add: observer_ok_def)

lemma observe_quiet_ok: "observer_ok b \<Longrightarrow> observer_ok (observe_quiet now b)"
proof -
  assume b: "observer_ok b"
  define c where "c = b\<lparr>ob_quiet := now - ob_last_frame b > ms 1000, ob_transitions := ob_transitions b + 1\<rparr>"
  have "observer_ok c" using b by (simp add: c_def)
  then show ?thesis using b observer_wake unfolding observe_quiet_def Let_def c_def by (auto simp del: observer_ok_fields)
qed

lemma observe_quiet_exact:
  "ob_quiet (observe_quiet now b) = (now - ob_last_frame (observe_quiet now b) > ms 1000)"
  by (simp add: observe_quiet_def Let_def)

lemma observe_late_ok: "observer_ok b \<Longrightarrow> observer_ok (observe_late now b)"
  by (auto simp: observe_late_def observer_ok_def Let_def)

lemma observe_late_same: "ob_quiet (observe_late now b) = ob_quiet b" "ob_last_frame (observe_late now b) = ob_last_frame b"
  by (simp_all add: observe_late_def Let_def)

lemma observe_frames_ok: "observer_ok b \<Longrightarrow> observer_ok (observe_frames now n b)"
  by (simp add: observe_frames_def)

lemma observe_send_ok:
  assumes "observer_ok b" and "ob_quiet b = (now - ob_last_frame b > ms 1000)" and "\<not> ob_quiet b" and "\<not> ob_outstanding b"
    and "\<not> ob_passive b" and "now - ob_last_request b \<ge> ms 10000"
  shows "observer_ok (b\<lparr>ob_write_failures := n, ob_requests := ob_requests b + 1, ob_outstanding := True, ob_sent_at := t,
           ob_last_request := t, ob_sends := ob_sends b @ [(now, ob_last_frame b, ob_streak b, t)]\<rparr>)"
proof -
  have "polite (now, ob_last_frame b, ob_streak b, t)"
    using assms by (simp add: polite_def observer_ok_def)
  moreover have "successively spaced (ob_sends b @ [(now, ob_last_frame b, ob_streak b, t)])"
    using assms(1,6) by (auto simp: observer_ok_def successively_append_iff spaced_def split: prod.split)
  ultimately show ?thesis using assms by (simp add: observer_ok_def)
qed

text \<open>The messages written so far.\<close>

definition is_write :: "j2534_call \<Rightarrow> bool" where
  "is_write c = (case c of J_Write _ _ _ \<Rightarrow> True | _ \<Rightarrow> False)"

definition writes :: "'w client \<Rightarrow> nat" where
  "writes s = length (filter (\<lambda>(c, _). is_write c) (cl_calls s))"

interpretation silent: client_invariant "\<lambda>s. writes s = k" "{c. \<not> is_write c}" lib for k lib
proof unfold_locales
  show "c \<in> {c. \<not> is_write c} \<Longrightarrow> keeps (\<lambda>s. writes s = k) (cl_call lib c)" for c
    by (auto simp: triple_def cl_call_def writes_def split: prod.split)
qed (simp_all add: writes_def is_write_def)

lemma writes_call: "triple (\<lambda>s. writes s = k) (cl_call lib (J_Write chan xs t)) (\<lambda>_ s. writes s = k + 1) E"
  by (auto simp: triple_def cl_call_def writes_def is_write_def split: prod.split)

definition observes :: "nat \<Rightarrow> observer \<Rightarrow> 'w client \<Rightarrow> bool" where
  "observes k b s \<longleftrightarrow> observer_ok b \<and> writes s = k + length (ob_sends b)"

lemma silent_then:
  assumes "keeps (\<lambda>s. writes s = n) m" and "\<And>x. triple (\<lambda>s. writes s = n) (f x) Q (\<lambda>_ _. True)"
  shows "triple (\<lambda>s. writes s = n) (andthen m f) Q (\<lambda>_ _. True)"
  by (rule triple_andthen [OF triple_weaken [OF assms(1)] assms(2)]) auto

lemma observes_ret:
  "observer_ok b \<Longrightarrow> n = k + length (ob_sends b) \<Longrightarrow> triple (\<lambda>s. writes s = n) (ret b) (observes k) (\<lambda>_ _. True)"
  by (rule triple_ret) (simp add: observes_def)

lemma observe_request_keeps:
  assumes "observer_ok b" and "ob_quiet b = (now - ob_last_frame b > ms 1000)" and "n = k + length (ob_sends b)"
  shows "triple (\<lambda>s. writes s = n) (observe_request ch lib chan now b) (observes k) (\<lambda>_ _. True)"
  unfolding observe_request_def Let_def
proof (rule triple_if)
  assume "\<not> ob_quiet b \<and> \<not> ob_outstanding b \<and> \<not> ob_passive b \<and> ms 10000 \<le> now - ob_last_request b"
  then show "triple (\<lambda>s. writes s = n) (andthen (cl_call lib (J_Write chan [obd_query 0 1 0] 250)) (\<lambda>r.
      andthen (only_if (ly_result r \<noteq> 0 \<or> ly_count r \<noteq> 1) (report lib (ly_result r))) (\<lambda>_. andthen (now_ms ch) (\<lambda>t.
      ret (b\<lparr>ob_write_failures := ob_write_failures b + (if ly_result r \<noteq> 0 \<or> ly_count r \<noteq> 1 then 1 else 0),
        ob_requests := ob_requests b + 1, ob_outstanding := True, ob_sent_at := t, ob_last_request := t,
        ob_sends := ob_sends b @ [(now, ob_last_frame b, ob_streak b, t)]\<rparr>))))) (observes k) (\<lambda>_ _. True)"
    using assms by (intro triple_andthen [OF writes_call] silent_then keeps_only_if silent.keeps_report silent.keeps_clocks observes_ret
        observe_send_ok) simp_all
qed (simp add: observes_ret assms)

lemma observe_tick_keeps:
  "triple (observes k b) (observe_tick lib device now b) (observes k) (\<lambda>_ _. True)"
  unfolding observe_tick_def Let_def
proof (rule triple_if)
  show "triple (observes k b) (ret b) (observes k) (\<lambda>_ _. True)" by (rule triple_ret)
  define c where "c = (if ob_passive b \<and> ob_tick_frames b > 1800 then b\<lparr>ob_passive := False, ob_streak := 0\<rparr> else b)"
  have c: "observer_ok b \<Longrightarrow> observer_ok c" "ob_sends c = ob_sends b" using observer_wake by (auto simp: c_def)
  have "keeps (\<lambda>s. writes s = n) (cl_call lib (J_Ioctl device READ_VBATT None True))" for n
    by (rule silent.calls) (simp add: is_write_def)
  then have "triple (\<lambda>s. observer_ok b \<and> writes s = k + length (ob_sends b))
      (andthen (cl_call lib (J_Ioctl device READ_VBATT None True)) (\<lambda>_. ret (c\<lparr>ob_tick_frames := 0, ob_next_tick := x\<rparr>)))
      (observes k) (\<lambda>_ _. True)" for x
    by (intro triple_pure silent_then observes_ret) (simp_all add: c)
  then show "triple (observes k b) (andthen (cl_call lib (J_Ioctl device READ_VBATT None True)) (\<lambda>_.
      ret ((if ob_passive b \<and> 1800 < ob_tick_frames b then b\<lparr>ob_passive := False, ob_streak := 0\<rparr> else b)
        \<lparr>ob_tick_frames := 0, ob_next_tick := ob_next_tick (if ob_passive b \<and> 1800 < ob_tick_frames b
           then b\<lparr>ob_passive := False, ob_streak := 0\<rparr> else b) + ms 1000\<rparr>))) (observes k) (\<lambda>_ _. True)"
    unfolding observes_def [abs_def] c_def by simp
qed

lemma observe_turn_ok:
  fixes now :: int and n :: nat and xs :: "passthru_msg list"
  assumes "observer_ok b"
  defines "c \<equiv> observe_late now (observe_quiet now (observe_frames now n (fold observe_message xs b)))"
  shows "observer_ok c" and "ob_quiet c = (now - ob_last_frame c > ms 1000)" and "ob_sends c = ob_sends b"
proof -
  show "observer_ok c" using assms(1) unfolding c_def
    by (intro observe_late_ok observe_quiet_ok observe_frames_ok observe_messages_ok)
  show "ob_quiet c = (now - ob_last_frame c > ms 1000)" unfolding c_def observe_late_same by (rule observe_quiet_exact)
  have "ob_sends (fold observe_message xs b) = ob_sends b"
    by (induction xs arbitrary: b) (simp_all add: observe_message_def Let_def)
  then show "ob_sends c = ob_sends b" by (simp add: c_def observe_late_def observe_quiet_def observe_frames_def Let_def)
qed

lemma observe_loop_keeps:
  "triple (observes k b) (observe_loop ch lib device chan end_time n b) (observes k) (\<lambda>_ _. True)"
proof (induction n arbitrary: b)
  case (Suc n)
  have read: "keeps (\<lambda>s. writes s = j) (cl_call lib (J_Read chan 256 20))" for j
    by (rule silent.calls) (simp add: is_write_def)
  have rest: "triple (\<lambda>s. writes s = k + length (ob_sends c)) (let d = observe_late now (observe_quiet now
        (observe_frames now m (fold observe_message xs c))) in andthen (observe_request ch lib chan now d) (\<lambda>d.
          andthen (observe_tick lib device now d) (observe_loop ch lib device chan end_time n))) (observes k) (\<lambda>_ _. True)"
    if "observer_ok c" for c now m xs
    unfolding Let_def
    by (rule triple_andthen [OF observe_request_keeps [OF observe_turn_ok(1,2) [OF that]]], simp add: observe_turn_ok(3) [OF that],
        rule triple_andthen [OF observe_tick_keeps], rule Suc.IH)
  define noted where "noted r = (if ly_result r = status_value ERR_BUFFER_OVERFLOW then b\<lparr>ob_overflows := ob_overflows b + 1\<rparr>
      else if read_bad (ly_result r) \<and> ly_result r \<noteq> status_value ERR_BUFFER_OVERFLOW then observe_error (ly_result r) b else b)" for r :: reply
  have noted: "observer_ok b \<Longrightarrow> observer_ok (noted r)" "ob_sends (noted r) = ob_sends b" for r
    by (simp_all add: noted_def observe_error_def)
  have "triple (\<lambda>s. observer_ok b \<and> writes s = k + length (ob_sends b)) (observe_loop ch lib device chan end_time (Suc n) b)
      (observes k) (\<lambda>_ _. True)"
  proof (rule triple_pure)
    assume b: "observer_ok b"
    have turn: "triple (\<lambda>s. writes s = k + length (ob_sends b)) (if gone then ret (noted r) else let d = observe_late now
        (observe_quiet now (observe_frames now m (fold observe_message xs (noted r)))) in andthen (observe_request ch lib chan now d) (\<lambda>d.
          andthen (observe_tick lib device now d) (observe_loop ch lib device chan end_time n))) (observes k) (\<lambda>_ _. True)"
      for gone r now m xs
      using rest [OF noted(1) [OF b], of r now m xs] noted(1) [OF b, of r] unfolding noted(2)
      by (intro triple_if) (auto intro!: observes_ret simp: noted(2))
    show "triple (\<lambda>s. writes s = k + length (ob_sends b)) (observe_loop ch lib device chan end_time (Suc n) b) (observes k) (\<lambda>_ _. True)"
      unfolding observe_loop.simps Let_def [of "ly_result _"] Let_def [of "_ \<and> _"] Let_def [of "if _ then _\<lparr>ob_overflows := _\<rparr> else _"]
        noted_def [symmetric]
      by (rule silent_then [OF silent.keeps_clocks(1)], rule triple_if, simp add: observes_ret b,
          rule silent_then [OF silent.keeps_clocks(1)], rule silent_then [OF read],
          rule silent_then [OF keeps_only_if [OF silent.keeps_report]], rule turn)
  qed
  then show ?case by (simp only: observes_def [abs_def])
qed (simp add: triple_raise)

text \<open>
  The ignition observer does not keep a vehicle awake. Each of its requests is made in a turn that saw a frame at most a
  second before, ten seconds or more after the request before it, and never after two requests in a row went unanswered
  without the bus or the traffic having come back; what it counts are all the messages it writes, and each was answered,
  unanswered or is outstanding.
\<close>

theorem observer_restraint:
  "case check_vehicle_ignition ch lib device chan seconds s of
     (Inr (_, b), t) \<Rightarrow>
       list_all polite (ob_sends b) \<and> successively spaced (ob_sends b) \<and>
       writes t = writes s + length (ob_sends b) \<and> ob_requests b = length (ob_sends b) \<and>
       ob_requests b = ob_replies b + ob_unanswered b + (if ob_outstanding b then 1 else 0)
   | (Inl _, _) \<Rightarrow> True"
proof -
  let ?k = "writes s"
  have filters: "keeps (\<lambda>s. writes s = n) (start_wildcard lib chan)" "keeps (\<lambda>s. writes s = n) (reported lib (J_Stop_filter chan i))" for n i
    unfolding start_wildcard_def by (rule silent.keeps_reported, simp add: is_write_def)+
  have start: "observer_ok (observer_new t)" "ob_sends (observer_new t) = []" for t by (simp_all add: observer_ok_def observer_new_def)
  have stop: "triple (observes ?k b) (andthen (reported lib (J_Stop_filter chan i)) (\<lambda>q. ret (0, b))) (\<lambda>(_ :: int, b). observes ?k b)
      (\<lambda>_ _. True)" for b i
  proof -
    have "triple (\<lambda>s. observer_ok b \<and> writes s = ?k + length (ob_sends b)) (andthen (reported lib (J_Stop_filter chan i)) (\<lambda>q. ret (0, b)))
      (\<lambda>(_ :: int, b). observes ?k b) (\<lambda>_ _. True)"
      by (rule triple_pure, rule silent_then [OF filters(2)], rule triple_ret) (simp add: observes_def)
    then show ?thesis by (simp only: observes_def [abs_def])
  qed
  have loop: "triple (\<lambda>s. writes s = ?k) (observe_loop ch lib device chan end_time n (observer_new t)) (observes ?k) (\<lambda>_ _. True)" for end_time n t
    by (rule triple_weaken [OF observe_loop_keeps [of ?k "observer_new t"]]) (auto simp: observes_def start)
  have "triple (\<lambda>s. writes s = ?k) (check_vehicle_ignition ch lib device chan seconds) (\<lambda>(_, b). observes ?k b) (\<lambda>_ _. True)"
    unfolding check_vehicle_ignition_def
    by (rule silent_then [OF filters(1)], rule triple_if, rule triple_ret, simp add: observes_def start,
        rule silent_then [OF silent.keeps_clocks(1)], rule triple_andthen [OF loop], rule stop)
  from tripleD(1) [OF this refl] show ?thesis
    by (auto simp: observes_def observer_ok_def split: prod.split sum.split)
qed

section \<open>The life cycles\<close>

text \<open>What a call of a successful cycle gave: status 0, unless it is a read, which may have found nothing.\<close>

definition went_well :: "j2534_call \<times> reply \<Rightarrow> bool" where
  "went_well entry = (case entry of (J_Read _ _ _, r) \<Rightarrow> \<not> read_bad (ly_result r) | (_, r) \<Rightarrow> ly_result r = 0)"

definition replied :: "bool \<Rightarrow> j2534_call \<times> reply \<Rightarrow> bool" where
  "replied raw entry = (case entry of (J_Read _ _ _, r) \<Rightarrow> list_ex (cycle_reply raw) (received r) | _ \<Rightarrow> False)"

definition well_since :: "(j2534_call \<times> reply) list \<Rightarrow> 'w client \<Rightarrow> bool" where
  "well_since old s \<longleftrightarrow> (\<exists>new. cl_calls s = old @ new \<and> list_all went_well new)"

definition replied_since :: "bool \<Rightarrow> (j2534_call \<times> reply) list \<Rightarrow> 'w client \<Rightarrow> bool" where
  "replied_since raw old s \<longleftrightarrow> (\<exists>new. cl_calls s = old @ new \<and> list_all went_well new \<and> list_ex (replied raw) new)"

lemma well_replied: "replied_since raw old s \<Longrightarrow> well_since old s"
  by (auto simp: well_since_def replied_since_def)

lemma well_call: "triple (well_since old) (cl_call lib c) (\<lambda>r s. went_well (c, r) \<longrightarrow> well_since old s) (\<lambda>_ _. True)"
  by (fastforce simp: triple_def cl_call_def well_since_def split: prod.split)

lemma replied_call:
  "triple (replied_since raw old) (cl_call lib c) (\<lambda>r s. went_well (c, r) \<longrightarrow> replied_since raw old s) (\<lambda>_ _. True)"
  by (fastforce simp: triple_def cl_call_def replied_since_def split: prod.split)

lemma well_read:
  fixes lib :: "'w library"
  shows "triple (well_since old) (cl_call lib (J_Read c n t))
    (\<lambda>r s. \<not> read_bad (ly_result r) \<longrightarrow> (if list_ex (cycle_reply raw) (received r) then replied_since raw old s else well_since old s))
    (\<lambda>_ _. True)"
proof (rule tripleI)
  fix s :: "'w client" assume "well_since old s"
  then obtain new where new: "cl_calls s = old @ new" "list_all went_well new" by (auto simp: well_since_def)
  obtain r w where r: "lib (J_Read c n t) (cl_lib s) = (r, w)" by fastforce
  let ?entry = "(J_Read c n t, r)"
  have "replied_since raw old (s\<lparr>cl_lib := w, cl_calls := cl_calls s @ [?entry]\<rparr>)"
    if "\<not> read_bad (ly_result r)" "list_ex (cycle_reply raw) (received r)"
    unfolding replied_since_def using new that by (intro exI [of _ "new @ [?entry]"]) (simp add: went_well_def replied_def)
  moreover have "well_since old (s\<lparr>cl_lib := w, cl_calls := cl_calls s @ [?entry]\<rparr>)" if "\<not> read_bad (ly_result r)"
    unfolding well_since_def using new that by (intro exI [of _ "new @ [?entry]"]) (simp add: went_well_def)
  ultimately show "case cl_call lib (J_Read c n t) s of (Inl e, s') \<Rightarrow> True
      | (Inr r, s') \<Rightarrow> \<not> read_bad (ly_result r) \<longrightarrow> (if list_ex (cycle_reply raw) (received r) then replied_since raw old s' else well_since old s')"
    by (simp add: cl_call_def r)
qed

lemma ret_other: "x \<noteq> 0 \<Longrightarrow> triple P (ret x) (\<lambda>result s. result = 0 \<longrightarrow> Q s) (\<lambda>_ _. True)"
  by (rule triple_ret) simp

lemma await_replied:
  "triple (well_since old) (await_reply ch lib chan raw deadline n) (\<lambda>result s. result = 0 \<longrightarrow> replied_since raw old s) (\<lambda>_ _. True)"
proof (induction n)
  case (Suc n)
  have clock: "triple (well_since old) (now_ms ch) (\<lambda>_. well_since old) (\<lambda>_ _. True)"
    by (simp add: triple_def now_ms_def well_since_def)
  show ?case unfolding await_reply.simps
  proof (rule triple_andthen [OF clock], rule triple_if)
    fix t
    show "triple (well_since old) (andthen (cl_call lib (J_Read chan 1 (of_int ((deadline - t) div ms 1) + 1))) (\<lambda>r.
        if read_bad (ly_result r) then andthen (report lib (ly_result r)) (\<lambda>_. ret 6)
        else if ly_count r = 0 then ret 7 else if list_ex (cycle_reply raw) (received r) then ret 0
        else await_reply ch lib chan raw deadline n)) (\<lambda>result s. result = 0 \<longrightarrow> replied_since raw old s) (\<lambda>_ _. True)"
    proof (rule triple_andthen [OF well_read], intro triple_if)
      fix r :: reply
      let ?pre = "\<lambda>s. \<not> read_bad (ly_result r) \<longrightarrow>
        (if list_ex (cycle_reply raw) (received r) then replied_since raw old s else well_since old s)"
      show "triple ?pre (andthen (report lib (ly_result r)) (\<lambda>_. ret (6 :: int))) (\<lambda>result s. result = 0 \<longrightarrow> replied_since raw old s) (\<lambda>_ _. True)"
        by (rule triple_andthen [where R = "\<lambda>_ _. True"]) (auto simp: triple_def effect_simps split: prod.split sum.split)
      show "triple ?pre (ret (7 :: int)) (\<lambda>result s. result = 0 \<longrightarrow> replied_since raw old s) (\<lambda>_ _. True)" by (rule ret_other) simp
      show "triple ?pre (ret (0 :: int)) (\<lambda>result s. result = 0 \<longrightarrow> replied_since raw old s) (\<lambda>_ _. True)"
        if "\<not> read_bad (ly_result r)" "list_ex (cycle_reply raw) (received r)"
        using that by (intro triple_ret) simp
      show "triple ?pre (await_reply ch lib chan raw deadline n) (\<lambda>result s. result = 0 \<longrightarrow> replied_since raw old s) (\<lambda>_ _. True)"
        if "\<not> read_bad (ly_result r)" "\<not> list_ex (cycle_reply raw) (received r)"
        using that Suc.IH by simp
    qed
  qed (simp add: ret_other)
qed (simp add: triple_raise)

text \<open>A call that is reported, in a code that goes on only if it went well; \<open>P\<close> is one of the two accounts above.\<close>

definition account :: "('w client \<Rightarrow> bool) \<Rightarrow> bool" where
  "account P \<longleftrightarrow> (\<exists>old raw. P = well_since old \<or> P = replied_since raw old)"

lemma account_call:
  assumes "account P" shows "triple P (cl_call lib c) (\<lambda>r s. went_well (c, r) \<longrightarrow> P s) (\<lambda>_ _. True)"
  using assms well_call replied_call by (auto simp: account_def)

lemma account_reported:
  assumes "account P" and "\<And>r. went_well (c, r) = (ly_result r = 0)"
  shows "triple P (reported lib c) (\<lambda>r s. ly_result r = 0 \<longrightarrow> P s) (\<lambda>_ _. True)"
  unfolding reported_def
proof (rule triple_andthen [OF account_call [OF assms(1)]])
  fix r :: reply
  have "triple (\<lambda>s. True) (report lib st) (\<lambda>_ _. True) (\<lambda>_ _. True)" for st
    by (simp add: triple_def split: prod.split sum.split)
  then show "triple (\<lambda>s. went_well (c, r) \<longrightarrow> P s) (andthen (report lib (ly_result r)) (\<lambda>_. ret r)) (\<lambda>r s. ly_result r = 0 \<longrightarrow> P s) (\<lambda>_ _. True)"
    unfolding assms(2) by (cases "ly_result r = 0")
      (auto simp: report_def only_if_def triple_def andthen_def effect_simps split: prod.split sum.split)
qed

lemma account_step:
  assumes "account P" and "\<And>r. went_well (c, r) = (ly_result r = 0)"
    and "\<And>r. ly_result r = 0 \<Longrightarrow> triple P (f r) Q (\<lambda>_ _. True)"
    and "\<And>r. ly_result r \<noteq> 0 \<Longrightarrow> triple (\<lambda>_. True) (f r) Q (\<lambda>_ _. True)"
  shows "triple P (andthen (reported lib c) f) Q (\<lambda>_ _. True)"
    and "triple P (andthen (cl_call lib c) f) Q (\<lambda>_ _. True)"
proof -
  have f: "triple (\<lambda>s. ly_result r = 0 \<longrightarrow> P s) (f r) Q (\<lambda>_ _. True)" for r
    using assms(3,4) [of r] by (cases "ly_result r = 0") simp_all
  show "triple P (andthen (reported lib c) f) Q (\<lambda>_ _. True)"
    by (rule triple_andthen [OF account_reported [OF assms(1,2)] f])
  show "triple P (andthen (cl_call lib c) f) Q (\<lambda>_ _. True)"
    by (rule triple_andthen [OF account_call [OF assms(1)]]) (simp add: assms(2) f)
qed

lemma account_simps: "account (well_since old)" "account (replied_since raw old)"
  by (auto simp: account_def)

lemma went_well_simps:
  "went_well (J_Open n, r) = (ly_result r = 0)" "went_well (J_Version d, r) = (ly_result r = 0)"
  "went_well (J_Connect d p f b, r) = (ly_result r = 0)" "went_well (cycle_filter c raw, r) = (ly_result r = 0)"
  "went_well (J_Write c xs t, r) = (ly_result r = 0)" "went_well (J_Stop_filter c i, r) = (ly_result r = 0)"
  "went_well (J_Disconnect c, r) = (ly_result r = 0)" "went_well (J_Close d, r) = (ly_result r = 0)"
  by (simp_all add: went_well_def cycle_filter_def start_flow_def)

text \<open>Results: a nonzero one stays.\<close>

abbreviation concludes :: "('w client \<Rightarrow> bool) \<Rightarrow> int \<Rightarrow> 'w client \<Rightarrow> bool" where
  "concludes P result s \<equiv> result = 0 \<longrightarrow> P s"

lemma undo_concludes:
  assumes "account P" and "\<And>r. went_well (c, r) = (ly_result r = 0)" and "code \<noteq> 0"
  shows "triple (concludes P result) (cycle_undo lib needed c code result) (concludes P) (\<lambda>_ _. True)"
proof (cases "result = 0")
  case True
  show ?thesis unfolding cycle_undo_def True
    by (rule triple_if, simp, rule account_step(1) [OF assms(1,2)]) (auto intro!: triple_ret simp: assms(3))
next
  case False
  have "gives (cycle_undo lib needed c code result) (\<lambda>x. x = result)"
    unfolding cycle_undo_def using False by (auto intro!: gives_any gives_ret)
  then show ?thesis by (rule triple_weaken) (simp_all add: False)
qed

lemma nothing_known: "(\<And>x. \<not> R x) \<Longrightarrow> triple (\<lambda>_. True) m (\<lambda>x s. R x \<longrightarrow> P s) (\<lambda>_ _. True)"
  by (simp add: triple_def split: prod.split sum.split)

lemma then_ret: "andthen (ret x) f = f x"
  by (rule ext) (simp add: andthen_def ret_def)

lemma exchange_replied:
  "triple (well_since old) (cycle_exchange ch lib chan raw) (concludes (replied_since raw old)) (\<lambda>_ _. True)"
  unfolding cycle_exchange_def Let_def
proof -
  have clock: "triple P (now_ms ch) (\<lambda>_. P) (\<lambda>_ _. True)" if "account P \<or> P = (\<lambda>_. True)" for P :: "'w client \<Rightarrow> bool"
    using that by (auto simp: triple_def now_ms_def account_def well_since_def replied_since_def)
  let ?rest = "\<lambda>r. andthen (only_if (ly_result r \<noteq> 0 \<or> ly_count r \<noteq> 1) (report lib (ly_result r))) (\<lambda>_.
     andthen (now_ms ch) (\<lambda>t. andthen (if ly_result r \<noteq> 0 \<or> ly_count r \<noteq> 1 then ret 5
       else await_reply ch lib chan raw (t + ms 1000) (ch_rounds ch)) (\<lambda>result. andthen (now_ms ch) (\<lambda>t1. ret result))))"
  have ending: "triple (concludes P result) (andthen (now_ms ch) (\<lambda>t1. ret result)) (concludes P) (\<lambda>_ _. True)"
    if "account P" for P :: "'w client \<Rightarrow> bool" and result
    using that by (cases "result = 0") (auto intro!: triple_andthen [OF clock] triple_ret)
  have bad: "gives (?rest r) (\<lambda>result. result \<noteq> 0)" if "ly_result r \<noteq> 0 \<or> ly_count r \<noteq> 1" for r :: reply
    by (rule gives_any, rule gives_any, rule gives_andthen [where R = "\<lambda>result. result \<noteq> 0"])
      (use that in \<open>auto intro!: gives_any gives_ret\<close>)
  have good: "triple (well_since old) (?rest r) (concludes (replied_since raw old)) (\<lambda>_ _. True)"
    if "\<not> (ly_result r \<noteq> 0 \<or> ly_count r \<noteq> 1)" for r :: reply
    using that
    by (simp add: only_if_def then_ret, intro triple_andthen [OF clock] triple_andthen [OF await_replied] ending)
      (simp_all add: account_simps)
  show "triple (well_since old) (andthen (now_ms ch) (\<lambda>t0. andthen (cl_call lib (J_Write chan [cycle_request raw] 250)) ?rest))
      (concludes (replied_since raw old)) (\<lambda>_ _. True)"
  proof (rule triple_andthen [OF clock], simp add: account_simps, rule account_step(2) [OF account_simps(1) went_well_simps(5)])
    fix r :: reply
    show "triple (well_since old) (?rest r) (concludes (replied_since raw old)) (\<lambda>_ _. True)" if "ly_result r = 0"
    proof (cases "ly_count r = 1")
      case True with good [of r] that show ?thesis by simp
    next
      case False
      show ?thesis by (rule triple_weaken [OF bad]) (simp_all add: False)
    qed
    show "triple (\<lambda>_. True) (?rest r) (concludes (replied_since raw old)) (\<lambda>_ _. True)" if "ly_result r \<noteq> 0"
      by (rule triple_weaken [OF bad]) (simp_all add: that)
  qed
qed

lemma body_replied:
  "triple (well_since old) (cycle_body ch lib d raw) (\<lambda>(result, _, _). concludes (replied_since raw old) result) (\<lambda>_ _. True)"
proof -
  have bad: "gives m (\<lambda>(result, _, _). result \<noteq> 0) \<Longrightarrow>
      triple P m (\<lambda>(result, _, _). concludes (replied_since raw old) result) (\<lambda>_ _. True)" for P and m :: "('w, int \<times> u32 \<times> u32) act"
    by (erule triple_weaken) auto
  have exchange: "triple (well_since old) (andthen (cycle_exchange ch lib c raw) (\<lambda>result. ret (result, c, f)))
      (\<lambda>(result, _, _). concludes (replied_since raw old) result) (\<lambda>_ _. True)" for c f
    by (rule triple_andthen [OF exchange_replied], rule triple_ret) simp
  let ?Q = "\<lambda>(result, _, _). concludes (replied_since raw old) result"
  let ?filtering = "\<lambda>c. andthen (reported lib (cycle_filter c raw)) (\<lambda>f. if ly_result f \<noteq> 0 then ret (4, c, ly_id f)
      else andthen (cycle_exchange ch lib c raw) (\<lambda>result. ret (result, c, ly_id f)))"
  let ?connecting = "andthen (reported lib (J_Connect d (if raw then CAN else ISO15765) 0 500000)) (\<lambda>c.
      if ly_result c \<noteq> 0 then ret (3, ly_id c, 0) else ?filtering (ly_id c))"
  have filtering: "triple (well_since old) (?filtering c) ?Q (\<lambda>_ _. True)" for c
    by (rule account_step(1) [OF account_simps(1) went_well_simps(4)])
      (simp_all only: simp_thms if_True if_False exchange, rule bad, rule gives_ret, simp)
  have connecting: "triple (well_since old) ?connecting ?Q (\<lambda>_ _. True)"
    by (rule account_step(1) [OF account_simps(1) went_well_simps(3)])
      (simp_all only: simp_thms if_True if_False filtering, rule bad, rule gives_ret, simp)
  show ?thesis unfolding cycle_body_def
    by (rule account_step(2) [OF account_simps(1) went_well_simps(2)])
      (simp_all only: simp_thms if_True if_False connecting, rule bad, rule gives_any, rule gives_ret, simp)
qed

text \<open>
  A life cycle that passes is one in which the ECU answered: it returns 0 only if every call it made went well, from the
  open to the close, and one of its reads within the second it waits brought the positive reply to its request from 7E8.
\<close>

theorem cycle_passes:
  "case cycle_once ch lib name raw s of
     (Inr result, t) \<Rightarrow> if result = 0 then replied_since raw (cl_calls s) t else True
   | (Inl _, _) \<Rightarrow> True"
proof -
  let ?P = "replied_since raw (cl_calls s)"
  let ?Q = "concludes ?P"
  let ?undo = "\<lambda>d (result, chan, filter_id). andthen (cycle_undo lib (filter_id \<noteq> 0) (J_Stop_filter chan filter_id) 8 result) (\<lambda>result.
       andthen (cycle_undo lib (chan \<noteq> 0) (J_Disconnect chan) 9 result) (\<lambda>result. cycle_undo lib True (J_Close d) 10 result))"
  have undo: "triple (\<lambda>s. case p of (result, _, _) \<Rightarrow> ?Q result s) (?undo d p) ?Q (\<lambda>_ _. True)" for p d
    by (cases p) (auto intro!: triple_andthen undo_concludes account_simps went_well_simps)
  have body: "triple (well_since (cl_calls s)) (andthen (cycle_body ch lib d raw) (?undo d)) ?Q (\<lambda>_ _. True)" for d
    by (rule triple_andthen [OF body_replied]) (use undo in \<open>auto simp: case_prod_unfold\<close>)
  have "triple (well_since (cl_calls s)) (cycle_once ch lib name raw) ?Q (\<lambda>_ _. True)"
    unfolding cycle_once_def
    by (rule account_step(1) [OF account_simps(1) went_well_simps(1)]) (use body in \<open>auto intro!: triple_ret\<close>)
  moreover have "well_since (cl_calls s) s" by (simp add: well_since_def)
  ultimately have "\<And>result t. cycle_once ch lib name raw s = (Inr result, t) \<Longrightarrow> ?Q result t" by (rule tripleD(1))
  then show ?thesis by (auto split: prod.split sum.split)
qed

text \<open>Code that returns, in any state.\<close>

abbreviation returns :: "('w, 'a) act \<Rightarrow> bool" where
  "returns m \<equiv> triple (\<lambda>_. True) m (\<lambda>_ _. True) (\<lambda>_ _. False)"

lemma returns_basic: "returns (ret x)" "returns (cl_call lib c)" "returns (now_ms ch)"
  by (simp_all add: triple_def effect_simps cl_call_def now_ms_def split: prod.split)

lemma returns_andthen: "returns m \<Longrightarrow> (\<And>x. returns (f x)) \<Longrightarrow> returns (andthen m f)"
  by (rule triple_andthen)

lemma returns_reported: "returns (report lib st)" "returns (reported lib c)"
  by (auto simp: report_def reported_def only_if_def intro!: returns_basic returns_andthen)

lemma await_returns:
  assumes "i < n" and "ch_now ch (cl_ticks s + i) \<ge> deadline"
  shows "fst (await_reply ch lib chan raw deadline n s) \<noteq> Inl ()"
  using assms
proof (induction n arbitrary: i s)
  case (Suc n)
  show ?case
  proof (cases "ch_now ch (cl_ticks s) \<ge> deadline")
    case True
    then show ?thesis by (simp add: andthen_def now_ms_def effect_simps)
  next
    case False
    then obtain j where i: "i = Suc j" using Suc.prems(2) by (cases i) auto
    have "fst (await_reply ch lib chan raw deadline n t) \<noteq> Inl ()" if "cl_ticks t = Suc (cl_ticks s)" for t
      by (rule Suc.IH [of j]) (use Suc.prems i that in simp_all)
    then show ?thesis
      by (auto simp: andthen_def now_ms_def cl_call_def report_def only_if_def effect_simps split: prod.split)
  qed
qed simp

text \<open>
  The cycles end: if a second passes within as many readings of the clock as a wait has rounds, the whole run of life
  cycles returns, whatever else is on the bus. One deadline covers the search for a reply, so unrelated traffic cannot keep
  it alive.
\<close>

theorem cycles_return:
  assumes "\<And>k. \<exists>i < ch_rounds ch. ch_now ch (Suc k + i) \<ge> ch_now ch k + ms 1000"
  shows "fst (check_vehicle_cycles ch lib name n raw s) \<noteq> Inl ()"
proof -
  have await: "triple (\<lambda>s. \<exists>k. t = ch_now ch k \<and> cl_ticks s = Suc k) (await_reply ch lib chan raw (t + ms 1000) (ch_rounds ch))
      (\<lambda>_ _. True) (\<lambda>_ _. False)" for chan t
  proof (rule tripleI)
    fix s :: "'a client" assume "\<exists>k. t = ch_now ch k \<and> cl_ticks s = Suc k"
    then obtain k where k: "t = ch_now ch k" "cl_ticks s = Suc k" by blast
    obtain i where i: "i < ch_rounds ch" "ch_now ch (Suc k + i) \<ge> ch_now ch k + ms 1000" using assms by blast
    have "fst (await_reply ch lib chan raw (t + ms 1000) (ch_rounds ch) s) \<noteq> Inl ()"
      by (rule await_returns [OF i(1)]) (use k i in simp)
    then show "case await_reply ch lib chan raw (t + ms 1000) (ch_rounds ch) s of (Inl e, t) \<Rightarrow> False | (Inr x, t) \<Rightarrow> True"
      by (auto split: prod.split sum.split)
  qed
  have clock: "triple (\<lambda>_. True) (now_ms ch) (\<lambda>t s. \<exists>k. t = ch_now ch k \<and> cl_ticks s = Suc k) (\<lambda>_ _. False)"
    by (auto simp: triple_def now_ms_def)
  have wait: "triple (\<lambda>s. \<exists>k. t = ch_now ch k \<and> cl_ticks s = Suc k)
      (if failed then ret 5 else await_reply ch lib chan raw (t + ms 1000) (ch_rounds ch)) (\<lambda>_ _. True) (\<lambda>_ _. False)" for failed chan t
    using await by (auto intro: keeps_intros)
  have exchange: "returns (cycle_exchange ch lib chan raw)" for chan
    unfolding cycle_exchange_def Let_def only_if_def
    by (intro returns_andthen returns_basic triple_andthen [OF clock] triple_andthen [OF wait] triple_if returns_reported)
  have undo: "returns (cycle_undo lib needed c code result)" for needed c code result
    unfolding cycle_undo_def by (intro triple_if returns_andthen returns_basic returns_reported)
  have body: "returns (cycle_body ch lib d raw)" for d
    unfolding cycle_body_def by (intro triple_if returns_andthen returns_basic returns_reported exchange)
  have "returns (cycle_once ch lib name raw)"
    unfolding cycle_once_def by (auto intro!: returns_andthen returns_basic returns_reported body undo)
  then have "returns (check_vehicle_cycles ch lib name n raw)"
    by (induction n) (auto intro!: returns_andthen returns_basic)
  from tripleD(2) [OF this TrueI, of s] show ?thesis by (cases "check_vehicle_cycles ch lib name n raw s") auto
qed

text \<open>A clock that is read once a second.\<close>

definition slow_script :: "nat \<Rightarrow> step_env" where
  "slow_script = (\<lambda>_. \<lparr>en_memory = True, en_more = []\<rparr>)"

definition slow_host :: client_host where
  "slow_host = \<lparr>ch_now = (\<lambda>i. ms 1000 * int i), ch_time = int, ch_rounds = 1, ch_soak = None, ch_observe = None,
     ch_files = (\<lambda>_. None), ch_script = slow_script\<rparr>"

theorem cycles_return_witness:
  "fst (check_vehicle_cycles slow_host (\<lambda>_ w. (\<lparr>ly_result = 0, ly_id = 1, ly_count = 1, ly_messages = []\<rparr>, w)) None 100 True (client_new ()))
     \<noteq> Inl ()"
  by (rule cycles_return) (simp add: slow_host_def ms_def)

end
